(* ===== verification/Prelude.thy ===== *)
theory Prelude
  imports Main "HOL-Library.Word" "HOL-Library.Signed_Division" "HOL-Library.Monad_Syntax"
begin

unbundle bit_operations_syntax

text \<open>
  Shared vocabulary of the development: the machine types of the i686 target, the
  status codes of \<open>src/src/status.h\<close>, C arrays with a bounds check, physical
  memory with little-endian 32-bit access, and the generic lemmas the components use.

  A C function is a HOL function. A function that may touch memory outside the object
  it was given, follow a null pointer or end in \<open>panic\<close> has an \<open>option\<close> result:
  \<open>None\<close> means that the C code does not return normally.
\<close>

section \<open>Machine types\<close>

type_synonym u8 = "8 word"
type_synonym u16 = "16 word"
type_synonym u32 = "32 word"

lemma uint_inj_iff [simp]: "uint a = uint b \<longleftrightarrow> a = b"
  by (metis unsigned_word_eqI)

lemma unat_inj_iff [simp]: "unat a = unat b \<longleftrightarrow> a = b"
  by (metis unsigned_word_eqI)

lemma uint_zero_iff [simp]: "uint a = 0 \<longleftrightarrow> a = 0"
  using uint_inj_iff [of a 0] by simp

lemma sint_u8: "sint (c :: u8) = (if uint c < 128 then uint c else uint c - 256)"
proof -
  have s: "sint c = (uint c + 128) mod 256 - 128"
    by (simp add: sint_uint signed_take_bit_eq_take_bit_shift take_bit_eq_mod)
  have b: "0 \<le> uint c" "uint c < 256" using unsigned_less [of c] by simp_all
  show ?thesis
  proof (cases "uint c < 128")
    case True
    with b s show ?thesis by simp
  next
    case False
    with b have "(uint c + 128) mod 256 = uint c + 128 - 256"
      by (subst mod_pos_geq) auto
    with False s show ?thesis by simp
  qed
qed

lemma uint_word_of_int_u32: "0 \<le> x \<Longrightarrow> x < 2 ^ 32 \<Longrightarrow> uint (word_of_int x :: u32) = x"
  by (simp add: unsigned_of_int take_bit_int_eq_self)

lemma sint_word_of_int_u32:
  "- (2 ^ 31) \<le> x \<Longrightarrow> x < 2 ^ 31 \<Longrightarrow> sint (word_of_int x :: u32) = x"
  by (simp add: signed_of_int signed_take_bit_int_eq_self)

lemma sint_u32_small:
  assumes "unat (x :: u32) < 2 ^ 31"
  shows "sint x = uint x"
proof -
  obtain n where n: "uint x = int n" "unat x = n" by (metis uint_nat)
  then have "sint (word_of_int (int n) :: u32) = int n"
    using assms by (intro sint_word_of_int_u32) auto
  with n show ?thesis by (metis word_of_int_uint)
qed

text \<open>The value of a C \<open>int\<close> after an operation that may exceed 32 bits.\<close>

definition i32 :: "int \<Rightarrow> int" where
  "i32 x = sint (word_of_int x :: u32)"

lemma i32_id [simp]: "- (2 ^ 31) \<le> x \<Longrightarrow> x < 2 ^ 31 \<Longrightarrow> i32 x = x"
  by (simp add: i32_def sint_word_of_int_u32)

lemma word_of_int_eq_iff_u32:
  "0 \<le> x \<Longrightarrow> x < 2 ^ 32 \<Longrightarrow> word_of_int x = (w :: u32) \<longleftrightarrow> x = uint w"
  by (metis uint_word_of_int_u32 word_of_int_uint)

lemma unat_u32_less: "unat (x :: u32) < 4294967296"
  using unsigned_less [of x] by simp

lemma unat_of_nat_u32: "n < 2 ^ 32 \<Longrightarrow> unat (of_nat n :: u32) = n"
  by (simp add: unsigned_of_nat take_bit_nat_eq_self)

lemma of_nat_unat_id: "of_nat (unat w) = (w :: u32)"
  by simp

text \<open>C's division on non-negative integers.\<close>

lemma sdiv_nonneg: "0 \<le> a \<Longrightarrow> 0 < b \<Longrightarrow> (a :: int) sdiv b = a div b"
  by (cases "a = 0") (auto simp: signed_divide_int_def)

lemma smod_nonneg: "0 \<le> a \<Longrightarrow> 0 < b \<Longrightarrow> (a :: int) smod b = a mod b"
  by (cases "a = 0") (auto simp: signed_modulo_int_def sgn_if)

lemma uint_unatE: obtains n where "uint a = int n" "unat a = n"
  by (metis uint_nat)

text \<open>Physical memory: one byte per 32-bit address.\<close>

type_synonym ram = "u32 \<Rightarrow> u8"

named_theorems status_simps \<open>the values of the status codes\<close>
named_theorems array_simps \<open>rules for checked array access\<close>

section \<open>Status codes\<close>

definition ALL_OK :: int where [status_simps]: "ALL_OK = 0"
definition EIO :: int where [status_simps]: "EIO = 1"
definition EINVARG :: int where [status_simps]: "EINVARG = 2"
definition ENOMEM :: int where [status_simps]: "ENOMEM = 3"
definition EBADPATH :: int where [status_simps]: "EBADPATH = 4"
definition EFSNOTUS :: int where [status_simps]: "EFSNOTUS = 5"
definition ERDONLY :: int where [status_simps]: "ERDONLY = 6"
definition EUNIMP :: int where [status_simps]: "EUNIMP = 7"
definition EISTKN :: int where [status_simps]: "EISTKN = 8"
definition EINFORMAT :: int where [status_simps]: "EINFORMAT = 9"

text \<open>The macro \<open>IS_ERR\<close> of \<open>kernel.h\<close> on a returned status.\<close>

definition IS_ERR :: "int \<Rightarrow> bool" where "IS_ERR v \<longleftrightarrow> v < 0"

section \<open>C arrays\<close>

text \<open>Reading and writing an element; outside the array there is no value.\<close>

definition arr_get :: "'a list \<Rightarrow> int \<Rightarrow> 'a option" where
  "arr_get xs i = (if 0 \<le> i \<and> i < int (length xs) then Some (xs ! nat i) else None)"

definition arr_set :: "'a list \<Rightarrow> int \<Rightarrow> 'a \<Rightarrow> 'a list option" where
  "arr_set xs i v = (if 0 \<le> i \<and> i < int (length xs) then Some (xs[nat i := v]) else None)"

lemma arr_get_nat [array_simps]:
  "arr_get xs (int n) = (if n < length xs then Some (xs ! n) else None)"
  by (simp add: arr_get_def)

lemma arr_set_nat [array_simps]:
  "arr_set xs (int n) v = (if n < length xs then Some (xs[n := v]) else None)"
  by (simp add: arr_set_def)

lemma arr_set_length: "arr_set xs i v = Some ys \<Longrightarrow> length ys = length xs"
  by (auto simp: arr_set_def split: if_splits)

lemma list_update_next:
  "d < length xs \<Longrightarrow> take (Suc d) (xs[d := v]) = take d xs @ [v]"
  by (simp add: take_Suc_conv_app_nth)

section \<open>Little-endian access to physical memory\<close>

definition load32 :: "ram \<Rightarrow> u32 \<Rightarrow> u32" where
  "load32 m a = ucast (m a) OR push_bit 8 (ucast (m (a + 1)))
     OR push_bit 16 (ucast (m (a + 2))) OR push_bit 24 (ucast (m (a + 3)))"

definition store32 :: "ram \<Rightarrow> u32 \<Rightarrow> u32 \<Rightarrow> ram" where
  "store32 m a v = m(a := ucast v, a + 1 := ucast (drop_bit 8 v),
     a + 2 := ucast (drop_bit 16 v), a + 3 := ucast (drop_bit 24 v))"

lemma load32_store32_same [simp]: "load32 (store32 m a v) a = v"
proof (rule bit_word_eqI)
  fix n assume n: "n < LENGTH(32)"
  then consider "n < 8" | "8 \<le> n" "n < 16" | "16 \<le> n" "n < 24" | "24 \<le> n" "n < 32"
    by force
  then show "bit (load32 (store32 m a v) a) n = bit v n"
    by cases (auto simp: load32_def store32_def bit_simps)
qed

text \<open>Two word-aligned addresses that differ do not share a byte.\<close>

definition word_aligned :: "u32 \<Rightarrow> bool" where
  "word_aligned a \<longleftrightarrow> unat a mod 4 = 0"

lemma unat_add_small: "unat a + n < 2 ^ 32 \<Longrightarrow> unat (a + of_nat n :: u32) = unat a + n"
  by (simp add: unat_word_ariths take_bit_eq_mod unsigned_of_nat)

lemma word_aligned_offset:
  assumes "word_aligned a" "n < 4"
  shows "unat (a + of_nat n) = unat a + n"
proof (rule unat_add_small)
  have "unat a < 2 ^ 32" using unsigned_less [of a] by simp
  with assms show "unat a + n < 2 ^ 32"
    by (simp add: word_aligned_def) presburger
qed

lemma word_aligned_disjoint:
  assumes "word_aligned a" "word_aligned b" "a \<noteq> b" "i < 4" "j < 4"
  shows "a + of_nat i \<noteq> b + of_nat j"
proof
  assume "a + of_nat i = b + of_nat j"
  then have "unat a + i = unat b + j"
    using word_aligned_offset assms by metis
  with assms have "unat a = unat b"
    unfolding word_aligned_def by presburger
  with assms(3) show False by (metis unsigned_word_eqI)
qed

lemma load32_store32_other:
  assumes "word_aligned a" "word_aligned b" "a \<noteq> b"
  shows "load32 (store32 m a v) b = load32 m b"
proof -
  have "store32 m a v (b + of_nat j) = m (b + of_nat j)" if "j < 4" for j
    using word_aligned_disjoint [OF assms, of 0 j] word_aligned_disjoint [OF assms, of 1 j]
      word_aligned_disjoint [OF assms, of 2 j] word_aligned_disjoint [OF assms, of 3 j] that
    by (simp add: store32_def)
  from this [of 0] this [of 1] this [of 2] this [of 3]
  show ?thesis by (simp add: load32_def)
qed

lemma store32_outside:
  assumes "\<And>i. i < 4 \<Longrightarrow> b \<noteq> a + of_nat i"
  shows "store32 m a v b = m b"
  using assms [of 0] assms [of 1] assms [of 2] assms [of 3] by (simp add: store32_def)

end
