(* ===== verification/CString.thy ===== *)
theory CString
  imports Prelude
begin

text \<open>
  The string and memory routines of the kernel, \<open>src/src/string/string.c\<close> and
  \<open>src/src/memory/memory.c\<close>. A pointer to characters is the list of the bytes from
  the pointer to the end of the object it points into; reading past that end is
  \<open>None\<close>. A destination is the whole object together with the offset of the next
  write, so writing past its end is \<open>None\<close> as well. The compiler's \<open>char\<close> is signed,
  hence the comparisons through \<open>sint\<close>.

  The lemmas relate each routine to \<open>cstr\<close>, the characters before the terminator.
\<close>

section \<open>Strings as byte lists\<close>

definition ascii :: "string \<Rightarrow> u8 list" where
  "ascii s = map of_char s"

definition cstr :: "u8 list \<Rightarrow> u8 list" where
  "cstr s = takeWhile (\<lambda>c. c \<noteq> 0) s"

definition terminated :: "u8 list \<Rightarrow> bool" where
  "terminated s \<longleftrightarrow> 0 \<in> set s"

lemma cstr_Nil [simp]: "cstr [] = []"
  and cstr_zero [simp]: "cstr (0 # s) = []"
  and cstr_Cons [simp]: "c \<noteq> 0 \<Longrightarrow> cstr (c # s) = c # cstr s"
  by (simp_all add: cstr_def)

lemma terminated_Nil [simp]: "\<not> terminated []"
  and terminated_Cons [simp]: "terminated (c # s) \<longleftrightarrow> c = 0 \<or> terminated s"
  by (auto simp: terminated_def)

lemma cstr_no_zero: "0 \<notin> set (cstr s)"
  by (auto simp: cstr_def dest: set_takeWhileD)

lemma cstr_length: "terminated s \<Longrightarrow> length (cstr s) < length s"
  by (induction s) (auto simp: cstr_def)

lemma cstr_prefix: "terminated s \<Longrightarrow> \<exists>t. s = cstr s @ 0 # t"
proof (induction s)
  case (Cons c s)
  then show ?case by (cases "c = 0") auto
qed simp

section \<open>Characters\<close>

definition tolower :: "u8 \<Rightarrow> u8" where
  "tolower c = (if 65 \<le> sint c \<and> sint c \<le> 90 then c + 32 else c)"

definition isdigit :: "u8 \<Rightarrow> bool" where
  "isdigit c \<longleftrightarrow> 48 \<le> sint c \<and> sint c \<le> 57"

definition tonumericdigit :: "u8 \<Rightarrow> int" where
  "tonumericdigit c = sint c - 48"

lemma sint_range_unat:
  assumes "0 < lo" "hi < 128"
  shows "(int lo \<le> sint (c :: u8) \<and> sint c \<le> int hi) \<longleftrightarrow> lo \<le> unat c \<and> unat c \<le> hi"
proof -
  obtain n where "uint c = int n" "unat c = n" by (rule uint_unatE)
  moreover have "unat c < 256" using unsigned_less [of c] by simp
  ultimately show ?thesis using assms by (auto simp: sint_u8)
qed

lemma isdigit_unat: "isdigit c \<longleftrightarrow> 48 \<le> unat c \<and> unat c \<le> 57"
  using sint_range_unat [of 48 57 c] by (simp add: isdigit_def)

lemma isdigit_value:
  assumes "isdigit c"
  shows "tonumericdigit c = uint c - 48 \<and> 48 \<le> uint c \<and> uint c \<le> 57"
proof -
  obtain n where n: "uint c = int n" "unat c = n" by (rule uint_unatE)
  then have "48 \<le> n" "n \<le> 57" using assms by (auto simp: isdigit_unat)
  with n show ?thesis by (simp add: tonumericdigit_def sint_u8)
qed

lemma tolower_unat:
  "tolower c = (if 65 \<le> unat c \<and> unat c \<le> 90 then c + 32 else c)"
  using sint_range_unat [of 65 90 c] by (simp add: tolower_def)

section \<open>Lengths\<close>

fun strlen_loop :: "u8 list \<Rightarrow> int \<Rightarrow> int option" where
  "strlen_loop [] i = None"
| "strlen_loop (c # s) i = (if c \<noteq> 0 then strlen_loop s (i + 1) else Some i)"

definition strlen :: "u8 list \<Rightarrow> int option" where
  "strlen s = strlen_loop s 0"

fun strnlen_loop :: "u8 list \<Rightarrow> int \<Rightarrow> int \<Rightarrow> int option" where
  "strnlen_loop [] maxlen i = None"
| "strnlen_loop (c # s) maxlen i =
     (if c \<noteq> 0 \<and> i < maxlen then strnlen_loop s maxlen (i + 1) else Some i)"

definition strnlen :: "u8 list \<Rightarrow> int \<Rightarrow> int option" where
  "strnlen s maxlen = strnlen_loop s maxlen 0"

fun strnlen_terminator_loop :: "u8 list \<Rightarrow> int \<Rightarrow> u8 \<Rightarrow> int \<Rightarrow> int option" where
  "strnlen_terminator_loop s maxlen term i =
     (if \<not> i < maxlen then Some i
      else case s of [] \<Rightarrow> None
      | c # s' \<Rightarrow> if c = 0 \<or> c = term then Some i
                  else strnlen_terminator_loop s' maxlen term (i + 1))"

declare strnlen_terminator_loop.simps [simp del]

definition strnlen_terminator :: "u8 list \<Rightarrow> int \<Rightarrow> u8 \<Rightarrow> int option" where
  "strnlen_terminator s maxlen term = strnlen_terminator_loop s maxlen term 0"

lemma strlen_loop_cstr: "terminated s \<Longrightarrow> strlen_loop s i = Some (i + int (length (cstr s)))"
  by (induction s arbitrary: i) auto

lemma strlen_cstr [simp]: "terminated s \<Longrightarrow> strlen s = Some (int (length (cstr s)))"
  by (simp add: strlen_def strlen_loop_cstr)

lemma strnlen_loop_cstr:
  "terminated s \<Longrightarrow> i \<le> maxlen \<Longrightarrow>
   strnlen_loop s maxlen i = Some (min (i + int (length (cstr s))) maxlen)"
  by (induction s arbitrary: i) (auto simp: min_def)

lemma strnlen_cstr [simp]:
  "terminated s \<Longrightarrow> 0 \<le> maxlen \<Longrightarrow> strnlen s maxlen = Some (min (int (length (cstr s))) maxlen)"
  by (simp add: strnlen_def strnlen_loop_cstr)

lemma strnlen_terminator_loop_cstr:
  "terminated s \<Longrightarrow> i \<le> maxlen \<Longrightarrow> strnlen_terminator_loop s maxlen term i =
     Some (min (i + int (length (takeWhile (\<lambda>c. c \<noteq> term) (cstr s)))) maxlen)"
proof (induction s arbitrary: i)
  case (Cons c s)
  then show ?case
    by (cases "c = 0"; subst strnlen_terminator_loop.simps) (auto simp: min_def)
qed simp

section \<open>Copies\<close>

fun strcpy_loop :: "u8 list \<Rightarrow> nat \<Rightarrow> u8 list \<Rightarrow> u8 list option" where
  "strcpy_loop dest d [] = None"
| "strcpy_loop dest d (c # src) =
     (if c \<noteq> 0 then do { dest' \<leftarrow> arr_set dest (int d) c; strcpy_loop dest' (Suc d) src }
      else arr_set dest (int d) 0)"

definition strcpy :: "u8 list \<Rightarrow> nat \<Rightarrow> u8 list \<Rightarrow> u8 list option" where
  "strcpy dest d src = strcpy_loop dest d src"

fun strncpy_loop :: "u8 list \<Rightarrow> nat \<Rightarrow> u8 list \<Rightarrow> nat \<Rightarrow> u8 list option" where
  "strncpy_loop dest d src 0 = arr_set dest (int d) 0"
| "strncpy_loop dest d [] (Suc n) = None"
| "strncpy_loop dest d (c # src) (Suc n) =
     (if c = 0 then arr_set dest (int d) 0
      else do { dest' \<leftarrow> arr_set dest (int d) c; strncpy_loop dest' (Suc d) src n })"

text \<open>The loop counter runs up to \<open>count - 1\<close>: that many characters are left to copy.\<close>

definition strncpy :: "u8 list \<Rightarrow> nat \<Rightarrow> u8 list \<Rightarrow> int \<Rightarrow> u8 list option" where
  "strncpy dest d src count = strncpy_loop dest d src (nat (count - 1))"

text \<open>The bytes \<open>xs\<close> written at offset \<open>d\<close> of an object.\<close>

definition overwrite :: "'a list \<Rightarrow> nat \<Rightarrow> 'a list \<Rightarrow> 'a list" where
  "overwrite dest d xs = take d dest @ xs @ drop (d + length xs) dest"

lemma overwrite_length [simp]:
  "d + length xs \<le> length dest \<Longrightarrow> length (overwrite dest d xs) = length dest"
  by (simp add: overwrite_def)

lemma overwrite_single: "d < length dest \<Longrightarrow> overwrite dest d [c] = dest[d := c]"
  by (simp add: overwrite_def upd_conv_take_nth_drop)

lemma overwrite_step:
  "d + length xs < length dest \<Longrightarrow>
   overwrite (dest[d := c]) (Suc d) xs = overwrite dest d (c # xs)"
  by (simp add: overwrite_def list_update_next)

lemma strcpy_loop_cstr:
  "terminated src \<Longrightarrow> strcpy_loop dest d src =
     (if d + length (cstr src) < length dest
      then Some (overwrite dest d (cstr src @ [0])) else None)"
proof (induction src arbitrary: dest d)
  case (Cons c src)
  then show ?case
    by (auto simp: array_simps overwrite_single overwrite_step)
qed simp

lemma strncpy_loop_cstr:
  "terminated src \<Longrightarrow> strncpy_loop dest d src n =
     (if d + length (take n (cstr src)) < length dest
      then Some (overwrite dest d (take n (cstr src) @ [0])) else None)"
proof (induction dest d src n rule: strncpy_loop.induct)
  case (3 dest d c src n)
  then show ?case
    by (auto simp: array_simps overwrite_single overwrite_step)
qed (auto simp: array_simps overwrite_single)

section \<open>Comparisons\<close>

fun strncmp_loop :: "u8 list \<Rightarrow> u8 list \<Rightarrow> nat \<Rightarrow> int option" where
  "strncmp_loop s1 s2 0 = Some 0"
| "strncmp_loop (u1 # s1) (u2 # s2) (Suc n) =
     (if u1 \<noteq> u2 then Some (uint u1 - uint u2)
      else if u1 = 0 then Some 0 else strncmp_loop s1 s2 n)"
| "strncmp_loop _ _ (Suc n) = None"

definition strncmp :: "u8 list \<Rightarrow> u8 list \<Rightarrow> int \<Rightarrow> int option" where
  "strncmp s1 s2 n = strncmp_loop s1 s2 (nat n)"

fun istrncmp_loop :: "u8 list \<Rightarrow> u8 list \<Rightarrow> nat \<Rightarrow> int option" where
  "istrncmp_loop s1 s2 0 = Some 0"
| "istrncmp_loop (u1 # s1) (u2 # s2) (Suc n) =
     (if u1 \<noteq> u2 \<and> tolower u1 \<noteq> tolower u2 then Some (uint u1 - uint u2)
      else if u1 = 0 then Some 0 else istrncmp_loop s1 s2 n)"
| "istrncmp_loop _ _ (Suc n) = None"

definition istrncmp :: "u8 list \<Rightarrow> u8 list \<Rightarrow> int \<Rightarrow> int option" where
  "istrncmp s1 s2 n = istrncmp_loop s1 s2 (nat n)"

lemma strncmp_loop_cstr:
  "terminated s1 \<Longrightarrow> terminated s2 \<Longrightarrow>
   \<exists>r. strncmp_loop s1 s2 n = Some r \<and> (r = 0 \<longleftrightarrow> take n (cstr s1) = take n (cstr s2))"
proof (induction s1 s2 n rule: strncmp_loop.induct)
  case (2 u1 s1 u2 s2 n)
  then show ?case
    by (cases "u1 = 0"; cases "u2 = 0") auto
qed auto

lemma tolower_zero [simp]: "tolower c = 0 \<longleftrightarrow> c = 0"
proof -
  have "c + 32 \<noteq> 0" if "65 \<le> unat c" "unat c \<le> 90"
  proof
    assume "c + 32 = 0"
    then have "unat (c + 32) = 0" by simp
    with that show False by (simp add: unat_word_ariths)
  qed
  then show ?thesis by (auto simp: tolower_unat)
qed

lemma istrncmp_loop_cstr:
  "terminated s1 \<Longrightarrow> terminated s2 \<Longrightarrow>
   \<exists>r. istrncmp_loop s1 s2 n = Some r \<and>
     (r = 0 \<longleftrightarrow> map tolower (take n (cstr s1)) = map tolower (take n (cstr s2)))"
proof (induction s1 s2 n rule: istrncmp_loop.induct)
  case (2 u1 s1 u2 s2 n)
  have "u2 = 0" if "tolower u2 = tolower 0"
    using that tolower_zero [of u2] tolower_zero [of 0] by simp
  moreover have "u1 = 0" if "tolower u1 = tolower 0"
    using that tolower_zero [of u1] tolower_zero [of 0] by simp
  ultimately show ?case using 2
    by (cases "u1 = 0"; cases "u2 = 0") auto
qed auto

section \<open>Memory blocks\<close>

fun memset_loop :: "u8 list \<Rightarrow> nat \<Rightarrow> u8 \<Rightarrow> nat \<Rightarrow> u8 list option" where
  "memset_loop buf i c 0 = Some buf"
| "memset_loop buf i c (Suc n) =
     do { buf' \<leftarrow> arr_set buf (int i) c; memset_loop buf' (Suc i) c n }"

definition memset :: "u8 list \<Rightarrow> int \<Rightarrow> u32 \<Rightarrow> u8 list option" where
  "memset buf c len = memset_loop buf 0 (word_of_int c) (unat len)"

fun memcmp_loop :: "u8 list \<Rightarrow> u8 list \<Rightarrow> nat \<Rightarrow> int option" where
  "memcmp_loop s1 s2 0 = Some 0"
| "memcmp_loop (c1 # s1) (c2 # s2) (Suc n) =
     (if c1 \<noteq> c2 then Some (if sint c1 < sint c2 then -1 else 1) else memcmp_loop s1 s2 n)"
| "memcmp_loop _ _ (Suc n) = None"

definition memcmp :: "u8 list \<Rightarrow> u8 list \<Rightarrow> int \<Rightarrow> int option" where
  "memcmp s1 s2 count = memcmp_loop s1 s2 (nat count)"

fun memcpy_loop :: "u8 list \<Rightarrow> nat \<Rightarrow> u8 list \<Rightarrow> nat \<Rightarrow> u8 list option" where
  "memcpy_loop dest d src 0 = Some dest"
| "memcpy_loop dest d [] (Suc n) = None"
| "memcpy_loop dest d (c # src) (Suc n) =
     do { dest' \<leftarrow> arr_set dest (int d) c; memcpy_loop dest' (Suc d) src n }"

text \<open>A negative length makes \<open>while (len--)\<close> run off the object.\<close>

definition memcpy :: "u8 list \<Rightarrow> nat \<Rightarrow> u8 list \<Rightarrow> int \<Rightarrow> u8 list option" where
  "memcpy dest d src len = (if len < 0 then None else memcpy_loop dest d src (nat len))"

lemma overwrite_Nil [simp]: "overwrite dest d [] = dest"
  by (simp add: overwrite_def)

lemma memset_loop_overwrite:
  "i + n \<le> length buf \<Longrightarrow> memset_loop buf i c n = Some (overwrite buf i (replicate n c))"
  by (induction buf i c n rule: memset_loop.induct) (auto simp: array_simps overwrite_step)

lemma memcpy_loop_overwrite:
  "d + n \<le> length dest \<Longrightarrow> n \<le> length src \<Longrightarrow>
   memcpy_loop dest d src n = Some (overwrite dest d (take n src))"
  by (induction dest d src n rule: memcpy_loop.induct) (auto simp: array_simps overwrite_step)

lemma memcmp_loop_zero:
  "n \<le> length s1 \<Longrightarrow> n \<le> length s2 \<Longrightarrow>
   \<exists>r. memcmp_loop s1 s2 n = Some r \<and> (r = 0 \<longleftrightarrow> take n s1 = take n s2)"
  by (induction s1 s2 n rule: memcmp_loop.induct) auto

end
