(* ===== verification/UserString.thy ===== *)
theory UserString
  imports CString
begin

text \<open>
  \<open>string.c\<close> and \<open>memory.c\<close> of the user programs, \<open>src/programs/stdlib/src/\<close>, without \<open>strtok\<close>. The
  programs link their own copies of the routines the kernel has (\<open>CString\<close>), written with indices where
  the kernel moves pointers. The lemmas show that a copy does what the routine of the kernel does, on
  every input, those that leave an object included. Only \<open>strnlen\<close> differs: it stops at the limit without reading there.
\<close>

section \<open>string.c\<close>

definition user_tolower :: "u8 \<Rightarrow> u8" where
  "user_tolower s1 = (if sint s1 \<ge> 65 \<and> sint s1 \<le> 90 then s1 + 32 else s1)"

fun user_strlen_loop :: "u8 list \<Rightarrow> int \<Rightarrow> int option" where
  "user_strlen_loop [] i = None"
| "user_strlen_loop (c # ptr) i = (if c \<noteq> 0 then user_strlen_loop ptr (i + 1) else Some i)"

definition user_strlen :: "u8 list \<Rightarrow> int option" where
  "user_strlen ptr = user_strlen_loop ptr 0"

text \<open>The loops with an index \<open>i\<close> have the number of turns left as their last argument.\<close>

fun user_strnlen_loop :: "u8 list \<Rightarrow> int \<Rightarrow> nat \<Rightarrow> int option" where
  "user_strnlen_loop ptr i 0 = Some i"
| "user_strnlen_loop ptr i (Suc n) =
     do { c \<leftarrow> arr_get ptr i; if c = 0 then Some i else user_strnlen_loop ptr (i + 1) n }"

definition user_strnlen :: "u8 list \<Rightarrow> int \<Rightarrow> int option" where
  "user_strnlen ptr mx = user_strnlen_loop ptr 0 (nat mx)"

fun user_strnlen_terminator_loop :: "u8 list \<Rightarrow> u8 \<Rightarrow> int \<Rightarrow> nat \<Rightarrow> int option" where
  "user_strnlen_terminator_loop str term i 0 = Some i"
| "user_strnlen_terminator_loop str term i (Suc n) =
     do { c \<leftarrow> arr_get str i;
          if c = 0 \<or> c = term then Some i else user_strnlen_terminator_loop str term (i + 1) n }"

definition user_strnlen_terminator :: "u8 list \<Rightarrow> int \<Rightarrow> u8 \<Rightarrow> int option" where
  "user_strnlen_terminator str mx term = user_strnlen_terminator_loop str term 0 (nat mx)"

fun user_istrncmp_loop :: "u8 list \<Rightarrow> u8 list \<Rightarrow> nat \<Rightarrow> int option" where
  "user_istrncmp_loop s1 s2 0 = Some 0"
| "user_istrncmp_loop s1 s2 (Suc n) =
     do { u1 \<leftarrow> arr_get s1 0; u2 \<leftarrow> arr_get s2 0;
          if u1 \<noteq> u2 \<and> user_tolower u1 \<noteq> user_tolower u2 then Some (uint u1 - uint u2)
          else if u1 = 0 then Some 0 else user_istrncmp_loop (tl s1) (tl s2) n }"

definition user_istrncmp :: "u8 list \<Rightarrow> u8 list \<Rightarrow> int \<Rightarrow> int option" where
  "user_istrncmp s1 s2 n = user_istrncmp_loop s1 s2 (nat n)"

fun user_strncmp_loop :: "u8 list \<Rightarrow> u8 list \<Rightarrow> nat \<Rightarrow> int option" where
  "user_strncmp_loop str1 str2 0 = Some 0"
| "user_strncmp_loop str1 str2 (Suc n) =
     do { u1 \<leftarrow> arr_get str1 0; u2 \<leftarrow> arr_get str2 0;
          if u1 \<noteq> u2 then Some (uint u1 - uint u2)
          else if u1 = 0 then Some 0 else user_strncmp_loop (tl str1) (tl str2) n }"

definition user_strncmp :: "u8 list \<Rightarrow> u8 list \<Rightarrow> int \<Rightarrow> int option" where
  "user_strncmp str1 str2 n = user_strncmp_loop str1 str2 (nat n)"

fun user_strcpy_loop :: "u8 list \<Rightarrow> nat \<Rightarrow> u8 list \<Rightarrow> u8 list option" where
  "user_strcpy_loop dest d [] = None"
| "user_strcpy_loop dest d (c # src) =
     (if c \<noteq> 0 then do { dest' \<leftarrow> arr_set dest (int d) c; user_strcpy_loop dest' (d + 1) src }
      else arr_set dest (int d) 0x00)"

definition user_strcpy :: "u8 list \<Rightarrow> nat \<Rightarrow> u8 list \<Rightarrow> u8 list option" where
  "user_strcpy dest d src = user_strcpy_loop dest d src"

fun user_strncpy_loop :: "u8 list \<Rightarrow> nat \<Rightarrow> u8 list \<Rightarrow> nat \<Rightarrow> nat \<Rightarrow> u8 list option" where
  "user_strncpy_loop dest d src i 0 = arr_set dest (int (d + i)) 0x00"
| "user_strncpy_loop dest d src i (Suc n) =
     do { c \<leftarrow> arr_get src (int i);
          if c = 0x00 then arr_set dest (int (d + i)) 0x00
          else do { dest' \<leftarrow> arr_set dest (int (d + i)) c; user_strncpy_loop dest' d src (i + 1) n } }"

definition user_strncpy :: "u8 list \<Rightarrow> nat \<Rightarrow> u8 list \<Rightarrow> int \<Rightarrow> u8 list option" where
  "user_strncpy dest d src count = user_strncpy_loop dest d src 0 (nat (count - 1))"

definition user_isdigit :: "u8 \<Rightarrow> bool" where
  "user_isdigit c \<longleftrightarrow> sint c \<ge> 48 \<and> sint c \<le> 57"

definition user_tonumericdigit :: "u8 \<Rightarrow> int" where
  "user_tonumericdigit c = sint c - 48"

section \<open>memory.c\<close>

fun user_memset_loop :: "u8 list \<Rightarrow> u8 \<Rightarrow> nat \<Rightarrow> nat \<Rightarrow> u8 list option" where
  "user_memset_loop ptr c i 0 = Some ptr"
| "user_memset_loop ptr c i (Suc n) =
     do { ptr' \<leftarrow> arr_set ptr (int i) c; user_memset_loop ptr' c (i + 1) n }"

definition user_memset :: "u8 list \<Rightarrow> int \<Rightarrow> u32 \<Rightarrow> u8 list option" where
  "user_memset ptr c sz = user_memset_loop ptr (word_of_int c) 0 (unat sz)"

fun user_memcmp_loop :: "u8 list \<Rightarrow> u8 list \<Rightarrow> nat \<Rightarrow> int option" where
  "user_memcmp_loop s1 s2 0 = Some 0"
| "user_memcmp_loop s1 s2 (Suc n) =
     do { c1 \<leftarrow> arr_get s1 0; c2 \<leftarrow> arr_get s2 0;
          if c1 \<noteq> c2 then Some (if sint c1 < sint c2 then -1 else 1)
          else user_memcmp_loop (tl s1) (tl s2) n }"

definition user_memcmp :: "u8 list \<Rightarrow> u8 list \<Rightarrow> int \<Rightarrow> int option" where
  "user_memcmp s1 s2 count = user_memcmp_loop s1 s2 (nat count)"

fun user_memcpy_loop :: "u8 list \<Rightarrow> nat \<Rightarrow> u8 list \<Rightarrow> nat \<Rightarrow> u8 list option" where
  "user_memcpy_loop dest d s 0 = Some dest"
| "user_memcpy_loop dest d s (Suc n) =
     do { c \<leftarrow> arr_get s 0; dest' \<leftarrow> arr_set dest (int d) c; user_memcpy_loop dest' (d + 1) (tl s) n }"

definition user_memcpy :: "u8 list \<Rightarrow> nat \<Rightarrow> u8 list \<Rightarrow> int \<Rightarrow> u8 list option" where
  "user_memcpy dest d src len = (if len < 0 then None else user_memcpy_loop dest d src (nat len))"

section \<open>The copies and the routines of the kernel\<close>

lemma arr_get_drop: "arr_get s (int i) = (case drop i s of [] \<Rightarrow> None | c # _ \<Rightarrow> Some c)"
  by (auto simp: arr_get_def Cons_nth_drop_Suc [symmetric] split: list.splits)

lemma drop_tail: "drop i s = c # t \<Longrightarrow> drop (Suc i) s = t"
  by (simp add: drop_Suc drop_tl)

lemma user_strlen_kernel [simp]: "user_strlen ptr = strlen ptr"
proof -
  have "user_strlen_loop ptr i = strlen_loop ptr i" for i by (induction ptr arbitrary: i) auto
  then show ?thesis by (simp add: user_strlen_def strlen_def)
qed

lemma user_strcpy_kernel [simp]: "user_strcpy dest d src = strcpy dest d src"
proof -
  have "user_strcpy_loop dest d src = strcpy_loop dest d src" by (induction src arbitrary: dest d) auto
  then show ?thesis by (simp add: user_strcpy_def strcpy_def)
qed

lemma user_strncpy_loop_kernel: "user_strncpy_loop dest d src i n = strncpy_loop dest (d + i) (drop i src) n"
proof (induction n arbitrary: dest i)
  case (Suc n)
  then show ?case by (cases "drop i src") (simp_all add: arr_get_drop drop_tail)
qed simp

lemma user_strncpy_kernel [simp]: "user_strncpy dest d src count = strncpy dest d src count"
  by (simp add: user_strncpy_def strncpy_def user_strncpy_loop_kernel)

lemma user_characters_kernel [simp]:
  "user_tolower c = tolower c" "user_isdigit c = isdigit c" "user_tonumericdigit c = tonumericdigit c"
  by (simp_all add: user_tolower_def tolower_def user_isdigit_def isdigit_def user_tonumericdigit_def tonumericdigit_def)

lemma arr_get_first: "arr_get s 0 = (case s of [] \<Rightarrow> None | c # _ \<Rightarrow> Some c)"
  using arr_get_drop [of s 0] by simp

lemma user_compare_kernel [simp]:
  "user_strncmp s1 s2 k = strncmp s1 s2 k" "user_istrncmp s1 s2 k = istrncmp s1 s2 k"
  "user_memcmp s1 s2 k = memcmp s1 s2 k"
proof -
  have "user_strncmp_loop s1 s2 n = strncmp_loop s1 s2 n" for n
    by (induction s1 s2 n rule: strncmp_loop.induct) (auto simp: arr_get_first split: list.splits)
  then show "user_strncmp s1 s2 k = strncmp s1 s2 k" by (simp add: user_strncmp_def strncmp_def)
  have "user_istrncmp_loop s1 s2 n = istrncmp_loop s1 s2 n" for n
    by (induction s1 s2 n rule: istrncmp_loop.induct) (auto simp: arr_get_first split: list.splits)
  then show "user_istrncmp s1 s2 k = istrncmp s1 s2 k" by (simp add: user_istrncmp_def istrncmp_def)
  have "user_memcmp_loop s1 s2 n = memcmp_loop s1 s2 n" for n
    by (induction s1 s2 n rule: memcmp_loop.induct) (auto simp: arr_get_first split: list.splits)
  then show "user_memcmp s1 s2 k = memcmp s1 s2 k" by (simp add: user_memcmp_def memcmp_def)
qed

lemma user_memory_kernel [simp]:
  "user_memset buf c len = memset buf c len" "user_memcpy dest d src k = memcpy dest d src k"
proof -
  have "user_memset_loop buf b i n = memset_loop buf i b n" for b i n
    by (induction n arbitrary: buf i) auto
  then show "user_memset buf c len = memset buf c len" by (simp add: user_memset_def memset_def)
  have "user_memcpy_loop dest d src n = memcpy_loop dest d src n" for n
  proof (induction n arbitrary: dest d src)
    case (Suc n)
    then show ?case by (cases src) (simp_all add: arr_get_first)
  qed simp
  then show "user_memcpy dest d src k = memcpy dest d src k" by (simp add: user_memcpy_def memcpy_def)
qed

lemma user_strnlen_terminator_kernel [simp]: "user_strnlen_terminator str mx term = strnlen_terminator str mx term"
proof -
  have "user_strnlen_terminator_loop str term (int i) n = strnlen_terminator_loop (drop i str) (int (i + n)) term (int i)" for i n
  proof (induction n arbitrary: i)
    case (Suc n)
    then show ?case
      using Suc.IH [of "Suc i"] by (subst strnlen_terminator_loop.simps)
        (cases "drop i str"; simp add: arr_get_drop drop_tail add.commute)
  qed (simp add: strnlen_terminator_loop.simps)
  from this [of 0 "nat mx"] show ?thesis
    by (cases "mx < 0") (simp_all add: user_strnlen_terminator_def strnlen_terminator_def strnlen_terminator_loop.simps)
qed

text \<open>Where the routine of the kernel stays inside the object, the copy gives the same length.\<close>

lemma user_strnlen_kernel: "strnlen ptr mx = Some r \<Longrightarrow> user_strnlen ptr mx = Some r"
proof -
  have "strnlen_loop (drop i ptr) (int (i + n)) (int i) = Some r \<Longrightarrow> user_strnlen_loop ptr (int i) n = Some r" for i n
  proof (induction n arbitrary: i)
    case 0
    then show ?case by (cases "drop i ptr") auto
  next
    case (Suc n)
    then show ?case
      using Suc.IH [of "Suc i"]
      by (cases "drop i ptr") (auto simp: arr_get_drop drop_tail add.commute split: if_splits)
  qed
  from this [of 0 "nat mx"] show "strnlen ptr mx = Some r \<Longrightarrow> user_strnlen ptr mx = Some r"
    by (cases "mx < 0"; cases ptr) (auto simp: user_strnlen_def strnlen_def split: if_splits)
qed

text \<open>The kernel's \<open>strnlen\<close> reads the byte behind a full buffer, the copy does not.\<close>

lemma user_strnlen_full: "0 \<notin> set ptr \<Longrightarrow> user_strnlen ptr (int (length ptr)) = Some (int (length ptr))"
  and strnlen_full: "0 \<notin> set ptr \<Longrightarrow> strnlen ptr (int (length ptr)) = None"
proof -
  assume z: "0 \<notin> set ptr"
  have "length (drop i ptr) = n \<Longrightarrow> i \<le> length ptr \<Longrightarrow> user_strnlen_loop ptr (int i) n = Some (int (length ptr))" for i n
  proof (induction n arbitrary: i)
    case (Suc n)
    then have i: "i < length ptr" by simp
    then have "ptr ! i \<noteq> 0" using z nth_mem by metis
    moreover have "user_strnlen_loop ptr (int (Suc i)) n = Some (int (length ptr))"
      by (rule Suc.IH) (use Suc.prems i in simp_all)
    ultimately show ?case using i by (simp add: arr_get_def add.commute)
  qed simp
  from this [of 0 "length ptr"] show "user_strnlen ptr (int (length ptr)) = Some (int (length ptr))"
    by (simp add: user_strnlen_def)
next
  assume z: "0 \<notin> set ptr"
  have "0 \<notin> set s \<Longrightarrow> mx = i + int (length s) \<Longrightarrow> strnlen_loop s mx i = None" for s i mx
    by (induction s arbitrary: i) auto
  from this [OF z, of "int (length ptr)" 0] show "strnlen ptr (int (length ptr)) = None" by (simp add: strnlen_def)
qed

end
