(* ===== verification/UserLib.thy ===== *)
theory UserLib
  imports UserString "HOL-Library.Signed_Division"
begin

text \<open>
  The library of the user programs, \<open>src/programs/stdlib/src/\<close>: numbers and formatted output
  (\<open>stdlib.c\<close>, \<open>stdio.c\<close>), tokens (\<open>string.c\<close>), lines and commands (\<open>hardikhyperionos.c\<close>), and the
  shell. What a program gets from the kernel is in its state: the keys and the blocks that the
  commands 2 and 4 will return; what it prints is a list. The other routines of
  \<open>string.c\<close> are in \<open>UserString\<close>.
\<close>

section \<open>Tokens\<close>

text \<open>The object the global \<open>sp\<close> points into, with the offset; \<open>None\<close> is NULL.\<close>

record tokenizer =
  sp_object :: "u8 list"
  sp :: "nat option"

text \<open>The inner loop: the index of the first delimiter that is \<open>c\<close>, or their number.\<close>

fun delimiter_index :: "u8 \<Rightarrow> u8 list \<Rightarrow> nat" where
  "delimiter_index c [] = 0"
| "delimiter_index c (d # ds) = (if c = d then 0 else Suc (delimiter_index c ds))"

function skip_delimiters :: "u8 list \<Rightarrow> u8 list \<Rightarrow> nat \<Rightarrow> nat option" where
  "skip_delimiters obj ds p =
     (if p < length obj
      then if delimiter_index (obj ! p) ds = length ds then Some p else skip_delimiters obj ds (Suc p)
      else None)"
  by auto
termination by (relation "measure (\<lambda>(obj, ds, p). length obj - p)") auto

declare skip_delimiters.simps [simp del]

text \<open>The loop that ends the token, from \<open>sp\<close>: the object with the terminator and the new \<open>sp\<close>.\<close>

function end_token :: "u8 list \<Rightarrow> u8 list \<Rightarrow> nat \<Rightarrow> (u8 list \<times> nat) option" where
  "end_token obj ds p =
     (if p < length obj
      then if obj ! p = 0 then Some (obj, p)
           else if delimiter_index (obj ! p) ds < length ds then Some (obj[p := 0], Suc p)
           else end_token obj ds (Suc p)
      else None)"
  by auto
termination by (relation "measure (\<lambda>(obj, ds, p). length obj - p)") auto

declare end_token.simps [simp del]

text \<open>
  \<open>strtok\<close> returns an offset in \<open>sp_object\<close>. A string given while \<open>sp\<close> is not NULL is ignored.
\<close>

definition strtok :: "u8 list option \<Rightarrow> u8 list \<Rightarrow> tokenizer \<Rightarrow> (nat option \<times> tokenizer) option" where
  "strtok str delimiters k =
     do { len \<leftarrow> user_strlen delimiters;
          let ds = take (nat len) delimiters;
          if str = None \<and> sp k = None then Some (None, k)
          else do {
            let k1 = (case str of Some b \<Rightarrow> if sp k = None then \<lparr>sp_object = b, sp = Some 0\<rparr> else k | None \<Rightarrow> k);
            p0 \<leftarrow> sp k1;
            p \<leftarrow> skip_delimiters (sp_object k1) ds p0;
            c \<leftarrow> arr_get (sp_object k1) (int p);
            if c = 0 then Some (None, k1\<lparr>sp := None\<rparr>)
            else do { (obj, q) \<leftarrow> end_token (sp_object k1) ds p;
                      Some (Some p, \<lparr>sp_object = obj, sp = Some q\<rparr>) } } }"

section \<open>A program\<close>

record command_argument =
  argument :: "u8 list"
  next_argument :: u32

datatype user_output = Char u8 | Str "u8 list"

text \<open>
  The keys the calls of command 2 return and the pointers those of command 4 return, in order
  (none left: no answer, and NULL), the argument blocks, the tokenizer and what was printed.
\<close>

record program =
  key_answers :: "u32 list"
  block_answers :: "u32 list"
  blocks :: "u32 \<rightharpoonup> command_argument"
  tokens :: tokenizer
  printed :: "user_output list"

definition hardikhyperionos_putchar :: "u8 \<Rightarrow> program \<Rightarrow> program" where
  "hardikhyperionos_putchar c u = u\<lparr>printed := printed u @ [Char c]\<rparr>"

definition user_print :: "u8 list \<Rightarrow> program \<Rightarrow> program" where
  "user_print s u = u\<lparr>printed := printed u @ [Str (cstr s)]\<rparr>"

text \<open>A block for a \<open>command_argument\<close>; the kernel clears it.\<close>

definition malloc_argument :: "program \<Rightarrow> u32 \<times> program" where
  "malloc_argument u =
     (case block_answers u of [] \<Rightarrow> (0, u)
      | p # ps \<Rightarrow> let u1 = u\<lparr>block_answers := ps\<rparr>
          in if p = 0 then (0, u1)
             else (p, u1\<lparr>blocks := (blocks u)(p \<mapsto> \<lparr>argument = replicate 512 0, next_argument = 0\<rparr>)\<rparr>))"

section \<open>stdlib.c and stdio.c\<close>

text \<open>\<open>text\<close> has 12 bytes; the digits of the negative number \<open>i\<close> are written below \<open>loc\<close>.\<close>

function itoa_loop :: "u8 list \<Rightarrow> int \<Rightarrow> int \<Rightarrow> (u8 list \<times> int) option" where
  "itoa_loop tx loc i =
     (if i = 0 then Some (tx, loc)
      else case arr_set tx (loc - 1) (word_of_int (48 - i smod 10)) of None \<Rightarrow> None
        | Some tx' \<Rightarrow> itoa_loop tx' (loc - 1) (i sdiv 10))"
  by auto
termination
proof (relation "measure (\<lambda>(tx, loc, i). nat \<bar>i\<bar>)")
  fix tx loc tx' and i :: int assume "i \<noteq> 0"
  moreover from this have "\<bar>i\<bar> div 10 < \<bar>i\<bar>" by (intro int_div_less_self) auto
  ultimately show "((tx', loc - 1, i sdiv 10), tx, loc, i) \<in> measure (\<lambda>(tx, loc, i). nat \<bar>i\<bar>)"
    by (auto simp: signed_divide_int_def abs_mult sgn_if split: if_splits)
qed simp

declare itoa_loop.simps [simp del]

definition itoa :: "u8 list \<Rightarrow> int \<Rightarrow> (u8 list \<times> int) option" where
  "itoa tx i =
     do { t1 \<leftarrow> arr_set tx 11 0;
          let neg = (if i \<ge> 0 then 0 else (1 :: int));
          let i = (if i \<ge> 0 then i32 (- i) else i);
          (t2, loc) \<leftarrow> itoa_loop t1 11 i;
          (t3, loc) \<leftarrow> (if loc = 11 then do { t \<leftarrow> arr_set t2 (loc - 1) 48; Some (t, loc - 1) } else Some (t2, loc));
          (if neg \<noteq> 0 then do { t \<leftarrow> arr_set t3 (loc - 1) 45; Some (t, loc - 1) } else Some (t3, loc)) }"

datatype printf_argument = Int_arg int | Str_arg "u8 list"

text \<open>
  The loop of \<open>printf\<close> from the position \<open>fmt\<close>, with the static text of \<open>itoa\<close> and the arguments left.
  The character after a percent sign is not tested for the terminator.
\<close>

fun printf_loop :: "u8 list \<Rightarrow> printf_argument list \<Rightarrow> u8 list \<Rightarrow> program \<Rightarrow> (u8 list \<times> program) option" where
  "printf_loop [] ap tx u = None"
| "printf_loop (c # p) ap tx u =
     (if c = 0 then Some (tx, u)
      else if c \<noteq> of_char CHR ''%'' then printf_loop p ap tx (hardikhyperionos_putchar c u)
      else (case p of [] \<Rightarrow> None
        | d # p' \<Rightarrow>
            if d = of_char CHR ''i''
            then (case ap of Int_arg ival # ap' \<Rightarrow>
                    (case itoa tx ival of None \<Rightarrow> None
                     | Some (tx', loc) \<Rightarrow> printf_loop p' ap' tx' (user_print (drop (nat loc) tx') u))
                  | _ \<Rightarrow> None)
            else if d = of_char CHR ''s''
            then (case ap of Str_arg sval # ap' \<Rightarrow> printf_loop p' ap' tx (user_print sval u) | _ \<Rightarrow> None)
            else printf_loop p' ap tx (hardikhyperionos_putchar d u)))"

definition printf :: "u8 list \<Rightarrow> printf_argument list \<Rightarrow> u8 list \<Rightarrow> program \<Rightarrow> (int \<times> u8 list \<times> program) option" where
  "printf fmt ap tx u = do { (tx', u') \<leftarrow> printf_loop fmt ap tx u; Some (0, tx', u') }"

section \<open>hardikhyperionos.c\<close>

text \<open>The loop from a token on: the previous argument is \<open>current\<close>.\<close>

definition space :: "u8 list" where "space = [32, 0]"

text \<open>\<open>strtok(NULL, " ")\<close> and \<open>strtok(scommand, " ")\<close> on the state of the program.\<close>

definition user_strtok :: "u8 list option \<Rightarrow> program \<Rightarrow> (nat option \<times> program) option" where
  "user_strtok str u = do { (t, k) \<leftarrow> strtok str space (tokens u); Some (t, u\<lparr>tokens := k\<rparr>) }"

text \<open>A new argument with the token at \<open>t\<close>; NULL if there is no block.\<close>

definition new_argument :: "nat \<Rightarrow> program \<Rightarrow> (u32 \<times> program) option" where
  "new_argument t u =
     (let (p, u1) = malloc_argument u
      in if p = 0 then Some (0, u1)
         else do { b \<leftarrow> blocks u1 p;
                   a \<leftarrow> user_strncpy (argument b) 0 (drop t (sp_object (tokens u1))) 512;
                   Some (p, u1\<lparr>blocks := (blocks u1)(p \<mapsto> \<lparr>argument = a, next_argument = 0\<rparr>)\<rparr>) })"

partial_function (option) parse_loop :: "nat option \<Rightarrow> u32 \<Rightarrow> program \<Rightarrow> program option" where
  "parse_loop token current u =
     (case token of None \<Rightarrow> Some u
      | Some t \<Rightarrow>
          Option.bind (new_argument t u) (\<lambda>(p, u1).
            if p = 0 then Some u1
            else Option.bind (blocks u1 current) (\<lambda>b.
              Option.bind (user_strtok None (u1\<lparr>blocks := (blocks u1)(current \<mapsto> b\<lparr>next_argument := p\<rparr>)\<rparr>)) (\<lambda>(token', u2).
                parse_loop token' p u2))))"

definition hardikhyperionos_parse_command ::
    "(nat \<Rightarrow> u8 list) \<Rightarrow> u8 list \<Rightarrow> int \<Rightarrow> program \<Rightarrow> (u32 \<times> program) option" where
  "hardikhyperionos_parse_command uninit command mx u =
     (if mx \<ge> 1025 then Some (0, u)
      else do { scommand \<leftarrow> user_strncpy (uninit 1025) 0 command 1025;
        (token, u1) \<leftarrow> user_strtok (Some scommand) u;
        (case token of None \<Rightarrow> Some (0, u1)
         | Some t \<Rightarrow> do { (root, u2) \<leftarrow> new_argument t u1;
             if root = 0 then Some (0, u2)
             else do { (token, u3) \<leftarrow> user_strtok None u2;
                       u4 \<leftarrow> parse_loop token root u3;
                       Some (root, u4) } }) })"

text \<open>The key codes are waited for one by one; without an answer the loop does not end.\<close>

fun getkey_loop :: "u32 list \<Rightarrow> (u32 \<times> u32 list) option" where
  "getkey_loop [] = None"
| "getkey_loop (k # ks) = (if k = 0 then getkey_loop ks else Some (k, ks))"

definition hardikhyperionos_getkeyblock :: "program \<Rightarrow> (u32 \<times> program) option" where
  "hardikhyperionos_getkeyblock u = do { (k, ks) \<leftarrow> getkey_loop (key_answers u); Some (k, u\<lparr>key_answers := ks\<rparr>) }"

lemma getkey_loop_shorter: "getkey_loop ks = Some (k, ks') \<Longrightarrow> length ks' < length ks"
  by (induction ks) (auto split: if_splits)

text \<open>The loop of \<open>readline\<close> with its counter.\<close>

function readline_loop :: "u8 list \<Rightarrow> int \<Rightarrow> bool \<Rightarrow> int \<Rightarrow> program \<Rightarrow> (u8 list \<times> int \<times> program) option" where
  "readline_loop out mx echo i u =
     (if i < mx - 1
      then case hardikhyperionos_getkeyblock u of None \<Rightarrow> None
        | Some (k, u1) \<Rightarrow>
            let key = ucast k :: u8 in
            if key = 13 then Some (out, i, u1)
            else let u2 = (if echo then hardikhyperionos_putchar key u1 else u1)
              in if key = 0x08 \<and> i \<ge> 1
                 then case arr_set out (i - 1) 0x00 of None \<Rightarrow> None | Some out' \<Rightarrow> readline_loop out' mx echo (i - 2 + 1) u2
                 else case arr_set out i key of None \<Rightarrow> None | Some out' \<Rightarrow> readline_loop out' mx echo (i + 1) u2
      else Some (out, i, u))"
  by pat_completeness auto
termination
  by (relation "measure (\<lambda>(out, mx, echo, i, u). length (key_answers u))")
    (auto simp: hardikhyperionos_getkeyblock_def hardikhyperionos_putchar_def dest: getkey_loop_shorter split: bind_splits)

declare readline_loop.simps [simp del]

definition hardikhyperionos_terminal_readline :: "u8 list \<Rightarrow> int \<Rightarrow> bool \<Rightarrow> program \<Rightarrow> (u8 list \<times> program) option" where
  "hardikhyperionos_terminal_readline out mx output_while_typing u =
     do { (out', i, u') \<leftarrow> readline_loop out mx output_while_typing 0 u;
          out'' \<leftarrow> arr_set out' i 0x00;
          Some (out'', u') }"

text \<open>\<open>sys\<close> is command 7 on the list of arguments.\<close>

definition hardikhyperionos_system_run ::
    "(nat \<Rightarrow> u8 list) \<Rightarrow> (u32 \<Rightarrow> program \<Rightarrow> (int \<times> program) option) \<Rightarrow> u8 list \<Rightarrow> program \<Rightarrow> (int \<times> program) option" where
  "hardikhyperionos_system_run uninit sys command u =
     do { buf \<leftarrow> user_strncpy (uninit 1024) 0 command 1024;
          (root, u1) \<leftarrow> hardikhyperionos_parse_command uninit buf 1024 u;
          if root = 0 then Some (-1, u1) else sys root u1 }"

section \<open>The shell\<close>

text \<open>One turn of the loop of \<open>main\<close> in \<open>shell.c\<close>.\<close>

definition shell_turn ::
    "(nat \<Rightarrow> u8 list) \<Rightarrow> (u32 \<Rightarrow> program \<Rightarrow> (int \<times> program) option) \<Rightarrow> program \<Rightarrow> program option" where
  "shell_turn uninit sys u =
     do { let u1 = user_print (ascii ''> '' @ [0]) u;
          (buf, u2) \<leftarrow> hardikhyperionos_terminal_readline (uninit 1024) 1024 True u1;
          let u3 = user_print [10, 0] u2;
          (_, u4) \<leftarrow> hardikhyperionos_system_run uninit sys buf u3;
          Some (user_print [10, 0] u4) }"

end
