(* ===== verification/UserProps.thy ===== *)
theory UserProps
  imports UserLib
begin

text \<open>
  Properties of the library of the user programs: \<open>itoa\<close> writes the decimal number, for all integers;
  a command is cut into its words; a line is edited as it is typed.
\<close>

section \<open>itoa\<close>

fun digits :: "nat \<Rightarrow> u8 list" where
  "digits n = (if n = 0 then [] else digits (n div 10) @ [of_nat (48 + n mod 10)])"

declare digits.simps [simp del]

definition decimal :: "int \<Rightarrow> u8 list" where
  "decimal i = (if i < 0 then [45] else []) @ (if i = 0 then [48] else digits (nat \<bar>i\<bar>))"

lemma digits_zero [simp]: "digits 0 = []"
  by (simp add: digits.simps)

lemma digits_length: "n < 10 ^ k \<Longrightarrow> length (digits n) \<le> k"
proof (induction k arbitrary: n)
  case (Suc k)
  then have "n div 10 < 10 ^ k" by (simp add: less_mult_imp_div_less)
  from Suc.IH [OF this] show ?case by (subst digits.simps) simp
qed simp

lemma digit_step:
  fixes n :: nat
  shows "(- int n) smod 10 = - int (n mod 10)" "(- int n) sdiv 10 = - int (n div 10)"
    "word_of_int (48 - (- int n) smod 10) = (of_nat (48 + n mod 10) :: u8)"
proof -
  show m: "(- int n) smod 10 = - int (n mod 10)"
    by (simp add: signed_modulo_int_def sgn_if zmod_int)
  show "(- int n) sdiv 10 = - int (n div 10)"
    by (simp add: signed_divide_int_def sgn_if zdiv_int)
  have "48 - (- int n) smod 10 = int (48 + n mod 10)" unfolding m by simp
  then show "word_of_int (48 - (- int n) smod 10) = (of_nat (48 + n mod 10) :: u8)" by simp
qed

lemma itoa_loop_digits:
  "length (digits n) \<le> loc \<Longrightarrow> loc \<le> length t \<Longrightarrow>
   itoa_loop t (int loc) (- int n) =
     Some (take (loc - length (digits n)) t @ digits n @ drop loc t, int loc - int (length (digits n)))"
proof (induction n arbitrary: t loc rule: digits.induct)
  case (1 n)
  show ?case
  proof (cases "n = 0")
    case True
    then show ?thesis by (simp add: itoa_loop.simps)
  next
    case False
    let ?c = "of_nat (48 + n mod 10) :: u8" and ?ds = "digits (n div 10)"
    have d: "digits n = ?ds @ [?c]" using False by (subst digits.simps) simp
    then obtain l where loc: "loc = Suc l" "length ?ds \<le> l" "l < length t"
      using "1.prems" by (cases loc) auto
    have "length ?ds \<le> l" "l \<le> length (t[l := ?c])" using loc by simp_all
    note ih = "1.IH" [OF False this]
    have set: "arr_set t (int loc - 1) ?c = Some (t[l := ?c])" using loc by (simp add: arr_set_def)
    have "itoa_loop t (int loc) (- int n) = itoa_loop (t[l := ?c]) (int l) (- int (n div 10))"
      apply (subst itoa_loop.simps)
      unfolding digit_step(2,3) set
      using False loc(1) by simp
    moreover have "drop l (t[l := ?c]) = ?c # drop loc t"
      using loc by (simp add: drop_update_swap Cons_nth_drop_Suc [symmetric])
    ultimately show ?thesis using ih d loc by simp
  qed
qed

lemma buffer_end: "length t = 12 \<Longrightarrow> drop 11 (t[11 := x]) = [x]"
proof -
  assume t: "length t = 12"
  then have "drop 12 (t[11 := x]) = []" by simp
  then show ?thesis using t by (simp add: Cons_nth_drop_Suc [symmetric] drop_update_swap numeral_eq_Suc)
qed

lemma put_digit_zero: "length t = 12 \<Longrightarrow> arr_set (take 11 t @ [0]) 10 48 = Some (take 10 t @ [48, 0])"
  by (simp add: arr_set_def list_update_append take_update_swap)
    (simp add: numeral_eq_Suc take_Suc_conv_app_nth list_update_append)

lemma put_before:
  assumes "length t = 12" "k \<le> 10"
  shows "arr_set (take (11 - k) t @ rest) (11 - int k - 1) c = Some (take (10 - k) t @ c # rest)"
proof -
  have e: "nat (11 - int k - 1) = 10 - k" "10 - k < length (take (11 - k) t)" "Suc (10 - k) = 11 - k" using assms by auto
  have "(take (11 - k) t)[10 - k := c] = take (10 - k) t @ [c]"
    using e(2) unfolding e(3) [symmetric] by (simp add: take_Suc_conv_app_nth list_update_append)
  then show ?thesis using e(1,2) assms by (simp add: arr_set_def list_update_append)
qed

text \<open>The loop of \<open>itoa\<close> on a buffer whose last byte is the terminator.\<close>

lemma itoa_loop_buffer:
  assumes "length t = 12" "length (digits n) \<le> 10"
  shows "itoa_loop (t[11 := 0]) 11 (- int n) = Some (take (11 - length (digits n)) (t[11 := 0]) @ digits n @ [0], 11 - int (length (digits n)))"
proof -
  have "itoa_loop (t[11 := 0]) (int 11) (- int n) =
      Some (take (11 - length (digits n)) (t[11 := 0]) @ digits n @ drop 11 (t[11 := 0]), int 11 - int (length (digits n)))"
    by (rule itoa_loop_digits) (use assms in auto)
  then show ?thesis unfolding buffer_end [OF assms(1)] by simp
qed

text \<open>
  C24. \<open>itoa\<close> (stdlib.c) returns for every 32-bit integer, the smallest one included, and the text it points to is its decimal
  representation, ended by a zero, inside the static buffer of 12 bytes.
\<close>

theorem itoa_decimal:
  assumes "length t = 12" "- (2 ^ 31) \<le> i" "i < 2 ^ 31"
  shows "\<exists>t' loc. itoa t i = Some (t', loc) \<and> 0 \<le> loc \<and> length t' = 12 \<and> drop (nat loc) t' = decimal i @ [0]"
proof -
  define n where "n = nat \<bar>i\<bar>"
  have "i32 (- i) = - i" if "0 \<le> i" using that assms unfolding i32_def by (intro sint_word_of_int_u32) auto
  then have neg: "(if i \<ge> 0 then i32 (- i) else i) = - int n" by (simp add: n_def)
  have "n < 10 ^ 10" using assms by (simp add: n_def nat_less_iff)
  then have k: "length (digits n) \<le> 10" by (rule digits_length)
  let ?t = "t[11 := 0]" and ?k = "length (digits n)"
  have t1: "arr_set t 11 0 = Some ?t" using assms(1) by (simp add: arr_set_def)
  have t2: "length ?t = 12" using assms(1) by simp
  note loop = itoa_loop_buffer [OF assms(1) k]
  show ?thesis
  proof (cases "n = 0")
    case True
    then have i: "i = 0" by (simp add: n_def)
    from put_digit_zero [OF t2]
    have "itoa t i = Some (take 10 ?t @ [48, 0], 10)"
      using t1 loop neg True i by (simp add: itoa_def i32_def)
    then show ?thesis using assms(1) i by (simp add: decimal_def)
  next
    case False
    then have ne: "digits n \<noteq> []" by (subst digits.simps) simp
    let ?t2 = "take (11 - ?k) ?t @ digits n @ [0]"
    show ?thesis
    proof (cases "i < 0")
      case True
      from put_before [OF t2 k, of "digits n @ [0]" 45]
      have "itoa t i = Some (take (10 - ?k) ?t @ 45 # digits n @ [0], 10 - int ?k)"
        using t1 loop neg True ne by (simp add: itoa_def)
      moreover have "nat (10 - int ?k) = length (take (10 - ?k) ?t)" using k assms(1) by simp
      ultimately show ?thesis using True k assms(1) False by (simp add: decimal_def n_def)
    next
      case nn: False
      then have "itoa t i = Some (?t2, 11 - int ?k)"
        using t1 loop neg ne by (simp add: itoa_def)
      moreover have "nat (11 - int ?k) = length (take (11 - ?k) ?t)" using k assms(1) by simp
      ultimately show ?thesis using nn k assms(1) False by (simp add: decimal_def n_def)
    qed
  qed
qed

theorem itoa_decimal_witness:
  "(\<exists>t loc. itoa (replicate 12 0xEE) (- (2 ^ 31)) = Some (t, loc) \<and> drop (nat loc) t = ascii ''-2147483648'' @ [0]) \<and>
   (\<exists>t loc. itoa (replicate 12 0xEE) 0 = Some (t, loc) \<and> drop (nat loc) t = ascii ''0'' @ [0])"
  using itoa_decimal [of "replicate 12 0xEE" "- (2 ^ 31)"] itoa_decimal [of "replicate 12 0xEE" 0]
  by (simp add: decimal_def digits.simps ascii_def) blast

section \<open>Words\<close>

function words :: "u8 list \<Rightarrow> u8 list list" where
  "words s = (let t = dropWhile (\<lambda>c. c = 32) s
     in if t = [] then [] else takeWhile (\<lambda>c. c \<noteq> 32) t # words (dropWhile (\<lambda>c. c \<noteq> 32) t))"
  by auto
termination
proof (relation "measure length")
  fix s t :: "u8 list" assume t: "t = dropWhile (\<lambda>c. c = 32) s" "t \<noteq> []"
  then have "hd t \<noteq> 32" using hd_dropWhile [of "\<lambda>c. c = 32" s] by simp
  with t(2) have "length (dropWhile (\<lambda>c. c \<noteq> 32) t) < length t"
    by (cases t) (auto simp: le_imp_less_Suc length_dropWhile_le)
  also have "length t \<le> length s" by (simp add: t(1) length_dropWhile_le)
  finally show "(dropWhile (\<lambda>c. c \<noteq> 32) t, s) \<in> measure length" by simp
qed simp

declare words.simps [simp del]

text \<open>\<open>sp\<close> is at the start of the text \<open>s\<close>, which ends with a zero.\<close>

definition at_text :: "tokenizer \<Rightarrow> u8 list \<Rightarrow> bool" where
  "at_text k s \<longleftrightarrow> 0 \<notin> set s \<and> (\<exists>pre post. sp_object k = pre @ s @ 0 # post \<and> sp k = Some (length pre))"

lemma delimiter_space: "delimiter_index c [32] = (if c = 32 then 0 else 1)"
  by simp

lemma skip_spaces:
  "0 \<notin> set s \<Longrightarrow> skip_delimiters (pre @ s @ 0 # post) [32] (length pre) =
     Some (length pre + length (takeWhile (\<lambda>c. c = 32) s))"
proof (induction s arbitrary: pre)
  case (Cons c s)
  have n: "(pre @ (c # s) @ 0 # post) ! length pre = c" by (simp add: nth_append)
  show ?case
  proof (cases "c = 32")
    case True
    from Cons.IH [of "pre @ [c]"] Cons.prems True n show ?thesis by (subst skip_delimiters.simps) (simp add: delimiter_space)
  next
    case False
    then show ?thesis using n by (subst skip_delimiters.simps) (simp add: delimiter_space)
  qed
qed (subst skip_delimiters.simps, simp)

lemma end_token_word:
  "0 \<notin> set w \<Longrightarrow> 32 \<notin> set w \<Longrightarrow>
   end_token (pre @ w @ 0 # post) [32] (length pre) = Some (pre @ w @ 0 # post, length pre + length w) \<and>
   end_token (pre @ w @ 32 # post) [32] (length pre) = Some (pre @ w @ 0 # post, length pre + length w + 1)"
proof (induction w arbitrary: pre)
  case (Cons c w)
  have "end_token (pre @ (c # w) @ x # post) [32] (length pre) = end_token ((pre @ [c]) @ w @ x # post) [32] (length (pre @ [c]))" for x
    using Cons.prems by (subst end_token.simps) (simp add: nth_append delimiter_space)
  with Cons.IH [of "pre @ [c]"] Cons.prems show ?case by simp
qed (subst (1 2) end_token.simps, simp add: nth_append list_update_append)

lemma space_delimiters: "strlen space = Some 1" "take 1 space = [32]"
  by (simp_all add: space_def strlen_def)

lemma cstr_word: "0 \<notin> set w \<Longrightarrow> cstr (w @ 0 # post) = w \<and> terminated (w @ 0 # post)"
  by (induction w) auto

lemma strtok_start: "sp k = None \<Longrightarrow> strtok (Some b) space k = strtok None space \<lparr>sp_object = b, sp = Some 0\<rparr>"
  by (simp add: strtok_def space_delimiters)

lemma strtok_at:
  assumes "sp k = Some p0" "skip_delimiters (sp_object k) [32] p0 = Some (length pre)"
  shows "sp_object k = pre @ 0 # post \<Longrightarrow> strtok None space k = Some (None, k\<lparr>sp := None\<rparr>)"
    and "sp_object k = pre @ w @ x # post \<Longrightarrow> w \<noteq> [] \<Longrightarrow> 0 \<notin> set w \<Longrightarrow> 32 \<notin> set w \<Longrightarrow> x = 0 \<or> x = 32 \<Longrightarrow>
      strtok None space k = Some (Some (length pre),
        \<lparr>sp_object = pre @ w @ 0 # post, sp = Some (length pre + length w + (if x = 0 then 0 else 1))\<rparr>)"
proof -
  show "strtok None space k = Some (None, k\<lparr>sp := None\<rparr>)" if "sp_object k = pre @ 0 # post"
    using assms that space_delimiters by (simp add: strtok_def array_simps nth_append)
  show "strtok None space k = Some (Some (length pre),
        \<lparr>sp_object = pre @ w @ 0 # post, sp = Some (length pre + length w + (if x = 0 then 0 else 1))\<rparr>)"
    if o: "sp_object k = pre @ w @ x # post" and w: "w \<noteq> []" "0 \<notin> set w" "32 \<notin> set w" "x = 0 \<or> x = 32"
  proof -
    obtain y ys where y: "w = y # ys" "y \<noteq> 0" using w(1,2) by (cases w) auto
    have "arr_get (sp_object k) (int (length pre)) = Some y" by (simp add: o y(1) array_simps nth_append)
    moreover have "end_token (sp_object k) [32] (length pre) =
        Some (pre @ w @ 0 # post, length pre + length w + (if x = 0 then 0 else 1))"
      using w(4) end_token_word [OF w(2,3), of pre post] by (auto simp: o)
    ultimately show ?thesis using assms y(2) space_delimiters by (simp add: strtok_def)
  qed
qed

text \<open>One token: the next word, or none and \<open>sp\<close> is NULL.\<close>

lemma strtok_word:
  assumes "at_text k s"
  shows "words s = [] \<Longrightarrow> \<exists>k'. strtok None space k = Some (None, k') \<and> sp k' = None"
    and "words s = w # ws \<Longrightarrow> \<exists>p k' s'. strtok None space k = Some (Some p, k') \<and> at_text k' s' \<and> words s' = ws \<and>
      cstr (drop p (sp_object k')) = w \<and> terminated (drop p (sp_object k'))"
proof -
  from assms obtain pre0 post where k: "0 \<notin> set s" "sp_object k = pre0 @ s @ 0 # post" "sp k = Some (length pre0)"
    by (auto simp: at_text_def)
  obtain b t where b: "b = takeWhile (\<lambda>c. c = 32) s" "t = dropWhile (\<lambda>c. c = 32) s" "s = b @ t"
    using takeWhile_dropWhile_id by metis
  obtain pre where pre: "pre = pre0 @ b" by simp
  have z: "0 \<notin> set t" using k(1) unfolding b(2) by (blast dest: set_dropWhileD)
  have skip: "skip_delimiters (sp_object k) [32] (length pre0) = Some (length pre)"
    using skip_spaces [OF k(1), of pre0 post] k(2) by (simp add: pre b(1))
  have obj: "sp_object k = pre @ t @ 0 # post" unfolding k(2) pre by (subst b(3)) simp
  note tok = strtok_at [OF k(3) skip]
  show "\<exists>k'. strtok None space k = Some (None, k') \<and> sp k' = None" if "words s = []"
  proof -
    have "t = []" using that unfolding b(2) by (subst (asm) words.simps) (simp add: Let_def split: if_splits)
    then have "sp_object k = pre @ 0 # post" using obj by simp
    from tok(1) [OF this] show ?thesis by simp
  qed
  show "\<exists>p k' s'. strtok None space k = Some (Some p, k') \<and> at_text k' s' \<and> words s' = ws \<and>
      cstr (drop p (sp_object k')) = w \<and> terminated (drop p (sp_object k'))" if ww: "words s = w # ws"
  proof -
    obtain r where r: "r = dropWhile (\<lambda>c. c \<noteq> 32) t" by simp
    have w: "t \<noteq> []" "w = takeWhile (\<lambda>c. c \<noteq> 32) t" "ws = words r"
      using ww unfolding r b(2) by (subst (asm) words.simps; simp add: Let_def split: if_splits)+
    have t: "t = w @ r" by (simp add: w(2) r)
    have zw: "0 \<notin> set w" "0 \<notin> set r" using z t by simp_all
    have sw: "32 \<notin> set w" unfolding w(2) using set_takeWhileD [of 32 "\<lambda>c. c \<noteq> 32" t] by blast
    have "hd t \<noteq> 32" using w(1) hd_dropWhile [of "\<lambda>c. c = 32" s] by (simp add: b(2))
    then have ne: "w \<noteq> []" using w(1,2) by (cases t) auto
    have drop: "drop (length pre) (pre @ w @ 0 # q) = w @ 0 # q" for q by simp
    show ?thesis
    proof (cases r)
      case Nil
      then have o: "sp_object k = pre @ w @ 0 # post" using obj t by simp
      from tok(2) [OF o ne zw(1) sw] have v: "strtok None space k =
        Some (Some (length pre), \<lparr>sp_object = pre @ w @ 0 # post, sp = Some (length pre + length w)\<rparr>)" (is "_ = Some (_, ?k')") by simp
      have "at_text ?k' []" unfolding at_text_def by (intro conjI exI [of _ "pre @ w"] exI [of _ post]) simp_all
      moreover have "words [] = ws" using Nil w(3) by simp
      ultimately show ?thesis using v cstr_word [OF zw(1), of post] drop [of post] by (metis tokenizer.select_convs(1))
    next
      case (Cons c r')
      then have "c = 32" using hd_dropWhile [of "\<lambda>c. c \<noteq> 32" t] by (simp add: r)
      with Cons have o: "sp_object k = pre @ w @ 32 # (r' @ 0 # post)" "ws = words (32 # r')" using obj t w(3) by simp_all
      from tok(2) [OF o(1) ne zw(1) sw] have v: "strtok None space k = Some (Some (length pre),
          \<lparr>sp_object = pre @ w @ 0 # (r' @ 0 # post), sp = Some (length pre + length w + 1)\<rparr>)" (is "_ = Some (_, ?k')") by simp
      have "0 \<notin> set r'" using zw(2) Cons by simp
      then have "at_text ?k' r'" unfolding at_text_def
        by (intro conjI exI [of _ "pre @ w @ [0]"] exI [of _ post]) simp_all
      moreover have "words r' = ws" unfolding o(2) by (subst (1 2) words.simps) simp
      ultimately show ?thesis
        using v cstr_word [OF zw(1), of "r' @ 0 # post"] drop [of "r' @ 0 # post"] by (metis tokenizer.select_convs(1))
    qed
  qed
qed

section \<open>Commands\<close>

text \<open>The linked list of the argument blocks \<open>ps\<close> with the texts \<open>ws\<close>.\<close>

definition first_block :: "u32 list \<Rightarrow> u32" where
  "first_block ps = (if ps = [] then 0 else hd ps)"

fun arg_list :: "(u32 \<rightharpoonup> command_argument) \<Rightarrow> u32 list \<Rightarrow> u8 list list \<Rightarrow> bool" where
  "arg_list h [] ws = (ws = [])"
| "arg_list h (p # ps) [] = False"
| "arg_list h (p # ps) (w # ws) =
     ((case h p of None \<Rightarrow> False | Some b \<Rightarrow> cstr (argument b) = w \<and> next_argument b = first_block ps) \<and> arg_list h ps ws)"

lemma arg_list_cong: "(\<And>q. q \<in> set ps \<Longrightarrow> h' q = h q) \<Longrightarrow> arg_list h' ps ws = arg_list h ps ws"
  by (induction h ps ws rule: arg_list.induct) auto

text \<open>A token and the words after it.\<close>

definition at_token :: "program \<Rightarrow> nat option \<Rightarrow> u8 list list \<Rightarrow> bool" where
  "at_token u token ws \<longleftrightarrow>
     (case token of None \<Rightarrow> ws = [] \<and> sp (tokens u) = None
      | Some t \<Rightarrow> \<exists>w ws' s. ws = w # ws' \<and> at_text (tokens u) s \<and> words s = ws' \<and>
          cstr (drop t (sp_object (tokens u))) = w \<and> terminated (drop t (sp_object (tokens u))))"

lemma user_strtok_word:
  assumes "at_text (tokens u) s"
  obtains token u' where "user_strtok None u = Some (token, u')" "at_token u' token (words s)"
    "\<exists>k. u' = u\<lparr>tokens := k\<rparr>"
proof (cases "words s")
  case Nil
  from strtok_word(1) [OF assms this] obtain k where "strtok None space (tokens u) = Some (None, k)" "sp k = None" by blast
  with Nil show thesis by (intro that [of None "u\<lparr>tokens := k\<rparr>"]) (auto simp: user_strtok_def at_token_def)
next
  case (Cons w ws)
  from strtok_word(2) [OF assms this] obtain p k s' where "strtok None space (tokens u) = Some (Some p, k)" "at_text k s'"
    "words s' = ws" "cstr (drop p (sp_object k)) = w" "terminated (drop p (sp_object k))" by blast
  with Cons show thesis by (intro that [of "Some p" "u\<lparr>tokens := k\<rparr>"]) (auto simp: user_strtok_def at_token_def)
qed

text \<open>A new argument holds the first 511 characters of the token.\<close>

lemma new_argument_value:
  assumes "terminated (drop t (sp_object (tokens u)))" "block_answers u = p # ps" "p \<noteq> 0"
  obtains a where "new_argument t u = Some (p, u\<lparr>block_answers := ps,
      blocks := (blocks u)(p \<mapsto> \<lparr>argument = a, next_argument = 0\<rparr>)\<rparr>)"
    "cstr a = take 511 (cstr (drop t (sp_object (tokens u))))"
proof -
  let ?src = "drop t (sp_object (tokens u))"
  let ?a = "overwrite (replicate 512 0) 0 (take 511 (cstr ?src) @ [0])"
  have "strncpy (replicate 512 0) 0 ?src 512 = Some ?a"
    using strncpy_loop_cstr [OF assms(1), of "replicate 512 0" 0 511] by (simp add: strncpy_def)
  moreover have "0 \<notin> set (take 511 (cstr ?src))" using cstr_no_zero in_set_takeD by metis
  then have "cstr ?a = take 511 (cstr ?src)" using cstr_word by (simp add: overwrite_def)
  ultimately show thesis
    using assms(2,3) by (intro that [of ?a]) (simp_all add: new_argument_def malloc_argument_def)
qed

lemma new_argument_none: "block_answers u = [] \<Longrightarrow> new_argument t u = Some (0, u)"
  by (simp add: new_argument_def malloc_argument_def)

text \<open>
  The loop appends a block for each word while there are blocks; the block \<open>c\<close> it starts at keeps its text.
\<close>

lemma parse_loop_list:
  "at_token u token ws \<Longrightarrow> distinct (c # block_answers u) \<Longrightarrow> 0 \<notin> set (block_answers u) \<Longrightarrow>
   blocks u c = Some b \<Longrightarrow> next_argument b = 0 \<Longrightarrow>
   \<exists>u'. parse_loop token c u = Some u' \<and>
     blocks u' c = Some (b\<lparr>next_argument := first_block (take (length ws) (block_answers u))\<rparr>) \<and>
     arg_list (blocks u') (take (length ws) (block_answers u)) (map (take 511) (take (length (block_answers u)) ws)) \<and>
     (\<forall>q. q \<noteq> c \<longrightarrow> q \<notin> set (block_answers u) \<longrightarrow> blocks u' q = blocks u q) \<and>
     (sp (tokens u') = None \<longleftrightarrow> length ws \<le> length (block_answers u))"
proof (induction ws arbitrary: u token c b)
  case Nil
  then have "token = None" "sp (tokens u) = None" by (auto simp: at_token_def split: option.splits)
  then have "parse_loop token c u = Some u" by (simp add: parse_loop.simps)
  moreover have "b\<lparr>next_argument := 0\<rparr> = b" using Nil.prems(5) by (cases b) simp
  ultimately show ?case using Nil.prems(4) \<open>sp (tokens u) = None\<close> by (auto simp: first_block_def)
next
  case (Cons w ws)
  then obtain t s where t: "token = Some t" "at_text (tokens u) s" "words s = ws"
    "cstr (drop t (sp_object (tokens u))) = w" "terminated (drop t (sp_object (tokens u)))"
    by (auto simp: at_token_def split: option.splits)
  show ?case
  proof (cases "block_answers u")
    case Nil
    then have "parse_loop token c u = Some u" using t(1) new_argument_none by (simp add: parse_loop.simps)
    moreover have "b\<lparr>next_argument := 0\<rparr> = b" using Cons.prems(5) by (cases b) simp
    moreover have "sp (tokens u) \<noteq> None" using t(2) by (auto simp: at_text_def)
    ultimately show ?thesis using Nil Cons.prems(4) by (intro exI [of _ u]) (simp add: first_block_def)
  next
    case ba: (Cons p ps)
    have p: "p \<noteq> 0" "p \<noteq> c" "p \<notin> set ps" "c \<notin> set ps" using Cons.prems(2,3) ba by auto
    obtain a where a: "new_argument t u = Some (p, u\<lparr>block_answers := ps,
        blocks := (blocks u)(p \<mapsto> \<lparr>argument = a, next_argument = 0\<rparr>)\<rparr>)" "cstr a = take 511 w"
      using new_argument_value [OF t(5) ba p(1)] t(4) by metis
    let ?u1 = "u\<lparr>block_answers := ps, blocks := (blocks u)(p \<mapsto> \<lparr>argument = a, next_argument = 0\<rparr>, c \<mapsto> b\<lparr>next_argument := p\<rparr>)\<rparr>"
    have "at_text (tokens ?u1) s" using t(2) by simp
    from user_strtok_word [OF this] t(3) obtain token' u2 k where u2: "user_strtok None ?u1 = Some (token', u2)"
      "at_token u2 token' ws" "u2 = ?u1\<lparr>tokens := k\<rparr>" by metis
    have step: "parse_loop token c u = parse_loop token' p u2"
      using a(1) u2(1) p Cons.prems(4) t(1) by (subst parse_loop.simps) simp
    have u2': "block_answers u2 = ps" "blocks u2 p = Some \<lparr>argument = a, next_argument = 0\<rparr>"
      "blocks u2 c = Some (b\<lparr>next_argument := p\<rparr>)" "q \<noteq> p \<Longrightarrow> q \<noteq> c \<Longrightarrow> blocks u2 q = blocks u q" for q
      using p by (simp_all add: u2(3))
    have "distinct (p # block_answers u2)" "0 \<notin> set (block_answers u2)"
      using Cons.prems(2,3) ba u2'(1) by auto
    from Cons.IH [OF u2(2) this u2'(2)] u2'(1) obtain u' where ih: "parse_loop token' p u2 = Some u'"
      "blocks u' p = Some \<lparr>argument = a, next_argument = first_block (take (length ws) ps)\<rparr>"
      "arg_list (blocks u') (take (length ws) ps) (map (take 511) (take (length ps) ws))"
      "\<forall>q. q \<noteq> p \<longrightarrow> q \<notin> set ps \<longrightarrow> blocks u' q = blocks u2 q"
      "sp (tokens u') = None \<longleftrightarrow> length ws \<le> length ps" by auto
    have "blocks u' c = Some (b\<lparr>next_argument := p\<rparr>)" using ih(4) p u2'(3) by metis
    moreover have "arg_list (blocks u') (take (length (w # ws)) (p # ps)) (map (take 511) (take (length (p # ps)) (w # ws)))"
      using ih(2,3) a(2) by simp
    moreover have "blocks u' q = blocks u q" if "q \<noteq> c" "q \<notin> set (p # ps)" for q
      using that ih(4) u2'(4) [of q] by simp
    ultimately show ?thesis using step ih(1,5) by (intro exI [of _ u']) (simp add: ba first_block_def)
  qed
qed

text \<open>The first word of a command.\<close>

lemma first_token:
  assumes "terminated command" "length (uninit 1025) = 1025" "sp (tokens u) = None"
  obtains b token u1 k where "strncpy (uninit 1025) 0 command 1025 = Some b" "user_strtok (Some b) u = Some (token, u1)"
    "at_token u1 token (words (take 1024 (cstr command)))" "u1 = u\<lparr>tokens := k\<rparr>"
proof -
  let ?s = "take 1024 (cstr command)"
  let ?o = "overwrite (uninit 1025) 0 (?s @ [0])"
  have cp: "strncpy (uninit 1025) 0 command 1025 = Some ?o"
    using strncpy_loop_cstr [OF assms(1), of "uninit 1025" 0 1024] assms(2) by (simp add: strncpy_def)
  have o: "?o = ?s @ 0 # drop (Suc (length ?s)) (uninit 1025)" by (simp add: overwrite_def)
  have "0 \<notin> set ?s" using cstr_no_zero in_set_takeD by metis
  then have at: "at_text \<lparr>sp_object = ?o, sp = Some 0\<rparr> ?s" unfolding at_text_def
    by (intro conjI exI [of _ "[]"] exI [of _ "drop (Suc (length ?s)) (uninit 1025)"]) (use o in simp_all)
  let ?u0 = "u\<lparr>tokens := \<lparr>sp_object = ?o, sp = Some 0\<rparr>\<rparr>"
  have "at_text (tokens ?u0) ?s" using at by simp
  from user_strtok_word [OF this] obtain token u1 k where u1: "user_strtok None ?u0 = Some (token, u1)"
    "at_token u1 token (words ?s)" "u1 = ?u0\<lparr>tokens := k\<rparr>" by metis
  have "strtok None space \<lparr>sp_object = ?o, sp = Some 0\<rparr> = Some (token, k)"
    using u1(1,3) by (auto simp: user_strtok_def split: bind_splits dest: arg_cong [where f = tokens])
  then have "user_strtok (Some ?o) u = Some (token, u1)"
    using strtok_start [OF assms(3), of ?o] u1(3) by (simp add: user_strtok_def)
  then show thesis using cp u1(2,3) by (intro that) simp_all
qed

text \<open>The first word gets the first block; the loop builds the list behind it.\<close>

lemma first_argument:
  assumes "at_text (tokens u) s" "terminated (drop t (sp_object (tokens u)))"
    and "block_answers u = p # ps" "distinct (p # ps)" "0 \<notin> set (p # ps)"
  obtains u2 token u3 u' where "new_argument t u = Some (p, u2)" "user_strtok None u2 = Some (token, u3)"
    "parse_loop token p u3 = Some u'" "sp (tokens u') = None \<longleftrightarrow> length (words s) \<le> length ps"
    "arg_list (blocks u') (p # take (length (words s)) ps)
       (take 511 (cstr (drop t (sp_object (tokens u)))) # map (take 511) (take (length ps) (words s)))"
proof -
  have p: "p \<noteq> 0" "p \<notin> set ps" using assms(4,5) by auto
  obtain a where a: "new_argument t u = Some (p, u\<lparr>block_answers := ps,
      blocks := (blocks u)(p \<mapsto> \<lparr>argument = a, next_argument = 0\<rparr>)\<rparr>)" "cstr a = take 511 (cstr (drop t (sp_object (tokens u))))"
    using new_argument_value [OF assms(2) _ p(1)] assms(3) by metis
  let ?u2 = "u\<lparr>block_answers := ps, blocks := (blocks u)(p \<mapsto> \<lparr>argument = a, next_argument = 0\<rparr>)\<rparr>"
  have "at_text (tokens ?u2) s" using assms(1) by simp
  from user_strtok_word [OF this] obtain token u3 k where u3: "user_strtok None ?u2 = Some (token, u3)"
    "at_token u3 token (words s)" "u3 = ?u2\<lparr>tokens := k\<rparr>" by metis
  have "distinct (p # block_answers u3)" "0 \<notin> set (block_answers u3)" "blocks u3 p = Some \<lparr>argument = a, next_argument = 0\<rparr>"
    using assms(4,5) by (simp_all add: u3(3))
  from parse_loop_list [OF u3(2) this] obtain u' where u': "parse_loop token p u3 = Some u'"
    "blocks u' p = Some \<lparr>argument = a, next_argument = first_block (take (length (words s)) ps)\<rparr>"
    "arg_list (blocks u') (take (length (words s)) ps) (map (take 511) (take (length ps) (words s)))"
    "sp (tokens u') = None \<longleftrightarrow> length (words s) \<le> length ps" by (auto simp: u3(3))
  then show thesis using a p(1) u3(1) by (intro that [of ?u2 token u3 u']) simp_all
qed

text \<open>A new string is not looked at while a position in an old one is left.\<close>

lemma strtok_ignores: "sp k = Some p \<Longrightarrow> strtok (Some b) delimiters k = strtok None delimiters k"
  by (simp add: strtok_def)

text \<open>
  C17. \<open>hardikhyperionos_parse_command\<close> (hardikhyperionos.c, with \<open>strtok\<close> of string.c), on what it relies on: the bound is below 1025 (from 1025
  on it returns NULL at once), \<open>strtok\<close> has no position left from an earlier command (\<open>sp\<close> is NULL), and the blocks that
  \<open>hardikhyperionos_malloc\<close> answers with, as long as it has some, are different and not NULL. Then it returns, for a terminated
  command of any length: the linked list of the words, cut at 511 characters each, of the first 1024
  characters, in order and without empty words; with too few blocks the list ends after as many words as
  there are blocks. Afterwards \<open>sp\<close> is NULL, as the next command needs it, exactly if all words found a block. If not,
  the next command is not looked at (\<open>strtok_ignores\<close>).
\<close>

theorem parse_command_words:
  fixes u command
  defines "ws \<equiv> words (take 1024 (cstr command))"
  assumes "terminated command" "mx < 1025" "length (uninit 1025) = 1025" "sp (tokens u) = None"
    and "distinct (block_answers u)" "0 \<notin> set (block_answers u)"
  shows "\<exists>u'. hardikhyperionos_parse_command uninit command mx u =
      Some (first_block (take (length ws) (block_answers u)), u') \<and>
    arg_list (blocks u') (take (length ws) (block_answers u)) (map (take 511) (take (length (block_answers u)) ws)) \<and>
    (sp (tokens u') = None \<longleftrightarrow> length ws \<le> length (block_answers u))"
proof -
  obtain b token u1 k where cp: "strncpy (uninit 1025) 0 command 1025 = Some b" and first: "user_strtok (Some b) u = Some (token, u1)"
    and u1: "at_token u1 token ws" "u1 = u\<lparr>tokens := k\<rparr>"
    by (rule first_token [where uninit = uninit, OF assms(2,4,5), folded ws_def]) (rule that, assumption+)
  have u1': "block_answers u1 = block_answers u" by (simp add: u1(2))
  show ?thesis
  proof (cases ws)
    case Nil
    then have "token = None" "sp (tokens u1) = None" using u1(1) by (auto simp: at_token_def split: option.splits)
    then show ?thesis
      using cp first Nil assms(3) by (simp add: hardikhyperionos_parse_command_def first_block_def)
  next
    case (Cons w ws')
    then obtain t s where t: "token = Some t" "at_text (tokens u1) s" "words s = ws'"
      "cstr (drop t (sp_object (tokens u1))) = w" "terminated (drop t (sp_object (tokens u1)))"
      using u1(1) by (auto simp: at_token_def split: option.splits)
    show ?thesis
    proof (cases "block_answers u")
      case Nil
      moreover have "sp (tokens u1) \<noteq> None" using t(2) by (auto simp: at_text_def)
      ultimately show ?thesis
        using cp first t(1) new_argument_none [of u1 t] u1' Cons assms(3)
        by (intro exI [of _ u1]) (simp add: hardikhyperionos_parse_command_def first_block_def)
    next
      case ba: (Cons p ps)
      have ps: "block_answers u1 = p # ps" "distinct (p # ps)" "0 \<notin> set (p # ps)" using assms(6,7) ba u1' by auto
      from ps obtain u2 token' u3 u' where n: "new_argument t u1 = Some (p, u2)"
        "user_strtok None u2 = Some (token', u3)" "parse_loop token' p u3 = Some u'" "sp (tokens u') = None \<longleftrightarrow> length ws' \<le> length ps"
        "arg_list (blocks u') (p # take (length ws') ps) (take 511 w # map (take 511) (take (length ps) ws'))"
        by (rule first_argument [OF t(2,5), unfolded t(3,4)]) (rule that, assumption+)
      have "hardikhyperionos_parse_command uninit command mx u = Some (p, u')"
        using cp first t(1) n(1-3) ps(3) assms(3) by (simp add: hardikhyperionos_parse_command_def)
      then show ?thesis using n(4,5) by (intro exI [of _ u']) (simp add: Cons ba first_block_def)
    qed
  qed
qed

theorem parse_command_words_witness:
  "\<exists>u'. hardikhyperionos_parse_command (\<lambda>n. replicate n 0xEE) (ascii '' cp  abc'' @ [0]) 1024
      \<lparr>key_answers = [], block_answers = [0x1000000, 0x1001000, 0x1002000], blocks = Map.empty,
       tokens = \<lparr>sp_object = [], sp = None\<rparr>, printed = []\<rparr> = Some (0x1000000, u') \<and>
     arg_list (blocks u') [0x1000000, 0x1001000] [ascii ''cp'', ascii ''abc''] \<and> sp (tokens u') = None"
proof -
  have w: "words (take 1024 (cstr (ascii '' cp  abc'' @ [0]))) = [ascii ''cp'', ascii ''abc'']"
    by (simp add: ascii_def words.simps)
  show ?thesis
    using parse_command_words [of "ascii '' cp  abc'' @ [0]" 1024 "\<lambda>n. replicate n 0xEE"
      "\<lparr>key_answers = [], block_answers = [0x1000000, 0x1001000, 0x1002000], blocks = Map.empty,
       tokens = \<lparr>sp_object = [], sp = None\<rparr>, printed = []\<rparr>"] unfolding w
    by (auto simp: ascii_def first_block_def)
qed

section \<open>Reading a line\<close>

text \<open>What a key does to the line typed so far; a backspace on an empty line stays in it as character 8.\<close>

definition type_key :: "u8 \<Rightarrow> u8 list \<Rightarrow> u8 list" where
  "type_key k line = (if k = 8 \<and> line \<noteq> [] then butlast line else line @ [k])"

fun line_fits :: "nat \<Rightarrow> u8 list \<Rightarrow> u8 list \<Rightarrow> bool" where
  "line_fits m line [] = (length line < m)"
| "line_fits m line (k # ks) = (length line < m \<and> line_fits m (type_key k line) ks)"

lemma scast_u8: "ucast (scast (c :: u8) :: u32) = c" "scast c = (0 :: u32) \<longleftrightarrow> c = 0"
proof -
  show u: "ucast (scast (c :: u8) :: u32) = c"
  proof (rule bit_word_eqI)
    fix n assume "n < LENGTH(8)"
    then have "n < 7 \<or> n = 7" by auto
    then show "bit (ucast (scast c :: u32) :: u8) n = bit c n" by (auto simp: bit_ucast_iff bit_signed_iff)
  qed
  show "scast c = (0 :: u32) \<longleftrightarrow> c = 0"
  proof
    assume "scast c = (0 :: u32)"
    then show "c = 0" using u by simp
  qed simp
qed

lemma getkey_loop_first:
  "filter (\<lambda>k. k \<noteq> 0) ks = k # rest \<Longrightarrow> \<exists>ks'. getkey_loop ks = Some (k, ks') \<and> filter (\<lambda>k. k \<noteq> 0) ks' = rest"
  by (induction ks) (auto split: if_splits)

lemma type_key_zero: "0 \<notin> set line \<Longrightarrow> k \<noteq> 0 \<Longrightarrow> 0 \<notin> set (type_key k line)"
  by (auto simp: type_key_def dest: in_set_butlastD)

lemma readline_loop_line:
  "take (length line) out = line \<Longrightarrow> length out = nat mx \<Longrightarrow> line_fits (nat mx - 1) line cs \<Longrightarrow>
   filter (\<lambda>k. k \<noteq> 0) (key_answers u) = map scast cs @ scast (13 :: u8) # rest \<Longrightarrow> 13 \<notin> set cs \<Longrightarrow>
   \<exists>out' u'. readline_loop out mx echo (int (length line)) u = Some (out', int (length (fold type_key cs line)), u') \<and>
     take (length (fold type_key cs line)) out' = fold type_key cs line \<and> length (fold type_key cs line) < length out' \<and>
     length out' = nat mx \<and> printed u' = printed u @ (if echo then map Char cs else []) \<and>
     filter (\<lambda>k. k \<noteq> 0) (key_answers u') = rest"
proof (induction cs arbitrary: line out u)
  case Nil
  then obtain ks where ks: "getkey_loop (key_answers u) = Some (scast (13 :: u8), ks)" "filter (\<lambda>k. k \<noteq> 0) ks = rest"
    using getkey_loop_first [of "key_answers u"] by (metis list.map(1) append_Nil)
  have "ucast (scast (13 :: u8) :: u32) = (13 :: u8)" by (rule scast_u8)
  then have "readline_loop out mx echo (int (length line)) u = Some (out, int (length line), u\<lparr>key_answers := ks\<rparr>)"
    using ks(1) Nil.prems(2,3) by (subst readline_loop.simps) (simp add: hardikhyperionos_getkeyblock_def Let_def)
  with Nil.prems ks(2) show ?case by auto
next
  case (Cons c cs)
  have "filter (\<lambda>k. k \<noteq> 0) (key_answers u) = scast c # (map scast cs @ scast (13 :: u8) # rest)" using Cons.prems(4) by simp
  from getkey_loop_first [OF this] obtain ks where ks: "getkey_loop (key_answers u) = Some (scast c, ks)"
    "filter (\<lambda>k. k \<noteq> 0) ks = map scast cs @ scast (13 :: u8) # rest" by blast
  have lt: "length line < length out" "int (length line) < mx - 1" using Cons.prems(2,3) by auto
  have c: "ucast (scast c :: u32) = c" "c \<noteq> 13" using scast_u8 Cons.prems(5) by auto
  define u1 where "u1 = (if echo then hardikhyperionos_putchar c (u\<lparr>key_answers := ks\<rparr>) else u\<lparr>key_answers := ks\<rparr>)"
  have u1: "filter (\<lambda>k. k \<noteq> 0) (key_answers u1) = map scast cs @ scast (13 :: u8) # rest"
    "printed u1 = printed u @ (if echo then [Char c] else [])"
    using ks(2) by (simp_all add: u1_def hardikhyperionos_putchar_def)
  have step: "readline_loop out mx echo (int (length line)) u =
      (if c = 0x08 \<and> int (length line) \<ge> 1
       then case arr_set out (int (length line) - 1) 0x00 of None \<Rightarrow> None
         | Some out' \<Rightarrow> readline_loop out' mx echo (int (length line) - 2 + 1) u1
       else case arr_set out (int (length line)) c of None \<Rightarrow> None
         | Some out' \<Rightarrow> readline_loop out' mx echo (int (length line) + 1) u1)"
    using lt c ks(1) unfolding u1_def
    by (subst readline_loop.simps) (simp add: hardikhyperionos_getkeyblock_def Let_def cong: if_cong option.case_cong)
  obtain out1 where o: "take (length (type_key c line)) out1 = type_key c line" "length out1 = nat mx"
    "readline_loop out mx echo (int (length line)) u = readline_loop out1 mx echo (int (length (type_key c line))) u1"
  proof (cases "c = 8 \<and> line \<noteq> []")
    case True
    then obtain l x where l: "line = l @ [x]" by (metis rev_exhaust)
    have "take (length l) (take (length line) out) = l" unfolding Cons.prems(1) by (simp add: l)
    then have "take (length l) (out[length l := 0]) = l" by (simp add: l take_take)
    moreover have "arr_set out (int (length line) - 1) 0 = Some (out[length l := 0])"
      using lt(1) l by (simp add: arr_set_def)
    ultimately show thesis
      using that [of "out[length l := 0]"] True l Cons.prems(2) unfolding step by (simp add: type_key_def)
  next
    case False
    have "take (length line + 1) (out[length line := c]) = line @ [c]"
      using Cons.prems(1) lt(1) by (simp add: take_Suc_conv_app_nth)
    moreover have "arr_set out (int (length line)) c = Some (out[length line := c])"
      using lt(1) by (simp add: array_simps)
    moreover have nc: "\<not> (c = 8 \<and> int (length line) \<ge> 1)" and "type_key c line = line @ [c]"
      using False by (auto simp: type_key_def Suc_le_eq)
    ultimately show thesis
      using that [of "out[length line := c]"] Cons.prems(2) unfolding step if_not_P [OF nc] by (simp add: add.commute)
  qed
  have "line_fits (nat mx - 1) (type_key c line) cs" "13 \<notin> set cs" using Cons.prems(3,5) by simp_all
  from Cons.IH [OF o(1,2) this(1) u1(1) this(2)] o(3) u1(2) show ?case by auto
qed

lemma type_keys_zero: "0 \<notin> set line \<Longrightarrow> 0 \<notin> set cs \<Longrightarrow> 0 \<notin> set (fold type_key cs line)"
  by (induction cs arbitrary: line) (simp_all add: type_key_zero)

text \<open>
  C40. \<open>hardikhyperionos_terminal_readline\<close> (hardikhyperionos.c) on keys that fit the line and end with
  return: it returns when return is read, the buffer then holds as a terminated string what the keys
  typed, each backspace taking back the character before it, it is not longer than before, exactly the keys
  read are echoed if echoing is asked for (backspaces too, return not), and the keys after return stay.
\<close>

theorem readline_edits:
  assumes "length out = nat mx" "line_fits (nat mx - 1) [] cs" "13 \<notin> set cs" "0 \<notin> set cs"
    and "filter (\<lambda>k. k \<noteq> 0) (key_answers u) = map scast cs @ scast (13 :: u8) # rest"
  shows "\<exists>out' u'. hardikhyperionos_terminal_readline out mx echo u = Some (out', u') \<and>
    terminated out' \<and> cstr out' = fold type_key cs [] \<and> length out' = nat mx \<and>
    printed u' = printed u @ (if echo then map Char cs else []) \<and>
    filter (\<lambda>k. k \<noteq> 0) (key_answers u') = rest"
proof -
  let ?l = "fold type_key cs []"
  from readline_loop_line [OF _ assms(1,2,5,3), of echo] obtain out' u' where r:
    "readline_loop out mx echo 0 u = Some (out', int (length ?l), u')" "take (length ?l) out' = ?l"
    "length ?l < length out'" "length out' = nat mx" "printed u' = printed u @ (if echo then map Char cs else [])"
    "filter (\<lambda>k. k \<noteq> 0) (key_answers u') = rest" by auto
  let ?o = "out'[length ?l := 0]"
  have "arr_set out' (int (length ?l)) 0 = Some ?o" using r(3) by (simp add: arr_set_def)
  then have "hardikhyperionos_terminal_readline out mx echo u = Some (?o, u')"
    using r(1) by (simp add: hardikhyperionos_terminal_readline_def)
  moreover have o: "?o = ?l @ 0 # drop (Suc (length ?l)) out'" using r(2,3) by (simp add: upd_conv_take_nth_drop)
  moreover have z: "0 \<notin> set ?l" using type_keys_zero [OF _ assms(4), of "[]"] by simp
  moreover have "terminated ?o" unfolding o by (simp add: terminated_def)
  moreover have "cstr ?o = ?l" unfolding o cstr_def using z by (subst takeWhile_append2) auto
  ultimately show ?thesis using r(4-6) by (metis length_list_update)
qed

theorem readline_edits_witness:
  "\<exists>out' u'. hardikhyperionos_terminal_readline (replicate 8 0xEE) 8 True
      \<lparr>key_answers = map scast [0x68, 0, 0x6A, 8, 0x69, 13 :: u8] @ [7], block_answers = [], blocks = Map.empty,
       tokens = \<lparr>sp_object = [], sp = None\<rparr>, printed = []\<rparr> = Some (out', u') \<and>
     terminated out' \<and> cstr out' = ascii ''hi'' \<and> length out' = 8 \<and>
     printed u' = map Char [0x68, 0x6A, 8, 0x69] \<and> filter (\<lambda>k. k \<noteq> 0) (key_answers u') = [7]"
proof -
  have t: "fold type_key [0x68, 0x6A, 8, 0x69] [] = ascii ''hi''" by (simp add: type_key_def ascii_def)
  show ?thesis
    using readline_edits [of "replicate 8 0xEE" 8 "[0x68, 0x6A, 8, 0x69]"
      "\<lparr>key_answers = map scast [0x68, 0, 0x6A, 8, 0x69, 13 :: u8] @ [7], block_answers = [], blocks = Map.empty,
       tokens = \<lparr>sp_object = [], sp = None\<rparr>, printed = []\<rparr>" "[7]" True] unfolding t
    by (simp add: type_key_def)
qed

end
