(* ===== verification/KHeap.thy ===== *)
theory KHeap
  imports Prelude
begin

text \<open>
  The kernel heap, \<open>src/src/memory/heap/heap.c\<close>: a pool of 4096-byte blocks and a
  table with one byte per block. A byte is 0 for a free block; otherwise its low
  nibble is 1, bit 6 marks the first block of an allocation and bit 7 says that the
  allocation continues in the next block.

  The array \<open>entries\<close> is the memory around the start of the table, indexed the way C
  indexes it: \<open>entries i\<close> with \<open>i < 0\<close> or \<open>i \<ge> total\<close> is a byte that does not belong
  to the table but that the C code can reach.

  First the C functions, then the table seen as a list of \<open>total\<close> bytes, its
  well-formedness as an automaton, and the allocations it stands for.
\<close>

named_theorems heap_consts \<open>constants of the heap\<close>

definition HEAP_BLOCK_SIZE :: u32 where [heap_consts]: "HEAP_BLOCK_SIZE = 4096"
definition ENTRY_TAKEN :: u8 where [heap_consts]: "ENTRY_TAKEN = 0x01"
definition ENTRY_FREE :: u8 where [heap_consts]: "ENTRY_FREE = 0x00"
definition BLOCK_HAS_NEXT :: u8 where [heap_consts]: "BLOCK_HAS_NEXT = 0x80"
definition BLOCK_IS_FIRST :: u8 where [heap_consts]: "BLOCK_IS_FIRST = 0x40"

record heap_table =
  entries :: "int \<Rightarrow> u8"
  total :: u32

record heap =
  table :: heap_table
  saddr :: u32

section \<open>The C functions\<close>

definition heap_validate_table :: "u32 \<Rightarrow> u32 \<Rightarrow> heap_table \<Rightarrow> int" where
  "heap_validate_table ptr pend t =
     (let table_size = pend - ptr; total_blocks = table_size div HEAP_BLOCK_SIZE
      in if total t \<noteq> total_blocks then - EINVARG else 0)"

definition heap_validate_alignment :: "u32 \<Rightarrow> bool" where
  "heap_validate_alignment ptr \<longleftrightarrow> ptr mod HEAP_BLOCK_SIZE = 0"

definition heap_create :: "heap \<Rightarrow> u32 \<Rightarrow> u32 \<Rightarrow> heap_table \<Rightarrow> int \<times> heap" where
  "heap_create h ptr pend t =
     (if \<not> heap_validate_alignment ptr \<or> \<not> heap_validate_alignment pend then (- EINVARG, h)
      else let h1 = \<lparr>table = t, saddr = ptr\<rparr>; res = heap_validate_table ptr pend t
           in if res < 0 then (res, h1)
              else (res, h1\<lparr>table := t\<lparr>entries :=
                      (\<lambda>i. if 0 \<le> i \<and> i < uint (total t) then ENTRY_FREE else entries t i)\<rparr>\<rparr>))"

definition heap_align_value_to_upper :: "u32 \<Rightarrow> u32" where
  "heap_align_value_to_upper val =
     (if val mod HEAP_BLOCK_SIZE = 0 then val
      else (val - val mod HEAP_BLOCK_SIZE) + HEAP_BLOCK_SIZE)"

definition heap_get_entry_type :: "u8 \<Rightarrow> u8" where
  "heap_get_entry_type entry = entry AND 0x0f"

text \<open>
  The search loop: \<open>n\<close> entries are left, \<open>i\<close> is the index, \<open>bc\<close> and \<open>bs\<close> the block
  count and block start. The comparison \<open>entries[i] != FREE\<close> sits inside the argument
  of \<open>heap_get_entry_type\<close>, as in the source.
\<close>

fun heap_scan :: "(int \<Rightarrow> u8) \<Rightarrow> u32 \<Rightarrow> nat \<Rightarrow> int \<Rightarrow> int \<Rightarrow> int \<Rightarrow> int" where
  "heap_scan es want 0 i bc bs = bs"
| "heap_scan es want (Suc n) i bc bs =
     (if heap_get_entry_type (if es i \<noteq> ENTRY_FREE then 1 else 0) \<noteq> 0
      then heap_scan es want n (i + 1) 0 (-1)
      else let bs' = (if bs = -1 then i else bs); bc' = bc + 1
           in if word_of_int bc' = want then bs'
              else heap_scan es want n (i + 1) bc' bs')"

definition heap_get_start_block :: "heap \<Rightarrow> u32 \<Rightarrow> int" where
  "heap_get_start_block h total_blocks =
     (let bs = heap_scan (entries (table h)) total_blocks (unat (total (table h))) 0 0 (-1)
      in if bs = -1 then - ENOMEM else bs)"

definition heap_block_to_address :: "heap \<Rightarrow> int \<Rightarrow> u32" where
  "heap_block_to_address h block = saddr h + word_of_int block * HEAP_BLOCK_SIZE"

fun heap_mark_loop :: "(int \<Rightarrow> u8) \<Rightarrow> nat \<Rightarrow> int \<Rightarrow> int \<Rightarrow> u8 \<Rightarrow> int \<Rightarrow> u8" where
  "heap_mark_loop es 0 i end_block entry = es"
| "heap_mark_loop es (Suc n) i end_block entry =
     (let es' = es(i := entry);
          entry' = (if i \<noteq> end_block - 1 then ENTRY_TAKEN OR BLOCK_HAS_NEXT else ENTRY_TAKEN)
      in heap_mark_loop es' n (i + 1) end_block entry')"

text \<open>The loop runs from \<open>start_block\<close> to \<open>end_block\<close>, that is \<open>total_blocks\<close> times.\<close>

definition heap_mark_blocks_taken :: "heap \<Rightarrow> int \<Rightarrow> int \<Rightarrow> heap" where
  "heap_mark_blocks_taken h start_block total_blocks =
     (let end_block = (start_block + total_blocks) - 1;
          first = ENTRY_TAKEN OR BLOCK_IS_FIRST;
          entry = (if total_blocks > 1 then first OR BLOCK_HAS_NEXT else first)
      in h\<lparr>table := (table h)\<lparr>entries :=
             heap_mark_loop (entries (table h)) (nat total_blocks) start_block end_block entry\<rparr>\<rparr>)"

definition heap_malloc_blocks :: "heap \<Rightarrow> u32 \<Rightarrow> u32 \<times> heap" where
  "heap_malloc_blocks h total_blocks =
     (let start_block = heap_get_start_block h total_blocks
      in if start_block < 0 then (0, h)
         else (heap_block_to_address h start_block,
               heap_mark_blocks_taken h start_block (sint total_blocks)))"

fun heap_free_loop :: "(int \<Rightarrow> u8) \<Rightarrow> nat \<Rightarrow> int \<Rightarrow> int \<Rightarrow> u8" where
  "heap_free_loop es 0 i = es"
| "heap_free_loop es (Suc n) i =
     (let entry = es i; es' = es(i := ENTRY_FREE)
      in if entry AND BLOCK_HAS_NEXT = 0 then es' else heap_free_loop es' n (i + 1))"

definition heap_mark_blocks_free :: "heap \<Rightarrow> int \<Rightarrow> heap" where
  "heap_mark_blocks_free h starting_block =
     h\<lparr>table := (table h)\<lparr>entries := heap_free_loop (entries (table h))
         (nat (sint (total (table h)) - starting_block)) starting_block\<rparr>\<rparr>"

definition heap_address_to_block :: "heap \<Rightarrow> u32 \<Rightarrow> int" where
  "heap_address_to_block h address = sint (address - saddr h) sdiv uint HEAP_BLOCK_SIZE"

definition heap_malloc :: "heap \<Rightarrow> u32 \<Rightarrow> u32 \<times> heap" where
  "heap_malloc h sz =
     (let aligned_size = heap_align_value_to_upper sz;
          total_blocks = aligned_size div HEAP_BLOCK_SIZE
      in heap_malloc_blocks h total_blocks)"

definition heap_free :: "heap \<Rightarrow> u32 \<Rightarrow> heap" where
  "heap_free h ptr = heap_mark_blocks_free h (heap_address_to_block h ptr)"

section \<open>The table as a list\<close>

definition tbl :: "heap \<Rightarrow> u8 list" where
  "tbl h = map (\<lambda>i. entries (table h) (int i)) [0..<unat (total (table h))]"

lemma tbl_length: "length (tbl h) = unat (total (table h))"
  by (simp add: tbl_def)

lemma tbl_length_int: "uint (total (table h)) = int (length (tbl h))"
  by (simp add: tbl_def)

lemma tbl_nth [simp]: "i < length (tbl h) \<Longrightarrow> tbl h ! i = entries (table h) (int i)"
  by (simp add: tbl_def)

text \<open>
  The automaton of well-formed tables. In state \<open>False\<close> no allocation is open; in state
  \<open>True\<close> the last entry announced a continuation.
\<close>

fun wf_tbl :: "bool \<Rightarrow> u8 list \<Rightarrow> bool" where
  "wf_tbl st [] = (\<not> st)"
| "wf_tbl False (e # es) =
     (if e = 0x00 \<or> e = 0x41 then wf_tbl False es else e = 0xC1 \<and> wf_tbl True es)"
| "wf_tbl True (e # es) =
     (if e = 0x81 then wf_tbl True es else e = 0x01 \<and> wf_tbl False es)"

text \<open>The bytes of an allocation of \<open>n\<close> blocks.\<close>

definition run_entry :: "nat \<Rightarrow> nat \<Rightarrow> u8" where
  "run_entry n j = (if j = 0 then (if n > 1 then 0xC1 else 0x41)
     else if Suc j = n then 0x01 else 0x81)"

definition run_bytes :: "nat \<Rightarrow> u8 list" where
  "run_bytes n = map (run_entry n) [0..<n]"

fun run_len :: "u8 list \<Rightarrow> nat" where
  "run_len [] = 0"
| "run_len (e # es) = (if e AND BLOCK_HAS_NEXT = 0 then 1 else Suc (run_len es))"

text \<open>The allocations a table stands for: first block to number of blocks.\<close>

definition owner :: "u8 list \<Rightarrow> nat \<Rightarrow> nat option" where
  "owner t b = (if b < length t \<and> t ! b AND BLOCK_IS_FIRST \<noteq> 0
     then Some (run_len (drop b t)) else None)"

definition free_at :: "u8 list \<Rightarrow> nat \<Rightarrow> nat \<Rightarrow> bool" where
  "free_at t s n \<longleftrightarrow> s + n \<le> length t \<and> (\<forall>k < n. t ! (s + k) = 0)"

lemma run_bytes_length [simp]: "length (run_bytes n) = n"
  by (simp add: run_bytes_def)

lemma run_bytes_1 [simp]: "run_bytes (Suc 0) = [0x41]"
  by (simp add: run_bytes_def run_entry_def)

lemma run_bytes_Suc_Suc [simp]:
  "run_bytes (Suc (Suc m)) = 0xC1 # replicate m 0x81 @ [0x01]"
proof (rule nth_equalityI)
  fix i assume "i < length (run_bytes (Suc (Suc m)))"
  then show "run_bytes (Suc (Suc m)) ! i = (0xC1 # replicate m 0x81 @ [0x01]) ! i"
    by (cases i) (auto simp: run_bytes_def run_entry_def nth_append)
qed simp

lemma wf_tbl_continuation:
  "wf_tbl True (replicate m 0x81 @ 0x01 # ys) = wf_tbl False ys"
  by (induction m) auto

lemma wf_tbl_run: "0 < n \<Longrightarrow> wf_tbl False (run_bytes n @ ys) = wf_tbl False ys"
  by (cases n; cases "n - 1") (auto simp: wf_tbl_continuation)

lemma wf_tbl_free: "wf_tbl False (replicate n 0 @ ys) = wf_tbl False ys"
  by (induction n) auto

lemma wf_tbl_append: "wf_tbl st xs \<Longrightarrow> wf_tbl st (xs @ ys) = wf_tbl False ys"
  by (induction st xs rule: wf_tbl.induct) (auto split: if_splits)

text \<open>A free or first entry can only follow a closed allocation.\<close>

lemma wf_tbl_split_gen:
  "wf_tbl st (xs @ zs) \<Longrightarrow> \<not> wf_tbl True zs \<Longrightarrow> wf_tbl st xs \<and> wf_tbl False zs"
proof (induction st xs rule: wf_tbl.induct)
  case (1 st)
  then show ?case by (cases st) auto
qed (auto split: if_splits)

lemma wf_tbl_split:
  assumes "wf_tbl st (xs @ e # ys)" "e \<in> {0x00, 0x41, 0xC1}"
  shows "wf_tbl st xs \<and> wf_tbl False (e # ys)"
  using wf_tbl_split_gen [OF assms(1)] assms(2) by auto

lemma wf_tbl_drop: "wf_tbl st xs \<Longrightarrow> \<exists>st'. wf_tbl st' (drop b xs)"
proof (induction st xs arbitrary: b rule: wf_tbl.induct)
  case (2 e es)
  show ?case
  proof (cases b)
    case 0
    then show ?thesis using "2.prems" by (intro exI [of _ False]) simp
  next
    case (Suc b')
    with 2 show ?thesis by (auto split: if_splits)
  qed
next
  case (3 e es)
  show ?case
  proof (cases b)
    case 0
    then show ?thesis using "3.prems" by (intro exI [of _ True]) simp
  next
    case (Suc b')
    with 3 show ?thesis by (auto split: if_splits)
  qed
qed auto

lemma run_len_append: "wf_tbl st xs \<Longrightarrow> xs \<noteq> [] \<Longrightarrow> run_len (xs @ ys) = run_len xs"
proof (induction st xs rule: wf_tbl.induct)
  case (2 e es)
  then show ?case by (cases es) (auto simp: BLOCK_HAS_NEXT_def split: if_splits)
next
  case (3 e es)
  then show ?case by (cases es) (auto simp: BLOCK_HAS_NEXT_def split: if_splits)
qed auto

end
