(* ===== verification/HeapTable.thy ===== *)
theory HeapTable
  imports KHeap
begin

text \<open>
  Heap tables as lists, without the C code: where the allocations of a well-formed
  table lie, how the table splits at an allocation or at a free run, and that the
  allocations determine the table.
\<close>

section \<open>Splitting a table\<close>

lemma wf_tbl_open_run:
  "wf_tbl True es \<Longrightarrow> \<exists>m ys. es = replicate m 0x81 @ 0x01 # ys \<and> wf_tbl False ys \<and> run_len es = Suc m"
proof (induction es)
  case (Cons e es)
  show ?case
  proof (cases "e = 0x81")
    case True
    with Cons obtain m ys where "es = replicate m 0x81 @ 0x01 # ys" "wf_tbl False ys" "run_len es = Suc m"
      by auto
    with True show ?thesis
      by (intro exI [of _ "Suc m"] exI [of _ ys]) (simp add: BLOCK_HAS_NEXT_def)
  next
    case False
    with Cons.prems show ?thesis
      by (intro exI [of _ 0] exI [of _ es]) (simp add: BLOCK_HAS_NEXT_def)
  qed
qed simp

lemma wf_tbl_first_run:
  assumes "wf_tbl False (e # es)" "e \<noteq> 0"
  obtains n ys where "e # es = run_bytes n @ ys" "0 < n" "wf_tbl False ys" "run_len (e # es) = n"
proof (cases "e = 0x41")
  case True
  with assms that [of 1 es] show thesis by (simp add: BLOCK_HAS_NEXT_def)
next
  case False
  with assms have e: "e = 0xC1" "wf_tbl True es" by (auto split: if_splits)
  from wf_tbl_open_run [OF e(2)] obtain m ys
    where m: "es = replicate m 0x81 @ 0x01 # ys" "wf_tbl False ys" "run_len es = Suc m" by blast
  with e(1) have "e # es = run_bytes (Suc (Suc m)) @ ys" by simp
  moreover have "run_len (e # es) = Suc (Suc m)" using e(1) m(3) by (simp add: BLOCK_HAS_NEXT_def)
  ultimately show thesis using that m(2) by blast
qed

lemma first_entry_wf:
  assumes "wf_tbl st (e # es)" "e AND BLOCK_IS_FIRST \<noteq> 0"
  shows "st = False \<and> e \<in> {0x41, 0xC1}"
  using assms by (cases st) (auto simp: BLOCK_IS_FIRST_def split: if_splits)

lemma owner_split:
  assumes wf: "wf_tbl False t" and own: "owner t b = Some n"
  obtains xs ys where "t = xs @ run_bytes n @ ys" "length xs = b" "0 < n"
    "wf_tbl False xs" "wf_tbl False ys"
proof -
  from own have b: "b < length t" "t ! b AND BLOCK_IS_FIRST \<noteq> 0" and n: "run_len (drop b t) = n"
    by (auto simp: owner_def split: if_splits)
  define es where "es = drop (Suc b) t"
  have d: "drop b t = t ! b # es" by (simp add: es_def Cons_nth_drop_Suc b)
  from wf_tbl_drop [OF wf, of b] obtain st where "wf_tbl st (t ! b # es)" by (auto simp: d)
  from first_entry_wf [OF this b(2)] have e: "t ! b \<in> {0x41, 0xC1}" by blast
  have t: "t = take b t @ t ! b # es" using id_take_nth_drop [OF b(1)] by (simp only: es_def)
  have "wf_tbl False (take b t @ t ! b # es)" using wf t by (simp only: id_def)
  from wf_tbl_split [OF this] e
  have wf2: "wf_tbl False (take b t) \<and> wf_tbl False (t ! b # es)" by blast
  moreover have "t ! b \<noteq> 0" using e by auto
  ultimately obtain k ys where k: "t ! b # es = run_bytes k @ ys" "0 < k" "wf_tbl False ys"
      "run_len (t ! b # es) = k"
    using wf2 by (blast elim: wf_tbl_first_run)
  then have "k = n" using n d by simp
  show thesis
  proof (rule that)
    show "t = take b t @ run_bytes n @ ys" using t k(1) \<open>k = n\<close> by simp
  qed (use k wf2 b(1) \<open>k = n\<close> in auto)
qed

lemma free_at_split:
  assumes wf: "wf_tbl False t" and free: "free_at t s n" and n: "0 < n"
  obtains xs ys where "t = xs @ replicate n 0 @ ys" "length xs = s" "wf_tbl False xs" "wf_tbl False ys"
proof -
  from free have len: "s + n \<le> length t" and z: "\<And>k. k < n \<Longrightarrow> t ! (s + k) = 0"
    by (auto simp: free_at_def)
  define ys where "ys = drop (s + n) t"
  have "take n (drop s t) = replicate n 0"
    using len z by (intro nth_equalityI) auto
  then have t: "t = take s t @ replicate n 0 @ ys"
    by (metis append_take_drop_id drop_drop add.commute ys_def)
  obtain m where m: "n = Suc m" using n by (cases n) auto
  have "wf_tbl False (take s t) \<and> wf_tbl False (replicate n 0 @ ys)"
    using wf_tbl_split [of False "take s t" 0 "replicate m 0 @ ys"] wf t m by simp
  then show thesis using that [of "take s t" ys] t len by (simp add: wf_tbl_free)
qed

section \<open>The allocations of a table\<close>

lemma owner_append:
  assumes "wf_tbl False xs"
  shows "owner (xs @ zs) b = (if b < length xs then owner xs b else owner zs (b - length xs))"
proof (cases "b < length xs")
  case True
  obtain st where "wf_tbl st (drop b xs)" using wf_tbl_drop [OF assms] by blast
  then have "run_len (drop b xs @ zs) = run_len (drop b xs)"
    using True by (intro run_len_append) auto
  with True show ?thesis by (simp add: owner_def nth_append)
next
  case False
  then show ?thesis by (auto simp: owner_def nth_append)
qed

lemma owner_run:
  assumes "0 < n"
  shows "owner (run_bytes n @ ys) b = (if b = 0 then Some n else if b < n then None else owner ys (b - n))"
proof -
  have nth: "(run_bytes n @ ys) ! j = run_entry n j" if "j < n" for j
    using that by (simp add: run_bytes_def nth_append)
  have len: "run_len (replicate m 0x81 @ 0x01 # ys) = Suc m" for m
    by (induction m) (simp_all add: BLOCK_HAS_NEXT_def)
  have "run_len (run_bytes n @ ys) = n"
    using assms by (cases n; cases "n - 1") (simp_all add: BLOCK_HAS_NEXT_def len)
  moreover have "owner (run_bytes n @ ys) b = owner ys (b - n)" if "\<not> b < n"
    using that by (auto simp: owner_def nth_append)
  ultimately show ?thesis
    using assms by (auto simp: owner_def nth run_entry_def BLOCK_IS_FIRST_def)
qed

lemma owner_free:
  "owner (replicate n 0 @ ys) b = (if b < n then None else owner ys (b - n))"
  by (auto simp: owner_def nth_append)

lemma owner_mark:
  assumes "wf_tbl False xs" "0 < n"
  shows "owner (xs @ run_bytes n @ ys) = (owner (xs @ replicate n 0 @ ys))(length xs \<mapsto> n)"
  using assms by (auto simp: owner_append owner_run owner_free)

lemma owner_clear:
  assumes "wf_tbl False xs" "0 < n"
  shows "owner (xs @ replicate n 0 @ ys) = (owner (xs @ run_bytes n @ ys))(length xs := None)"
  using assms by (auto simp: owner_append owner_run owner_free)

lemma owner_bound:
  assumes "wf_tbl False t" "owner t b = Some n"
  shows "0 < n \<and> b + n \<le> length t"
  by (rule owner_split [OF assms]) auto

lemma owner_disjoint:
  assumes wf: "wf_tbl False t" and b: "owner t b = Some n" and c: "owner t c = Some m" and "b < c"
  shows "b + n \<le> c"
proof -
  from owner_split [OF wf b] obtain xs ys
    where t: "t = xs @ run_bytes n @ ys" "length xs = b" "0 < n" "wf_tbl False xs" .
  then have "owner t c = (if c - b < n then None else owner ys (c - b - n))"
    using \<open>b < c\<close> by (simp add: owner_append owner_run)
  with c \<open>b < c\<close> show ?thesis by (auto split: if_splits)
qed

lemma owner_not_free:
  assumes "wf_tbl False t" "owner t b = Some n" "free_at t s m" "0 < m"
  shows "b + n \<le> s \<or> s + m \<le> b"
proof (rule ccontr)
  assume "\<not> ?thesis"
  then have o: "s < b + n" "b < s + m" by auto
  from owner_split [OF assms(1,2)] obtain xs ys
    where t: "t = xs @ run_bytes n @ ys" "length xs = b" "0 < n" .
  define k where "k = max s b"
  have "t ! k = run_entry n (k - b)"
    using o t by (auto simp: k_def nth_append run_bytes_def)
  then have "t ! k \<noteq> 0" by (auto simp: run_entry_def)
  moreover have "s \<le> k" "k - s < m" using o assms(4) by (auto simp: k_def)
  ultimately show False using assms(3) by (auto simp: free_at_def dest: spec [of _ "k - s"])
qed

text \<open>Two well-formed tables of one length with the same allocations are equal.\<close>

lemma owner_tl:
  assumes "wf_tbl False xs" "length xs = k"
  shows "owner (xs @ zs) (k + b) = owner zs b"
  using assms by (simp add: owner_append)

lemma owner_inject:
  "wf_tbl False t \<Longrightarrow> wf_tbl False t' \<Longrightarrow> length t = length t' \<Longrightarrow> owner t = owner t' \<Longrightarrow> t = t'"
proof (induction "length t" arbitrary: t t' rule: less_induct)
  case less
  show ?case
  proof (cases t)
    case Nil
    with less.prems show ?thesis by simp
  next
    case (Cons e es)
    then obtain e' es' where t': "t' = e' # es'" using less.prems(3) by (cases t') auto
    show ?thesis
    proof (cases "owner t 0")
      case None
      then have "e = 0" "e' = 0"
        using less.prems Cons t'
        by (auto simp: owner_def BLOCK_IS_FIRST_def fun_eq_iff split: if_splits)
      moreover have "es = es'"
      proof (rule less.hyps)
        show "owner es = owner es'"
          using less.prems(4) Cons t' calculation owner_tl [of "[0]" 1 es] owner_tl [of "[0]" 1 es']
          by (auto simp: fun_eq_iff)
      qed (use less.prems Cons t' calculation in auto)
      ultimately show ?thesis using Cons t' by simp
    next
      case (Some n)
      then have "owner t' 0 = Some n" using less.prems(4) by simp
      from owner_split [OF less.prems(1) Some] obtain ys
        where t: "t = run_bytes n @ ys" "0 < n" "wf_tbl False ys" by auto
      from owner_split [OF less.prems(2) \<open>owner t' 0 = Some n\<close>] obtain ys'
        where t': "t' = run_bytes n @ ys'" "wf_tbl False ys'" by auto
      have wfr: "wf_tbl False (run_bytes n)" using wf_tbl_run [of n "[]"] t(2) by simp
      have "ys = ys'"
      proof (rule less.hyps)
        show "length ys < length t" using t by simp
        have "owner ys x = owner t (n + x)" "owner ys' x = owner t' (n + x)" for x
          using t t' owner_tl [OF wfr run_bytes_length] by simp_all
        then show "owner ys = owner ys'" using less.prems(4) by (auto simp: fun_eq_iff)
      qed (use t t' less.prems(3) in auto)
      with t t' show ?thesis by simp
    qed
  qed
qed

section \<open>Counting free blocks\<close>

definition free_count :: "u8 list \<Rightarrow> nat" where
  "free_count t = length (filter (\<lambda>e. e = 0) t)"

lemma free_count_run: "0 < n \<Longrightarrow> free_count (xs @ run_bytes n @ ys) = free_count xs + free_count ys"
  by (cases n; cases "n - 1") (auto simp: free_count_def)

lemma free_count_free: "free_count (xs @ replicate n 0 @ ys) = free_count xs + n + free_count ys"
  by (simp add: free_count_def)

lemma free_count_pos: "0 < free_count t \<Longrightarrow> \<exists>s. free_at t s 1"
  unfolding free_count_def free_at_def
  by (force simp: filter_empty_conv in_set_conv_nth)

end
