(* ===== verification/HeapAlloc.thy ===== *)
theory HeapAlloc
  imports HeapTable
begin

text \<open>
  The C functions of the heap against its table: what the search loop finds, what the
  marking and freeing loops write, and the resulting behaviour of \<open>heap_malloc\<close> and
  \<open>heap_free\<close> on well-formed heaps.
\<close>

section \<open>The search loop\<close>

definition run_free :: "(int \<Rightarrow> u8) \<Rightarrow> int \<Rightarrow> int \<Rightarrow> bool" where
  "run_free es s w \<longleftrightarrow> (\<forall>k. s \<le> k \<and> k < s + w \<longrightarrow> es k = 0)"

lemma run_free_empty: "run_free es s 0"
  by (auto simp: run_free_def)

text \<open>
  What the loop returns from index \<open>i\<close> with \<open>bc\<close> free entries just seen: the first run
  of \<open>w\<close> free entries, or else the start of the free run at the end of the table
  (\<open>-1\<close> if the last entry is taken).
\<close>

definition scan_result :: "(int \<Rightarrow> u8) \<Rightarrow> int \<Rightarrow> int \<Rightarrow> int \<Rightarrow> int \<Rightarrow> bool" where
  "scan_result es lo hi w r \<longleftrightarrow>
     (lo \<le> r \<and> r + w \<le> hi \<and> run_free es r w \<and> (\<forall>s. lo \<le> s \<and> s < r \<longrightarrow> \<not> run_free es s w))
   \<or> ((\<forall>s. lo \<le> s \<and> s + w \<le> hi \<longrightarrow> \<not> run_free es s w) \<and>
      (if lo < hi \<and> es (hi - 1) = 0
       then lo \<le> r \<and> r < hi \<and> run_free es r (hi - r) \<and> (r = lo \<or> es (r - 1) \<noteq> 0)
       else r = -1))"

lemma scan_result_skip:
  assumes "scan_result es (i + 1) hi w r" "es i \<noteq> 0" "lo \<le> i" "i < lo + w" "i < hi" "-1 \<le> lo"
  shows "scan_result es lo hi w r"
proof -
  have block: "\<not> run_free es s w" if "lo \<le> s" "s \<le> i" for s
    using that assms by (auto simp: run_free_def)
  from assms(1) show ?thesis
    unfolding scan_result_def
  proof (elim disjE)
    assume r: "i + 1 \<le> r \<and> r + w \<le> hi \<and> run_free es r w \<and>
      (\<forall>s. i + 1 \<le> s \<and> s < r \<longrightarrow> \<not> run_free es s w)"
    have "\<not> run_free es s w" if "lo \<le> s" "s < r" for s
      using that r block [of s] by (cases "s \<le> i") auto
    with r assms(3) show "(lo \<le> r \<and> r + w \<le> hi \<and> run_free es r w \<and> (\<forall>s. lo \<le> s \<and> s < r \<longrightarrow> \<not> run_free es s w))
   \<or> ((\<forall>s. lo \<le> s \<and> s + w \<le> hi \<longrightarrow> \<not> run_free es s w) \<and>
      (if lo < hi \<and> es (hi - 1) = 0
       then lo \<le> r \<and> r < hi \<and> run_free es r (hi - r) \<and> (r = lo \<or> es (r - 1) \<noteq> 0)
       else r = -1))" by auto
  next
    assume r: "(\<forall>s. i + 1 \<le> s \<and> s + w \<le> hi \<longrightarrow> \<not> run_free es s w) \<and>
      (if i + 1 < hi \<and> es (hi - 1) = 0
       then i + 1 \<le> r \<and> r < hi \<and> run_free es r (hi - r) \<and> (r = i + 1 \<or> es (r - 1) \<noteq> 0)
       else r = -1)"
    have none: "\<not> run_free es s w" if "lo \<le> s" "s + w \<le> hi" for s
      using that r block [of s] by (cases "s \<le> i") auto
    show "(lo \<le> r \<and> r + w \<le> hi \<and> run_free es r w \<and> (\<forall>s. lo \<le> s \<and> s < r \<longrightarrow> \<not> run_free es s w))
   \<or> ((\<forall>s. lo \<le> s \<and> s + w \<le> hi \<longrightarrow> \<not> run_free es s w) \<and>
      (if lo < hi \<and> es (hi - 1) = 0
       then lo \<le> r \<and> r < hi \<and> run_free es r (hi - r) \<and> (r = lo \<or> es (r - 1) \<noteq> 0)
       else r = -1))"
    proof (cases "es (hi - 1) = 0")
      case True
      then have "i + 1 < hi" using assms(2,5) by (cases "hi - 1 = i") auto
      with True r none assms show ?thesis by auto
    next
      case False
      with r none show ?thesis by auto
    qed
  qed
qed

lemma heap_scan_result:
  assumes "0 \<le> bc" "bc < uint want" "bs = (if bc = 0 then -1 else i - bc)"
    "run_free es (i - bc) bc" "0 \<le> i - bc" "i + int n < 2 ^ 31"
  shows "scan_result es (i - bc) (i + int n) (uint want) (heap_scan es want n i bc bs)"
  using assms
proof (induction n arbitrary: i bc bs)
  case 0
  have "\<not> run_free es s (uint want)" if "i - bc \<le> s" "s + uint want \<le> i" for s
    using that 0 by auto
  moreover have "es (i - 1) = 0" if "0 < bc"
    using that 0(4) by (auto simp: run_free_def)
  ultimately show ?case using 0 by (auto simp: scan_result_def)
next
  case (Suc n)
  let ?w = "uint want"
  have hi: "i + int (Suc n) = i + 1 + int n" by simp
  show ?case
  proof (cases "es i = 0")
    case False
    have "scan_result es (i + 1) (i + 1 + int n) ?w (heap_scan es want n (i + 1) 0 (-1))"
      using Suc.IH [of 0 "-1" "i + 1"] Suc.prems by (simp add: run_free_def)
    then have "scan_result es (i - bc) (i + 1 + int n) ?w (heap_scan es want n (i + 1) 0 (-1))"
      by (rule scan_result_skip) (use False Suc.prems in auto)
    then show ?thesis unfolding hi using False by (simp add: ENTRY_FREE_def heap_get_entry_type_def)
  next
    case True
    define bs' where "bs' = (if bs = -1 then i else bs)"
    have bs': "bs' = i - bc" using Suc.prems by (auto simp: bs'_def)
    have run: "run_free es (i - bc) (bc + 1)"
      using Suc.prems(4) True by (auto simp: run_free_def) (metis zle_add1_eq_le order_le_less)
    have eq: "word_of_int (bc + 1) = want \<longleftrightarrow> bc + 1 = ?w"
      using Suc.prems by (intro word_of_int_eq_iff_u32) auto
    have step: "heap_scan es want (Suc n) i bc bs =
        (if bc + 1 = ?w then bs' else heap_scan es want n (i + 1) (bc + 1) bs')"
      using True eq by (simp add: ENTRY_FREE_def heap_get_entry_type_def bs'_def Let_def)
    show ?thesis
    proof (cases "bc + 1 = ?w")
      case True
      with run bs' step show ?thesis by (auto simp: scan_result_def)
    next
      case False
      then show ?thesis
        unfolding hi using Suc.IH [of "bc + 1" bs' "i + 1"] Suc.prems run bs' step by simp
    qed
  qed
qed

section \<open>Well-formed heaps\<close>

text \<open>
  The table is well formed, has fewer than \<open>2\<^sup>1\<^sup>9\<close> entries (so that C's
  \<open>block * 4096\<close> stays an \<open>int\<close>; the kernel has 25600), and the pool is aligned, not
  at address 0 and inside the address space.
\<close>

definition heap_ok :: "heap \<Rightarrow> bool" where
  "heap_ok h \<longleftrightarrow> wf_tbl False (tbl h) \<and> length (tbl h) < 2 ^ 19 \<and>
     unat (saddr h) mod 4096 = 0 \<and> 0 < unat (saddr h) \<and>
     unat (saddr h) + length (tbl h) * 4096 < 2 ^ 32"

definition block_addr :: "heap \<Rightarrow> nat \<Rightarrow> u32" where
  "block_addr h b = saddr h + of_nat b * HEAP_BLOCK_SIZE"

lemma block_addr_eq: "heap_block_to_address h (int b) = block_addr h b"
  by (simp add: heap_block_to_address_def block_addr_def)

lemma unat_block_addr:
  assumes "heap_ok h" "b < length (tbl h)"
  shows "unat (block_addr h b) = unat (saddr h) + b * 4096"
proof -
  have "unat (saddr h) + b * 4096 < 2 ^ 32"
    using assms by (simp add: heap_ok_def)
  from unat_add_small [OF this] show ?thesis
    by (simp add: block_addr_def HEAP_BLOCK_SIZE_def)
qed

lemma run_free_tbl:
  assumes "s + n \<le> length (tbl h)"
  shows "run_free (entries (table h)) (int s) (int n) \<longleftrightarrow> free_at (tbl h) s n"
proof -
  have "(\<forall>k. int s \<le> k \<and> k < int s + int n \<longrightarrow> entries (table h) k = 0) \<longleftrightarrow>
    (\<forall>j < n. entries (table h) (int (s + j)) = 0)" (is "?A = ?B")
  proof
    assume B: ?B
    show ?A
    proof (intro allI impI)
      fix k assume k: "int s \<le> k \<and> k < int s + int n"
      then have "nat k - s < n" "int (s + (nat k - s)) = k" by linarith+
      with B show "entries (table h) k = 0" by metis
    qed
  qed auto
  with assms show ?thesis by (simp add: run_free_def free_at_def)
qed

text \<open>The result of the search, in terms of the table.\<close>

lemma heap_start_block_scan:
  assumes "heap_ok h" "uint want = int w" "0 < w"
  obtains r where "scan_result (entries (table h)) 0 (int (length (tbl h))) (int w) r"
    "heap_get_start_block h want = (if r = -1 then - ENOMEM else r)"
proof
  let ?r = "heap_scan (entries (table h)) want (length (tbl h)) 0 0 (-1)"
  show "scan_result (entries (table h)) 0 (int (length (tbl h))) (int w) ?r"
    using heap_scan_result [of 0 want "-1" 0 "entries (table h)" "length (tbl h)"] assms
    by (simp add: heap_ok_def run_free_empty)
  show "heap_get_start_block h want = (if ?r = -1 then - ENOMEM else ?r)"
    by (simp add: heap_get_start_block_def Let_def tbl_length)
qed

lemma heap_first_fit:
  assumes ok: "heap_ok h" and w: "unat want = w" "0 < w" and fit: "free_at (tbl h) s w"
  obtains b where "heap_get_start_block h want = int b" "free_at (tbl h) b w"
    "\<forall>s < b. \<not> free_at (tbl h) s w"
proof -
  let ?t = "length (tbl h)" and ?es = "entries (table h)"
  have "uint want = int w" using w by (simp add: uint_nat)
  from heap_start_block_scan [OF ok this w(2)] obtain r
    where r: "scan_result ?es 0 (int ?t) (int w) r"
      "heap_get_start_block h want = (if r = -1 then - ENOMEM else r)" .
  have s: "s + w \<le> ?t" using fit by (simp add: free_at_def)
  then have "run_free ?es (int s) (int w)" using fit by (simp add: run_free_tbl)
  with s r(1) have f: "0 \<le> r" "r + int w \<le> int ?t" "run_free ?es r (int w)"
      "\<forall>s. 0 \<le> s \<and> s < r \<longrightarrow> \<not> run_free ?es s (int w)"
    unfolding scan_result_def by auto
  define b where "b = nat r"
  have b: "r = int b" using f(1) by (simp add: b_def)
  have "\<not> free_at (tbl h) s w" if "s < b" for s
    using f(2,4) that b run_free_tbl [of s w h] by auto
  moreover have "free_at (tbl h) b w"
    using f(2,3) b run_free_tbl [of b w h] by simp
  ultimately show thesis using that r(2) b by auto
qed

lemma heap_no_fit:
  assumes ok: "heap_ok h" and w: "unat want = w" "0 < w" and nofit: "\<nexists>s. free_at (tbl h) s w"
  shows "(tbl h = [] \<or> last (tbl h) \<noteq> 0) \<and> heap_get_start_block h want = - ENOMEM \<or>
    (\<exists>b < length (tbl h). heap_get_start_block h want = int b \<and>
       free_at (tbl h) b (length (tbl h) - b) \<and> (b = 0 \<or> tbl h ! (b - 1) \<noteq> 0))"
proof -
  let ?t = "length (tbl h)" and ?es = "entries (table h)"
  have "uint want = int w" using w by (simp add: uint_nat)
  from heap_start_block_scan [OF ok this w(2)] obtain r
    where r: "scan_result ?es 0 (int ?t) (int w) r"
      "heap_get_start_block h want = (if r = -1 then - ENOMEM else r)" .
  have no: "\<not> run_free ?es s (int w)" if "0 \<le> s" "s + int w \<le> int ?t" for s
    using that nofit run_free_tbl [of "nat s" w h] by auto
  with r(1) have d: "if 0 < int ?t \<and> ?es (int ?t - 1) = 0
       then 0 \<le> r \<and> r < int ?t \<and> run_free ?es r (int ?t - r) \<and> (r = 0 \<or> ?es (r - 1) \<noteq> 0)
       else r = -1"
    unfolding scan_result_def by blast
  show ?thesis
  proof (cases "0 < ?t \<and> ?es (int ?t - 1) = 0")
    case True
    with d have d': "0 \<le> r" "r < int ?t" "run_free ?es r (int ?t - r)" "r = 0 \<or> ?es (r - 1) \<noteq> 0"
      by auto
    define b where "b = nat r"
    have b: "r = int b" using d'(1) by (simp add: b_def)
    have "b < ?t" using d'(2) b by simp
    moreover have "free_at (tbl h) b (?t - b)"
      using d'(3) b \<open>b < ?t\<close> run_free_tbl [of b "?t - b" h] by (simp add: of_nat_diff)
    moreover have "b = 0 \<or> tbl h ! (b - 1) \<noteq> 0"
      using d'(4) b \<open>b < ?t\<close> by (auto simp: of_nat_diff)
    ultimately show ?thesis using r(2) b by auto
  next
    case False
    then have "tbl h = [] \<or> last (tbl h) \<noteq> 0"
      by (cases "?t") (auto simp: last_conv_nth of_nat_diff)
    with False d r(2) show ?thesis by auto
  qed
qed

section \<open>The marking and freeing loops\<close>

text \<open>The bytes \<open>bs\<close> written into the table from entry \<open>b\<close> on.\<close>

definition heap_write :: "heap \<Rightarrow> nat \<Rightarrow> u8 list \<Rightarrow> heap" where
  "heap_write h b bs = h\<lparr>table := (table h)\<lparr>entries := (\<lambda>k.
     if int b \<le> k \<and> k < int b + int (length bs) then bs ! nat (k - int b)
     else entries (table h) k)\<rparr>\<rparr>"

lemma heap_write_simps [simp]:
  "saddr (heap_write h b bs) = saddr h"
  "total (table (heap_write h b bs)) = total (table h)"
  "length (tbl (heap_write h b bs)) = length (tbl h)"
  by (simp_all add: heap_write_def tbl_length)

lemma entries_heap_write:
  "entries (table (heap_write h b bs)) k =
     (if int b \<le> k \<and> k < int b + int (length bs) then bs ! nat (k - int b)
      else entries (table h) k)"
  by (simp add: heap_write_def)

lemma tbl_heap_write:
  assumes "tbl h = xs @ zs @ ys" "length xs = b" "length zs = length bs"
  shows "tbl (heap_write h b bs) = xs @ bs @ ys"
proof (rule nth_equalityI)
  have len: "length (tbl h) = length xs + length bs + length ys" using assms by simp
  then show "length (tbl (heap_write h b bs)) = length (xs @ bs @ ys)" by simp
  fix i assume i: "i < length (tbl (heap_write h b bs))"
  have old: "entries (table h) (int i) = (xs @ zs @ ys) ! i"
    using i tbl_nth [of i h] by (simp add: assms(1))
  have "tbl (heap_write h b bs) ! i =
    (if b \<le> i \<and> i < b + length bs then bs ! (i - b) else entries (table h) (int i))"
    using i tbl_nth [of i "heap_write h b bs"]
    by (auto simp: heap_write_def of_nat_diff nat_diff_distrib)
  with old assms show "tbl (heap_write h b bs) ! i = (xs @ bs @ ys) ! i"
    by (auto simp: nth_append)
qed

lemma heap_mark_loop_eq:
  "heap_mark_loop es n i e entry = (\<lambda>k.
     if i \<le> k \<and> k < i + int n
     then (if k = i then entry else if k = e then 0x01 else 0x81) else es k)"
proof (induction n arbitrary: es i entry)
  case (Suc n)
  show ?case
    by (rule ext) (auto simp: Let_def Suc.IH ENTRY_TAKEN_def BLOCK_HAS_NEXT_def)
qed (auto simp: fun_eq_iff)

lemma heap_mark_write:
  assumes "0 < w"
  shows "heap_mark_blocks_taken h (int b) (int w) = heap_write h b (run_bytes w)"
proof -
  have "heap_mark_loop (entries (table h)) w (int b) (int b + int w - 1)
      (if int w > 1 then ENTRY_TAKEN OR BLOCK_IS_FIRST OR BLOCK_HAS_NEXT
       else ENTRY_TAKEN OR BLOCK_IS_FIRST) k =
    (if int b \<le> k \<and> k < int b + int w then run_bytes w ! nat (k - int b)
     else entries (table h) k)" for k
  proof (cases "int b \<le> k \<and> k < int b + int w")
    case True
    then obtain j where j: "k = int b + int j" "j < w"
      by (metis zle_iff_zadd add_less_cancel_left of_nat_less_iff)
    have e: "(k = int b + int w - 1) = (Suc j = w)" using j(1) by auto
    have "(ENTRY_TAKEN OR BLOCK_IS_FIRST OR BLOCK_HAS_NEXT) = 0xC1"
      "(ENTRY_TAKEN OR BLOCK_IS_FIRST) = 0x41" by (simp_all add: heap_consts)
    with j e show ?thesis
      by (auto simp: heap_mark_loop_eq run_bytes_def run_entry_def)
  next
    case False
    then show ?thesis by (auto simp: heap_mark_loop_eq)
  qed
  then show ?thesis
    by (auto simp: heap_mark_blocks_taken_def heap_write_def Let_def or.assoc fun_eq_iff)
qed

text \<open>Freeing follows the continuation bits of a run.\<close>

lemma heap_free_loop_eq:
  assumes "\<And>j. j < n \<Longrightarrow> es (i + int j) = run_entry m (m - n + j)" "0 < n" "n \<le> m" "n \<le> N"
  shows "heap_free_loop es N i = (\<lambda>k. if i \<le> k \<and> k < i + int n then 0 else es k)"
  using assms
proof (induction n arbitrary: es i N)
  case (Suc n)
  obtain N' where N: "N = Suc N'" using Suc.prems(4) by (cases N) auto
  have e: "es i = run_entry m (m - Suc n)" using Suc.prems(1) [of 0] by simp
  show ?case
  proof (cases "n = 0")
    case True
    then have "es i AND BLOCK_HAS_NEXT = 0"
      using e Suc.prems(3) by (auto simp: run_entry_def BLOCK_HAS_NEXT_def)
    with N True show ?thesis by (auto simp: ENTRY_FREE_def Let_def fun_eq_iff)
  next
    case False
    then have "es i AND BLOCK_HAS_NEXT \<noteq> 0"
      using e Suc.prems(3) by (auto simp: run_entry_def BLOCK_HAS_NEXT_def)
    moreover have "heap_free_loop (es(i := 0)) N' (i + 1) =
      (\<lambda>k. if i + 1 \<le> k \<and> k < i + 1 + int n then 0 else (es(i := 0)) k)"
    proof (rule Suc.IH)
      fix j assume "j < n"
      then show "(es(i := 0)) (i + 1 + int j) = run_entry m (m - n + j)"
        using Suc.prems(1) [of "Suc j"] Suc.prems(3) by (simp add: Suc_diff_Suc algebra_simps)
    qed (use False Suc.prems N in auto)
    ultimately show ?thesis using N by (auto simp: ENTRY_FREE_def Let_def fun_eq_iff)
  qed
qed simp

lemma heap_free_write:
  assumes t: "tbl h = xs @ run_bytes n @ ys" "0 < n" and small: "length (tbl h) < 2 ^ 31"
  shows "heap_mark_blocks_free h (int (length xs)) = heap_write h (length xs) (replicate n 0)"
proof -
  have len: "length (tbl h) = length xs + n + length ys" using t by simp
  have "uint (total (table h)) < 2 ^ 31" using small by (simp add: tbl_length_int)
  then have s: "sint (total (table h)) = int (length (tbl h))"
    by (simp add: tbl_length_int sint_uint signed_take_bit_int_eq_self)
  have "entries (table h) (int (length xs) + int j) = run_entry n j" if "j < n" for j
    using that len t(1) tbl_nth [of "length xs + j" h] by (simp add: nth_append run_bytes_def)
  then have "heap_free_loop (entries (table h)) (nat (int (length (tbl h)) - int (length xs)))
      (int (length xs)) = (\<lambda>k. if int (length xs) \<le> k \<and> k < int (length xs) + int n then 0
      else entries (table h) k)"
    using heap_free_loop_eq [of n "entries (table h)" "int (length xs)" n] t(2) len by simp
  also have "\<dots> = (\<lambda>k. if int (length xs) \<le> k \<and> k < int (length xs) + int n
      then replicate n 0 ! nat (k - int (length xs)) else entries (table h) k)"
    by (auto simp: fun_eq_iff)
  finally show ?thesis
    by (simp add: heap_mark_blocks_free_def heap_write_def s)
qed

end
