(* ===== verification/Allocator.thy ===== *)
theory Allocator
  imports HeapAlloc "HOL-Library.Multiset"
begin

text \<open>
  What the heap promises its clients. The allocations of a heap are a finite map from
  addresses to block counts (\<open>owned\<close>); \<open>heap_malloc\<close> adds one entry, \<open>heap_free\<close>
  removes one. On top of it the kernel heap of \<open>src/src/memory/heap/kheap.c\<close>, with
  \<open>kzalloc\<close> and \<open>kfree\<close> on the kernel's memory, and the interface that the other
  components use.
\<close>

section \<open>Block counts and addresses\<close>

definition blocks_for :: "nat \<Rightarrow> nat" where
  "blocks_for n = (n + 4095) div 4096"

lemma blocks_for_pos: "0 < n \<Longrightarrow> 0 < blocks_for n"
  by (simp add: blocks_for_def div_greater_zero_iff)

lemma blocks_for_one: "0 < n \<Longrightarrow> n \<le> 4096 \<Longrightarrow> blocks_for n = 1"
  by (simp add: blocks_for_def le_div_geq)

lemma heap_align_blocks:
  assumes "unat sz \<le> 2 ^ 32 - 4096"
  shows "unat (heap_align_value_to_upper sz div HEAP_BLOCK_SIZE) = blocks_for (unat sz)"
proof (cases "unat sz mod 4096 = 0")
  case True
  then have "sz mod HEAP_BLOCK_SIZE = 0"
    by (simp add: HEAP_BLOCK_SIZE_def unat_mod_distrib flip: unat_inj_iff)
  moreover have "blocks_for (unat sz) = unat sz div 4096"
  proof -
    obtain q where "unat sz = q * 4096" using True by (metis div_mult_mod_eq add_0_right)
    then show ?thesis by (simp add: blocks_for_def)
  qed
  ultimately show ?thesis
    by (simp add: heap_align_value_to_upper_def HEAP_BLOCK_SIZE_def unat_div_distrib)
next
  case False
  define q r where "q = unat sz div 4096" and "r = unat sz mod 4096"
  have s: "unat sz = q * 4096 + r" "0 < r" "r < 4096"
    using False by (simp_all add: q_def r_def)
  have m: "unat (sz mod HEAP_BLOCK_SIZE) = r"
    by (simp add: HEAP_BLOCK_SIZE_def unat_mod_distrib r_def)
  have low: "unat (sz - sz mod HEAP_BLOCK_SIZE) = q * 4096"
    using m s by (subst unat_sub) (auto simp: word_le_nat_alt)
  have "q * 4096 + 4096 < 2 ^ 32" using assms s by simp
  then have "unat (sz - sz mod HEAP_BLOCK_SIZE + HEAP_BLOCK_SIZE) = (q + 1) * 4096"
    using low unat_add_small [of "sz - sz mod HEAP_BLOCK_SIZE" 4096]
    by (simp add: HEAP_BLOCK_SIZE_def)
  moreover have "sz mod HEAP_BLOCK_SIZE \<noteq> 0" using m s by (metis unsigned_0 less_irrefl)
  ultimately have "unat (heap_align_value_to_upper sz div HEAP_BLOCK_SIZE) = q + 1"
    by (simp add: heap_align_value_to_upper_def unat_div_distrib) (simp add: HEAP_BLOCK_SIZE_def)
  moreover have "blocks_for (unat sz) = q + 1"
    using s by (simp add: blocks_for_def add.assoc le_div_geq)
  ultimately show ?thesis by simp
qed

lemma heap_ok_bounds:
  assumes "heap_ok h"
  shows "wf_tbl False (tbl h)" "length (tbl h) < 2 ^ 19" "length (tbl h) < 2 ^ 31"
  using assms by (simp_all add: heap_ok_def)

lemma block_addr_inject:
  assumes "heap_ok h" "b < length (tbl h)" "c < length (tbl h)" "block_addr h b = block_addr h c"
  shows "b = c"
  using assms unat_block_addr by (metis add_left_cancel mult_cancel2 zero_neq_numeral)

lemma block_addr_nonzero: "heap_ok h \<Longrightarrow> b < length (tbl h) \<Longrightarrow> block_addr h b \<noteq> 0"
  using unat_block_addr [of h b] by (auto simp: heap_ok_def)

lemma heap_address_to_block_addr:
  assumes "heap_ok h" "b < length (tbl h)"
  shows "heap_address_to_block h (block_addr h b) = int b"
proof -
  have b: "b * 4096 < 2 ^ 31" using assms by (simp add: heap_ok_def)
  have "block_addr h b - saddr h = word_of_int (int (b * 4096))"
    by (simp add: block_addr_def HEAP_BLOCK_SIZE_def)
  moreover have "sint (word_of_int (int (b * 4096)) :: u32) = int (b * 4096)"
    using b by (subst sint_word_of_int_u32) auto
  ultimately show ?thesis
    by (simp add: heap_address_to_block_def HEAP_BLOCK_SIZE_def sdiv_nonneg)
qed

section \<open>malloc and free on a well-formed heap\<close>

lemma heap_write_ok:
  assumes "heap_ok h" "wf_tbl False (tbl (heap_write h b bs))"
  shows "heap_ok (heap_write h b bs)"
  using assms by (simp add: heap_ok_def)

lemma heap_malloc_write:
  assumes ok: "heap_ok h" and sz: "0 < unat sz" "unat sz \<le> 2 ^ 32 - 4096"
    and fit: "free_at (tbl h) s (blocks_for (unat sz))"
  obtains b where
    "heap_malloc h sz = (block_addr h b, heap_write h b (run_bytes (blocks_for (unat sz))))"
    "free_at (tbl h) b (blocks_for (unat sz))" "b < length (tbl h)"
    "\<forall>s < b. \<not> free_at (tbl h) s (blocks_for (unat sz))"
proof -
  define n where "n = blocks_for (unat sz)"
  have n: "0 < n" using sz(1) by (simp add: n_def blocks_for_pos)
  let ?want = "heap_align_value_to_upper sz div HEAP_BLOCK_SIZE"
  have want: "unat ?want = n" using heap_align_blocks sz(2) by (simp add: n_def)
  from heap_first_fit [OF ok want n] fit obtain b
    where b: "heap_get_start_block h ?want = int b" "free_at (tbl h) b n"
      "\<forall>s < b. \<not> free_at (tbl h) s n" by (auto simp: n_def)
  have small: "n < 2 ^ 31" using b(2) heap_ok_bounds(3) [OF ok] by (simp add: free_at_def)
  have "?want = of_nat n" using of_nat_unat_id [of ?want] unfolding want by simp
  then have "sint ?want = int n" using small sint_word_of_int_u32 [of "int n"] by simp
  then have "heap_malloc h sz = (block_addr h b, heap_write h b (run_bytes n))"
    using b(1) n by (simp add: heap_malloc_def heap_malloc_blocks_def block_addr_eq heap_mark_write)
  moreover have "b < length (tbl h)" using b(2) n by (simp add: free_at_def)
  ultimately show thesis using that b unfolding n_def by blast
qed

text \<open>The allocations of a heap, by address.\<close>

definition owned :: "heap \<Rightarrow> u32 \<Rightarrow> nat option" where
  "owned h p = (let d = unat p - unat (saddr h)
     in if unat (saddr h) \<le> unat p \<and> d mod 4096 = 0 then owner (tbl h) (d div 4096) else None)"

lemma owned_block_addr:
  assumes "heap_ok h" "b < length (tbl h)"
  shows "owned h (block_addr h b) = owner (tbl h) b"
  using unat_block_addr [OF assms] by (simp add: owned_def)

lemma owned_cases:
  assumes ok: "heap_ok h" and own: "owned h p = Some n"
  obtains b where "p = block_addr h b" "owner (tbl h) b = Some n" "b < length (tbl h)"
proof -
  define b where "b = (unat p - unat (saddr h)) div 4096"
  from own have d: "unat (saddr h) \<le> unat p" "(unat p - unat (saddr h)) mod 4096 = 0"
    and b: "owner (tbl h) b = Some n"
    by (auto simp: owned_def b_def Let_def split: if_splits)
  have len: "b < length (tbl h)" using b by (auto simp: owner_def split: if_splits)
  have "unat p = unat (saddr h) + b * 4096"
    using d by (simp add: b_def) (metis le_add_diff_inverse div_mult_mod_eq add_0_right)
  then have "unat p = unat (block_addr h b)" using unat_block_addr [OF ok len] by simp
  then have "p = block_addr h b" by simp
  from that [OF this b len] show thesis .
qed

lemma owned_upd:
  assumes ok: "heap_ok h" and ok': "heap_ok h'" and b: "b < length (tbl h)"
    and eq: "saddr h' = saddr h" "length (tbl h') = length (tbl h)"
    and own: "owner (tbl h') = (owner (tbl h))(b := v)"
  shows "owned h' = (owned h)(block_addr h b := v)"
proof
  fix p
  show "owned h' p = ((owned h)(block_addr h b := v)) p"
  proof (cases "unat (saddr h) \<le> unat p \<and> (unat p - unat (saddr h)) mod 4096 = 0")
    case True
    define q where "q = (unat p - unat (saddr h)) div 4096"
    have "unat p = unat (saddr h) + q * 4096"
      using True by (simp add: q_def) (metis le_add_diff_inverse div_mult_mod_eq add_0_right)
    then have "q = b \<longleftrightarrow> unat p = unat (block_addr h b)"
      using unat_block_addr [OF ok b] by simp
    then have "q = b \<longleftrightarrow> p = block_addr h b" by simp
    moreover have "owned h' p = owner (tbl h') q" "owned h p = owner (tbl h) q"
      using True eq(1) by (simp_all add: owned_def q_def)
    ultimately show ?thesis using own by simp
  next
    case False
    then have "p \<noteq> block_addr h b" using unat_block_addr [OF ok b] by auto
    with False eq(1) show ?thesis by (auto simp: owned_def Let_def)
  qed
qed

lemma heap_malloc_owned:
  assumes ok: "heap_ok h" and sz: "0 < unat sz" "unat sz \<le> 2 ^ 32 - 4096"
    and fit: "free_at (tbl h) s (blocks_for (unat sz))"
  obtains p h' where "heap_malloc h sz = (p, h')" "p \<noteq> 0" "heap_ok h'" "owned h p = None"
    "owned h' = (owned h)(p \<mapsto> blocks_for (unat sz))"
    "free_count (tbl h) = blocks_for (unat sz) + free_count (tbl h')"
proof -
  define n where "n = blocks_for (unat sz)"
  have n: "0 < n" using sz(1) by (simp add: n_def blocks_for_pos)
  from heap_malloc_write [OF ok sz fit] obtain b
    where b: "heap_malloc h sz = (block_addr h b, heap_write h b (run_bytes n))"
      "free_at (tbl h) b n" "b < length (tbl h)" unfolding n_def .
  let ?h = "heap_write h b (run_bytes n)"
  from free_at_split [OF heap_ok_bounds(1) [OF ok] b(2) n] obtain xs ys
    where t: "tbl h = xs @ replicate n 0 @ ys" "length xs = b" "wf_tbl False xs" "wf_tbl False ys" .
  have t': "tbl ?h = xs @ run_bytes n @ ys" using tbl_heap_write [OF t(1,2)] by simp
  have ok': "heap_ok ?h"
    using ok by (rule heap_write_ok) (simp add: t' wf_tbl_append t(3,4) wf_tbl_run n)
  have own: "owner (tbl ?h) = (owner (tbl h))(b := Some n)"
    using owner_mark [OF t(3) n] t t' by simp
  have "owner (tbl h) b = None" using t by (simp add: owner_append owner_free n)
  then have "owned h (block_addr h b) = None" using owned_block_addr [OF ok b(3)] by simp
  moreover have "free_count (tbl h) = n + free_count (tbl ?h)"
    using t t' n by (simp add: free_count_run free_count_free)
  moreover have "owned ?h = (owned h)(block_addr h b := Some n)"
    using owned_upd [OF ok ok' b(3) _ _ own] by simp
  ultimately show thesis
    using that [OF b(1)] block_addr_nonzero [OF ok b(3)] ok' by (simp add: n_def)
qed

lemma heap_free_owned:
  assumes ok: "heap_ok h" and own: "owned h p = Some n"
  shows "heap_ok (heap_free h p)" "owned (heap_free h p) = (owned h)(p := None)"
    "free_count (tbl (heap_free h p)) = free_count (tbl h) + n"
proof -
  from owned_cases [OF ok own] obtain b
    where b: "p = block_addr h b" "owner (tbl h) b = Some n" "b < length (tbl h)" .
  from owner_split [OF heap_ok_bounds(1) [OF ok] b(2)] obtain xs ys
    where t: "tbl h = xs @ run_bytes n @ ys" "length xs = b" "0 < n" "wf_tbl False xs" "wf_tbl False ys" .
  have f: "heap_free h p = heap_write h b (replicate n 0)"
    using heap_free_write [OF t(1,3) heap_ok_bounds(3) [OF ok]] b t(2)
      heap_address_to_block_addr [OF ok b(3)] by (simp add: heap_free_def)
  have t': "tbl (heap_free h p) = xs @ replicate n 0 @ ys"
    unfolding f using tbl_heap_write [OF t(1,2)] by simp
  show ok': "heap_ok (heap_free h p)"
    unfolding f using ok by (rule heap_write_ok) (simp add: t' [unfolded f] wf_tbl_append t wf_tbl_free)
  have "owner (tbl (heap_free h p)) = (owner (tbl h))(b := None)"
    using owner_clear [OF t(4,3)] t t' by simp
  then show "owned (heap_free h p) = (owned h)(p := None)"
    unfolding b(1) using owned_upd [OF ok ok' b(3)] f b(1) by simp
  show "free_count (tbl (heap_free h p)) = free_count (tbl h) + n"
    using t t' by (simp add: free_count_run free_count_free)
qed

end
