(* ===== verification/KMem.thy ===== *)
theory KMem
  imports Allocator
begin

text \<open>
  The kernel heap \<open>kheap.c\<close> over the kernel's memory: \<open>kmalloc\<close>, \<open>kzalloc\<close> and
  \<open>kfree\<close>, the interface \<open>page_allocator\<close> that the clients of the heap rely on, its
  interpretation on the C functions, and the properties of the heap.
\<close>

section \<open>kheap.c\<close>

text \<open>
  The memory routine \<open>memset\<close> on physical memory; addresses wrap at 4 GB. The kernel's
  memory consists of the heap (with the bytes around its table) and the RAM the pool and
  everything else live in.
\<close>

fun ram_memset :: "ram \<Rightarrow> u32 \<Rightarrow> u8 \<Rightarrow> nat \<Rightarrow> ram" where
  "ram_memset m p c 0 = m"
| "ram_memset m p c (Suc n) = ram_memset (m(p := c)) (p + 1) c n"

record kmem =
  kernel_heap :: heap
  ram :: ram

definition HEAP_SIZE_BYTES :: u32 where "HEAP_SIZE_BYTES = 104857600"
definition HEAP_ADDRESS :: u32 where "HEAP_ADDRESS = 0x01000000"

text \<open>
  \<open>table_memory\<close> is the memory at \<open>HARDIKHYPERIONOS_HEAP_TABLE_ADDRESS\<close>. The status is
  what \<open>heap_create\<close> returned; the C function prints a message when it is negative.
\<close>

definition kheap_init :: "(int \<Rightarrow> u8) \<Rightarrow> heap \<Rightarrow> int \<times> heap" where
  "kheap_init table_memory h =
     (let total_table_entries = HEAP_SIZE_BYTES div HEAP_BLOCK_SIZE;
          t = \<lparr>entries = table_memory, total = total_table_entries\<rparr>
      in heap_create h HEAP_ADDRESS (HEAP_ADDRESS + HEAP_SIZE_BYTES) t)"

definition kmalloc :: "kmem \<Rightarrow> u32 \<Rightarrow> u32 \<times> kmem" where
  "kmalloc m sz = (let (p, h) = heap_malloc (kernel_heap m) sz in (p, m\<lparr>kernel_heap := h\<rparr>))"

definition kzalloc :: "kmem \<Rightarrow> u32 \<Rightarrow> u32 \<times> kmem" where
  "kzalloc m sz =
     (let (ptr, m1) = kmalloc m sz
      in if ptr = 0 then (0, m1)
         else (ptr, m1\<lparr>ram := ram_memset (ram m1) ptr 0x00 (unat sz)\<rparr>))"

definition kfree :: "kmem \<Rightarrow> u32 \<Rightarrow> kmem" where
  "kfree m ptr = m\<lparr>kernel_heap := heap_free (kernel_heap m) ptr\<rparr>"

lemma ram_memset_out:
  "(\<And>i. i < n \<Longrightarrow> a \<noteq> p + of_nat i) \<Longrightarrow> ram_memset m p c n a = m a"
proof (induction n arbitrary: m p)
  case (Suc n)
  have "a \<noteq> p + 1 + of_nat j" if "j < n" for j
    using Suc.prems [of "Suc j"] that by (simp add: add.assoc)
  then have "ram_memset (m(p := c)) (p + 1) c n a = (m(p := c)) a" by (rule Suc.IH)
  then show ?case using Suc.prems [of 0] by simp
qed simp

lemma u32_offset_inject:
  "i < 2 ^ 32 \<Longrightarrow> j < 2 ^ 32 \<Longrightarrow> p + of_nat i = (p :: u32) + of_nat j \<longleftrightarrow> i = j"
  by (metis add_left_cancel unat_of_nat_u32)

lemma ram_memset_in:
  "i < n \<Longrightarrow> n \<le> 2 ^ 32 \<Longrightarrow> ram_memset m p c n (p + of_nat i) = c"
proof (induction n arbitrary: m p i)
  case (Suc n)
  show ?case
  proof (cases i)
    case 0
    have "p \<noteq> p + 1 + of_nat j" if "j < n" for j
      using u32_offset_inject [of 0 "Suc j" p] that Suc.prems(2) by (simp add: add.assoc)
    then have "ram_memset (m(p := c)) (p + 1) c n p = (m(p := c)) p"
      by (rule ram_memset_out)
    with 0 show ?thesis by simp
  next
    case (Suc j)
    have "ram_memset (m(p := c)) (p + 1) c n (p + 1 + of_nat j) = c"
      by (rule Suc.IH) (use Suc Suc.prems in auto)
    then show ?thesis using Suc by (simp add: add.assoc)
  qed
qed simp

section \<open>The interface\<close>

text \<open>
  What a client of the kernel heap may rely on for objects of at most one block:
  as long as there is room, an allocation succeeds, is not null and is new; a release
  takes exactly one allocation away; and the allocations determine the heap.
\<close>

locale page_allocator =
  fixes alloc :: "'m \<Rightarrow> u32 \<Rightarrow> u32 \<times> 'm"
    and release :: "'m \<Rightarrow> u32 \<Rightarrow> 'm"
    and allocs :: "'m \<Rightarrow> u32 \<Rightarrow> nat option"
    and ok :: "'m \<Rightarrow> bool"
    and room :: "'m \<Rightarrow> nat"
    and frame :: "'m \<Rightarrow> 'f"
    and core :: "'m \<Rightarrow> 'c"
  assumes alloc_law: "ok m \<Longrightarrow> 0 < unat sz \<Longrightarrow> unat sz \<le> 4096 \<Longrightarrow> 0 < room m \<Longrightarrow>
      \<exists>p m'. alloc m sz = (p, m') \<and> p \<noteq> 0 \<and> ok m' \<and> allocs m p = None \<and>
        allocs m' = (allocs m)(p \<mapsto> 1) \<and> room m = Suc (room m') \<and> frame m' = frame m"
    and release_law: "ok m \<Longrightarrow> allocs m p = Some n \<Longrightarrow>
      ok (release m p) \<and> allocs (release m p) = (allocs m)(p := None) \<and>
      room (release m p) = room m + n \<and> frame (release m p) = frame m"
    and core_inject: "ok m \<Longrightarrow> ok m' \<Longrightarrow> frame m = frame m' \<Longrightarrow> allocs m = allocs m' \<Longrightarrow>
      core m = core m'"

text \<open>A run of allocations, and the release of a list of pointers.\<close>

fun alloc_seq :: "('m \<Rightarrow> u32 \<Rightarrow> u32 \<times> 'm) \<Rightarrow> 'm \<Rightarrow> u32 list \<Rightarrow> u32 list \<times> 'm" where
  "alloc_seq al m [] = ([], m)"
| "alloc_seq al m (sz # szs) =
     (let (p, m1) = al m sz; (ps, m2) = alloc_seq al m1 szs in (p # ps, m2))"

definition release_seq :: "('m \<Rightarrow> u32 \<Rightarrow> 'm) \<Rightarrow> u32 list \<Rightarrow> 'm \<Rightarrow> 'm" where
  "release_seq rel ps m = fold (\<lambda>p m. rel m p) ps m"

lemma release_seq_simps [simp]:
  "release_seq rel [] m = m"
  "release_seq rel (p # ps) m = release_seq rel ps (rel m p)"
  "release_seq rel (ps @ qs) m = release_seq rel qs (release_seq rel ps m)"
  by (simp_all add: release_seq_def)

text \<open>
  \<open>grown \<dots> m ps m'\<close>: \<open>m'\<close> is \<open>m\<close> with new one-block allocations at the addresses \<open>ps\<close>.
\<close>

definition grown :: "('m \<Rightarrow> u32 \<Rightarrow> nat option) \<Rightarrow> ('m \<Rightarrow> bool) \<Rightarrow> ('m \<Rightarrow> nat) \<Rightarrow> ('m \<Rightarrow> 'f) \<Rightarrow>
    'm \<Rightarrow> u32 list \<Rightarrow> 'm \<Rightarrow> bool" where
  "grown allocs ok room frame m ps m' \<longleftrightarrow> ok m' \<and> frame m' = frame m \<and> distinct ps \<and> 0 \<notin> set ps \<and>
     set ps \<inter> dom (allocs m) = {} \<and>
     allocs m' = (\<lambda>p. if p \<in> set ps then Some 1 else allocs m p) \<and> room m = length ps + room m'"

context page_allocator begin

lemma grown_refl: "ok m \<Longrightarrow> grown allocs ok room frame m [] m"
  by (simp add: grown_def)

lemma grown_trans:
  assumes "grown allocs ok room frame m ps m1" "grown allocs ok room frame m1 qs m2"
  shows "grown allocs ok room frame m (ps @ qs) m2"
proof -
  have d: "dom (allocs m1) = set ps \<union> dom (allocs m)"
    using assms(1) by (auto simp: grown_def)
  have "set ps \<inter> set qs = {}" "set qs \<inter> dom (allocs m) = {}"
    using assms(2) d by (auto simp: grown_def)
  moreover have "allocs m2 = (\<lambda>p. if p \<in> set (ps @ qs) then Some 1 else allocs m p)"
    using assms by (auto simp: grown_def fun_eq_iff)
  ultimately show ?thesis using assms by (simp add: grown_def Int_Un_distrib2)
qed

lemma grown_alloc:
  assumes "ok m" "0 < unat sz" "unat sz \<le> 4096" "0 < room m"
  obtains p m' where "alloc m sz = (p, m')" "p \<noteq> 0" "grown allocs ok room frame m [p] m'"
proof -
  from alloc_law [OF assms] obtain p m' where
    p: "alloc m sz = (p, m')" "p \<noteq> 0" "ok m'" "allocs m p = None" "allocs m' = (allocs m)(p \<mapsto> 1)"
      "room m = Suc (room m')" "frame m' = frame m" by blast
  then have "grown allocs ok room frame m [p] m'" by (auto simp: grown_def fun_eq_iff)
  with p show thesis by (intro that)
qed

lemma grown_free:
  assumes "grown allocs ok room frame m ps m'" "p \<in> set ps"
  shows "grown allocs ok room frame m (remove1 p ps) (release m' p)"
proof -
  note G = assms(1) [unfolded grown_def]
  have "allocs m' p = Some 1" using G assms(2) by simp
  from release_law [OF _ this] G
  have r: "ok (release m' p)" "allocs (release m' p) = (allocs m')(p := None)"
    "room (release m' p) = Suc (room m')" "frame (release m' p) = frame m" by auto
  have "allocs m p = None" using G assms(2) by blast
  then have "allocs (release m' p) = (\<lambda>q. if q \<in> set (remove1 p ps) then Some 1 else allocs m q)"
    using G by (auto simp: r(2) fun_eq_iff)
  moreover have "0 < length ps" using assms(2) by (cases ps) auto
  ultimately show ?thesis
    using G r assms(2) by (auto simp: grown_def length_remove1)
qed

lemma grown_perm:
  assumes "grown allocs ok room frame m ps m'" "mset qs = mset ps"
  shows "grown allocs ok room frame m qs m'"
proof -
  have "set qs = set ps" "length qs = length ps" "distinct qs \<longleftrightarrow> distinct ps"
    using assms(2) by (metis mset_eq_setD, metis mset_eq_length, metis mset_eq_imp_distinct_iff)
  with assms(1) show ?thesis by (simp add: grown_def)
qed

lemma grown_release_seq:
  "grown allocs ok room frame m ps m' \<Longrightarrow> mset ps = mset qs + mset rs \<Longrightarrow>
   grown allocs ok room frame m rs (release_seq release qs m')"
proof (induction qs arbitrary: ps m')
  case Nil
  then show ?case using grown_perm [of m ps m' rs] by simp
next
  case (Cons q qs)
  then have "q \<in> set ps" by (metis union_iff set_mset_mset list.set_intros(1))
  with Cons.IH [OF grown_free [OF Cons.prems(1) this]] Cons.prems(2) show ?case
    by (simp add: mset_remove1)
qed

lemma grown_core: "ok m \<Longrightarrow> grown allocs ok room frame m [] m' \<Longrightarrow> core m' = core m"
  by (intro core_inject) (auto simp: grown_def)

lemma alloc_seq_law:
  "ok m \<Longrightarrow> \<forall>sz \<in> set szs. 0 < unat sz \<and> unat sz \<le> 4096 \<Longrightarrow> length szs \<le> room m \<Longrightarrow>
   \<exists>ps m'. alloc_seq alloc m szs = (ps, m') \<and> length ps = length szs \<and> distinct ps \<and> 0 \<notin> set ps \<and>
     set ps \<inter> dom (allocs m) = {} \<and> ok m' \<and>
     allocs m' = (\<lambda>p. if p \<in> set ps then Some 1 else allocs m p) \<and>
     room m = length szs + room m' \<and> frame m' = frame m"
proof (induction szs arbitrary: m)
  case (Cons sz szs)
  from Cons.prems alloc_law [of m sz] obtain p m1
    where p: "alloc m sz = (p, m1)" "p \<noteq> 0" "ok m1" "allocs m p = None"
      "allocs m1 = (allocs m)(p \<mapsto> 1)" "room m = Suc (room m1)" "frame m1 = frame m" by auto
  have "\<forall>sz \<in> set szs. 0 < unat sz \<and> unat sz \<le> 4096" "length szs \<le> room m1"
    using Cons.prems p(6) by simp_all
  from Cons.IH [OF p(3) this] obtain ps m'
    where ps: "alloc_seq alloc m1 szs = (ps, m')" "length ps = length szs" "distinct ps" "0 \<notin> set ps"
      "set ps \<inter> dom (allocs m1) = {}" "ok m'"
      "allocs m' = (\<lambda>p. if p \<in> set ps then Some 1 else allocs m1 p)"
      "room m1 = length szs + room m'" "frame m' = frame m1" by blast
  have d: "dom (allocs m1) = insert p (dom (allocs m))" by (simp add: p(5))
  then have "p \<notin> set ps" "set ps \<inter> dom (allocs m) = {}" using ps(5) by auto
  moreover have "allocs m' = (\<lambda>q. if q \<in> set (p # ps) then Some 1 else allocs m q)"
    by (simp add: ps(7) p(5) fun_eq_iff)
  moreover have "p \<notin> dom (allocs m)" using p(4) by auto
  ultimately show ?case
    using p ps by (intro exI [of _ "p # ps"] exI [of _ m']) simp
qed auto

lemma release_seq_law:
  "ok m \<Longrightarrow> distinct ps \<Longrightarrow> set ps \<subseteq> dom (allocs m) \<Longrightarrow>
   ok (release_seq release ps m) \<and>
   allocs (release_seq release ps m) = (\<lambda>p. if p \<in> set ps then None else allocs m p) \<and>
   frame (release_seq release ps m) = frame m"
proof (induction ps arbitrary: m)
  case (Cons p ps)
  then obtain n where "allocs m p = Some n" by auto
  from release_law [OF Cons.prems(1) this]
  have r: "ok (release m p)" "allocs (release m p) = (allocs m)(p := None)"
    "frame (release m p) = frame m" by auto
  have "distinct ps" "p \<notin> set ps" "set ps \<subseteq> dom (allocs (release m p))"
    using Cons.prems(2,3) by (auto simp: r(2))
  with Cons.IH [OF r(1) this(1,3)] r show ?case by (auto simp: fun_eq_iff)
qed simp

text \<open>Any list of different one-block allocations is what a smaller heap has grown by.\<close>

lemma grown_base:
  assumes "ok m" "distinct ps" "0 \<notin> set ps" "\<And>p. p \<in> set ps \<Longrightarrow> allocs m p = Some 1"
  shows "grown allocs ok room frame (release_seq release ps m) ps m"
proof -
  have "set ps \<subseteq> dom (allocs m)" using assms(4) by auto
  note r = release_seq_law [OF assms(1,2) this]
  have "room (release_seq release ps m) = length ps + room m"
    using assms(1,2,4)
  proof (induction ps arbitrary: m)
    case (Cons p ps)
    have p: "allocs m p = Some 1" using Cons.prems(3) by simp
    note l = release_law [OF Cons.prems(1) p]
    have "room (release_seq release ps (release m p)) = length ps + room (release m p)"
      by (rule Cons.IH) (use Cons.prems l in auto)
    then show ?case using l by simp
  qed simp
  with r assms show ?thesis by (auto simp: grown_def fun_eq_iff)
qed

text \<open>Allocating a list of objects and releasing them in any order restores the heap.\<close>

lemma alloc_release_core:
  assumes "ok m" "\<forall>sz \<in> set szs. 0 < unat sz \<and> unat sz \<le> 4096" "length szs \<le> room m"
    and "alloc_seq alloc m szs = (ps, m')" "mset qs = mset ps"
  shows "core (release_seq release qs m') = core m"
proof -
  from alloc_seq_law [OF assms(1-3)] assms(4)
  have ps: "distinct ps" "ok m'" "set ps \<inter> dom (allocs m) = {}"
    "allocs m' = (\<lambda>p. if p \<in> set ps then Some 1 else allocs m p)" "frame m' = frame m" by auto
  have qs: "set qs = set ps" "distinct qs"
    using assms(5) ps(1) by (metis mset_eq_setD) (metis assms(5) ps(1) mset_eq_imp_distinct_iff)
  have "set qs \<subseteq> dom (allocs m')" using qs(1) ps(4) by auto
  from release_seq_law [OF ps(2) qs(2) this] ps(4,5) qs(1)
  have r: "ok (release_seq release qs m')"
    "allocs (release_seq release qs m') = (\<lambda>p. if p \<in> set ps then None else allocs m p)"
    "frame (release_seq release qs m') = frame m" by (simp_all add: fun_eq_iff)
  have "allocs m p = None" if "p \<in> set ps" for p using that ps(3) by auto
  then have "allocs (release_seq release qs m') = allocs m"
    using r(2) by (simp add: fun_eq_iff)
  with core_inject [of "release_seq release qs m'" m] r assms(1) show ?thesis by simp
qed

end

text \<open>The part of the heap that allocation does not touch.\<close>

definition heap_frame :: "heap \<Rightarrow> u32 \<times> u32 \<times> (int \<Rightarrow> u8)" where
  "heap_frame h = (saddr h, total (table h),
     \<lambda>k. if 0 \<le> k \<and> k < int (length (tbl h)) then 0 else entries (table h) k)"

lemma heap_frame_write:
  "b + length bs \<le> length (tbl h) \<Longrightarrow> heap_frame (heap_write h b bs) = heap_frame h"
  by (auto simp: heap_frame_def entries_heap_write fun_eq_iff)

text \<open>The allocations determine the table.\<close>

lemma owned_tbl_inject:
  assumes "heap_ok h" "heap_ok h'" "saddr h = saddr h'" "total (table h) = total (table h')" "owned h = owned h'"
  shows "tbl h = tbl h'"
proof -
  have len: "length (tbl h) = length (tbl h')" using assms(4) by (simp add: tbl_length)
  have "owner (tbl h) b = owner (tbl h') b" for b
  proof (cases "b < length (tbl h)")
    case True
    then show ?thesis
      using owned_block_addr [OF assms(1)] owned_block_addr [OF assms(2)] assms(3,5) len
      by (metis block_addr_def)
  qed (auto simp: owner_def len)
  then show ?thesis
    using owner_inject assms(1,2) len by (auto simp: heap_ok_def fun_eq_iff)
qed

lemma heap_inject:
  assumes "heap_ok h" "heap_ok h'" "heap_frame h = heap_frame h'" "owned h = owned h'"
  shows "h = h'"
proof -
  have s: "saddr h = saddr h'" "total (table h) = total (table h')"
    using assms(3) by (simp_all add: heap_frame_def)
  then have len: "length (tbl h) = length (tbl h')" by (simp add: tbl_length)
  have t: "tbl h = tbl h'" by (rule owned_tbl_inject [OF assms(1,2) s assms(4)])
  have "entries (table h) k = entries (table h') k" for k
  proof (cases "0 \<le> k \<and> k < int (length (tbl h))")
    case True
    then have "nat k < length (tbl h)" "int (nat k) = k" by auto
    then show ?thesis using t tbl_nth [of "nat k" h] tbl_nth [of "nat k" h'] len by simp
  next
    case False
    then show ?thesis using assms(3) len by (auto simp: heap_frame_def fun_eq_iff dest: spec [of _ k])
  qed
  then have "entries (table h) = entries (table h')" by auto
  with s show ?thesis by (cases h; cases h'; cases "table h"; cases "table h'") auto
qed

section \<open>The kernel heap provides the interface\<close>

definition kowned :: "kmem \<Rightarrow> u32 \<Rightarrow> nat option" where
  "kowned m = owned (kernel_heap m)"

definition kheap_ok :: "kmem \<Rightarrow> bool" where
  "kheap_ok m \<longleftrightarrow> heap_ok (kernel_heap m)"

definition kroom :: "kmem \<Rightarrow> nat" where
  "kroom m = free_count (tbl (kernel_heap m))"

definition kframe :: "kmem \<Rightarrow> u32 \<times> u32 \<times> (int \<Rightarrow> u8)" where
  "kframe m = heap_frame (kernel_heap m)"

lemma heap_malloc_frame:
  assumes "heap_ok h" "0 < unat sz" "unat sz \<le> 2 ^ 32 - 4096" "free_at (tbl h) s (blocks_for (unat sz))"
  shows "heap_frame (snd (heap_malloc h sz)) = heap_frame h"
proof -
  from heap_malloc_write [OF assms] obtain b
    where "heap_malloc h sz = (block_addr h b, heap_write h b (run_bytes (blocks_for (unat sz))))"
      "free_at (tbl h) b (blocks_for (unat sz))" .
  then show ?thesis by (simp add: heap_frame_write free_at_def)
qed

lemma heap_free_frame:
  assumes ok: "heap_ok h" and own: "owned h p = Some n"
  shows "heap_frame (heap_free h p) = heap_frame h"
proof -
  from owned_cases [OF ok own] obtain b
    where b: "p = block_addr h b" "owner (tbl h) b = Some n" "b < length (tbl h)" .
  from owner_split [OF heap_ok_bounds(1) [OF ok] b(2)] obtain xs ys
    where t: "tbl h = xs @ run_bytes n @ ys" "length xs = b" "0 < n" .
  have "heap_free h p = heap_write h b (replicate n 0)"
    using heap_free_write [OF t(1,3) heap_ok_bounds(3) [OF ok]] b t(2)
      heap_address_to_block_addr [OF ok b(3)] by (simp add: heap_free_def)
  moreover have "b + n \<le> length (tbl h)" using t by simp
  ultimately show ?thesis by (simp add: heap_frame_write)
qed

lemma kzalloc_page:
  assumes "kheap_ok m" "0 < unat sz" "unat sz \<le> 4096" "0 < kroom m"
  obtains p m' where "kzalloc m sz = (p, m')" "p \<noteq> 0" "kheap_ok m'" "kowned m p = None"
    "kowned m' = (kowned m)(p \<mapsto> 1)" "kroom m = Suc (kroom m')" "kframe m' = kframe m"
    "ram m' = ram_memset (ram m) p 0 (unat sz)"
proof -
  let ?h = "kernel_heap m"
  have ok: "heap_ok ?h" and le: "unat sz \<le> 2 ^ 32 - 4096" and one: "blocks_for (unat sz) = 1"
    using assms by (auto simp: kheap_ok_def blocks_for_one)
  from assms(4) free_count_pos obtain s where fit: "free_at (tbl ?h) s (blocks_for (unat sz))"
    unfolding one kroom_def by blast
  from heap_malloc_owned [OF ok assms(2) le fit] obtain p h'
    where p: "heap_malloc ?h sz = (p, h')" "p \<noteq> 0" "heap_ok h'" "owned ?h p = None"
      "owned h' = (owned ?h)(p \<mapsto> blocks_for (unat sz))"
      "free_count (tbl ?h) = blocks_for (unat sz) + free_count (tbl h')" .
  have "heap_frame h' = heap_frame ?h"
    using heap_malloc_frame [OF ok assms(2) le fit] p(1) by simp
  then show thesis
    using p one by (intro that [of p "m\<lparr>kernel_heap := h', ram := ram_memset (ram m) p 0 (unat sz)\<rparr>"])
      (simp_all add: kzalloc_def kmalloc_def kheap_ok_def kowned_def kroom_def kframe_def)
qed

interpretation kheap: page_allocator kzalloc kfree kowned kheap_ok kroom kframe kernel_heap
proof unfold_locales
  fix m sz assume "kheap_ok m" "0 < unat (sz :: u32)" "unat sz \<le> 4096" "0 < kroom m"
  then show "\<exists>p m'. kzalloc m sz = (p, m') \<and> p \<noteq> 0 \<and> kheap_ok m' \<and> kowned m p = None \<and>
      kowned m' = (kowned m)(p \<mapsto> 1) \<and> kroom m = Suc (kroom m') \<and> kframe m' = kframe m"
    by (rule kzalloc_page) blast
next
  fix m p n assume "kheap_ok m" "kowned m p = Some n"
  then show "kheap_ok (kfree m p) \<and> kowned (kfree m p) = (kowned m)(p := None) \<and>
      kroom (kfree m p) = kroom m + n \<and> kframe (kfree m p) = kframe m"
    using heap_free_owned [of "kernel_heap m" p n] heap_free_frame [of "kernel_heap m" p n]
    by (simp add: kheap_ok_def kowned_def kroom_def kframe_def kfree_def)
next
  fix m m' assume "kheap_ok m" "kheap_ok m'" "kframe m = kframe m'" "kowned m = kowned m'"
  then show "kernel_heap m = kernel_heap m'"
    by (simp add: kheap_ok_def kframe_def kowned_def heap_inject)
qed

abbreviation kgrown :: "kmem \<Rightarrow> u32 list \<Rightarrow> kmem \<Rightarrow> bool" where
  "kgrown \<equiv> grown kowned kheap_ok kroom kframe"

text \<open>The heap operations do not look at the contents of RAM.\<close>

lemma kgrown_ram [simp]:
  "kgrown m ps (m'\<lparr>ram := r\<rparr>) = kgrown m ps m'"
  "kgrown (m\<lparr>ram := r\<rparr>) ps m' = kgrown m ps m'"
  by (simp_all add: grown_def kheap_ok_def kowned_def kroom_def kframe_def cong: if_cong)

end
