(* ===== verification/DiskStream.thy ===== *)
theory DiskStream
  imports KMem CString
begin

text \<open>
  The ATA disk and its byte streams, \<open>src/src/disk/disk.c\<close> and \<open>src/src/disk/streamer.c\<close>.

  The drive itself is hardware: a parameter \<open>ata\<close>, which for the contents of the command
  registers gives the status byte of each poll and the words of the data port. The kernel
  never writes to the disk, so a command has no effect on later ones. Polling is a loop
  that may not end; then the result is \<open>None\<close>.
\<close>

section \<open>disk.c\<close>

definition HARDIKHYPERIONOS_SECTOR_SIZE :: int where "HARDIKHYPERIONOS_SECTOR_SIZE = 512"
definition HARDIKHYPERIONOS_DISK_TYPE_REAL :: u32 where "HARDIKHYPERIONOS_DISK_TYPE_REAL = 0"

record ata_regs =
  drive_head :: u8
  sector_count :: u8
  lba_low :: u8
  lba_mid :: u8
  lba_high :: u8
  ata_command :: u8

record ata =
  ata_status :: "ata_regs \<Rightarrow> nat \<Rightarrow> nat \<Rightarrow> u8"
  ata_data :: "ata_regs \<Rightarrow> nat \<Rightarrow> u16"

text \<open>The only disk object is the static variable \<open>disk\<close>.\<close>

datatype disk_ref = DiskStatic | DiskOther u32

definition ata_setup :: "u32 \<Rightarrow> int \<Rightarrow> ata_regs" where
  "ata_setup lba total_sectors =
     \<lparr>drive_head = ucast (drop_bit 24 lba OR 0xE0), sector_count = word_of_int total_sectors,
      lba_low = ucast (lba AND 0xFF), lba_mid = ucast (drop_bit 8 lba),
      lba_high = ucast (drop_bit 16 lba), ata_command = 0x20\<rparr>"

text \<open>Waiting for the data request bit before block \<open>b\<close>; the number of the poll that sees it.\<close>

partial_function (option) ata_wait :: "ata \<Rightarrow> ata_regs \<Rightarrow> nat \<Rightarrow> nat \<Rightarrow> nat option" where
  "ata_wait a regs b i =
     (if ata_status a regs b i AND 0x08 = 0 then ata_wait a regs b (i + 1) else Some i)"

text \<open>The inner loop: \<open>n\<close> words from the data port, word \<open>w\<close> of the transfer next.\<close>

fun ata_copy :: "ata \<Rightarrow> ata_regs \<Rightarrow> nat \<Rightarrow> u8 list \<Rightarrow> nat \<Rightarrow> u8 list option" where
  "ata_copy a regs w buf 0 = Some buf"
| "ata_copy a regs w buf (Suc n) =
     do { b1 \<leftarrow> arr_set buf (int (2 * w)) (ucast (ata_data a regs w));
          b2 \<leftarrow> arr_set b1 (int (2 * w + 1)) (ucast (drop_bit 8 (ata_data a regs w)));
          ata_copy a regs (w + 1) b2 n }"

fun ata_blocks :: "ata \<Rightarrow> ata_regs \<Rightarrow> nat \<Rightarrow> u8 list \<Rightarrow> nat \<Rightarrow> u8 list option" where
  "ata_blocks a regs b buf 0 = Some buf"
| "ata_blocks a regs b buf (Suc n) =
     do { i \<leftarrow> ata_wait a regs b 0;
          buf' \<leftarrow> ata_copy a regs (256 * b) buf 256;
          ata_blocks a regs (b + 1) buf' n }"

definition disk_read_sector :: "ata \<Rightarrow> u32 \<Rightarrow> int \<Rightarrow> u8 list \<Rightarrow> (int \<times> u8 list) option" where
  "disk_read_sector a lba total_sectors buf =
     do { buf' \<leftarrow> ata_blocks a (ata_setup lba total_sectors) 0 buf (nat total_sectors); Some (0, buf') }"

definition disk_get :: "int \<Rightarrow> disk_ref option" where
  "disk_get index = (if index \<noteq> 0 then None else Some DiskStatic)"

definition disk_read_block :: "ata \<Rightarrow> disk_ref \<Rightarrow> u32 \<Rightarrow> int \<Rightarrow> u8 list \<Rightarrow> (int \<times> u8 list) option" where
  "disk_read_block a idisk lba total_sectors buf =
     (if idisk \<noteq> DiskStatic then Some (- EIO, buf) else disk_read_sector a lba total_sectors buf)"

section \<open>streamer.c\<close>

record disk_stream =
  pos :: int
  stream_disk :: disk_ref

text \<open>The address of the new stream and the stream, or null.\<close>

definition diskstreamer_new :: "kmem \<Rightarrow> int \<Rightarrow> ((u32 \<times> disk_stream) option \<times> kmem) option" where
  "diskstreamer_new m disk_id =
     (case disk_get disk_id of None \<Rightarrow> Some (None, m)
      | Some d \<Rightarrow> let (streamer, m1) = kzalloc m 8
                  in if streamer = 0 then None else Some (Some (streamer, \<lparr>pos = 0, stream_disk = d\<rparr>), m1))"

definition diskstreamer_seek :: "disk_stream \<Rightarrow> int \<Rightarrow> int \<times> disk_stream" where
  "diskstreamer_seek s p = (0, s\<lparr>pos := p\<rparr>)"

text \<open>The copy of \<open>n\<close> bytes from \<open>buf[offset + i]\<close> to the object \<open>out\<close> at \<open>d\<close>.\<close>

fun stream_copy :: "u8 list \<Rightarrow> int \<Rightarrow> u8 list \<Rightarrow> nat \<Rightarrow> nat \<Rightarrow> u8 list option" where
  "stream_copy buf offset out d 0 = Some out"
| "stream_copy buf offset out d (Suc n) =
     do { c \<leftarrow> arr_get buf offset; out' \<leftarrow> arr_set out (int d) c;
          stream_copy buf (offset + 1) out' (d + 1) n }"

lemma smod_sector: "p smod HARDIKHYPERIONOS_SECTOR_SIZE < (512 :: int)"
  by (auto simp: signed_modulo_int_def HARDIKHYPERIONOS_SECTOR_SIZE_def sgn_if)

text \<open>
  One sector at a time, and once more when the request reaches the end of the sector;
  what is still to read gets smaller with each call.
\<close>

function diskstreamer_read :: "ata \<Rightarrow> disk_stream \<Rightarrow> u8 list \<Rightarrow> nat \<Rightarrow> int \<Rightarrow>
    (int \<times> disk_stream \<times> u8 list) option" where
  "diskstreamer_read a s out d n =
     (let sector = pos s sdiv HARDIKHYPERIONOS_SECTOR_SIZE;
          offset = pos s smod HARDIKHYPERIONOS_SECTOR_SIZE;
          overflow = (offset + n \<ge> HARDIKHYPERIONOS_SECTOR_SIZE);
          total_to_read = (if overflow then n - ((offset + n) - HARDIKHYPERIONOS_SECTOR_SIZE) else n)
      in do { (res, buf) \<leftarrow> disk_read_block a (stream_disk s) (word_of_int sector) 1
                (replicate (nat HARDIKHYPERIONOS_SECTOR_SIZE) 0);
              if res < 0 then Some (res, s, out)
              else do { out' \<leftarrow> stream_copy buf offset out d (nat total_to_read);
                let s' = s\<lparr>pos := pos s + total_to_read\<rparr>;
                if overflow then diskstreamer_read a s' out' (d + nat total_to_read) (n - total_to_read)
                else Some (res, s', out') } })"
  by pat_completeness auto
termination
proof (relation "measure (\<lambda>(a, s, out, d, n). nat n)")
  fix a s and out :: "u8 list" and d n sector offset overflow total_to_read x res buf out' s'
  show "wf (measure (\<lambda>(a, s, out, d, n). nat n))" by simp
  assume "sector = pos (s :: disk_stream) sdiv HARDIKHYPERIONOS_SECTOR_SIZE"
    "offset = pos s smod HARDIKHYPERIONOS_SECTOR_SIZE"
    "overflow = (HARDIKHYPERIONOS_SECTOR_SIZE \<le> offset + n)"
    "total_to_read = (if overflow then n - (offset + n - HARDIKHYPERIONOS_SECTOR_SIZE) else n)" overflow
  then show "((a :: ata, s', out', d + nat total_to_read, n - total_to_read), (a, s, out, d, n))
      \<in> measure (\<lambda>(a, s, out, d, n). nat n)"
    using smod_sector [of "pos s"] by (simp add: HARDIKHYPERIONOS_SECTOR_SIZE_def)
qed

declare diskstreamer_read.simps [simp del]

definition diskstreamer_close :: "kmem \<Rightarrow> u32 \<Rightarrow> kmem" where
  "diskstreamer_close m stream = kfree m stream"

section \<open>A drive that holds an image\<close>

text \<open>The 28-bit block address in the registers.\<close>

definition regs_lba :: "ata_regs \<Rightarrow> nat" where
  "regs_lba r = unat (ucast (lba_low r) OR push_bit 8 (ucast (lba_mid r)) OR
     push_bit 16 (ucast (lba_high r)) OR push_bit 24 (ucast (drive_head r AND 0x0F)) :: u32)"

text \<open>
  What the ATA specification promises for READ SECTORS (0x20) on the master drive in LBA
  mode: every block becomes ready, and the data port gives the sectors in order, two
  bytes per word, low byte first.
\<close>

definition image_word :: "(nat \<Rightarrow> u8) \<Rightarrow> nat \<Rightarrow> u16" where
  "image_word img k = ucast (img k) OR push_bit 8 (ucast (img (k + 1)))"

definition ata_serves :: "ata \<Rightarrow> (nat \<Rightarrow> u8) \<Rightarrow> bool" where
  "ata_serves a img \<longleftrightarrow>
     (\<forall>r. ata_command r = 0x20 \<and> drive_head r AND 0xF0 = 0xE0 \<longrightarrow>
        (\<forall>b < unat (sector_count r). \<exists>i. ata_status a r b i AND 0x08 \<noteq> 0) \<and>
        (\<forall>w < 256 * unat (sector_count r). ata_data a r w = image_word img (512 * regs_lba r + 2 * w)))"

text \<open>The bytes of the image from position \<open>k\<close> on.\<close>

definition image_bytes :: "(nat \<Rightarrow> u8) \<Rightarrow> nat \<Rightarrow> nat \<Rightarrow> u8 list" where
  "image_bytes img k n = map img [k..<k+n]"

lemma image_bytes_length [simp]: "length (image_bytes img k n) = n"
  by (simp add: image_bytes_def)

lemma image_bytes_Nil [simp]: "image_bytes img k n = [] \<longleftrightarrow> n = 0"
  by (auto simp: image_bytes_def)

lemma image_bytes_add: "image_bytes img k (m + n) = image_bytes img k m @ image_bytes img (k + m) n"
proof -
  have "[k..<k + (m + n)] = [k..<k + m] @ [k + m..<k + m + n]"
    using upt_add_eq_append [of k "k + m" n] by (simp add: add.assoc)
  then show ?thesis by (simp add: image_bytes_def)
qed

lemma image_bytes_nth: "i < n \<Longrightarrow> image_bytes img k n ! i = img (k + i)"
  by (simp add: image_bytes_def)

lemma image_bytes_const: "(\<And>i. i < n \<Longrightarrow> img (k + i) = c) \<Longrightarrow> image_bytes img k n = replicate n c"
  by (simp add: list_eq_iff_nth_eq image_bytes_nth)

lemma image_word_bytes:
  "ucast (image_word img k) = img k" "ucast (drop_bit 8 (image_word img k)) = img (k + 1)"
proof -
  show "ucast (image_word img k) = img k"
    by (rule bit_word_eqI) (auto simp: image_word_def bit_simps)
  have "n < 8" if "bit (img (k + 1)) n" for n
    using that by (auto dest: bit_imp_le_length)
  then show "ucast (drop_bit 8 (image_word img k)) = img (k + 1)"
    by (intro bit_word_eqI) (auto simp: image_word_def bit_simps dest: bit_imp_le_length)
qed

lemma overwrite_append:
  "d + length xs + length ys \<le> length buf \<Longrightarrow>
   overwrite (overwrite buf d xs) (d + length xs) ys = overwrite buf d (xs @ ys)"
  by (simp add: overwrite_def add_ac)

lemma ata_copy_image:
  "(\<And>v. v < w + n \<Longrightarrow> w \<le> v \<Longrightarrow> ata_data a r v = image_word img (k + 2 * v)) \<Longrightarrow> 2 * (w + n) \<le> length buf \<Longrightarrow>
   ata_copy a r w buf n = Some (overwrite buf (2 * w) (image_bytes img (k + 2 * w) (2 * n)))"
proof (induction n arbitrary: w buf)
  case 0
  then show ?case by (simp add: image_bytes_def overwrite_def)
next
  case (Suc n)
  let ?b = "buf[2 * w := img (k + 2 * w), 2 * w + 1 := img (k + 2 * w + 1)]"
  have w: "ata_data a r w = image_word img (k + 2 * w)" using Suc.prems(1) by simp
  have "ata_copy a r (w + 1) ?b n = Some (overwrite ?b (2 * (w + 1)) (image_bytes img (k + 2 * (w + 1)) (2 * n)))"
    using Suc.prems by (intro Suc.IH) auto
  moreover have "?b = overwrite buf (2 * w) (image_bytes img (k + 2 * w) 2)"
    using Suc.prems(2) overwrite_step [of "2 * w" "[img (k + 2 * w + 1)]" buf "img (k + 2 * w)"]
    by (simp add: image_bytes_def upt_rec overwrite_single)
  ultimately show ?case
    using Suc.prems(2) w overwrite_append [of "2 * w" "image_bytes img (k + 2 * w) 2" "image_bytes img (k + 2 * w + 2) (2 * n)" buf]
      image_bytes_add [of img "k + 2 * w" 2 "2 * n"]
    by (simp add: arr_set_def nat_add_distrib nat_mult_distrib image_word_bytes add.assoc)
qed

lemma ata_wait_ready:
  assumes "\<exists>i. ata_status a r b i AND 0x08 \<noteq> 0"
  shows "\<exists>i. ata_wait a r b 0 = Some i"
proof -
  from assms obtain i where i: "ata_status a r b i AND 0x08 \<noteq> 0" ..
  have "\<exists>j. ata_wait a r b (i - n) = Some j" if "n \<le> i" for n
    using that
  proof (induction n)
    case 0
    then show ?case using i by (simp add: ata_wait.simps [of a r b i])
  next
    case (Suc n)
    then have "i - Suc n + 1 = i - n" by simp
    with Suc show ?case by (subst ata_wait.simps) auto
  qed
  from this [of i] show ?thesis by simp
qed

lemma ata_blocks_image:
  assumes "\<And>c. c < b + n \<Longrightarrow> \<exists>i. ata_status a r c i AND 0x08 \<noteq> 0"
    and "\<And>v. v < 256 * (b + n) \<Longrightarrow> ata_data a r v = image_word img (k + 2 * v)"
    and "512 * (b + n) \<le> length buf"
  shows "ata_blocks a r b buf n = Some (overwrite buf (512 * b) (image_bytes img (k + 512 * b) (512 * n)))"
  using assms
proof (induction n arbitrary: b buf)
  case 0
  then show ?case by (simp add: image_bytes_def overwrite_def)
next
  case (Suc n)
  obtain i where i: "ata_wait a r b 0 = Some i"
    using ata_wait_ready [OF Suc.prems(1) [of b]] by auto
  let ?b = "overwrite buf (512 * b) (image_bytes img (k + 512 * b) 512)"
  have c: "ata_copy a r (256 * b) buf 256 = Some ?b"
    using ata_copy_image [of "256 * b" 256 a r img k buf] Suc.prems by simp
  have "ata_blocks a r (b + 1) ?b n =
      Some (overwrite ?b (512 * (b + 1)) (image_bytes img (k + 512 * (b + 1)) (512 * n)))"
    using Suc.prems by (intro Suc.IH) auto
  then show ?case
    using i c Suc.prems(3) image_bytes_add [of img "k + 512 * b" 512 "512 * n"]
      overwrite_append [of "512 * b" "image_bytes img (k + 512 * b) 512" "image_bytes img (k + 512 * b + 512) (512 * n)" buf]
    by (simp add: algebra_simps)
qed

lemma bit_byte_masks:
  "bit (0xFF :: int) k \<longleftrightarrow> k < 8" "bit (0x0F :: int) k \<longleftrightarrow> k < 4"
  "bit (0xE0 :: int) k \<longleftrightarrow> 5 \<le> k \<and> k < 8"
proof -
  have "(0xFF :: int) = mask 8" "(0x0F :: int) = mask 4" "(0xE0 :: int) = push_bit 5 (mask 3)"
    by (simp_all add: mask_eq_exp_minus_1 push_bit_eq_mult)
  then show "bit (0xFF :: int) k \<longleftrightarrow> k < 8" "bit (0x0F :: int) k \<longleftrightarrow> k < 4"
    "bit (0xE0 :: int) k \<longleftrightarrow> 5 \<le> k \<and> k < 8"
    by (simp_all only: bit_mask_iff bit_push_bit_iff possible_bit_int) auto
qed

lemma lba_high_bits:
  assumes "unat (lba :: u32) < 2 ^ 28" "28 \<le> k"
  shows "\<not> bit lba k"
proof -
  have "take_bit 28 lba = lba"
    using assms(1) by (simp add: take_bit_eq_mod unat_mod_distrib flip: unat_inj_iff)
  then show ?thesis using assms(2) by (metis bit_take_bit_iff not_le)
qed

lemma regs_lba_setup: "unat lba < 2 ^ 28 \<Longrightarrow> regs_lba (ata_setup lba n) = unat lba"
proof -
  assume l: "unat lba < 2 ^ 28"
  note hi = lba_high_bits [OF l]
  have "ucast (lba_low (ata_setup lba n)) OR push_bit 8 (ucast (lba_mid (ata_setup lba n))) OR
     push_bit 16 (ucast (lba_high (ata_setup lba n))) OR
     push_bit 24 (ucast (drive_head (ata_setup lba n) AND 0x0F)) = lba"
  proof (rule bit_word_eqI)
    fix k assume k: "k < LENGTH(32)"
    show "bit (ucast (lba_low (ata_setup lba n)) OR push_bit 8 (ucast (lba_mid (ata_setup lba n))) OR
       push_bit 16 (ucast (lba_high (ata_setup lba n))) OR
       push_bit 24 (ucast (drive_head (ata_setup lba n) AND 0x0F)) :: u32) k = bit lba k"
      using k hi [of k] by (cases "28 \<le> k") (auto simp: ata_setup_def bit_simps bit_byte_masks)
  qed
  then show ?thesis by (simp add: regs_lba_def)
qed

lemma ata_setup_lba_mode:
  "ata_command (ata_setup lba n) = 0x20" "drive_head (ata_setup lba n) AND 0xF0 = 0xE0 \<longleftrightarrow> \<not> bit lba 28"
proof -
  have f: "bit (0xF0 :: int) k \<longleftrightarrow> 4 \<le> k \<and> k < 8" for k
  proof -
    have "(0xF0 :: int) = push_bit 4 (mask 4)" by (simp add: mask_eq_exp_minus_1 push_bit_eq_mult)
    then show ?thesis by (simp only: bit_mask_iff bit_push_bit_iff possible_bit_int) auto
  qed
  have "drive_head (ata_setup lba n) AND 0xF0 = 0xE0 \<longleftrightarrow>
      (\<forall>k < 8. bit (drive_head (ata_setup lba n) AND 0xF0) k = bit (0xE0 :: u8) k)"
    by (auto simp: bit_eq_iff)
  also have "\<dots> \<longleftrightarrow> (\<forall>k < 8. 4 \<le> k \<and> (bit lba (k + 24) \<or> 5 \<le> k) \<longleftrightarrow> 5 \<le> k)"
    by (auto simp: ata_setup_def bit_simps bit_byte_masks f add.commute)
  also have "\<dots> \<longleftrightarrow> \<not> bit lba 28"
  proof
    assume "\<forall>k < 8. 4 \<le> k \<and> (bit lba (k + 24) \<or> 5 \<le> k) \<longleftrightarrow> 5 \<le> k"
    from this [rule_format, of 4] show "\<not> bit lba 28" by simp
  next
    assume b: "\<not> bit lba 28"
    have "bit lba (k + 24) \<longrightarrow> 5 \<le> k" if "4 \<le> k" for k
      using b that by (cases "k = 4") auto
    then show "\<forall>k < 8. 4 \<le> k \<and> (bit lba (k + 24) \<or> 5 \<le> k) \<longleftrightarrow> 5 \<le> k" by auto
  qed
  finally show "drive_head (ata_setup lba n) AND 0xF0 = 0xE0 \<longleftrightarrow> \<not> bit lba 28" .
qed (simp add: ata_setup_def)

lemma disk_read_sector_image:
  assumes a: "ata_serves a img" and l: "unat lba < 2 ^ 28" and n: "0 < n" "n < 256"
    and buf: "512 * n \<le> length buf"
  shows "disk_read_sector a lba (int n) buf =
    Some (0, overwrite buf 0 (image_bytes img (512 * unat lba) (512 * n)))"
proof -
  let ?r = "ata_setup lba (int n)"
  have "\<not> bit lba 28" using lba_high_bits [OF l, of 28] by simp
  then have "drive_head ?r AND 0xF0 = 0xE0" using l ata_setup_lba_mode(2) by simp
  moreover have c: "unat (sector_count ?r) = n" using n by (simp add: ata_setup_def unsigned_of_nat take_bit_nat_eq_self)
  ultimately have "\<And>c. c < n \<Longrightarrow> \<exists>i. ata_status a ?r c i AND 0x08 \<noteq> 0"
    "\<And>v. v < 256 * n \<Longrightarrow> ata_data a ?r v = image_word img (512 * unat lba + 2 * v)"
    using a ata_setup_lba_mode(1) regs_lba_setup [OF l] unfolding ata_serves_def by auto
  with ata_blocks_image [of 0 n a ?r img "512 * unat lba" buf] buf show ?thesis
    by (simp add: disk_read_sector_def)
qed

section \<open>Streams\<close>

lemma stream_copy_range:
  "0 \<le> off \<Longrightarrow> nat off + n \<le> length buf \<Longrightarrow> d + n \<le> length out \<Longrightarrow>
   stream_copy buf off out d n = Some (overwrite out d (take n (drop (nat off) buf)))"
proof (induction n arbitrary: off out d)
  case (Suc n)
  let ?c = "buf ! nat off"
  have "stream_copy buf (off + 1) (out[d := ?c]) (d + 1) n =
      Some (overwrite (out[d := ?c]) (d + 1) (take n (drop (nat (off + 1)) buf)))"
    using Suc.prems by (intro Suc.IH) (auto simp: nat_add_distrib)
  moreover have "take (Suc n) (drop (nat off) buf) = ?c # take n (drop (Suc (nat off)) buf)"
    using Suc.prems by (simp add: Cons_nth_drop_Suc [symmetric])
  moreover have "arr_get buf off = Some ?c" using Suc.prems by (auto simp: arr_get_def)
  ultimately show ?case
    using Suc.prems overwrite_step [of d "take n (drop (Suc (nat off)) buf)" out ?c]
    by (simp add: array_simps nat_add_distrib arr_set_def)
qed simp

lemma diskstreamer_read_image:
  assumes "ata_serves a img" "stream_disk s = DiskStatic" "pos s = int k"
    and "k + n < 2 ^ 31" "d + n \<le> length out"
  shows "diskstreamer_read a s out d (int n) =
    Some (0, s\<lparr>pos := int (k + n)\<rparr>, overwrite out d (image_bytes img k n))"
  using assms(2-)
proof (induction n arbitrary: s k out d rule: less_induct)
  case (less n)
  define q where "q = k div 512"
  define o' where "o' = k mod 512"
  have k: "k = 512 * q + o'" "o' < 512" by (simp_all add: q_def o'_def)
  have q: "q < 2 ^ 22" using less.prems(3) k by simp
  have sec: "pos s sdiv HARDIKHYPERIONOS_SECTOR_SIZE = int q" "pos s smod HARDIKHYPERIONOS_SECTOR_SIZE = int o'"
    using less.prems(2) by (simp_all add: HARDIKHYPERIONOS_SECTOR_SIZE_def sdiv_nonneg smod_nonneg q_def o'_def zdiv_int zmod_int)
  have u: "unat (word_of_int (int q) :: u32) = q"
    using q by (simp add: unat_of_nat_u32 flip: of_nat_unat_id)
  let ?buf = "image_bytes img (512 * q) 512"
  have blk: "disk_read_block a (stream_disk s) (word_of_int (int q)) 1 (replicate 512 0) = Some (0, ?buf)"
    using disk_read_sector_image [OF assms(1), of "word_of_int (int q)" 1 "replicate 512 0"] q u less.prems(1)
    by (simp add: disk_read_block_def overwrite_def)
  have piece: "take t (drop o' ?buf) = image_bytes img k t" if "o' + t \<le> 512" for t
    using that k by (auto simp: list_eq_iff_nth_eq image_bytes_nth add.assoc)
  show ?case
  proof (cases "512 \<le> o' + n")
    case True
    define t where "t = 512 - o'"
    have t: "0 < t" "t \<le> n" "o' + t = 512" using True k(2) by (auto simp: t_def)
    have tt: "int n - (int o' + int n - 512) = int t" using t by simp
    let ?s = "s\<lparr>pos := int (k + t)\<rparr>"
    let ?out = "overwrite out d (image_bytes img k t)"
    have cp: "stream_copy ?buf (int o') out d t = Some ?out"
      using stream_copy_range [of "int o'" t ?buf d out] t piece [of t] less.prems(4)
      by (simp only: image_bytes_length nat_int of_nat_0_le_iff)
    have "diskstreamer_read a ?s ?out (d + t) (int (n - t)) =
        Some (0, ?s\<lparr>pos := int (k + t + (n - t))\<rparr>, overwrite ?out (d + t) (image_bytes img (k + t) (n - t)))"
      using less.prems t by (intro less.IH) auto
    moreover have "overwrite ?out (d + t) (image_bytes img (k + t) (n - t)) = overwrite out d (image_bytes img k n)"
      using overwrite_append [of d "image_bytes img k t" "image_bytes img (k + t) (n - t)" out] t less.prems(4)
        image_bytes_add [of img k t "n - t"] by simp
    ultimately show ?thesis
      using True sec blk cp t less.prems(2)
      by (subst diskstreamer_read.simps) (simp add: Let_def HARDIKHYPERIONOS_SECTOR_SIZE_def of_nat_diff tt)
  next
    case False
    have "stream_copy ?buf (int o') out d n = Some (overwrite out d (image_bytes img k n))"
      using stream_copy_range [of "int o'" n ?buf d out] False piece less.prems(4) by simp
    then show ?thesis
      using False sec blk less.prems(2)
      by (subst diskstreamer_read.simps) (simp add: Let_def HARDIKHYPERIONOS_SECTOR_SIZE_def)
  qed
qed

section \<open>Properties\<close>

text \<open>A drive that becomes ready at the fourth poll.\<close>

definition sample_ata :: "(nat \<Rightarrow> u8) \<Rightarrow> ata" where
  "sample_ata img = \<lparr>ata_status = (\<lambda>r b i. if i < 3 then 0x80 else 0x58),
     ata_data = (\<lambda>r w. image_word img (512 * regs_lba r + 2 * w))\<rparr>"

lemma sample_ata_serves: "ata_serves (sample_ata img) img"
  by (auto simp: ata_serves_def sample_ata_def intro!: exI [of _ 3])

text \<open>
  C30. \<open>disk_read_sector\<close> (disk.c) on a drive that follows the ATA specification: for
  1 to 255 sectors and a 28-bit block address, the registers are set up so that the polling
  ends and the buffer receives exactly these sectors of the disk, byte for byte, and nothing
  after them is changed.
\<close>

theorem disk_read_sector_spec:
  assumes "ata_serves a img" "unat lba < 2 ^ 28" "0 < n" "n < 256" "512 * n \<le> length buf"
  shows "disk_read_sector a lba (int n) buf =
    Some (0, image_bytes img (512 * unat lba) (512 * n) @ drop (512 * n) buf)"
  using disk_read_sector_image [OF assms] by (simp add: overwrite_def)

theorem disk_read_sector_spec_witness:
  "disk_read_sector (sample_ata (\<lambda>k. of_nat (k div 512))) 3 (int 2) (replicate 1025 0xEE) =
     Some (0, replicate 512 3 @ replicate 512 4 @ [0xEE])"
proof -
  have "image_bytes (\<lambda>k. of_nat (k div 512)) 1536 1024 = (replicate 512 3 @ replicate 512 4 :: u8 list)"
    using image_bytes_add [of "\<lambda>k. of_nat (k div 512)" 1536 512 512] image_bytes_const [of 512 "\<lambda>k. of_nat (k div 512)" 1536 3]
      image_bytes_const [of 512 "\<lambda>k. of_nat (k div 512)" 2048 4] div_nat_eqI
    by (simp add: div_add1_eq)
  then show ?thesis
    using disk_read_sector_spec [OF sample_ata_serves, of 3 2 "replicate 1025 0xEE" "\<lambda>k. of_nat (k div 512)"]
    by simp
qed

text \<open>
  C19. \<open>diskstreamer_seek\<close> followed by \<open>diskstreamer_read\<close> (streamer.c): the read ends,
  returns 0, copies exactly the \<open>n\<close> bytes of the disk from position \<open>p\<close> on into the caller's
  object at \<open>d\<close>, whatever the alignment of \<open>p\<close> and however many sectors the range crosses,
  leaves the rest of the object alone, and the stream stands at \<open>p + n\<close>.
\<close>

theorem diskstreamer_seek_read:
  assumes "ata_serves a img" "stream_disk s = DiskStatic" "p + n < 2 ^ 31" "d + n \<le> length out"
  shows "diskstreamer_read a (snd (diskstreamer_seek s (int p))) out d (int n) =
    Some (0, s\<lparr>pos := int (p + n)\<rparr>, take d out @ image_bytes img p n @ drop (d + n) out)"
  using diskstreamer_read_image [of a img "s\<lparr>pos := int p\<rparr>" p n d out] assms
  by (simp add: diskstreamer_seek_def overwrite_def)

theorem diskstreamer_seek_read_witness:
  "diskstreamer_read (sample_ata (\<lambda>k. of_nat k)) \<lparr>pos = 510, stream_disk = DiskStatic\<rparr> [9, 9, 9, 9, 9, 9] 1 (int 4) =
     Some (0, \<lparr>pos = int (510 + 4), stream_disk = DiskStatic\<rparr>, [9, 0xFE, 0xFF, 0, 1, 9])"
  using diskstreamer_seek_read [OF sample_ata_serves, of "\<lparr>pos = 0, stream_disk = DiskStatic\<rparr>" 510 4 1
      "[9, 9, 9, 9, 9, 9]" "\<lambda>k. of_nat k"]
  by (simp add: diskstreamer_seek_def image_bytes_def upt_rec)

end
