(* ===== verification/KRuns.thy ===== *)
theory KRuns
  imports KMem
begin

text \<open>
  Allocations of the kernel heap are disjoint runs of bytes, and \<open>kzalloc\<close> leaves every run that was
  allocated before as it is. \<open>kgrew\<close> adds this to the growth of the heap by one-block objects;
  \<open>heap_after\<close> counts blocks of objects of any size.
\<close>

section \<open>Runs of the heap\<close>

lemma owner_nonzero: "owner t b = Some n \<Longrightarrow> b < length t \<and> t ! b \<noteq> 0"
  by (auto simp: owner_def split: if_splits)

lemma kowned_block:
  assumes "kheap_ok m" "kowned m p = Some n"
  obtains b where "p = block_addr (kernel_heap m) b" "owner (tbl (kernel_heap m)) b = Some n"
    "unat p = unat (saddr (kernel_heap m)) + b * 4096" "0 < n" "b + n \<le> length (tbl (kernel_heap m))"
proof -
  have ok: "heap_ok (kernel_heap m)" using assms(1) by (simp add: kheap_ok_def)
  from owned_cases [OF ok assms(2) [unfolded kowned_def]] obtain b
    where b: "p = block_addr (kernel_heap m) b" "owner (tbl (kernel_heap m)) b = Some n"
      "b < length (tbl (kernel_heap m))" .
  with unat_block_addr [OF ok b(3)] owner_bound [OF heap_ok_bounds(1) [OF ok] b(2)] show thesis
    by (intro that) auto
qed

lemma kowned_bounds:
  assumes "kheap_ok m" "kowned m p = Some n"
  shows "unat p + 4096 * n < 2 ^ 32" "0 < n"
proof -
  have ok: "heap_ok (kernel_heap m)" using assms(1) by (simp add: kheap_ok_def)
  from kowned_block [OF assms] obtain b where "unat p = unat (saddr (kernel_heap m)) + b * 4096" "0 < n"
    "b + n \<le> length (tbl (kernel_heap m))" .
  with ok show "unat p + 4096 * n < 2 ^ 32" "0 < n" by (simp_all add: heap_ok_def)
qed

lemma kowned_nonzero:
  assumes "kheap_ok m" "kowned m p = Some n"
  shows "p \<noteq> 0"
proof -
  have ok: "heap_ok (kernel_heap m)" using assms(1) by (simp add: kheap_ok_def)
  from owned_cases [OF this assms(2) [unfolded kowned_def]] obtain b
    where b: "p = block_addr (kernel_heap m) b" "b < length (tbl (kernel_heap m))" .
  with block_addr_nonzero [OF ok] show ?thesis by simp
qed

lemma kowned_apart:
  assumes ok: "kheap_ok m" and p: "kowned m p = Some a" and q: "kowned m q = Some b" and "p \<noteq> q"
  shows "unat p + 4096 * a \<le> unat q \<or> unat q + 4096 * b \<le> unat p"
proof -
  have wf: "wf_tbl False (tbl (kernel_heap m))" using ok by (intro heap_ok_bounds(1)) (simp add: kheap_ok_def)
  from kowned_block [OF ok p] obtain i where i: "owner (tbl (kernel_heap m)) i = Some a"
    "unat p = unat (saddr (kernel_heap m)) + i * 4096" .
  from kowned_block [OF ok q] obtain j where j: "owner (tbl (kernel_heap m)) j = Some b"
    "unat q = unat (saddr (kernel_heap m)) + j * 4096" .
  have "i \<noteq> j" using i(2) j(2) assms(4) by (auto simp flip: unat_inj_iff)
  then have "i + a \<le> j \<or> j + b \<le> i"
    using owner_disjoint [OF wf i(1) j(1)] owner_disjoint [OF wf j(1) i(1)] by linarith
  then show ?thesis using i(2) j(2) by auto
qed

lemma unat_run: "kheap_ok m \<Longrightarrow> kowned m p = Some n \<Longrightarrow> i < 4096 * n \<Longrightarrow> unat (p + of_nat i) = unat p + i"
  using kowned_bounds(1) [of m p n] by (intro unat_add_small) linarith

lemma runs_apart:
  assumes "kheap_ok m" "kowned m p = Some a" "kowned m q = Some b" "p \<noteq> q" "i < 4096 * a" "j < 4096 * b"
  shows "p + of_nat i \<noteq> q + of_nat j"
proof
  assume "p + of_nat i = q + of_nat j"
  then have "unat (p + of_nat i) = unat (q + of_nat j)" by (rule arg_cong)
  then have "unat p + i = unat q + j" using assms unat_run by metis
  with kowned_apart [OF assms(1-4)] assms(5,6) show False by linarith
qed

section \<open>Runs that keep their bytes\<close>

text \<open>All bytes of every run that was allocated.\<close>

definition runs_kept :: "kmem \<Rightarrow> ram \<Rightarrow> bool" where
  "runs_kept m r \<longleftrightarrow> (\<forall>q n i. kowned m q = Some n \<longrightarrow> i < 4096 * n \<longrightarrow> r (q + of_nat i) = ram m (q + of_nat i))"

lemma runs_kept_trans:
  assumes "runs_kept m (ram m1)" "runs_kept m1 r" "\<And>q n. kowned m q = Some n \<Longrightarrow> kowned m1 q = Some n"
  shows "runs_kept m r"
  using assms unfolding runs_kept_def by metis

lemma kzalloc_run_kept:
  assumes "kheap_ok m'" "kowned m p = None" "kowned m' = (kowned m)(p \<mapsto> n)" "k \<le> 4096 * n"
  shows "runs_kept m (ram_memset (ram m) p c k)"
  unfolding runs_kept_def
proof (intro allI impI)
  fix q nq i assume q: "kowned m q = Some nq" and i: "i < 4096 * nq"
  have "kowned m' q = Some nq" "kowned m' p = Some n" "p \<noteq> q" using assms(2,3) q by auto
  from runs_apart [OF assms(1) this(2,1,3) _ i] assms(4)
  show "ram_memset (ram m) p c k (q + of_nat i) = ram m (q + of_nat i)"
    by (intro ram_memset_out) (metis order_less_le_trans)
qed

lemma blocks_for_room: "n \<le> 4096 * blocks_for n"
  by (simp add: blocks_for_def)

text \<open>An allocation of any size: a new run of blocks, filled with zeros, apart from all the others.\<close>

lemma kzalloc_blocks:
  assumes ok: "kheap_ok m" and sz: "0 < unat sz" "unat sz \<le> 2 ^ 32 - 4096"
    and fit: "\<exists>i. free_at (tbl (kernel_heap m)) i (blocks_for (unat sz))"
  obtains p m' where "kzalloc m sz = (p, m')" "p \<noteq> 0" "kheap_ok m'" "kowned m p = None"
    "kowned m' = (kowned m)(p \<mapsto> blocks_for (unat sz))" "kframe m' = kframe m" "runs_kept m (ram m')"
    "kroom m = blocks_for (unat sz) + kroom m'" "ram m' = ram_memset (ram m) p 0 (unat sz)"
proof -
  let ?h = "kernel_heap m" and ?n = "blocks_for (unat sz)"
  have hok: "heap_ok ?h" using ok by (simp add: kheap_ok_def)
  from fit obtain i where i: "free_at (tbl ?h) i ?n" ..
  from heap_malloc_owned [OF hok sz i] obtain p h'
    where p: "heap_malloc ?h sz = (p, h')" "p \<noteq> 0" "heap_ok h'" "owned ?h p = None"
      "owned h' = (owned ?h)(p \<mapsto> ?n)" "free_count (tbl ?h) = ?n + free_count (tbl h')" .
  have fr: "heap_frame h' = heap_frame ?h" using heap_malloc_frame [OF hok sz i] p(1) by simp
  define m' where "m' = m\<lparr>kernel_heap := h', ram := ram_memset (ram m) p 0 (unat sz)\<rparr>"
  have k: "kheap_ok m'" "kowned m p = None" "kowned m' = (kowned m)(p \<mapsto> ?n)"
    using p by (simp_all add: m'_def kheap_ok_def kowned_def)
  from kzalloc_run_kept [OF k blocks_for_room, of 0] have "runs_kept m (ram m')" by (simp add: m'_def)
  then show thesis
    using p fr k by (intro that [of p m']) (simp_all add: kzalloc_def kmalloc_def kroom_def kframe_def m'_def)
qed

lemma kzalloc_page_kept:
  assumes "kheap_ok m" "0 < unat sz" "unat sz \<le> 4096" "0 < kroom m" "kzalloc m sz = (p, m')"
  shows "runs_kept m (ram m')"
proof -
  obtain m'' where m: "kzalloc m sz = (p, m'')" "kheap_ok m''" "kowned m p = None"
    "kowned m'' = (kowned m)(p \<mapsto> 1)" "ram m'' = ram_memset (ram m) p 0 (unat sz)"
    by (rule kzalloc_page [OF assms(1-4)]) (use assms(5) in auto)
  then show ?thesis using kzalloc_run_kept [OF m(2-4), of "unat sz" 0] assms(3,5) by simp
qed

section \<open>Growing without touching old runs\<close>

definition kgrew :: "kmem \<Rightarrow> u32 list \<Rightarrow> kmem \<Rightarrow> bool" where
  "kgrew m ps m' \<longleftrightarrow> kgrown m ps m' \<and> runs_kept m (ram m')"

lemma kgrewD: "kgrew m ps m' \<Longrightarrow> kgrown m ps m'"
  by (simp add: kgrew_def)

lemma ram_kfree [simp]: "ram (kfree m p) = ram m"
  by (simp add: kfree_def)

lemma ram_release_seq [simp]: "ram (release_seq kfree ps m) = ram m"
  by (induction ps arbitrary: m) simp_all

lemma runs_kept_refl [simp]: "runs_kept m (ram m)"
  by (simp add: runs_kept_def)

lemma kgrew_refl: "kheap_ok m \<Longrightarrow> kgrew m [] m"
  by (simp add: kgrew_def kheap.grown_refl)

lemma kgrew_trans:
  assumes "kgrew m ps m1" "kgrew m1 qs m2"
  shows "kgrew m (ps @ qs) m2"
proof -
  have "kowned m q = Some n \<Longrightarrow> kowned m1 q = Some n" for q n
    using assms(1) by (auto simp: kgrew_def grown_def)
  then show ?thesis
    using assms kheap.grown_trans runs_kept_trans unfolding kgrew_def by blast
qed

lemma kgrew_alloc:
  assumes "kheap_ok m" "0 < unat sz" "unat sz \<le> 4096" "0 < kroom m"
  obtains p m' where "kzalloc m sz = (p, m')" "p \<noteq> 0" "kgrew m [p] m'"
proof -
  obtain p m' where p: "kzalloc m sz = (p, m')" "p \<noteq> 0" "kgrown m [p] m'"
    by (rule kheap.grown_alloc [OF assms])
  then have "runs_kept m (ram m')" using kzalloc_page_kept [OF assms] by blast
  with p show thesis by (intro that) (simp_all add: kgrew_def)
qed

lemma kgrew_free: "kgrew m ps m' \<Longrightarrow> p \<in> set ps \<Longrightarrow> kgrew m (remove1 p ps) (kfree m' p)"
  by (simp add: kgrew_def kheap.grown_free)

lemma kgrew_perm: "kgrew m ps m' \<Longrightarrow> mset qs = mset ps \<Longrightarrow> kgrew m qs m'"
  unfolding kgrew_def using kheap.grown_perm by blast

lemma kgrew_release_seq:
  "kgrew m ps m' \<Longrightarrow> mset ps = mset qs + mset rs \<Longrightarrow> kgrew m rs (release_seq kfree qs m')"
  unfolding kgrew_def ram_release_seq using kheap.grown_release_seq by blast

lemma kgrew_core: "kheap_ok m \<Longrightarrow> kgrew m [] m' \<Longrightarrow> kernel_heap m' = kernel_heap m"
  by (simp add: kgrew_def kheap.grown_core)

section \<open>Free runs that are left\<close>

lemma taken_owner:
  "wf_tbl False t \<Longrightarrow> j < length t \<Longrightarrow> t ! j \<noteq> 0 \<Longrightarrow> \<exists>b n. owner t b = Some n \<and> b \<le> j \<and> j < b + n"
proof (induction "length t" arbitrary: t j rule: less_induct)
  case less
  then obtain e es where t: "t = e # es" by (cases t) auto
  show ?case
  proof (cases "e = 0")
    case True
    with less.prems t obtain k where k: "j = Suc k" by (cases j) auto
    with less.hyps [of es k] less.prems t True obtain b n where b: "owner es b = Some n" "b \<le> k" "k < b + n" by auto
    have "owner t (Suc b) = owner es b" using owner_tl [of "[0]" 1 es b] t True by simp
    with b k show ?thesis by (intro exI [of _ "Suc b"] exI [of _ n]) simp
  next
    case False
    obtain n ys where r: "t = run_bytes n @ ys" "0 < n" "wf_tbl False ys"
      using wf_tbl_first_run [of e es] less.prems(1) False t by metis
    have wf: "wf_tbl False (run_bytes n)" using wf_tbl_run [of n "[]"] r(2) by simp
    show ?thesis
    proof (cases "j < n")
      case True
      then show ?thesis using owner_run [OF r(2), of ys 0] r(1) by (intro exI [of _ 0] exI [of _ n]) simp
    next
      case j: False
      have "j - n < length ys" "ys ! (j - n) \<noteq> 0" using j less.prems(2,3) r(1) by (auto simp: nth_append)
      with less.hyps [of ys "j - n"] r obtain b k
        where b: "owner ys b = Some k" "b \<le> j - n" "j - n < b + k" by auto
      have "owner t (n + b) = owner ys b" using owner_tl [OF wf run_bytes_length] r(1) by simp
      with b j show ?thesis by (intro exI [of _ "n + b"] exI [of _ k]) auto
    qed
  qed
qed

lemma taken_stays:
  assumes wf: "wf_tbl False t" "wf_tbl False t'" and sub: "owner t \<subseteq>\<^sub>m owner t'" and j: "j < length t" "t ! j \<noteq> 0"
  shows "j < length t' \<and> t' ! j \<noteq> 0"
proof -
  from taken_owner [OF wf(1) j] obtain b n where b: "owner t b = Some n" "b \<le> j" "j < b + n" by blast
  then have "owner t' b = Some n" using sub by (metis domI map_le_def)
  from owner_split [OF wf(2) this] obtain xs ys where t': "t' = xs @ run_bytes n @ ys" "length xs = b" .
  moreover have "j - b < n" using b(2,3) by simp
  ultimately have "t' ! j = run_entry n (j - b)" using b(2) by (simp add: nth_append run_bytes_def)
  then show ?thesis using t' b by (simp add: run_entry_def)
qed

text \<open>\<open>k\<close> more blocks cannot touch all of \<open>k + 1\<close> disjoint free runs.\<close>

lemma free_run_left:
  assumes wf: "wf_tbl False t" "wf_tbl False t'" "length t' = length t" and sub: "owner t \<subseteq>\<^sub>m owner t'"
    and count: "free_count t = k + free_count t'" and free: "free_at t i l" "(k + 1) * n \<le> l" "0 < n"
  shows "\<exists>j. free_at t' j n"
proof (rule ccontr)
  assume no: "\<not> ?thesis"
  have w: "c * n + n \<le> l" if "c \<le> k" for c
  proof -
    have "(c + 1) * n \<le> l" by (rule order_trans [OF mult_le_mono1 free(2)]) (use that in simp)
    then show ?thesis by simp
  qed
  have "\<exists>x. i + c * n \<le> x \<and> x < i + c * n + n \<and> t' ! x \<noteq> 0" if "c \<le> k" for c
  proof -
    have "i + c * n + n \<le> length t'" using w [OF that] free(1) wf(3) unfolding free_at_def by linarith
    moreover have "\<not> free_at t' (i + c * n) n" using no by blast
    ultimately obtain d where "d < n" "t' ! (i + c * n + d) \<noteq> 0" by (auto simp: free_at_def)
    then show ?thesis by (intro exI [of _ "i + c * n + d"]) simp
  qed
  then obtain f where f: "\<And>c. c \<le> k \<Longrightarrow> i + c * n \<le> f c \<and> f c < i + c * n + n \<and> t' ! f c \<noteq> 0" by metis
  let ?z = "\<lambda>u. {x. x < length t \<and> u ! x = (0 :: u8)}"
  have fin: "finite (?z t - ?z t')" by simp
  have "inj_on f {..k}"
  proof (rule inj_onI)
    fix c d assume c: "c \<in> {..k}" "d \<in> {..k}" "f c = f d"
    have "(f c - i) div n = c" if "c \<le> k" for c
    proof -
      have "f c - i = c * n + (f c - i - c * n)" "f c - i - c * n < n" using f [OF that] by linarith+
      then show ?thesis using free(3) by (metis div_mult_self3 div_less add.commute add.right_neutral less_numeral_extra(3))
    qed
    with c show "c = d" by (metis atMost_iff)
  qed
  then have ck: "card (f ` {..k}) = Suc k" by (simp add: card_image)
  have im: "f ` {..k} \<subseteq> ?z t - ?z t'"
  proof (rule image_subsetI)
    fix c assume "c \<in> {..k}"
    then have c: "i + c * n \<le> f c" "f c < i + c * n + n" "t' ! f c \<noteq> 0" "c * n + n \<le> l" using f w by auto
    then have d: "f c - i < l" "i + (f c - i) = f c" by linarith+
    then have "t ! f c = 0" "f c < length t" using free(1) unfolding free_at_def by (metis, linarith)
    then show "f c \<in> ?z t - ?z t'" using c(3) by simp
  qed
  have "Suc k \<le> card (?z t - ?z t')" using card_mono [OF fin im] ck by simp
  moreover have "?z t' \<subseteq> ?z t" using taken_stays [OF wf(1,2) sub] by blast
  then have "card (?z t - ?z t') = card (?z t) - card (?z t')" by (intro card_Diff_subset) simp_all
  moreover have "free_count t = card (?z t)" "free_count t' = card (?z t')"
    by (simp_all add: free_count_def length_filter_conv_card wf(3))
  ultimately show False using count by simp
qed

section \<open>Counting blocks\<close>

text \<open>\<open>k\<close> blocks more are allocated, by objects of any size; the older ones are untouched.\<close>

definition heap_after :: "kmem \<Rightarrow> nat \<Rightarrow> kmem \<Rightarrow> bool" where
  "heap_after m k m' \<longleftrightarrow> kheap_ok m' \<and> kframe m' = kframe m \<and> kowned m \<subseteq>\<^sub>m kowned m' \<and>
     runs_kept m (ram m') \<and> kroom m = k + kroom m'"

lemma heap_afterD:
  assumes "heap_after m k m'"
  shows "kheap_ok m'" "kframe m' = kframe m" "kroom m = k + kroom m'" "runs_kept m (ram m')"
    "kowned m q = Some n \<Longrightarrow> kowned m' q = Some n" "kowned m' q = None \<Longrightarrow> kowned m q = None"
proof -
  note A = assms [unfolded heap_after_def]
  show "kheap_ok m'" "kframe m' = kframe m" "kroom m = k + kroom m'" "runs_kept m (ram m')" using A by simp_all
  show k: "kowned m' q = Some n" if "kowned m q = Some n" for q n using A that by (metis domI map_le_def)
  show "kowned m' q = None \<Longrightarrow> kowned m q = None" using k [of q] by (cases "kowned m q") auto
qed

lemma heap_after_refl: "kheap_ok m \<Longrightarrow> heap_after m 0 m"
  by (simp add: heap_after_def)

lemma heap_after_trans:
  assumes "heap_after m j m1" "heap_after m1 k m2"
  shows "heap_after m (j + k) m2"
proof -
  have "runs_kept m (ram m2)"
    by (rule runs_kept_trans [OF heap_afterD(4) [OF assms(1)] heap_afterD(4) [OF assms(2)]]) (rule heap_afterD(5) [OF assms(1)])
  moreover have "kowned m \<subseteq>\<^sub>m kowned m2" using assms map_le_trans unfolding heap_after_def by blast
  ultimately show ?thesis using assms by (simp add: heap_after_def)
qed

lemma kgrew_after: "kgrew m ps m' \<Longrightarrow> heap_after m (length ps) m'"
  by (auto simp: kgrew_def grown_def heap_after_def map_le_def)

lemma kzalloc_blocks_after:
  assumes "kheap_ok m" "0 < unat sz" "unat sz \<le> 2 ^ 32 - 4096" "\<exists>i. free_at (tbl (kernel_heap m)) i (blocks_for (unat sz))"
  obtains p m' where "kzalloc m sz = (p, m')" "p \<noteq> 0" "heap_after m (blocks_for (unat sz)) m'" "kowned m p = None"
    "kowned m' = (kowned m)(p \<mapsto> blocks_for (unat sz))"
proof (rule kzalloc_blocks [OF assms])
  fix p m' assume m: "kzalloc m sz = (p, m')" "p \<noteq> 0" "kheap_ok m'" "kowned m p = None"
    "kowned m' = (kowned m)(p \<mapsto> blocks_for (unat sz))" "kframe m' = kframe m" "runs_kept m (ram m')"
    "kroom m = blocks_for (unat sz) + kroom m'"
  then have "heap_after m (blocks_for (unat sz)) m'" by (auto simp: heap_after_def map_le_def)
  with m show thesis by (intro that)
qed

lemma heap_after_release:
  "heap_after m (length bs + k) m' \<Longrightarrow> distinct bs \<Longrightarrow> \<forall>b \<in> set bs. kowned m b = None \<and> kowned m' b = Some 1 \<Longrightarrow>
   heap_after m k (release_seq kfree bs m')"
proof (induction bs arbitrary: m')
  case (Cons b bs)
  have b: "kowned m b = None" "kowned m' b = Some 1" using Cons.prems(3) by simp_all
  note r = kheap.release_law [OF heap_afterD(1) [OF Cons.prems(1)] b(2)]
  have "heap_after m (length bs + k) (kfree m' b)"
    using Cons.prems(1) r b by (auto simp: heap_after_def map_le_def)
  moreover have "\<forall>c \<in> set bs. kowned m c = None \<and> kowned (kfree m' b) c = Some 1" using Cons.prems(2,3) r by auto
  ultimately show ?case using Cons.IH Cons.prems(2) by simp
qed simp

lemma heap_after_write:
  assumes a: "heap_after m k m'" and q: "kowned m' q = Some n" "kowned m q = None"
    and out: "\<And>a. (\<And>i. i < 4096 * n \<Longrightarrow> a \<noteq> q + of_nat i) \<Longrightarrow> r a = ram m' a"
  shows "heap_after m k (m'\<lparr>ram := r\<rparr>)"
proof -
  note A = a [unfolded heap_after_def]
  have "r (p + of_nat i) = ram m (p + of_nat i)" if p: "kowned m p = Some np" "i < 4096 * np" for p np i
  proof -
    have p': "kowned m' p = Some np" "p \<noteq> q" using heap_afterD(5) [OF a p(1)] p(1) q(2) by auto
    have "r (p + of_nat i) = ram m' (p + of_nat i)"
      by (rule out) (use runs_apart [OF heap_afterD(1) [OF a] p'(1) q(1) p'(2) p(2)] in blast)
    then show ?thesis using A p unfolding runs_kept_def by simp
  qed
  then show ?thesis using A by (simp add: heap_after_def runs_kept_def kheap_ok_def kowned_def kframe_def kroom_def)
qed

text \<open>A long free run leaves a free run of \<open>n\<close> blocks.\<close>

lemma heap_after_fits:
  assumes ok: "kheap_ok m" and a: "heap_after m k m'" and free: "free_at (tbl (kernel_heap m)) i l" "(k + 1) * n \<le> l" "0 < n"
  shows "\<exists>j. free_at (tbl (kernel_heap m')) j n"
proof (rule free_run_left [OF _ _ _ _ _ free])
  note A = a [unfolded heap_after_def]
  let ?h = "kernel_heap m" and ?h' = "kernel_heap m'"
  have h: "heap_ok ?h" "heap_ok ?h'" using ok A by (simp_all add: kheap_ok_def)
  have fr: "saddr ?h' = saddr ?h" "length (tbl ?h') = length (tbl ?h)"
    using A by (simp_all add: kframe_def heap_frame_def tbl_length)
  then show "length (tbl ?h') = length (tbl ?h)" by simp
  show "wf_tbl False (tbl ?h)" "wf_tbl False (tbl ?h')" by (rule heap_ok_bounds [OF h(1)], rule heap_ok_bounds [OF h(2)])
  show "free_count (tbl ?h) = k + free_count (tbl ?h')" using A by (simp add: kroom_def)
  show "owner (tbl ?h) \<subseteq>\<^sub>m owner (tbl ?h')"
  proof (unfold map_le_def, intro ballI)
    fix b assume "b \<in> dom (owner (tbl ?h))"
    then obtain c where c: "owner (tbl ?h) b = Some c" by blast
    then have b: "b < length (tbl ?h)" by (auto simp: owner_def split: if_splits)
    then have "kowned m (block_addr ?h b) = Some c" using owned_block_addr [OF h(1)] c by (simp add: kowned_def)
    then have "kowned m' (block_addr ?h b) = Some c" by (rule heap_afterD(5) [OF a])
    moreover have "block_addr ?h b = block_addr ?h' b" by (simp add: block_addr_def fr)
    ultimately show "owner (tbl ?h) b = owner (tbl ?h') b"
      using owned_block_addr [OF h(2), of b] b fr(2) c by (simp add: kowned_def)
  qed
qed

end
