(* ===== verification/PathParser.thy ===== *)
theory PathParser
  imports KRuns CString
begin

text \<open>
  The path parser, \<open>src/src/fs/pparser.c\<close>. A path is the bytes from the pointer to the
  end of the caller's object. The linked list of parts is a list in the order of the
  \<open>next\<close> pointers; a part keeps the addresses of its two heap objects, because
  \<open>pathparser_free\<close> releases them, and the 108 bytes of its name buffer. Writing to such
  a buffer out of its bounds, or through a null pointer, has no result.
\<close>

section \<open>The C functions\<close>

definition HARDIKHYPERIONOS_MAX_PATH :: nat where "HARDIKHYPERIONOS_MAX_PATH = 108"

record path_part =
  part_addr :: u32
  part_ptr :: u32
  part :: "u8 list"

record path_root =
  root_addr :: u32
  drive_no :: int
  first :: "path_part list"

definition pathparser_path_valid_format :: "u8 list \<Rightarrow> bool option" where
  "pathparser_path_valid_format filename =
     do { len \<leftarrow> strnlen filename (int HARDIKHYPERIONOS_MAX_PATH);
          if \<not> len \<ge> 3 then Some False
          else do { c \<leftarrow> arr_get filename 0;
            if \<not> isdigit c then Some False
            else do { r \<leftarrow> memcmp (tl filename) (ascii '':/'') 2; Some (r = 0) } } }"

text \<open>The drive number or an error, and the advanced pointer.\<close>

definition pathparser_get_drive_by_path :: "u8 list \<Rightarrow> (int \<times> u8 list) option" where
  "pathparser_get_drive_by_path path =
     do { v \<leftarrow> pathparser_path_valid_format path;
          if \<not> v then Some (- EBADPATH, path)
          else do { c \<leftarrow> arr_get path 0; Some (tonumericdigit c, drop 3 path) } }"

definition pathparser_create_root :: "kmem \<Rightarrow> int \<Rightarrow> (path_root \<times> kmem) option" where
  "pathparser_create_root m drive_number =
     (let (path_r, m1) = kzalloc m 8
      in if path_r = 0 then None
         else Some (\<lparr>root_addr = path_r, drive_no = drive_number, first = []\<rparr>, m1))"

text \<open>The loop of \<open>pathparser_get_path_part\<close>: buffer, length and the rest of the path.\<close>

fun pathparser_part_loop :: "u8 list \<Rightarrow> u8 list \<Rightarrow> nat \<Rightarrow> (u8 list \<times> nat \<times> u8 list) option" where
  "pathparser_part_loop result_path_part [] i = None"
| "pathparser_part_loop result_path_part (c # path) i =
     (if c \<noteq> of_char CHR ''/'' \<and> c \<noteq> 0
      then do { b \<leftarrow> arr_set result_path_part (int i) c; pathparser_part_loop b path (i + 1) }
      else Some (result_path_part, i, c # path))"

definition pathparser_get_path_part :: "kmem \<Rightarrow> u8 list \<Rightarrow> ((u32 \<times> u8 list) option \<times> u8 list \<times> kmem) option" where
  "pathparser_get_path_part m path =
     (let (result_path_part, m1) = kzalloc m (of_nat HARDIKHYPERIONOS_MAX_PATH)
      in do { (b, i, path') \<leftarrow> pathparser_part_loop (replicate HARDIKHYPERIONOS_MAX_PATH 0) path 0;
              let path'' = (if path' \<noteq> [] \<and> hd path' = of_char CHR ''/'' then tl path' else path');
              if i = 0 then Some (None, path'', kfree m1 result_path_part)
              else if result_path_part = 0 then None
              else Some (Some (result_path_part, b), path'', m1) })"

definition pathparser_parse_path_part :: "kmem \<Rightarrow> u8 list \<Rightarrow> (path_part option \<times> u8 list \<times> kmem) option" where
  "pathparser_parse_path_part m path =
     do { (p, path', m1) \<leftarrow> pathparser_get_path_part m path;
          case p of None \<Rightarrow> Some (None, path', m1)
          | Some (ptr, b) \<Rightarrow>
              let (prt, m2) = kzalloc m1 8
              in if prt = 0 then None
                 else Some (Some \<lparr>part_addr = prt, part_ptr = ptr, part = b\<rparr>, path', m2) }"

text \<open>The loop that links the parts; each part is appended to the one before.\<close>

partial_function (option) pathparser_parse_parts ::
    "kmem \<Rightarrow> u8 list \<Rightarrow> (path_part list \<times> kmem) option" where
  "pathparser_parse_parts m path =
     do { (p, path', m1) \<leftarrow> pathparser_parse_path_part m path;
          case p of None \<Rightarrow> Some ([], m1)
          | Some prt \<Rightarrow> do { (ps, m2) \<leftarrow> pathparser_parse_parts m1 path'; Some (prt # ps, m2) } }"

fun pathparser_free_parts :: "path_part list \<Rightarrow> kmem \<Rightarrow> kmem" where
  "pathparser_free_parts [] m = m"
| "pathparser_free_parts (p # ps) m =
     pathparser_free_parts ps (kfree (kfree m (part_ptr p)) (part_addr p))"

definition pathparser_free :: "kmem \<Rightarrow> path_root \<Rightarrow> kmem" where
  "pathparser_free m root = kfree (pathparser_free_parts (first root) m) (root_addr root)"

text \<open>The result is null (\<open>None\<close>) for a path that is too long or not absolute.\<close>

definition pathparser_parse :: "kmem \<Rightarrow> u8 list \<Rightarrow> (path_root option \<times> kmem) option" where
  "pathparser_parse m path =
     do { n \<leftarrow> strlen path;
          if n > int HARDIKHYPERIONOS_MAX_PATH then Some (None, m)
          else do { (res, tmp_path) \<leftarrow> pathparser_get_drive_by_path path;
            if res < 0 then Some (None, m)
            else do { (root, m1) \<leftarrow> pathparser_create_root m res;
              (ps, m2) \<leftarrow> pathparser_parse_parts m1 tmp_path;
              Some (Some (root\<lparr>first := ps\<rparr>), m2) } } }"

section \<open>The parts of a path\<close>

text \<open>The names between slashes, up to the first empty one.\<close>

fun split_slash :: "u8 list \<Rightarrow> u8 list list" where
  "split_slash [] = [[]]"
| "split_slash (c # s) =
     (if c = of_char CHR ''/'' then [] # split_slash s
      else (c # hd (split_slash s)) # tl (split_slash s))"

definition path_names :: "u8 list \<Rightarrow> u8 list list" where
  "path_names s = takeWhile (\<lambda>p. p \<noteq> []) (split_slash s)"

definition head_name :: "u8 list \<Rightarrow> u8 list" where
  "head_name s = takeWhile (\<lambda>c. c \<noteq> of_char CHR ''/'') s"

lemma split_slash_head:
  "split_slash s = head_name s # (if of_char CHR ''/'' \<in> set s
     then split_slash (tl (dropWhile (\<lambda>c. c \<noteq> of_char CHR ''/'') s)) else [])"
  by (induction s) (auto simp: head_name_def)

lemma path_names_step:
  "path_names s = (if head_name s = [] then [] else head_name s #
     (if of_char CHR ''/'' \<in> set s
      then path_names (tl (dropWhile (\<lambda>c. c \<noteq> of_char CHR ''/'') s)) else []))"
  unfolding path_names_def by (subst split_slash_head) auto

lemma slash_nonzero: "(of_char CHR ''/'' :: u8) \<noteq> 0"
  by simp

lemma part_loop_head:
  assumes "terminated path" "i + length (head_name (cstr path)) \<le> length b"
  shows "pathparser_part_loop b path i =
    Some (overwrite b i (head_name (cstr path)), i + length (head_name (cstr path)),
          dropWhile (\<lambda>c. c \<noteq> of_char CHR ''/'' \<and> c \<noteq> 0) path)"
  using assms
proof (induction b path i rule: pathparser_part_loop.induct)
  case (2 b c path i)
  then show ?case
    by (cases "c = 0"; cases "c = of_char CHR ''/''") (auto simp: head_name_def array_simps overwrite_step)
qed simp

lemma rest_of_path:
  "terminated path \<Longrightarrow>
   \<exists>c s. dropWhile (\<lambda>c. c \<noteq> of_char CHR ''/'' \<and> c \<noteq> 0) path = c # s \<and>
     (c = 0 \<longleftrightarrow> of_char CHR ''/'' \<notin> set (cstr path)) \<and>
     (c \<noteq> 0 \<longrightarrow> c = of_char CHR ''/'' \<and> terminated s \<and>
        cstr s = tl (dropWhile (\<lambda>c. c \<noteq> of_char CHR ''/'') (cstr path)))"
proof (induction path)
  case (Cons a path)
  then show ?case by (cases "a = 0"; cases "a = of_char CHR ''/''") auto
qed simp

lemma head_name_cstr: "0 \<notin> set (head_name (cstr s))"
  using cstr_no_zero by (auto simp: head_name_def dest: set_takeWhileD)

lemma cstr_append_zero: "0 \<notin> set xs \<Longrightarrow> cstr (xs @ 0 # ys) = xs"
  by (induction xs) auto

lemma cstr_padded:
  assumes "0 \<notin> set xs" "length xs < n"
  shows "cstr (overwrite (replicate n 0) 0 xs) = xs"
proof -
  from assms(2) obtain k where "n - length xs = Suc k" by (cases "n - length xs") auto
  then show ?thesis using assms(1) by (simp add: overwrite_def cstr_append_zero)
qed

section \<open>The parser builds the parts\<close>

definition part_blocks :: "path_part list \<Rightarrow> u32 list" where
  "part_blocks ps = concat (map (\<lambda>p. [part_ptr p, part_addr p]) ps)"

definition root_blocks :: "path_root \<Rightarrow> u32 list" where
  "root_blocks r = part_blocks (first r) @ [root_addr r]"

text \<open>The name of a part, as its users read it.\<close>

definition part_name :: "path_part \<Rightarrow> u8 list" where
  "part_name p = cstr (part p)"

lemma parse_path_part_law:
  assumes ok: "kheap_ok m" and path: "terminated path" "length (cstr path) < 108" and room: "2 \<le> kroom m"
  obtains (none) path' m' where "head_name (cstr path) = []"
      "pathparser_parse_path_part m path = Some (None, path', m')" "kgrew m [] m'"
  | (some) p path' m' where "head_name (cstr path) \<noteq> []"
      "pathparser_parse_path_part m path = Some (Some p, path', m')"
      "kgrew m [part_ptr p, part_addr p] m'"
      "part_name p = head_name (cstr path)" "length (part p) = 108" "terminated (part p)"
      "terminated path'" "length (cstr path') < length (cstr path)"
      "path_names (cstr path) = part_name p # path_names (cstr path')"
proof -
  let ?n = "head_name (cstr path)"
  obtain q m1 where q: "kzalloc m 108 = (q, m1)" "q \<noteq> 0" "kgrew m [q] m1"
    by (rule kgrew_alloc [OF ok, of 108]) (use room in auto)
  obtain c s where s: "dropWhile (\<lambda>c. c \<noteq> of_char CHR ''/'' \<and> c \<noteq> 0) path = c # s"
    "c = 0 \<longleftrightarrow> of_char CHR ''/'' \<notin> set (cstr path)" "c \<noteq> 0 \<Longrightarrow> c = of_char CHR ''/'' \<and> terminated s"
    "c \<noteq> 0 \<Longrightarrow> cstr s = tl (dropWhile (\<lambda>c. c \<noteq> of_char CHR ''/'') (cstr path))"
    using rest_of_path [OF path(1)] by blast
  have len: "length ?n \<le> length (cstr path)" by (simp add: head_name_def length_takeWhile_le)
  define rest where "rest = (if c = of_char CHR ''/'' then s else c # s)"
  let ?b = "overwrite (replicate HARDIKHYPERIONOS_MAX_PATH 0) 0 ?n"
  have loop: "pathparser_part_loop (replicate HARDIKHYPERIONOS_MAX_PATH 0) path 0 = Some (?b, length ?n, c # s)"
    using part_loop_head [OF path(1), of 0 "replicate HARDIKHYPERIONOS_MAX_PATH 0"] len path(2) s(1)
    by (simp add: HARDIKHYPERIONOS_MAX_PATH_def)
  have part: "pathparser_get_path_part m path =
      (if ?n = [] then Some (None, rest, kfree m1 q) else Some (Some (q, ?b), rest, m1))"
    using q(1,2) loop by (simp add: pathparser_get_path_part_def HARDIKHYPERIONOS_MAX_PATH_def rest_def)
  show thesis
  proof (cases "?n = []")
    case True
    then have "pathparser_parse_path_part m path = Some (None, rest, kfree m1 q)"
      by (simp add: pathparser_parse_path_part_def part)
    moreover have "kgrew m [] (kfree m1 q)" using kgrew_free [OF q(3), of q] by simp
    ultimately show thesis using True none by blast
  next
    case False
    have ok1: "kheap_ok m1" "0 < kroom m1" using q(3) room by (auto simp: kgrew_def grown_def)
    obtain a m2 where a: "kzalloc m1 8 = (a, m2)" "a \<noteq> 0" "kgrew m1 [a] m2"
      by (rule kgrew_alloc [OF ok1(1), of 8]) (use ok1 in auto)
    define p where "p = \<lparr>part_addr = a, part_ptr = q, part = ?b\<rparr>"
    have name: "part_name p = ?n"
      using cstr_padded [OF head_name_cstr [of path], of 108] len path(2) by (simp add: part_name_def p_def HARDIKHYPERIONOS_MAX_PATH_def)
    have lb: "length ?b = 108" using len path(2) by (simp add: HARDIKHYPERIONOS_MAX_PATH_def)
    have tb: "terminated ?b"
      using len path(2) by (simp add: terminated_def overwrite_def HARDIKHYPERIONOS_MAX_PATH_def)
    have rest: "terminated rest \<and> length (cstr rest) < length (cstr path) \<and>
        path_names (cstr path) = part_name p # path_names (cstr rest)"
    proof (cases "c = 0")
      case True
      then have "path_names (cstr path) = [?n]" "cstr rest = []" "terminated rest"
        using True False s(2) by (subst path_names_step, auto simp: rest_def)+
      moreover have "cstr path \<noteq> []" using False by (auto simp: head_name_def)
      ultimately show ?thesis by (simp add: name path_names_def)
    next
      case c: False
      then have r: "rest = s" "terminated s" "of_char CHR ''/'' \<in> set (cstr path)"
        using s(2,3) by (auto simp: rest_def)
      then have "dropWhile (\<lambda>c. c \<noteq> of_char CHR ''/'') (cstr path) \<noteq> []" by auto
      then have "length (tl (dropWhile (\<lambda>c. c \<noteq> of_char CHR ''/'') (cstr path))) <
          length (dropWhile (\<lambda>c. c \<noteq> of_char CHR ''/'') (cstr path))" by simp
      then have "length (cstr rest) < length (cstr path)"
        using s(4) [OF c] r less_le_trans [OF _ length_dropWhile_le [of "\<lambda>c. c \<noteq> of_char CHR ''/''" "cstr path"]]
        by metis
      then show ?thesis using r s(4) [OF c] False by (subst path_names_step) (simp add: name)
    qed
    have "pathparser_parse_path_part m path = Some (Some p, rest, m2)"
      using False a by (simp add: pathparser_parse_path_part_def part p_def)
    moreover have "kgrew m [q, a] m2" using kgrew_trans [OF q(3) a(3)] by simp
    ultimately show thesis
      using False name rest lb tb by (intro some [of p rest m2]) (simp_all add: p_def)
  qed
qed

lemma parse_parts_law:
  "kheap_ok m \<Longrightarrow> terminated path \<Longrightarrow> length (cstr path) < 108 \<Longrightarrow>
   2 * length (path_names (cstr path)) + 2 \<le> kroom m \<Longrightarrow>
   \<exists>ps m'. pathparser_parse_parts m path = Some (ps, m') \<and> kgrew m (part_blocks ps) m' \<and>
     map part_name ps = path_names (cstr path) \<and>
     (\<forall>p \<in> set ps. length (part p) = 108 \<and> terminated (part p))"
proof (induction "length (cstr path)" arbitrary: m path rule: less_induct)
  case less
  have room: "2 \<le> kroom m" using less.prems(4) by simp
  show ?case
  proof (cases rule: parse_path_part_law [OF less.prems(1-3) room, case_names none some])
    case (none path' m')
    have "path_names (cstr path) = []" using none(1) by (subst path_names_step) simp
    with none show ?thesis
      by (intro exI [of _ "[]"] exI [of _ m'])
        (simp add: pathparser_parse_parts.simps [of m path] part_blocks_def)
  next
    case (some p path' m1)
    have "kheap_ok m1" "2 * length (path_names (cstr path')) + 2 \<le> kroom m1"
      using some less.prems(4) by (auto simp: kgrew_def grown_def)
    with less.hyps [OF some(8) this(1) some(7)] less.prems(3) some(8) obtain ps m'
      where ps: "pathparser_parse_parts m1 path' = Some (ps, m')" "kgrew m1 (part_blocks ps) m'"
        "map part_name ps = path_names (cstr path')"
        "\<forall>p \<in> set ps. length (part p) = 108 \<and> terminated (part p)" by auto
    have "kgrew m (part_blocks (p # ps)) m'"
      using kgrew_trans [OF some(3) ps(2)] by (simp add: part_blocks_def)
    moreover have "pathparser_parse_parts m path = Some (p # ps, m')"
      using some ps(1) by (simp add: pathparser_parse_parts.simps [of m path])
    ultimately show ?thesis using ps some
      by (intro exI [of _ "p # ps"] exI [of _ m']) simp
  qed
qed

text \<open>A path the kernel accepts: digit, colon, slash, and at most 108 characters.\<close>

definition path_ok :: "u8 list \<Rightarrow> bool" where
  "path_ok path \<longleftrightarrow> 3 \<le> length (cstr path) \<and> length (cstr path) \<le> 108 \<and> isdigit (path ! 0) \<and>
     path ! 1 = of_char CHR '':'' \<and> path ! 2 = of_char CHR ''/''"

lemma path_three:
  assumes "terminated path" "3 \<le> length (cstr path)"
  obtains a b c s where "path = a # b # c # s" "a \<noteq> 0" "b \<noteq> 0" "c \<noteq> 0" "terminated s"
    "cstr path = a # b # c # cstr s"
proof -
  obtain t where t: "path = cstr path @ 0 # t" using cstr_prefix [OF assms(1)] by blast
  obtain a b c d where d: "cstr path = a # b # c # d"
    using assms(2) by (metis Suc_le_length_iff numeral_3_eq_3)
  then have nz: "a \<noteq> 0" "b \<noteq> 0" "c \<noteq> 0" using cstr_no_zero [of path] by auto
  have p: "path = a # b # c # (d @ 0 # t)" using t d by simp
  then have "cstr path = a # b # c # cstr (d @ 0 # t)" using nz by simp
  with p nz show thesis by (intro that [of a b c "d @ 0 # t"]) (simp_all add: terminated_def)
qed

lemma path_format_law:
  assumes "terminated path"
  shows "pathparser_path_valid_format path = Some (3 \<le> length (cstr path) \<and> isdigit (path ! 0) \<and>
     path ! 1 = of_char CHR '':'' \<and> path ! 2 = of_char CHR ''/'')"
proof (cases "3 \<le> length (cstr path)")
  case True
  from path_three [OF assms True] obtain a b c s where "path = a # b # c # s" by metis
  with True assms show ?thesis
    by (auto simp: pathparser_path_valid_format_def HARDIKHYPERIONOS_MAX_PATH_def arr_get_def
        memcmp_def ascii_def numeral_2_eq_2)
qed (use assms in \<open>simp add: pathparser_path_valid_format_def HARDIKHYPERIONOS_MAX_PATH_def\<close>)

lemma pathparser_free_law:
  assumes "kheap_ok m" "kgrew m (root_blocks r) m'"
  shows "kernel_heap (pathparser_free m' r) = kernel_heap m"
proof -
  have "pathparser_free_parts ps m = release_seq kfree (part_blocks ps) m" for ps m
    by (induction ps arbitrary: m) (simp_all add: part_blocks_def)
  then have "pathparser_free m' r = release_seq kfree (root_blocks r) m'"
    by (simp add: pathparser_free_def root_blocks_def)
  with kgrew_core [OF assms(1) kgrew_release_seq [OF assms(2), of _ "[]"]]
  show ?thesis by simp
qed

lemma pathparser_parse_ok:
  assumes ok: "kheap_ok m" and t: "terminated path" and p: "path_ok path"
    and room: "2 * length (path_names (drop 3 (cstr path))) + 3 \<le> kroom m"
  shows "\<exists>r m'. pathparser_parse m path = Some (Some r, m') \<and>
    drive_no r = uint (path ! 0) - 48 \<and> map part_name (first r) = path_names (drop 3 (cstr path)) \<and>
    (\<forall>p \<in> set (first r). length (part p) = 108 \<and> terminated (part p)) \<and>
    kgrew m (root_blocks r) m'"
proof -
  have 3: "3 \<le> length (cstr path)" using p by (simp add: path_ok_def)
  from path_three [OF t 3] obtain a b c s where s: "path = a # b # c # s" "terminated s"
    "cstr path = a # b # c # cstr s" by metis
  have d: "isdigit a" using p s(1) by (simp add: path_ok_def)
  then have n: "tonumericdigit a = uint a - 48" "0 \<le> tonumericdigit a"
    using isdigit_value by simp_all
  obtain q m1 where q: "kzalloc m 8 = (q, m1)" "q \<noteq> 0" "kgrew m [q] m1"
    by (rule kgrew_alloc [OF ok, of 8]) (use room in auto)
  have l: "length (cstr s) < 108" using p s(3) by (simp add: path_ok_def)
  have "kheap_ok m1" "2 * length (path_names (cstr s)) + 2 \<le> kroom m1"
    using q(3) room s(3) by (auto simp: kgrew_def grown_def)
  from parse_parts_law [OF this(1) s(2) l this(2)] obtain ps m'
    where ps: "pathparser_parse_parts m1 s = Some (ps, m')" "kgrew m1 (part_blocks ps) m'"
      "map part_name ps = path_names (cstr s)"
      "\<forall>p \<in> set ps. length (part p) = 108 \<and> terminated (part p)" by blast
  have drive: "pathparser_get_drive_by_path path = Some (tonumericdigit a, s)"
    using path_format_law [OF t] p s(1) 3
    by (simp add: pathparser_get_drive_by_path_def path_ok_def arr_get_def)
  have "strlen path = Some (int (length (cstr path)))" using t by (rule strlen_cstr)
  then have "pathparser_parse m path = Some (Some \<lparr>root_addr = q, drive_no = tonumericdigit a, first = ps\<rparr>, m')"
    using p q drive n(2) ps(1)
    by (simp add: pathparser_parse_def path_ok_def HARDIKHYPERIONOS_MAX_PATH_def pathparser_create_root_def)
  moreover have "kgrew m (part_blocks ps @ [q]) m'"
    by (rule kgrew_perm [OF kgrew_trans [OF q(3) ps(2)]]) simp
  ultimately show ?thesis using n(1) s ps(3,4) by (auto simp: root_blocks_def)
qed

lemma pathparser_parse_bad:
  assumes t: "terminated path" and p: "\<not> path_ok path"
  shows "pathparser_parse m path = Some (None, m)"
  using p path_format_law [OF t] t
  by (auto simp: pathparser_parse_def path_ok_def HARDIKHYPERIONOS_MAX_PATH_def
      pathparser_get_drive_by_path_def status_simps)

end
