(* ===== verification/Fat16.thy ===== *)
theory Fat16
  imports DiskStream PathParser
begin

text \<open>
  The FAT16 file system, \<open>src/src/fs/fat/fat16.c\<close>, on the disk streams and the kernel
  heap. Objects the driver allocates are values that carry their heap address. The items
  of a directory stay the bytes read from the disk, because the driver walks over them
  with character pointers that may leave the name field; \<open>fat_directory_item\<close> is what the
  packed structure reads at a byte offset.
\<close>

section \<open>Structures\<close>

definition FAT16_SIGNATURE :: u8 where "FAT16_SIGNATURE = 0x29"
definition FAT16_FAT_ENTRY_SIZE :: int where "FAT16_FAT_ENTRY_SIZE = 2"
definition FAT16_BAD_SECTOR :: int where "FAT16_BAD_SECTOR = 0xFF7"
definition FAT_ITEM_TYPE_DIRECTORY :: u32 where "FAT_ITEM_TYPE_DIRECTORY = 0"
definition FAT_ITEM_TYPE_FILE :: u32 where "FAT_ITEM_TYPE_FILE = 1"
definition FAT_FILE_READ_ONLY :: u8 where "FAT_FILE_READ_ONLY = 0x01"
definition FAT_FILE_SUBDIRECTORY :: u8 where "FAT_FILE_SUBDIRECTORY = 0x10"
definition FILE_STAT_READ_ONLY :: u32 where "FILE_STAT_READ_ONLY = 1"
definition FILE_MODE_READ :: u32 where "FILE_MODE_READ = 0"
definition FILE_MODE_WRITE :: u32 where "FILE_MODE_WRITE = 1"
definition FILE_MODE_APPEND :: u32 where "FILE_MODE_APPEND = 2"
definition FILE_MODE_INVALID :: u32 where "FILE_MODE_INVALID = 3"
definition SEEK_SET :: u32 where "SEEK_SET = 0"
definition SEEK_CUR :: u32 where "SEEK_CUR = 1"
definition SEEK_END :: u32 where "SEEK_END = 2"

text \<open>Little-endian fields of a packed structure.\<close>

definition get8 :: "u8 list \<Rightarrow> nat \<Rightarrow> u8 option" where
  "get8 bs k = arr_get bs (int k)"

definition get16 :: "u8 list \<Rightarrow> nat \<Rightarrow> u16 option" where
  "get16 bs k = do { a \<leftarrow> get8 bs k; b \<leftarrow> get8 bs (k + 1); Some (ucast a OR push_bit 8 (ucast b)) }"

definition get32 :: "u8 list \<Rightarrow> nat \<Rightarrow> u32 option" where
  "get32 bs k = do { a \<leftarrow> get16 bs k; b \<leftarrow> get16 bs (k + 2); Some (ucast a OR push_bit 16 (ucast b)) }"

text \<open>
  The fields of the boot sector that the driver uses; the structure is 36 bytes, followed
  by the 26 bytes of the extended header.
\<close>

record fat_header =
  bytes_per_sector :: u16
  sectors_per_cluster :: u8
  reserved_sectors :: u16
  fat_copies :: u8
  root_dir_entries :: u16
  number_of_sectors :: u16
  sectors_per_fat :: u16

record fat_h =
  primary_header :: fat_header
  signature :: u8

definition sizeof_fat_h :: nat where "sizeof_fat_h = 62"

definition read_fat_h :: "u8 list \<Rightarrow> fat_h option" where
  "read_fat_h bs =
     do { bps \<leftarrow> get16 bs 11; spc \<leftarrow> get8 bs 13; rs \<leftarrow> get16 bs 14; fc \<leftarrow> get8 bs 16;
          rde \<leftarrow> get16 bs 17; ns \<leftarrow> get16 bs 19; spf \<leftarrow> get16 bs 22; sig \<leftarrow> get8 bs 38;
          Some \<lparr>primary_header = \<lparr>bytes_per_sector = bps, sectors_per_cluster = spc, reserved_sectors = rs,
                  fat_copies = fc, root_dir_entries = rde, number_of_sectors = ns, sectors_per_fat = spf\<rparr>,
                signature = sig\<rparr> }"

definition sizeof_fat_directory_item :: nat where "sizeof_fat_directory_item = 32"

record fat_directory_item =
  attributes :: u8
  high_16_bits_first_cluster :: u16
  low_16_bits_first_cluster :: u16
  filesize :: u32

definition read_item :: "u8 list \<Rightarrow> fat_directory_item option" where
  "read_item bs =
     do { at \<leftarrow> get8 bs 11; hi \<leftarrow> get16 bs 20; lo \<leftarrow> get16 bs 26; sz \<leftarrow> get32 bs 28;
          Some \<lparr>attributes = at, high_16_bits_first_cluster = hi, low_16_bits_first_cluster = lo, filesize = sz\<rparr> }"

text \<open>The items of a directory: their address (null in a zeroed structure) and bytes.\<close>

record fat_directory =
  dir_item_ptr :: u32
  dir_item :: "u8 list"
  dir_total :: int
  sector_pos :: int
  ending_sector_pos :: int

definition empty_directory :: fat_directory where
  "empty_directory = \<lparr>dir_item_ptr = 0, dir_item = [], dir_total = 0, sector_pos = 0, ending_sector_pos = 0\<rparr>"

datatype fat_union = UItem (uitem_ptr: u32) (uitem_bytes: "u8 list")
  | UDirectory (udir: "(u32 \<times> fat_directory) option")

record fat_item =
  fi_addr :: u32
  fi_union :: fat_union
  fi_type :: u32

record fat_file_descriptor =
  fd_item :: fat_item
  fd_pos :: u32

type_synonym stream_ptr = "(u32 \<times> disk_stream) option"

record fat_private =
  header :: fat_h
  root_directory :: fat_directory
  cluster_read_stream :: stream_ptr
  fat_read_stream :: stream_ptr
  directory_stream :: stream_ptr

text \<open>A pointer to a \<open>struct filesystem\<close>: the static \<open>fat16_fs\<close>, or another driver's.\<close>

datatype fs_ref = Fat16Fs | OtherFs u32

record disk =
  disk_type :: u32
  sector_size :: int
  disk_id :: int
  disk_filesystem :: "fs_ref option"
  fs_private :: "(u32 \<times> fat_private) option"

text \<open>The part of the kernel's state that the driver works on.\<close>

record fat_state =
  km :: kmem
  the_disk :: disk
  fat_descriptors :: "u32 \<Rightarrow> fat_file_descriptor option"

text \<open>A null stream is not readable.\<close>

definition stream_seek :: "stream_ptr \<Rightarrow> int \<Rightarrow> (int \<times> stream_ptr) option" where
  "stream_seek s p = do { (ad, st) \<leftarrow> s; let (res, st') = diskstreamer_seek st p; Some (res, Some (ad, st')) }"

definition stream_read :: "ata \<Rightarrow> stream_ptr \<Rightarrow> u8 list \<Rightarrow> nat \<Rightarrow> int \<Rightarrow> (int \<times> stream_ptr \<times> u8 list) option" where
  "stream_read a s out d n =
     do { (ad, st) \<leftarrow> s; (res, st', out') \<leftarrow> diskstreamer_read a st out d n; Some (res, Some (ad, st'), out') }"

section \<open>The root directory\<close>

definition fat16_init_private :: "kmem \<Rightarrow> disk \<Rightarrow> (fat_private \<times> kmem) option" where
  "fat16_init_private m dsk =
     do { (s1, m1) \<leftarrow> diskstreamer_new m (disk_id dsk);
          (s2, m2) \<leftarrow> diskstreamer_new m1 (disk_id dsk);
          (s3, m3) \<leftarrow> diskstreamer_new m2 (disk_id dsk);
          h \<leftarrow> read_fat_h (replicate sizeof_fat_h 0);
          Some (\<lparr>header = h, root_directory = empty_directory, cluster_read_stream = s1,
                 fat_read_stream = s2, directory_stream = s3\<rparr>, m3) }"

definition fat16_sector_to_absolute :: "disk \<Rightarrow> int \<Rightarrow> int" where
  "fat16_sector_to_absolute dsk sector = i32 (sector * sector_size dsk)"

text \<open>The counting loop reads items until a free one; it need not end.\<close>

partial_function (option) fat16_count_items :: "ata \<Rightarrow> stream_ptr \<Rightarrow> int \<Rightarrow> (int \<times> stream_ptr) option" where
  "fat16_count_items a stream i =
     do { (res, stream', item) \<leftarrow> stream_read a stream (replicate 32 0) 0 (int sizeof_fat_directory_item);
          if res \<noteq> ALL_OK then Some (- EIO, stream')
          else do { c \<leftarrow> get8 item 0;
            if c = 0x00 then Some (i, stream')
            else if c = 0xE5 then fat16_count_items a stream' i
            else fat16_count_items a stream' (i + 1) } }"

definition fat16_get_total_items_for_directory :: "ata \<Rightarrow> disk \<Rightarrow> fat_private \<Rightarrow> u32 \<Rightarrow> (int \<times> fat_private) option" where
  "fat16_get_total_items_for_directory a dsk pr directory_start_sector =
     (let directory_start_pos = sint (directory_start_sector * word_of_int (sector_size dsk))
      in do { (res, stream) \<leftarrow> stream_seek (directory_stream pr) directory_start_pos;
              if res \<noteq> ALL_OK then Some (- EIO, pr\<lparr>directory_stream := stream\<rparr>)
              else do { (n, stream') \<leftarrow> fat16_count_items a stream 0;
                Some (n, pr\<lparr>directory_stream := stream'\<rparr>) } })"

definition fat16_get_root_directory :: "ata \<Rightarrow> disk \<Rightarrow> fat_private \<Rightarrow> kmem \<Rightarrow> (int \<times> fat_private \<times> kmem) option" where
  "fat16_get_root_directory a dsk pr m =
     (let ph = primary_header (header pr);
          root_dir_sector_pos = uint (fat_copies ph) * uint (sectors_per_fat ph) + uint (reserved_sectors ph);
          root_dir_size = uint (root_dir_entries ph) * int sizeof_fat_directory_item
      in if sector_size dsk = 0 then None
         else let total_sectors = (if root_dir_size smod sector_size dsk \<noteq> 0
                                   then root_dir_size sdiv sector_size dsk + 1 else root_dir_size sdiv sector_size dsk)
         in do { (total_items, pr1) \<leftarrow> fat16_get_total_items_for_directory a dsk pr (word_of_int root_dir_sector_pos);
                 let (dir, m1) = kzalloc m (word_of_int root_dir_size);
                 if dir = 0 then Some (- ENOMEM, pr1, m1)
                 else do { (res, stream) \<leftarrow> stream_seek (directory_stream pr1) (fat16_sector_to_absolute dsk root_dir_sector_pos);
                   if res \<noteq> ALL_OK then Some (- EIO, pr1\<lparr>directory_stream := stream\<rparr>, m1)
                   else do { (res', stream', buf) \<leftarrow> stream_read a stream (replicate (nat root_dir_size) 0) 0 root_dir_size;
                     if res' \<noteq> ALL_OK then Some (- EIO, pr1\<lparr>directory_stream := stream'\<rparr>, m1)
                     else Some (0, pr1\<lparr>directory_stream := stream',
                       root_directory := \<lparr>dir_item_ptr = dir, dir_item = buf, dir_total = total_items,
                         sector_pos = root_dir_sector_pos,
                         ending_sector_pos = root_dir_sector_pos + total_sectors\<rparr>\<rparr>, m1) } } })"

text \<open>
  The three error exits of \<open>fat16_resolve\<close> share the code after the label \<open>out\<close>: the
  stream is closed and, after an error, the private structure is freed.
\<close>

definition fat16_resolve_out :: "kmem \<Rightarrow> disk \<Rightarrow> stream_ptr \<Rightarrow> int \<Rightarrow> u32 \<Rightarrow> fat_private \<Rightarrow> int \<times> disk \<times> kmem" where
  "fat16_resolve_out m dsk stream res addr pr =
     (let m1 = (case stream of Some (ad, st) \<Rightarrow> diskstreamer_close m ad | None \<Rightarrow> m)
      in if res < 0 then (res, dsk\<lparr>disk_filesystem := Some Fat16Fs, fs_private := None\<rparr>, kfree m1 addr)
         else (res, dsk\<lparr>disk_filesystem := Some Fat16Fs, fs_private := Some (addr, pr)\<rparr>, m1))"

definition fat16_resolve :: "ata \<Rightarrow> disk \<Rightarrow> kmem \<Rightarrow> (int \<times> disk \<times> kmem) option" where
  "fat16_resolve a dsk m =
     (let (addr, m0) = kzalloc m 92
      in if addr = 0 then None
         else do { (pr, m1) \<leftarrow> fat16_init_private m0 dsk;
           (stream, m2) \<leftarrow> diskstreamer_new m1 (disk_id dsk);
           if stream = None then Some (fat16_resolve_out m2 dsk stream (- ENOMEM) addr pr)
           else do { (res, stream', buf) \<leftarrow> stream_read a stream (replicate sizeof_fat_h 0) 0 (int sizeof_fat_h);
             if res \<noteq> ALL_OK then Some (fat16_resolve_out m2 dsk stream' (- EIO) addr pr)
             else do { h \<leftarrow> read_fat_h buf;
               let pr1 = pr\<lparr>header := h\<rparr>;
               if signature h \<noteq> FAT16_SIGNATURE
               then Some (fat16_resolve_out m2 dsk stream' (- EFSNOTUS) addr pr1)
               else do { (res', pr2, m3) \<leftarrow> fat16_get_root_directory a dsk pr1 m2;
                 if res' \<noteq> ALL_OK then Some (fat16_resolve_out m3 dsk stream' (- EIO) addr pr2)
                 else Some (fat16_resolve_out m3 dsk stream' 0 addr pr2) } } } })"

end
