(* ===== verification/FatFiles.thy ===== *)
theory FatFiles
  imports Fat16
begin

text \<open>
  Names, clusters, directory entries and the file operations of
  \<open>src/src/fs/fat/fat16.c\<close>. The functions work on the private structure of the disk
  (whose streams they move) and on the kernel heap.
\<close>

section \<open>Names\<close>

text \<open>Copies until NUL or space; the pointer into the item may run on into later fields.\<close>

fun fat16_to_proper_string :: "u8 list \<Rightarrow> nat \<Rightarrow> u8 list \<Rightarrow> (u8 list \<times> nat) option" where
  "fat16_to_proper_string out d [] = None"
| "fat16_to_proper_string out d (c # inp) =
     (if c \<noteq> 0x00 \<and> c \<noteq> 0x20
      then do { out' \<leftarrow> arr_set out (int d) c; fat16_to_proper_string out' (d + 1) inp }
      else if c = 0x20 then do { out' \<leftarrow> arr_set out (int d) 0x00; Some (out', d) }
      else Some (out, d))"

definition fat16_get_full_relative_filename :: "u8 list \<Rightarrow> u8 list \<Rightarrow> int \<Rightarrow> u8 list option" where
  "fat16_get_full_relative_filename item out max_len =
     do { out0 \<leftarrow> memset out 0x00 (word_of_int max_len);
          (out1, d) \<leftarrow> fat16_to_proper_string out0 0 item;
          e \<leftarrow> get8 item 8;
          if e \<noteq> 0x00 \<and> e \<noteq> 0x20
          then do { out2 \<leftarrow> arr_set out1 (int d) (of_char CHR ''.'');
                    (out3, d') \<leftarrow> fat16_to_proper_string out2 (d + 1) (drop 8 item);
                    Some out3 }
          else Some out1 }"

section \<open>Clusters\<close>

definition fat16_get_first_cluster :: "fat_directory_item \<Rightarrow> u32" where
  "fat16_get_first_cluster item =
     ucast (high_16_bits_first_cluster item) OR ucast (low_16_bits_first_cluster item)"

definition fat16_cluster_to_sector :: "fat_private \<Rightarrow> int \<Rightarrow> int" where
  "fat16_cluster_to_sector pr cluster =
     i32 (ending_sector_pos (root_directory pr) +
       i32 (i32 (cluster - 2) * uint (sectors_per_cluster (primary_header (header pr)))))"

definition fat16_get_first_fat_sector :: "fat_private \<Rightarrow> u32" where
  "fat16_get_first_fat_sector pr = ucast (reserved_sectors (primary_header (header pr)))"

text \<open>The entry is read into a local variable; the result is the status of the read.\<close>

definition fat16_get_fat_entry :: "ata \<Rightarrow> disk \<Rightarrow> fat_private \<Rightarrow> int \<Rightarrow> (int \<times> fat_private) option" where
  "fat16_get_fat_entry a dsk pr cluster =
     (if fat_read_stream pr = None then Some (-1, pr)
      else let fat_table_position = fat16_get_first_fat_sector pr * word_of_int (sector_size dsk)
      in do { (res, stream) \<leftarrow> stream_seek (fat_read_stream pr)
                (sint (fat_table_position * word_of_int (i32 (cluster * FAT16_FAT_ENTRY_SIZE))));
              if res < 0 then Some (res, pr\<lparr>fat_read_stream := stream\<rparr>)
              else do { (res', stream', result) \<leftarrow> stream_read a stream [0, 0] 0 2;
                Some (res', pr\<lparr>fat_read_stream := stream'\<rparr>) } })"

text \<open>The loop over the clusters ahead, \<open>n\<close> of them left.\<close>

fun fat16_follow :: "ata \<Rightarrow> disk \<Rightarrow> fat_private \<Rightarrow> int \<Rightarrow> nat \<Rightarrow> (int \<times> fat_private) option" where
  "fat16_follow a dsk pr cluster_to_use 0 = Some (cluster_to_use, pr)"
| "fat16_follow a dsk pr cluster_to_use (Suc n) =
     do { (entry, pr') \<leftarrow> fat16_get_fat_entry a dsk pr cluster_to_use;
          if entry = 0xFF8 \<or> entry = 0xFFF then Some (- EIO, pr')
          else if entry = FAT16_BAD_SECTOR then Some (- EIO, pr')
          else if entry = 0xFF0 \<or> entry = 0xFF6 then Some (- EIO, pr')
          else if entry = 0x00 then Some (- EIO, pr')
          else fat16_follow a dsk pr' entry n }"

definition cluster_bytes :: "disk \<Rightarrow> fat_private \<Rightarrow> int" where
  "cluster_bytes dsk pr = i32 (uint (sectors_per_cluster (primary_header (header pr))) * sector_size dsk)"

text \<open>A cluster of no sectors makes the division trap.\<close>

definition fat16_get_cluster_for_offset :: "ata \<Rightarrow> disk \<Rightarrow> fat_private \<Rightarrow> int \<Rightarrow> int \<Rightarrow> (int \<times> fat_private) option" where
  "fat16_get_cluster_for_offset a dsk pr starting_cluster offset =
     (if cluster_bytes dsk pr = 0 then None
      else fat16_follow a dsk pr starting_cluster (nat (offset sdiv cluster_bytes dsk pr)))"

text \<open>
  \<open>fat16_read_internal_from_stream\<close> is only called with the cluster stream of the private
  structure; \<open>d\<close> is the offset in the object that \<open>out\<close> points into.
\<close>

partial_function (option) fat16_read_internal_from_stream ::
    "ata \<Rightarrow> disk \<Rightarrow> fat_private \<Rightarrow> int \<Rightarrow> int \<Rightarrow> int \<Rightarrow> u8 list \<Rightarrow> nat \<Rightarrow> (int \<times> fat_private \<times> u8 list) option" where
  "fat16_read_internal_from_stream a dsk pr cluster offset tot out d =
     do { (cluster_to_use, pr1) \<leftarrow> fat16_get_cluster_for_offset a dsk pr cluster offset;
          if cluster_to_use < 0 then Some (cluster_to_use, pr1, out)
          else
            let size_of_cluster_bytes = cluster_bytes dsk pr;
                offset_from_cluster = offset smod size_of_cluster_bytes;
                starting_sector = fat16_cluster_to_sector pr1 cluster_to_use;
                starting_pos = i32 (i32 (starting_sector * sector_size dsk) + offset_from_cluster);
                total_to_read = (if tot > size_of_cluster_bytes then size_of_cluster_bytes else tot)
            in do { (res, stream) \<leftarrow> stream_seek (cluster_read_stream pr1) starting_pos;
              if res \<noteq> ALL_OK then Some (res, pr1\<lparr>cluster_read_stream := stream\<rparr>, out)
              else do { (res', stream', out') \<leftarrow> stream_read a stream out d total_to_read;
                let pr2 = pr1\<lparr>cluster_read_stream := stream'\<rparr>;
                if res' \<noteq> ALL_OK then Some (res', pr2, out')
                else if tot - total_to_read > 0
                then fat16_read_internal_from_stream a dsk pr2 cluster (offset + total_to_read)
                       (tot - total_to_read) out' (d + nat total_to_read)
                else Some (res', pr2, out') } } }"

definition fat16_read_internal :: "ata \<Rightarrow> disk \<Rightarrow> fat_private \<Rightarrow> int \<Rightarrow> int \<Rightarrow> int \<Rightarrow> u8 list \<Rightarrow> nat \<Rightarrow>
    (int \<times> fat_private \<times> u8 list) option" where
  "fat16_read_internal a dsk pr starting_cluster offset tot out d =
     fat16_read_internal_from_stream a dsk pr starting_cluster offset tot out d"

section \<open>Directory items\<close>

text \<open>The address of the copy and its bytes; null if it cannot be made.\<close>

definition fat16_clone_directory_item :: "kmem \<Rightarrow> u8 list \<Rightarrow> int \<Rightarrow> (u32 \<times> u8 list \<times> kmem) option" where
  "fat16_clone_directory_item m item sz =
     (if sz < int sizeof_fat_directory_item then Some (0, [], m)
      else let (item_copy, m1) = kzalloc m (word_of_int sz)
           in if item_copy = 0 then Some (0, [], m1)
              else do { b \<leftarrow> memcpy (replicate (nat sz) 0) 0 item sz; Some (item_copy, b, m1) })"

definition fat16_free_directory :: "kmem \<Rightarrow> (u32 \<times> fat_directory) option \<Rightarrow> kmem" where
  "fat16_free_directory m directory =
     (case directory of None \<Rightarrow> m
      | Some (ad, dir) \<Rightarrow>
          kfree (if dir_item_ptr dir \<noteq> 0 then kfree m (dir_item_ptr dir) else m) ad)"

text \<open>The union is read as the type says; another reading has no meaning here.\<close>

definition fat16_fat_item_free :: "kmem \<Rightarrow> fat_item \<Rightarrow> kmem option" where
  "fat16_fat_item_free m item =
     do { m1 \<leftarrow> (if fi_type item = FAT_ITEM_TYPE_DIRECTORY
                 then (case fi_union item of UDirectory dir \<Rightarrow> Some (fat16_free_directory m dir) | _ \<Rightarrow> None)
                 else if fi_type item = FAT_ITEM_TYPE_FILE
                 then (case fi_union item of UItem p b \<Rightarrow> Some (kfree m p) | _ \<Rightarrow> None)
                 else Some m);
          Some (kfree m1 (fi_addr item)) }"

text \<open>After an error the directory is freed and its address returned all the same.\<close>

definition fat16_load_fat_directory :: "ata \<Rightarrow> disk \<Rightarrow> fat_private \<Rightarrow> kmem \<Rightarrow> fat_directory_item \<Rightarrow>
    ((u32 \<times> fat_directory) option \<times> fat_private \<times> kmem) option" where
  "fat16_load_fat_directory a dsk pr m item =
     (if attributes item AND FAT_FILE_SUBDIRECTORY = 0 then Some (None, pr, m)
      else let (ad, m1) = kzalloc m 16
      in if ad = 0 then Some (None, pr, m1)
         else let cluster = sint (fat16_get_first_cluster item);
                  cluster_sector = fat16_cluster_to_sector pr cluster
         in do { (total_items, pr1) \<leftarrow> fat16_get_total_items_for_directory a dsk pr (word_of_int cluster_sector);
                 let directory_size = i32 (total_items * int sizeof_fat_directory_item);
                 let (p, m2) = kzalloc m1 (word_of_int directory_size);
                 let dir = empty_directory\<lparr>dir_total := total_items, dir_item_ptr := p\<rparr>;
                 if p = 0 then Some (Some (ad, dir), pr1, fat16_free_directory m2 (Some (ad, dir)))
                 else do { (res, pr2, buf) \<leftarrow> fat16_read_internal a dsk pr1 cluster 0x00 directory_size
                             (replicate (nat directory_size) 0) 0;
                   let dir' = dir\<lparr>dir_item := buf\<rparr>;
                   if res \<noteq> ALL_OK then Some (Some (ad, dir'), pr2, fat16_free_directory m2 (Some (ad, dir')))
                   else Some (Some (ad, dir'), pr2, m2) } })"

text \<open>\<open>item\<close> is the pointer into the items of the directory: the bytes from there on.\<close>

definition fat16_new_fat_item_for_directory_item :: "ata \<Rightarrow> disk \<Rightarrow> fat_private \<Rightarrow> kmem \<Rightarrow> u8 list \<Rightarrow>
    (fat_item option \<times> fat_private \<times> kmem) option" where
  "fat16_new_fat_item_for_directory_item a dsk pr m item =
     (let (ad, m1) = kzalloc m 8
      in if ad = 0 then Some (None, pr, m1)
         else do { it \<leftarrow> read_item item;
           (pr1, m2) \<leftarrow>
             (if attributes it AND FAT_FILE_SUBDIRECTORY \<noteq> 0
              then do { (dir, pr', m') \<leftarrow> fat16_load_fat_directory a dsk pr m1 it; Some (pr', m') }
              else Some (pr, m1));
           (p, b, m3) \<leftarrow> fat16_clone_directory_item m2 item (int sizeof_fat_directory_item);
           Some (Some \<lparr>fi_addr = ad, fi_union = UItem p b, fi_type = FAT_ITEM_TYPE_FILE\<rparr>, pr1, m3) })"

text \<open>The loop over the items from number \<open>i\<close> on, \<open>n\<close> left; it keeps the last match.\<close>

fun fat16_find_loop :: "ata \<Rightarrow> disk \<Rightarrow> u8 list \<Rightarrow> u8 list \<Rightarrow> u8 list \<Rightarrow> fat_item option \<Rightarrow> nat \<Rightarrow> nat \<Rightarrow>
    fat_private \<Rightarrow> kmem \<Rightarrow> (fat_item option \<times> fat_private \<times> kmem) option" where
  "fat16_find_loop a dsk items filename tmp f_item i 0 pr m = Some (f_item, pr, m)"
| "fat16_find_loop a dsk items filename tmp f_item i (Suc n) pr m =
     do { tmp_filename \<leftarrow> fat16_get_full_relative_filename (drop (i * sizeof_fat_directory_item) items) tmp
            (int HARDIKHYPERIONOS_MAX_PATH);
          r \<leftarrow> istrncmp tmp_filename filename (int HARDIKHYPERIONOS_MAX_PATH);
          if r = 0
          then do { (f_item', pr', m') \<leftarrow> fat16_new_fat_item_for_directory_item a dsk pr m
                      (drop (i * sizeof_fat_directory_item) items);
                    fat16_find_loop a dsk items filename tmp_filename f_item' (i + 1) n pr' m' }
          else fat16_find_loop a dsk items filename tmp_filename f_item (i + 1) n pr m }"

definition fat16_find_item_in_directory :: "ata \<Rightarrow> disk \<Rightarrow> fat_private \<Rightarrow> kmem \<Rightarrow> fat_directory \<Rightarrow> u8 list \<Rightarrow>
    (fat_item option \<times> fat_private \<times> kmem) option" where
  "fat16_find_item_in_directory a dsk pr m directory filename =
     fat16_find_loop a dsk (dir_item directory) filename (replicate HARDIKHYPERIONOS_MAX_PATH 0) None 0
       (nat (dir_total directory)) pr m"

fun fat16_walk :: "ata \<Rightarrow> disk \<Rightarrow> fat_item option \<Rightarrow> path_part list \<Rightarrow> fat_private \<Rightarrow> kmem \<Rightarrow>
    (fat_item option \<times> fat_private \<times> kmem) option" where
  "fat16_walk a dsk current_item [] pr m = Some (current_item, pr, m)"
| "fat16_walk a dsk current_item (next_part # ps) pr m =
     do { it \<leftarrow> current_item;
          if fi_type it \<noteq> FAT_ITEM_TYPE_DIRECTORY then Some (None, pr, m)
          else (case fi_union it of
              UDirectory (Some (ad, dir)) \<Rightarrow>
                do { (tmp_item, pr', m') \<leftarrow> fat16_find_item_in_directory a dsk pr m dir (part next_part);
                     m'' \<leftarrow> fat16_fat_item_free m' it;
                     fat16_walk a dsk tmp_item ps pr' m'' }
            | _ \<Rightarrow> None) }"

definition fat16_get_directory_entry :: "ata \<Rightarrow> disk \<Rightarrow> fat_private \<Rightarrow> kmem \<Rightarrow> path_part list \<Rightarrow>
    (fat_item option \<times> fat_private \<times> kmem) option" where
  "fat16_get_directory_entry a dsk pr m path =
     (case path of [] \<Rightarrow> None
      | p # ps \<Rightarrow> do { (root_item, pr', m') \<leftarrow> fat16_find_item_in_directory a dsk pr m (root_directory pr) (part p);
          if root_item = None then Some (None, pr', m') else fat16_walk a dsk root_item ps pr' m' })"

section \<open>The file operations\<close>

text \<open>A pointer that \<open>ERROR\<close> made from a negative status.\<close>

definition ERROR :: "int \<Rightarrow> u32" where "ERROR v = word_of_int v"
definition ERROR_I :: "u32 \<Rightarrow> int" where "ERROR_I p = sint p"

text \<open>The private structure of the disk, which every operation dereferences.\<close>

definition disk_private :: "fat_state \<Rightarrow> fat_private option" where
  "disk_private s = map_option snd (fs_private (the_disk s))"

definition put_private :: "fat_private \<Rightarrow> fat_state \<Rightarrow> fat_state" where
  "put_private pr s = s\<lparr>the_disk := (the_disk s)\<lparr>fs_private := map_option (\<lambda>(ad, _). (ad, pr)) (fs_private (the_disk s))\<rparr>\<rparr>"

definition fat16_open :: "ata \<Rightarrow> fat_state \<Rightarrow> path_part list \<Rightarrow> u32 \<Rightarrow> (u32 \<times> fat_state) option" where
  "fat16_open a s path mode =
     (if mode \<noteq> FILE_MODE_READ then Some (ERROR (- ERDONLY), s)
      else let (descriptor, m1) = kzalloc (km s) 8
      in if descriptor = 0 then Some (ERROR (- ENOMEM), s\<lparr>km := m1\<rparr>)
         else do { pr \<leftarrow> disk_private s;
           (item, pr', m2) \<leftarrow> fat16_get_directory_entry a (the_disk s) pr m1 path;
           let s' = (put_private pr' s)\<lparr>km := m2\<rparr>;
           case item of None \<Rightarrow> Some (ERROR (- EIO), s')
           | Some it \<Rightarrow> Some (descriptor,
               s'\<lparr>fat_descriptors := (fat_descriptors s)(descriptor \<mapsto> \<lparr>fd_item = it, fd_pos = 0\<rparr>)\<rparr>) })"

text \<open>The directory item behind a descriptor; both structures read the same address.\<close>

definition descriptor_item :: "fat_file_descriptor \<Rightarrow> fat_directory_item option" where
  "descriptor_item fd = (case fi_union (fd_item fd) of UItem p b \<Rightarrow> read_item b | _ \<Rightarrow> None)"

record file_stat =
  st_flags :: u32
  st_filesize :: u32

definition fat16_stat :: "fat_state \<Rightarrow> u32 \<Rightarrow> file_stat \<Rightarrow> (int \<times> file_stat) option" where
  "fat16_stat s descriptor st =
     do { fd \<leftarrow> fat_descriptors s descriptor;
          if fi_type (fd_item fd) \<noteq> FAT_ITEM_TYPE_FILE then Some (- EINVARG, st)
          else do { ritem \<leftarrow> descriptor_item fd;
            let st1 = st\<lparr>st_filesize := filesize ritem, st_flags := 0x00\<rparr>;
            if attributes ritem AND FAT_FILE_READ_ONLY \<noteq> 0
            then Some (0, st1\<lparr>st_flags := st_flags st1 OR FILE_STAT_READ_ONLY\<rparr>)
            else Some (0, st1) } }"

text \<open>The loop of \<open>fat16_read\<close>, \<open>n\<close> blocks left; the result is 0 when all were read.\<close>

fun fat16_read_loop :: "ata \<Rightarrow> disk \<Rightarrow> fat_private \<Rightarrow> fat_directory_item \<Rightarrow> u32 \<Rightarrow> int \<Rightarrow> nat \<Rightarrow> u8 list \<Rightarrow> nat \<Rightarrow>
    (int \<times> fat_private \<times> u8 list) option" where
  "fat16_read_loop a dsk pr item sz offset 0 out d = Some (0, pr, out)"
| "fat16_read_loop a dsk pr item sz offset (Suc n) out d =
     do { (res, pr', out') \<leftarrow> fat16_read_internal a dsk pr (sint (fat16_get_first_cluster item)) offset
            (sint sz) out d;
          if IS_ERR res then Some (res, pr', out')
          else fat16_read_loop a dsk pr' item sz (sint (word_of_int offset + sz)) n out' (d + unat sz) }"

definition fat16_read :: "ata \<Rightarrow> fat_state \<Rightarrow> u32 \<Rightarrow> u32 \<Rightarrow> u32 \<Rightarrow> u8 list \<Rightarrow> nat \<Rightarrow> (int \<times> fat_state \<times> u8 list) option" where
  "fat16_read a s descriptor sz nmemb out d =
     do { fd \<leftarrow> fat_descriptors s descriptor;
          item \<leftarrow> descriptor_item fd;
          pr \<leftarrow> disk_private s;
          (res, pr', out') \<leftarrow> fat16_read_loop a (the_disk s) pr item sz (sint (fd_pos fd)) (unat nmemb) out d;
          Some (if IS_ERR res then res else sint nmemb, put_private pr' s, out') }"

definition fat16_seek :: "fat_state \<Rightarrow> u32 \<Rightarrow> u32 \<Rightarrow> u32 \<Rightarrow> (int \<times> fat_state) option" where
  "fat16_seek s descriptor offset seek_mode =
     do { fd \<leftarrow> fat_descriptors s descriptor;
          if fi_type (fd_item fd) \<noteq> FAT_ITEM_TYPE_FILE then Some (- EINVARG, s)
          else do { ritem \<leftarrow> descriptor_item fd;
            if offset \<ge> filesize ritem then Some (- EIO, s)
            else if seek_mode = SEEK_SET
            then Some (0, s\<lparr>fat_descriptors := (fat_descriptors s)(descriptor \<mapsto> fd\<lparr>fd_pos := offset\<rparr>)\<rparr>)
            else if seek_mode = SEEK_END then Some (- EUNIMP, s)
            else if seek_mode = SEEK_CUR
            then Some (0, s\<lparr>fat_descriptors := (fat_descriptors s)(descriptor \<mapsto> fd\<lparr>fd_pos := fd_pos fd + offset\<rparr>)\<rparr>)
            else Some (- EINVARG, s) } }"

definition fat16_free_file_descriptor :: "fat_state \<Rightarrow> u32 \<Rightarrow> fat_state option" where
  "fat16_free_file_descriptor s desc =
     do { fd \<leftarrow> fat_descriptors s desc;
          m1 \<leftarrow> fat16_fat_item_free (km s) (fd_item fd);
          Some (s\<lparr>km := kfree m1 desc, fat_descriptors := (fat_descriptors s)(desc := None)\<rparr>) }"

definition fat16_close :: "fat_state \<Rightarrow> u32 \<Rightarrow> (int \<times> fat_state) option" where
  "fat16_close s desc = do { s' \<leftarrow> fat16_free_file_descriptor s desc; Some (0, s') }"

end
