(* ===== verification/FatRead.thy ===== *)
theory FatRead
  imports FatFiles
begin

text \<open>
  What \<open>fat16_read\<close> delivers. On a mounted volume whose drive holds an image, a read of
  blocks that start in the first cluster of the file is the plain bytes of the image; a
  block that starts in a later cluster fails with \<open>-EIO\<close>, because the entry of the file
  allocation table is never used.
\<close>

section \<open>A mounted volume\<close>

definition good_stream :: "stream_ptr \<Rightarrow> bool" where
  "good_stream s \<longleftrightarrow> (\<exists>p st. s = Some (p, st) \<and> stream_disk st = DiskStatic)"

definition volume :: "disk \<Rightarrow> fat_private \<Rightarrow> bool" where
  "volume dsk pr \<longleftrightarrow> sector_size dsk = 512 \<and> 0 < sectors_per_cluster (primary_header (header pr)) \<and>
     good_stream (cluster_read_stream pr) \<and> good_stream (fat_read_stream pr) \<and>
     good_stream (directory_stream pr)"

abbreviation spc :: "fat_private \<Rightarrow> nat" where
  "spc pr \<equiv> unat (sectors_per_cluster (primary_header (header pr)))"

abbreviation reserved :: "fat_private \<Rightarrow> nat" where
  "reserved pr \<equiv> unat (reserved_sectors (primary_header (header pr)))"

text \<open>The position of cluster \<open>c\<close> on the disk.\<close>

definition cluster_pos :: "fat_private \<Rightarrow> nat \<Rightarrow> nat" where
  "cluster_pos pr c = (nat (ending_sector_pos (root_directory pr)) + (c - 2) * spc pr) * 512"

text \<open>Positions of the cluster, of the one after it, and of its table entry fit an \<open>int\<close>.\<close>

definition cluster_fits :: "fat_private \<Rightarrow> nat \<Rightarrow> bool" where
  "cluster_fits pr c \<longleftrightarrow> 2 \<le> c \<and> c < 2 ^ 16 \<and> 0 \<le> ending_sector_pos (root_directory pr) \<and>
     cluster_pos pr c + 2 * (spc pr * 512) < 2 ^ 31 \<and> 1024 * reserved pr * c + 2 < 2 ^ 31"

lemma stream_seek_good:
  assumes "good_stream s"
  obtains p st where "stream_seek s k = Some (0, Some (p, st))" "stream_disk st = DiskStatic" "pos st = k"
proof -
  from assms obtain p st where "s = Some (p, st)" "stream_disk st = DiskStatic" by (auto simp: good_stream_def)
  then show thesis
    by (intro that [of p "st\<lparr>pos := k\<rparr>"]) (simp_all add: stream_seek_def diskstreamer_seek_def)
qed

lemma stream_read_good:
  assumes "ata_serves a img" "stream_disk st = DiskStatic" "pos st = int k" "k + n < 2 ^ 31"
    and "d + n \<le> length out"
  shows "stream_read a (Some (p, st)) out d (int n) =
    Some (0, Some (p, st\<lparr>pos := int (k + n)\<rparr>), overwrite out d (image_bytes img k n))"
  using diskstreamer_read_image [OF assms] by (simp add: stream_read_def)

text \<open>The private structure changes in its streams only.\<close>

definition same_volume :: "fat_private \<Rightarrow> fat_private \<Rightarrow> bool" where
  "same_volume pr pr' \<longleftrightarrow> header pr' = header pr \<and> root_directory pr' = root_directory pr"

lemma same_volume_facts:
  assumes "same_volume pr pr'"
  shows "cluster_bytes dsk pr' = cluster_bytes dsk pr" "cluster_pos pr' c = cluster_pos pr c"
    "cluster_fits pr' c = cluster_fits pr c" "spc pr' = spc pr"
  using assms by (auto simp: same_volume_def cluster_bytes_def cluster_pos_def cluster_fits_def)

lemma same_volume_refl [simp]: "same_volume pr pr"
  by (simp add: same_volume_def)

lemma same_volume_trans: "same_volume pr pr1 \<Longrightarrow> same_volume pr1 pr2 \<Longrightarrow> same_volume pr pr2"
  by (simp add: same_volume_def)

section \<open>Clusters\<close>

lemma spc_bounds: "volume dsk pr \<Longrightarrow> 0 < spc pr \<and> spc pr < 256"
  using unsigned_less [of "sectors_per_cluster (primary_header (header pr))"]
  by (auto simp: volume_def word_less_nat_alt)

lemma cluster_bytes_volume:
  assumes "volume dsk pr"
  shows "cluster_bytes dsk pr = int (spc pr * 512)"
proof -
  obtain k where k: "uint (sectors_per_cluster (primary_header (header pr))) = int k" "spc pr = k"
    by (rule uint_unatE)
  have "k < 256" using spc_bounds [OF assms] k(2) by simp
  then show ?thesis using assms k by (simp add: cluster_bytes_def volume_def)
qed

lemma cluster_to_sector_fits:
  assumes "volume dsk pr" "cluster_fits pr c"
  shows "i32 (fat16_cluster_to_sector pr (int c) * sector_size dsk) = int (cluster_pos pr c)"
proof -
  obtain k where k: "uint (sectors_per_cluster (primary_header (header pr))) = int k" "spc pr = k"
    by (rule uint_unatE)
  obtain e where e: "ending_sector_pos (root_directory pr) = int e"
    using assms(2) zero_le_imp_eq_int by (auto simp: cluster_fits_def)
  obtain b where c: "c = b + 2" using assms(2) le_Suc_ex [of 2 c] by (auto simp: cluster_fits_def)
  have p: "cluster_pos pr c = (e + b * k) * 512" using k e c by (simp add: cluster_pos_def)
  have l: "(e + b * k) * 512 < 2 ^ 31" "b < 2 ^ 16"
    unfolding p [symmetric] using assms(2) c by (auto simp: cluster_fits_def)
  have "int ((e + b * k) * 512) < int (2 ^ 31)" using l(1) by (rule of_nat_less_iff [THEN iffD2])
  then have "int e + int b * int k < 2 ^ 22" by simp
  moreover obtain m where "int b * int k = int m" by (metis of_nat_mult)
  ultimately have w: "i32 (int b * int k) = int b * int k" "i32 (int e + int b * int k) = int e + int b * int k"
    "i32 ((int e + int b * int k) * 512) = (int e + int b * int k) * 512"
    by (auto intro!: i32_id)
  have "fat16_cluster_to_sector pr (int c) = int e + int b * int k"
    using l(2) c w by (simp add: fat16_cluster_to_sector_def k(1) e)
  moreover have "sector_size dsk = 512" using assms(1) by (simp add: volume_def)
  ultimately show ?thesis using w by (simp add: p)
qed

lemma fat_entry_zero:
  assumes "ata_serves a img" "volume dsk pr" "cluster_fits pr c"
  obtains pr' where "fat16_get_fat_entry a dsk pr (int c) = Some (0, pr')" "volume dsk pr'" "same_volume pr pr'"
proof -
  have good: "good_stream (fat_read_stream pr)" "sector_size dsk = 512" using assms(2) by (auto simp: volume_def)
  let ?k = "1024 * reserved pr * c"
  have k: "?k + 2 < 2 ^ 31" "c < 2 ^ 16" using assms(3) by (auto simp: cluster_fits_def)
  have "fat16_get_first_fat_sector pr * 512 * word_of_int (i32 (int c * 2)) = of_nat ?k"
  proof -
    have "fat16_get_first_fat_sector pr = of_nat (reserved pr)" by (simp add: fat16_get_first_fat_sector_def)
    moreover have "i32 (int c * 2) = int (c * 2)" using k(2) by simp
    ultimately show ?thesis by simp
  qed
  moreover have "sint (of_nat ?k :: u32) = int ?k"
  proof -
    obtain q where q: "?k = q" by blast
    then show ?thesis using k(1) sint_word_of_int_u32 [of "int q"] by simp
  qed
  ultimately have pos: "sint (fat16_get_first_fat_sector pr * 512 * word_of_int (i32 (int c * 2))) = int ?k" by simp
  obtain p st where s: "stream_seek (fat_read_stream pr) (int ?k) = Some (0, Some (p, st))"
    "stream_disk st = DiskStatic" "pos st = int ?k"
    using stream_seek_good [OF good(1)] .
  have r: "stream_read a (Some (p, st)) [0, 0] 0 (int 2) =
      Some (0, Some (p, st\<lparr>pos := int (?k + 2)\<rparr>), overwrite [0, 0] 0 (image_bytes img ?k 2))"
    by (rule stream_read_good [OF assms(1) s(2,3)]) (use k in auto)
  have "fat_read_stream pr \<noteq> None" using good(1) by (auto simp: good_stream_def)
  then have "fat16_get_fat_entry a dsk pr (int c) = Some (0, pr\<lparr>fat_read_stream := Some (p, st\<lparr>pos := int (?k + 2)\<rparr>)\<rparr>)"
    using s(1) r pos good(2) by (simp add: fat16_get_fat_entry_def FAT16_FAT_ENTRY_SIZE_def)
  moreover have "volume dsk (pr\<lparr>fat_read_stream := Some (p, st\<lparr>pos := int (?k + 2)\<rparr>)\<rparr>)"
    using assms(2) s(2) by (simp add: volume_def good_stream_def)
  moreover have "same_volume pr (pr\<lparr>fat_read_stream := Some (p, st\<lparr>pos := int (?k + 2)\<rparr>)\<rparr>)"
    by (simp add: same_volume_def)
  ultimately show thesis by (rule that)
qed

text \<open>The cluster of an offset: the first one, or an error.\<close>

lemma cluster_for_offset:
  assumes "ata_serves a img" "volume dsk pr" "cluster_fits pr c"
  obtains pr' where "volume dsk pr'" "same_volume pr pr'"
    "fat16_get_cluster_for_offset a dsk pr (int c) (int k) =
       Some (if k < spc pr * 512 then int c else - EIO, pr')"
proof (cases "k < spc pr * 512")
  case True
  obtain S where S: "spc pr * 512 = S" "cluster_bytes dsk pr = int S" "0 < S"
    using cluster_bytes_volume [OF assms(2)] spc_bounds [OF assms(2)]
    by (metis mult_pos_pos zero_less_numeral)
  then have "int k sdiv cluster_bytes dsk pr = 0" using True by (simp add: sdiv_nonneg)
  then show thesis
    using True S assms(2) by (intro that [of pr]) (simp_all add: fat16_get_cluster_for_offset_def)
next
  case False
  let ?n = "k div (spc pr * 512)"
  have sz: "0 < spc pr * 512" using spc_bounds [OF assms(2)] by simp
  have "0 < ?n" using False sz by (simp add: div_greater_zero_iff)
  then obtain j where j: "?n = Suc j" by (cases ?n) auto
  obtain S where S: "spc pr * 512 = S" "cluster_bytes dsk pr = int S" "0 < S"
    using cluster_bytes_volume [OF assms(2)] sz by blast
  then have n: "nat (int k sdiv cluster_bytes dsk pr) = Suc j"
    using j by (simp add: sdiv_nonneg flip: zdiv_int)
  obtain pr' where "fat16_get_fat_entry a dsk pr (int c) = Some (0, pr')" "volume dsk pr'" "same_volume pr pr'"
    using fat_entry_zero [OF assms] .
  then show thesis
    using n False S by (intro that [of pr']) (simp_all add: fat16_get_cluster_for_offset_def FAT16_BAD_SECTOR_def)
qed

section \<open>Reading a block\<close>

lemma smod_cluster:
  assumes "volume dsk pr"
  shows "int k smod cluster_bytes dsk pr = int (k mod (spc pr * 512))"
proof -
  obtain S where S: "spc pr * 512 = S" "cluster_bytes dsk pr = int S" "0 < S"
    using cluster_bytes_volume [OF assms] spc_bounds [OF assms] by (metis mult_pos_pos zero_less_numeral)
  then show ?thesis by (simp add: smod_nonneg zmod_int)
qed

lemma read_internal_step:
  assumes "ata_serves a img" "volume dsk pr" "cluster_fits pr c" "k < spc pr * 512"
    and n: "0 < n" "d + n \<le> length out"
  defines "t \<equiv> min n (spc pr * 512)"
  obtains pr' where "volume dsk pr'" "same_volume pr pr'"
    "fat16_read_internal_from_stream a dsk pr (int c) (int k) (int n) out d =
       (if n = t then Some (0, pr', overwrite out d (image_bytes img (cluster_pos pr c + k) n))
        else fat16_read_internal_from_stream a dsk pr' (int c) (int (k + t)) (int (n - t))
               (overwrite out d (image_bytes img (cluster_pos pr c + k) t)) (d + t))"
proof -
  obtain S where S: "spc pr * 512 = S" "cluster_bytes dsk pr = int S" "0 < S"
    using cluster_bytes_volume [OF assms(2)] spc_bounds [OF assms(2)]
    by (metis mult_pos_pos zero_less_numeral)
  obtain pr1 where 1: "volume dsk pr1" "same_volume pr pr1"
    "fat16_get_cluster_for_offset a dsk pr (int c) (int k) = Some (int c, pr1)"
    by (rule cluster_for_offset [OF assms(1-3), of k]) (use assms(4) in auto)
  let ?p = "cluster_pos pr c + k"
  have fits1: "cluster_fits pr1 c" "cluster_pos pr1 c = cluster_pos pr c"
    using same_volume_facts [OF 1(2)] assms(3) by auto
  have b: "cluster_pos pr c + 2 * S < 2 ^ 31" "k < S" using assms(3,4) S(1) by (auto simp: cluster_fits_def)
  have t: "t \<le> S" "t \<le> n" "0 < t" "n = t \<longleftrightarrow> n \<le> S" using n S by (auto simp: t_def)
  have pos: "i32 (i32 (fat16_cluster_to_sector pr1 (int c) * sector_size dsk) + int k smod int S) = int ?p"
  proof -
    have "int k smod int S = int k" using b(2) S(3) by (simp add: smod_nonneg)
    moreover have "i32 (int ?p) = int ?p" using b by (intro i32_id) auto
    ultimately show ?thesis using cluster_to_sector_fits [OF 1(1) fits1(1)] fits1(2) by simp
  qed
  obtain q st where s: "stream_seek (cluster_read_stream pr1) (int ?p) = Some (0, Some (q, st))"
    "stream_disk st = DiskStatic" "pos st = int ?p"
    by (rule stream_seek_good [of "cluster_read_stream pr1"]) (use 1(1) in \<open>auto simp: volume_def\<close>)
  have r: "stream_read a (Some (q, st)) out d (int t) =
      Some (0, Some (q, st\<lparr>pos := int (?p + t)\<rparr>), overwrite out d (image_bytes img ?p t))"
    by (rule stream_read_good [OF assms(1) s(2,3)]) (use b t n in auto)
  define pr2 where "pr2 = pr1\<lparr>cluster_read_stream := Some (q, st\<lparr>pos := int (?p + t)\<rparr>)\<rparr>"
  have "volume dsk pr2" using 1(1) s(2) by (simp add: pr2_def volume_def good_stream_def)
  moreover have "same_volume pr pr2" using 1(2) by (simp add: pr2_def same_volume_def)
  moreover have "fat16_read_internal_from_stream a dsk pr (int c) (int k) (int n) out d =
       (if n = t then Some (0, pr2, overwrite out d (image_bytes img ?p n))
        else fat16_read_internal_from_stream a dsk pr2 (int c) (int (k + t)) (int (n - t))
               (overwrite out d (image_bytes img ?p t)) (d + t))"
  proof (cases "n \<le> S")
    case True
    then have "t = n" using t(4) by simp
    with True r show ?thesis
      using 1(3) S pos s(1)
      by (subst fat16_read_internal_from_stream.simps) (simp add: Let_def ALL_OK_def pr2_def)
  next
    case False
    then have "t = S" by (simp add: t_def S(1))
    with False r show ?thesis
      using 1(3) S pos s(1)
      by (subst fat16_read_internal_from_stream.simps) (simp add: Let_def ALL_OK_def pr2_def of_nat_diff)
  qed
  ultimately show thesis by (rule that)
qed

text \<open>
  One block from offset \<open>k\<close>: complete if it starts in the first cluster and is not
  longer than a cluster, \<open>-EIO\<close> otherwise; bytes before \<open>d\<close> are never touched.
\<close>

lemma read_internal_ok:
  assumes "ata_serves a img" "volume dsk pr" "cluster_fits pr c" "k < spc pr * 512"
    and "0 < n" "n \<le> spc pr * 512" "d + n \<le> length out"
  obtains pr' where "volume dsk pr'" "same_volume pr pr'"
    "fat16_read_internal a dsk pr (int c) (int k) (int n) out d =
       Some (0, pr', overwrite out d (image_bytes img (cluster_pos pr c + k) n))"
  by (rule read_internal_step [OF assms(1-5,7)])
    (use assms(6) in \<open>auto simp: fat16_read_internal_def intro: that\<close>)

lemma read_internal_beyond:
  assumes "ata_serves a img" "volume dsk pr" "cluster_fits pr c" "spc pr * 512 \<le> k"
  obtains pr' where "volume dsk pr'" "same_volume pr pr'"
    "fat16_read_internal a dsk pr (int c) (int k) n out d = Some (- EIO, pr', out)"
proof -
  obtain pr' where p: "volume dsk pr'" "same_volume pr pr'"
    "fat16_get_cluster_for_offset a dsk pr (int c) (int k) = Some (- EIO, pr')"
    by (rule cluster_for_offset [OF assms(1-3), of k]) (use assms(4) in auto)
  then show thesis
    by (intro that [of pr']) (simp_all add: fat16_read_internal_def fat16_read_internal_from_stream.simps EIO_def)
qed

section \<open>The loop over blocks\<close>

lemma read_loop_law:
  assumes "ata_serves a img" "volume dsk pr" "cluster_fits pr (unat (fat16_get_first_cluster item))"
    and "0 < unat sz" "unat sz \<le> spc pr * 512" "d + n * unat sz \<le> length out"
    and "k + n * unat sz < 2 ^ 31"
  defines "c \<equiv> unat (fat16_get_first_cluster item)"
  obtains pr' out' where "volume dsk pr'" "same_volume pr pr'"
    "fat16_read_loop a dsk pr item sz (int k) n out d =
      Some (if n = 0 \<or> k + (n - 1) * unat sz < spc pr * 512 then 0 else - EIO, pr', out')"
    "n = 0 \<or> k + (n - 1) * unat sz < spc pr * 512 \<Longrightarrow>
       out' = overwrite out d (image_bytes img (cluster_pos pr c + k) (n * unat sz))"
  using assms(2,3,5,6,7)
proof (induction n arbitrary: pr k out d thesis)
  case 0
  show ?case
    by (rule "0.prems"(1) [of pr out]) (use 0 in \<open>simp_all add: image_bytes_def overwrite_def\<close>)
next
  case (Suc n)
  have c: "sint (fat16_get_first_cluster item) = int c"
  proof -
    have "c < 2 ^ 16" using Suc.prems(3) by (simp add: c_def cluster_fits_def)
    then have "sint (word_of_int (int c) :: u32) = int c" by (intro sint_word_of_int_u32) auto
    then show ?thesis by (simp add: c_def)
  qed
  let ?z = "unat sz"
  have z: "?z \<le> spc pr * 512" "k + Suc n * ?z < 2 ^ 31" "k + ?z + n * ?z < 2 ^ 31" "k < 2 ^ 31"
    using Suc.prems(4,6) by auto
  have dz: "d + ?z \<le> length out" "d + ?z + n * ?z \<le> length out"
    using Suc.prems(5) by (metis add_leD1 add.assoc mult_Suc) (use Suc.prems(5) in \<open>simp add: add.assoc\<close>)
  have zs: "sint sz = int ?z"
  proof -
    obtain y where y: "uint sz = int y" "unat sz = y" by (rule uint_unatE)
    have "sint (word_of_int (int y) :: u32) = int y" using z(3) y(2) by (intro sint_word_of_int_u32) auto
    then show ?thesis using y by (metis word_of_int_uint)
  qed
  have nxt: "sint (word_of_int (int k) + sz) = int (k + ?z)"
  proof -
    obtain y where y: "uint sz = int y" "unat sz = y" by (rule uint_unatE)
    have "sint (word_of_int (int (k + y)) :: u32) = int (k + y)" using z(3) y(2) by (intro sint_word_of_int_u32) auto
    moreover have "(word_of_int (int (k + y)) :: u32) = word_of_int (int k) + sz" using y by (metis of_int_of_nat_eq of_nat_add of_nat_unat_id)
    ultimately show ?thesis using y by metis
  qed
  show ?case
  proof (cases "k < spc pr * 512")
    case True
    let ?out = "overwrite out d (image_bytes img (cluster_pos pr c + k) ?z)"
    obtain pr1 where 1: "volume dsk pr1" "same_volume pr pr1"
      "fat16_read_internal a dsk pr (int c) (int k) (int ?z) out d = Some (0, pr1, ?out)"
      using read_internal_ok [OF assms(1) Suc.prems(2) Suc.prems(3) True assms(4) z(1) dz(1)]
      unfolding c_def by blast
    note S = same_volume_facts [OF 1(2)]
    have "cluster_fits pr1 (unat (fat16_get_first_cluster item))" "unat sz \<le> spc pr1 * 512"
      "d + ?z + n * ?z \<le> length ?out" "k + ?z + n * ?z < 2 ^ 31"
      using S Suc.prems(3) z dz by simp_all
    then obtain pr' out' where p: "volume dsk pr'" "same_volume pr1 pr'"
      "fat16_read_loop a dsk pr1 item sz (int (k + ?z)) n ?out (d + ?z) =
        Some (if n = 0 \<or> k + ?z + (n - 1) * ?z < spc pr1 * 512 then 0 else - EIO, pr', out')"
      "n = 0 \<or> k + ?z + (n - 1) * ?z < spc pr1 * 512 \<Longrightarrow>
         out' = overwrite ?out (d + ?z) (image_bytes img (cluster_pos pr1 c + (k + ?z)) (n * ?z))"
      using Suc.IH [OF _ 1(1)] by blast
    have e: "(n = 0 \<or> k + ?z + (n - 1) * ?z < spc pr1 * 512) \<longleftrightarrow> k + n * ?z < spc pr * 512"
      using True S(4) by (cases n) (auto simp: add_ac)
    have o: "overwrite ?out (d + ?z) (image_bytes img (cluster_pos pr c + (k + ?z)) (n * ?z)) =
        overwrite out d (image_bytes img (cluster_pos pr c + k) (Suc n * ?z))"
      using overwrite_append [of d "image_bytes img (cluster_pos pr c + k) ?z"
          "image_bytes img (cluster_pos pr c + (k + ?z)) (n * ?z)" out] Suc.prems(5)
        image_bytes_add [of img "cluster_pos pr c + k" ?z "n * ?z"] by (simp add: add.assoc)
    show ?thesis
    proof (rule Suc.prems(1) [of pr' out'])
      show "same_volume pr pr'" using 1(2) p(2) by (rule same_volume_trans)
      show "fat16_read_loop a dsk pr item sz (int k) (Suc n) out d =
          Some (if Suc n = 0 \<or> k + (Suc n - 1) * ?z < spc pr * 512 then 0 else - EIO, pr', out')"
        using 1(3) p(3) [unfolded e] c zs nxt by (simp add: IS_ERR_def)
      show "out' = overwrite out d (image_bytes img (cluster_pos pr c + k) (Suc n * ?z))"
        if "Suc n = 0 \<or> k + (Suc n - 1) * ?z < spc pr * 512"
        using that p(4) e S(2) o by simp
    qed (rule p(1))
  next
    case False
    obtain pr1 where 1: "volume dsk pr1" "same_volume pr pr1"
      "fat16_read_internal a dsk pr (int c) (int k) (int ?z) out d = Some (- EIO, pr1, out)"
      using read_internal_beyond [OF assms(1) Suc.prems(2) Suc.prems(3), of k] False
      unfolding c_def not_less by blast
    show ?thesis
      by (rule Suc.prems(1) [of pr1 out])
        (use 1 False c zs in \<open>simp_all add: IS_ERR_def EIO_def\<close>)
  qed
qed

end
