(* ===== verification/FatOpen.thy ===== *)
theory FatOpen
  imports FatRead
begin

text \<open>
  Looking up a name in a directory: the text of an 8.3 name, the search over the items and
  what \<open>fat16_open\<close> and \<open>fat16_close\<close> do with the heap.
\<close>

section \<open>Names\<close>

definition name_char :: "u8 \<Rightarrow> bool" where
  "name_char c \<longleftrightarrow> c \<noteq> 0x00 \<and> c \<noteq> 0x20"

text \<open>The characters before the first NUL or space.\<close>

definition word_of :: "u8 list \<Rightarrow> u8 list" where
  "word_of s = takeWhile name_char s"

lemma to_proper_string_word:
  assumes "length (word_of inp) < length inp" "d + length (word_of inp) < length out"
    and "out ! (d + length (word_of inp)) = 0"
  shows "fat16_to_proper_string out d inp =
    Some (overwrite out d (word_of inp), d + length (word_of inp))"
  using assms
proof (induction out d inp rule: fat16_to_proper_string.induct)
  case (2 out d c inp)
  show ?case
  proof (cases "name_char c")
    case True
    then have w: "word_of (c # inp) = c # word_of inp" "c \<noteq> 0" "c \<noteq> 0x20" by (simp_all add: word_of_def name_char_def)
    have "fat16_to_proper_string (out[d := c]) (d + 1) inp =
        Some (overwrite (out[d := c]) (d + 1) (word_of inp), d + 1 + length (word_of inp))"
      using 2(2-4) w by (intro 2(1)) (simp_all add: array_simps)
    then show ?thesis using w 2(3) by (simp add: array_simps overwrite_step)
  next
    case False
    then have w: "word_of (c # inp) = []" by (simp add: word_of_def)
    then have "out[d := 0] = out" using 2(4) by (metis add.right_neutral list.size(3) list_update_id)
    then show ?thesis using False w 2(3) by (auto simp: name_char_def array_simps)
  qed
qed simp

text \<open>
  A directory item with a proper 8.3 name: the name is shorter than 8 characters, and the
  field after the extension (the attributes) ends it if the extension is full.
\<close>

definition proper_name :: "u8 list \<Rightarrow> bool" where
  "proper_name item \<longleftrightarrow> 12 \<le> length item \<and> length (word_of (take 8 item)) < 8 \<and>
     length (word_of (take 4 (drop 8 item))) < 4"

definition item_name :: "u8 list \<Rightarrow> u8 list" where
  "item_name item =
     (let base = word_of (take 8 item); ext = word_of (take 4 (drop 8 item))
      in if ext = [] then base else base @ of_char CHR ''.'' # ext)"

lemma word_of_take: "length (word_of (take n s)) < n \<Longrightarrow> n \<le> length s \<Longrightarrow>
  word_of s = word_of (take n s) \<and> length (word_of s) < length s"
proof (induction s arbitrary: n)
  case (Cons c s)
  then show ?case by (cases n) (auto simp: word_of_def)
qed simp

lemma word_of_no_zero: "0 \<notin> set (word_of s)"
  by (auto simp: word_of_def name_char_def dest: set_takeWhileD)

lemma overwrite_nth_after: "d + length xs \<le> k \<Longrightarrow> k < length out \<Longrightarrow> overwrite out d xs ! k = out ! k"
  by (auto simp: overwrite_def nth_append min_def)

lemma take_overwrite: "d \<le> length out \<Longrightarrow> take (d + length xs) (overwrite out d xs) = take d out @ xs"
  by (simp add: overwrite_def)

lemma full_relative_filename:
  assumes "proper_name item" "length out = 108"
  shows "\<exists>out'. fat16_get_full_relative_filename item out 108 = Some out' \<and> length out' = 108 \<and>
    terminated out' \<and> cstr out' = item_name item"
proof -
  let ?base = "word_of (take 8 item)" and ?ext = "word_of (take 4 (drop 8 item))"
  note P = assms(1) [unfolded proper_name_def]
  obtain z where z: "z = (replicate 108 0 :: u8 list)" "length z = 108" "\<And>k. k < 108 \<Longrightarrow> z ! k = 0" by simp
  have ms: "memset out 0x00 (word_of_int 108) = Some z"
    using memset_loop_overwrite [of 0 108 out 0] assms(2) z(1) by (simp add: memset_def overwrite_def)
  have base: "word_of item = ?base" "length (word_of item) < length item"
    using word_of_take [of 8 item] P by auto
  have ext: "word_of (drop 8 item) = ?ext" "length (word_of (drop 8 item)) < length (drop 8 item)"
    using word_of_take [of 4 "drop 8 item"] P by auto
  have lb: "length ?base < 8" "length ?ext < 4" using P by auto
  let ?o1 = "overwrite z 0 ?base"
  have s1: "fat16_to_proper_string z 0 item = Some (?o1, length ?base)"
    using to_proper_string_word [of item 0 z] base z lb by simp
  have o1: "length ?o1 = 108" "\<And>k. length ?base \<le> k \<Longrightarrow> k < 108 \<Longrightarrow> ?o1 ! k = 0"
    using z lb overwrite_nth_after [of 0 ?base _ z] by simp_all
  obtain e where e: "get8 item 8 = Some e" "e = item ! 8" using P by (simp add: get8_def arr_get_def)
  have ee: "?ext = [] \<longleftrightarrow> \<not> name_char e"
    using P e(2) by (cases "drop 8 item") (auto simp: word_of_def nth_via_drop)
  show ?thesis
  proof (cases "?ext = []")
    case True
    then have "fat16_get_full_relative_filename item out 108 = Some ?o1"
      using ms s1 e ee by (auto simp: fat16_get_full_relative_filename_def name_char_def)
    moreover have "?o1 = ?base @ 0 # drop (length ?base + 1) ?o1"
    proof -
      have "take (length ?base) ?o1 = ?base" by (simp add: overwrite_def)
      moreover have "drop (length ?base) ?o1 = 0 # drop (length ?base + 1) ?o1"
        using o1(1) o1(2) [of "length ?base"] lb by (simp add: Cons_nth_drop_Suc [symmetric])
      ultimately show ?thesis by (metis append_take_drop_id)
    qed
    then have "cstr ?o1 = ?base" "terminated ?o1"
      using cstr_append_zero [OF word_of_no_zero] by (metis, metis in_set_conv_decomp terminated_def)
    ultimately show ?thesis using o1(1) True by (auto simp: item_name_def)
  next
    case False
    let ?dot = "of_char CHR ''.'' :: u8"
    let ?o2 = "?o1[length ?base := ?dot]" and ?d = "length ?base + 1"
    have o2: "length ?o2 = 108" "?o2 ! (?d + length ?ext) = 0" using o1 lb by simp_all
    have s2: "fat16_to_proper_string ?o2 ?d (drop 8 item) = Some (overwrite ?o2 ?d ?ext, ?d + length ?ext)"
      using to_proper_string_word [of "drop 8 item" ?d ?o2] ext o2 lb by simp
    let ?o3 = "overwrite ?o2 ?d ?ext"
    have "fat16_get_full_relative_filename item out 108 = Some ?o3"
      using ms s1 e ee False s2 lb o1(1)
      by (auto simp: fat16_get_full_relative_filename_def name_char_def array_simps)
    moreover have n: "?o3 = item_name item @ 0 # drop (?d + length ?ext + 1) ?o3"
    proof -
      have "take ?d ?o2 = ?base @ [?dot]"
        using o1(1) lb list_update_next [of "length ?base" ?o1 ?dot] by (simp add: overwrite_def)
      then have t: "take (?d + length ?ext) ?o3 = item_name item"
        using False take_overwrite [of ?d ?o2 ?ext] o2(1) lb by (simp only: item_name_def Let_def if_False) simp
      have "?o3 ! (?d + length ?ext) = 0"
        using overwrite_nth_after [of ?d ?ext "?d + length ?ext" ?o2] o2 lb by simp
      then have "drop (?d + length ?ext) ?o3 = 0 # drop (?d + length ?ext + 1) ?o3"
        using o2(1) lb by (simp add: Cons_nth_drop_Suc [symmetric])
      with t show ?thesis by (metis append_take_drop_id)
    qed
    moreover have "0 \<notin> set (item_name item)"
      using word_of_no_zero by (simp add: item_name_def Let_def)
    then have "cstr ?o3 = item_name item" "terminated ?o3"
      using cstr_append_zero n by (metis, metis in_set_conv_decomp terminated_def n)
    ultimately show ?thesis using o2(1) lb by auto
  qed
qed

section \<open>Searching a directory\<close>

definition nth_item :: "u8 list \<Rightarrow> nat \<Rightarrow> u8 list" where
  "nth_item items i = drop (i * 32) items"

definition name_matches :: "u8 list \<Rightarrow> u8 list \<Rightarrow> nat \<Rightarrow> bool" where
  "name_matches items filename i \<longleftrightarrow>
     map tolower (item_name (nth_item items i)) = map tolower (cstr filename)"

text \<open>Item \<open>i\<close> has a proper name and is a file if its name is the one searched for.\<close>

definition searchable :: "u8 list \<Rightarrow> u8 list \<Rightarrow> nat \<Rightarrow> bool" where
  "searchable items filename i \<longleftrightarrow> proper_name (nth_item items i) \<and> 32 \<le> length (nth_item items i) \<and>
     (name_matches items filename i \<longrightarrow> nth_item items i ! 11 AND FAT_FILE_SUBDIRECTORY = 0)"

lemma read_item_some: "32 \<le> length bs \<Longrightarrow> \<exists>it. read_item bs = Some it \<and> attributes it = bs ! 11"
  by (simp add: read_item_def get8_def get16_def get32_def arr_get_def)

lemma new_fat_item_file:
  assumes "kheap_ok m" "2 \<le> kroom m" "32 \<le> length item" "item ! 11 AND FAT_FILE_SUBDIRECTORY = 0"
  shows "\<exists>ad p m'. fat16_new_fat_item_for_directory_item a dsk pr m item =
      Some (Some \<lparr>fi_addr = ad, fi_union = UItem p (take 32 item), fi_type = FAT_ITEM_TYPE_FILE\<rparr>, pr, m') \<and>
    kgrew m [ad, p] m'"
proof -
  obtain ad m1 where 1: "kzalloc m 8 = (ad, m1)" "ad \<noteq> 0" "kgrew m [ad] m1"
    by (rule kgrew_alloc [OF assms(1), of 8]) (use assms(2) in auto)
  have "kheap_ok m1" "0 < kroom m1" using 1(3) assms(2) by (auto simp: kgrew_def grown_def)
  then obtain p m2 where 2: "kzalloc m1 32 = (p, m2)" "p \<noteq> 0" "kgrew m1 [p] m2"
    by (auto elim: kgrew_alloc [of m1 32])
  obtain it where it: "read_item item = Some it" "attributes it = item ! 11"
    using read_item_some [OF assms(3)] by blast
  have "memcpy (replicate 32 0) 0 item 32 = Some (take 32 item)"
    using memcpy_loop_overwrite [of 0 32 "replicate 32 0" item] assms(3) by (simp add: memcpy_def overwrite_def)
  then have "fat16_new_fat_item_for_directory_item a dsk pr m item =
      Some (Some \<lparr>fi_addr = ad, fi_union = UItem p (take 32 item), fi_type = FAT_ITEM_TYPE_FILE\<rparr>, pr, m2)"
    using 1(1,2) 2(1,2) it assms(4)
    by (simp add: fat16_new_fat_item_for_directory_item_def fat16_clone_directory_item_def sizeof_fat_directory_item_def)
  moreover have "kgrew m [ad, p] m2" using kgrew_trans [OF 1(3) 2(3)] by simp
  ultimately show ?thesis by blast
qed

lemma istrncmp_name:
  assumes "length tmp = 108" "terminated tmp" "length fn = 108" "terminated fn"
  shows "\<exists>r. istrncmp tmp fn 108 = Some r \<and> (r = 0 \<longleftrightarrow> map tolower (cstr tmp) = map tolower (cstr fn))"
  using istrncmp_loop_cstr [OF assms(2,4), of 108] cstr_length [OF assms(2)] cstr_length [OF assms(4)] assms(1,3)
  by (simp add: istrncmp_def)

definition matches :: "u8 list \<Rightarrow> u8 list \<Rightarrow> nat \<Rightarrow> nat \<Rightarrow> nat list" where
  "matches items fn i n = filter (name_matches items fn) [i..<i+n]"

lemma matches_Suc: "matches items fn i (Suc n) =
    (if name_matches items fn i then i # matches items fn (Suc i) n else matches items fn (Suc i) n)"
proof -
  have "[i..<i + Suc n] = i # [Suc i..<Suc i + n]" by (simp add: upt_conv_Cons)
  then show ?thesis by (simp add: matches_def)
qed

definition file_item :: "u32 \<Rightarrow> u32 \<Rightarrow> u8 list \<Rightarrow> nat \<Rightarrow> fat_item" where
  "file_item ad p items i =
     \<lparr>fi_addr = ad, fi_union = UItem p (take 32 (nth_item items i)), fi_type = FAT_ITEM_TYPE_FILE\<rparr>"

lemma find_loop_law:
  assumes "length fn = 108" "terminated fn"
  shows "kheap_ok m \<Longrightarrow> length tmp = 108 \<Longrightarrow> \<forall>j. i \<le> j \<and> j < i + n \<longrightarrow> searchable items fn j \<Longrightarrow>
    2 * length (matches items fn i n) \<le> kroom m \<Longrightarrow>
    \<exists>f ps m'. fat16_find_loop a dsk items fn tmp f0 i n pr m = Some (f, pr, m') \<and> kgrew m ps m' \<and>
      (if matches items fn i n = [] then f = f0 \<and> m' = m \<and> ps = []
       else \<exists>ad p qs. f = Some (file_item ad p items (last (matches items fn i n))) \<and> ps = qs @ [ad, p] \<and>
         length qs = 2 * (length (matches items fn i n) - 1))"
proof (induction n arbitrary: m tmp i f0)
  case 0
  then show ?case using kgrew_refl by (auto simp: matches_def)
next
  case (Suc n)
  have si: "searchable items fn i" using Suc.prems(3) by simp
  then obtain tmp' where t: "fat16_get_full_relative_filename (nth_item items i) tmp 108 = Some tmp'"
    "length tmp' = 108" "terminated tmp'" "cstr tmp' = item_name (nth_item items i)"
    using full_relative_filename [OF _ Suc.prems(2)] by (auto simp: searchable_def)
  obtain r where r: "istrncmp tmp' fn 108 = Some r" "r = 0 \<longleftrightarrow> name_matches items fn i"
    using istrncmp_name [OF t(2,3) assms] t(4) by (auto simp: name_matches_def)
  have rest: "\<forall>j. Suc i \<le> j \<and> j < Suc i + n \<longrightarrow> searchable items fn j" using Suc.prems(3) by simp
  show ?case
  proof (cases "name_matches items fn i")
    case False
    then have ms: "matches items fn i (Suc n) = matches items fn (Suc i) n" by (simp add: matches_Suc)
    have "fat16_find_loop a dsk items fn tmp f0 i (Suc n) pr m =
        fat16_find_loop a dsk items fn tmp' f0 (Suc i) n pr m"
      using t(1) r False by (simp add: sizeof_fat_directory_item_def HARDIKHYPERIONOS_MAX_PATH_def flip: nth_item_def)
    then show ?thesis
      using Suc.IH [OF Suc.prems(1) t(2) rest, of f0] Suc.prems(4) unfolding ms by simp
  next
    case True
    then have nd: "nth_item items i ! 11 AND FAT_FILE_SUBDIRECTORY = 0" "32 \<le> length (nth_item items i)"
      using si by (auto simp: searchable_def)
    have "2 \<le> kroom m" using Suc.prems(4) True by (simp add: matches_Suc)
    from new_fat_item_file [OF Suc.prems(1) this nd(2,1)] obtain ad p m1
      where new: "fat16_new_fat_item_for_directory_item a dsk pr m (nth_item items i) =
          Some (Some (file_item ad p items i), pr, m1)" "kgrew m [ad, p] m1"
      unfolding file_item_def by blast
    have "kheap_ok m1" "2 * length (matches items fn (Suc i) n) \<le> kroom m1"
      using new(2) Suc.prems(4) True by (auto simp: kgrew_def grown_def matches_Suc)
    from Suc.IH [OF this(1) t(2) rest this(2), of "Some (file_item ad p items i)"] obtain f ps m'
      where ih: "fat16_find_loop a dsk items fn tmp' (Some (file_item ad p items i)) (Suc i) n pr m1 = Some (f, pr, m')"
        "kgrew m1 ps m'"
        "if matches items fn (Suc i) n = [] then f = Some (file_item ad p items i) \<and> m' = m1 \<and> ps = []
         else \<exists>ad p qs. f = Some (file_item ad p items (last (matches items fn (Suc i) n))) \<and> ps = qs @ [ad, p] \<and>
           length qs = 2 * (length (matches items fn (Suc i) n) - 1)" by blast
    have loop: "fat16_find_loop a dsk items fn tmp f0 i (Suc n) pr m = Some (f, pr, m')"
      using t(1) r True new(1) ih(1)
      by (simp add: sizeof_fat_directory_item_def HARDIKHYPERIONOS_MAX_PATH_def flip: nth_item_def)
    have g: "kgrew m ([ad, p] @ ps) m'" using kgrew_trans [OF new(2) ih(2)] .
    show ?thesis
    proof (cases "matches items fn (Suc i) n = []")
      case mt: True
      with loop g ih(3) True show ?thesis by (intro exI [of _ f] exI [of _ "[ad, p]"] exI [of _ m']) (simp add: matches_Suc)
    next
      case mt: False
      with ih(3) obtain ad' p' qs where q: "f = Some (file_item ad' p' items (last (matches items fn (Suc i) n)))"
        "ps = qs @ [ad', p']" "length qs = 2 * (length (matches items fn (Suc i) n) - 1)" by auto
      have "length (ad # p # qs) = 2 * length (matches items fn (Suc i) n)"
        using q(3) mt by (cases "matches items fn (Suc i) n") simp_all
      then show ?thesis
        using loop g q(1,2) True mt
        by (intro exI [of _ f] exI [of _ "[ad, p] @ ps"] exI [of _ m'])
          (auto simp: matches_Suc intro!: exI [of _ "ad # p # qs"])
    qed
  qed
qed

section \<open>Opening and closing\<close>

definition root_items :: "fat_private \<Rightarrow> u8 list" where
  "root_items pr = dir_item (root_directory pr)"

definition root_total :: "fat_private \<Rightarrow> nat" where
  "root_total pr = nat (dir_total (root_directory pr))"

text \<open>The items of the root directory that carry the name of the path part.\<close>

definition root_matches :: "fat_private \<Rightarrow> path_part \<Rightarrow> nat list" where
  "root_matches pr p = matches (root_items pr) (part p) 0 (root_total pr)"

text \<open>What the driver needs to look up a name in the root directory.\<close>

definition lookup_ok :: "fat_state \<Rightarrow> fat_private \<Rightarrow> path_part \<Rightarrow> bool" where
  "lookup_ok s pr p \<longleftrightarrow> disk_private s = Some pr \<and> kheap_ok (km s) \<and> length (part p) = 108 \<and> terminated (part p) \<and>
     (\<forall>j < root_total pr. searchable (root_items pr) (part p) j) \<and>
     2 * length (root_matches pr p) + 1 \<le> kroom (km s)"

lemma put_private_same: "disk_private s = Some pr \<Longrightarrow> put_private pr s = s"
  by (cases "fs_private (the_disk s)") (auto simp: disk_private_def put_private_def)

lemma fat16_open_law:
  assumes ok: "lookup_ok s pr p"
  obtains d s' bs where
    "fat16_open a s (p # ps) FILE_MODE_READ =
       Some (if root_matches pr p = [] \<or> ps \<noteq> [] then ERROR (- EIO) else d, s')"
    "d \<noteq> 0" "kgrew (km s) (d # bs) (km s')" "length bs = 2 * length (root_matches pr p)"
    "the_disk s' = the_disk s"
    "if root_matches pr p = [] \<or> ps \<noteq> [] then fat_descriptors s' = fat_descriptors s
     else \<exists>ad q qs. fat_descriptors s' = (fat_descriptors s)
         (d \<mapsto> \<lparr>fd_item = file_item ad q (root_items pr) (last (root_matches pr p)), fd_pos = 0\<rparr>) \<and>
       bs = qs @ [ad, q]"
proof -
  note L = ok [unfolded lookup_ok_def]
  let ?fn = "part p"
  obtain d m1 where 1: "kzalloc (km s) 8 = (d, m1)" "d \<noteq> 0" "kgrew (km s) [d] m1"
    by (rule kgrew_alloc [of "km s" 8]) (use L in auto)
  have "kheap_ok m1" "2 * length (root_matches pr p) \<le> kroom m1" using 1(3) L by (auto simp: kgrew_def grown_def)
  moreover have "length (replicate HARDIKHYPERIONOS_MAX_PATH 0 :: u8 list) = 108"
    by (simp add: HARDIKHYPERIONOS_MAX_PATH_def)
  moreover have "\<forall>j. 0 \<le> j \<and> j < 0 + root_total pr \<longrightarrow> searchable (root_items pr) ?fn j" using L by simp
  ultimately obtain f bs m2 where F:
    "fat16_find_loop a (the_disk s) (root_items pr) ?fn (replicate HARDIKHYPERIONOS_MAX_PATH 0) None 0
       (root_total pr) pr m1 = Some (f, pr, m2)" "kgrew m1 bs m2"
    "if root_matches pr p = [] then f = None \<and> m2 = m1 \<and> bs = []
     else \<exists>ad q qs. f = Some (file_item ad q (root_items pr) (last (root_matches pr p))) \<and> bs = qs @ [ad, q] \<and>
       length qs = 2 * (length (root_matches pr p) - 1)"
    using find_loop_law [of ?fn m1 "replicate HARDIKHYPERIONOS_MAX_PATH 0" 0 "root_total pr" "root_items pr" a
        "the_disk s" None pr] L
    unfolding root_matches_def by blast
  have find: "fat16_find_item_in_directory a (the_disk s) pr m1 (root_directory pr) ?fn = Some (f, pr, m2)"
    using F(1) by (simp add: fat16_find_item_in_directory_def root_items_def root_total_def)
  have len: "length bs = 2 * length (root_matches pr p)"
    using F(3) by (cases "root_matches pr p") auto
  have g: "kgrew (km s) (d # bs) m2" using kgrew_trans [OF 1(3) F(2)] by simp
  let ?s = "s\<lparr>km := m2\<rparr>"
  have put: "put_private pr s = s" using L put_private_same by simp
  show thesis
  proof (cases "root_matches pr p = [] \<or> ps \<noteq> []")
    case True
    have "fat16_get_directory_entry a (the_disk s) pr m1 (p # ps) = Some (None, pr, m2)"
    proof (cases "root_matches pr p = []")
      case mt: True
      then show ?thesis using find F(3) by (simp add: fat16_get_directory_entry_def)
    next
      case mt: False
      then obtain ad q where "f = Some (file_item ad q (root_items pr) (last (root_matches pr p)))"
        using F(3) by auto
      moreover obtain p' ps' where "ps = p' # ps'" using True mt by (cases ps) auto
      ultimately show ?thesis
        using find by (simp add: fat16_get_directory_entry_def file_item_def FAT_ITEM_TYPE_FILE_def FAT_ITEM_TYPE_DIRECTORY_def)
    qed
    then have "fat16_open a s (p # ps) FILE_MODE_READ = Some (ERROR (- EIO), ?s)"
      using 1(1,2) L put by (simp add: fat16_open_def)
    then show thesis
      using True g len 1(2) by (intro that [of d ?s bs]) simp_all
  next
    case False
    then obtain ad q qs where f: "f = Some (file_item ad q (root_items pr) (last (root_matches pr p)))" "bs = qs @ [ad, q]"
      using F(3) by auto
    let ?s' = "?s\<lparr>fat_descriptors := (fat_descriptors s)
      (d \<mapsto> \<lparr>fd_item = file_item ad q (root_items pr) (last (root_matches pr p)), fd_pos = 0\<rparr>)\<rparr>"
    have "fat16_open a s (p # ps) FILE_MODE_READ = Some (d, ?s')"
      using 1(1,2) L put find f False by (simp add: fat16_open_def fat16_get_directory_entry_def)
    then show thesis
      using False g len 1(2) f(2) by (intro that [of d ?s' bs]) auto
  qed
qed

lemma fat16_close_law:
  assumes "fat_descriptors s d = Some \<lparr>fd_item = file_item ad q items i, fd_pos = k\<rparr>"
  shows "fat16_close s d = Some (0, s\<lparr>km := release_seq kfree [q, ad, d] (km s),
     fat_descriptors := (fat_descriptors s)(d := None)\<rparr>)"
  using assms
  by (simp add: fat16_close_def fat16_free_file_descriptor_def fat16_fat_item_free_def file_item_def
      FAT_ITEM_TYPE_FILE_def FAT_ITEM_TYPE_DIRECTORY_def)

end
