(* ===== verification/FileLayer.thy ===== *)
theory FileLayer
  imports FatOpen
begin

text \<open>
  The virtual file system, \<open>src/src/fs/file.c\<close>, and \<open>disk_search_and_init\<close> of
  \<open>src/src/disk/disk.c\<close>. A \<open>struct filesystem\<close> is a record of functions on the state of the
  drivers; the pointers to it are resolved by \<open>ops\<close>. A descriptor is a value that carries
  its heap address. The locale \<open>filesystem\<close> is what \<open>fopen\<close> and \<open>fclose\<close> rely on; it is
  interpreted on the functions of FAT16.
\<close>

section \<open>file.c\<close>

definition HARDIKHYPERIONOS_MAX_FILESYSTEMS :: nat where "HARDIKHYPERIONOS_MAX_FILESYSTEMS = 12"
definition HARDIKHYPERIONOS_MAX_FILE_DESCRIPTORS :: nat where "HARDIKHYPERIONOS_MAX_FILE_DESCRIPTORS = 512"

record fs_ops =
  op_resolve :: "fat_state \<Rightarrow> (int \<times> fat_state) option"
  op_open :: "fat_state \<Rightarrow> path_part list \<Rightarrow> u32 \<Rightarrow> (u32 \<times> fat_state) option"
  op_read :: "fat_state \<Rightarrow> u32 \<Rightarrow> u32 \<Rightarrow> u32 \<Rightarrow> u8 list \<Rightarrow> nat \<Rightarrow> (int \<times> fat_state \<times> u8 list) option"
  op_seek :: "fat_state \<Rightarrow> u32 \<Rightarrow> u32 \<Rightarrow> u32 \<Rightarrow> (int \<times> fat_state) option"
  op_stat :: "fat_state \<Rightarrow> u32 \<Rightarrow> file_stat \<Rightarrow> (int \<times> file_stat) option"
  op_close :: "fat_state \<Rightarrow> u32 \<Rightarrow> (int \<times> fat_state) option"

text \<open>The initialiser of \<open>fat16_fs\<close>; \<open>fat16_resolve\<close> works on the disk and the heap.\<close>

definition fat16_fs :: "ata \<Rightarrow> fs_ops" where
  "fat16_fs a = \<lparr>op_resolve = (\<lambda>s. do { (res, dsk, m) \<leftarrow> fat16_resolve a (the_disk s) (km s);
                                  Some (res, s\<lparr>the_disk := dsk, km := m\<rparr>) }),
     op_open = fat16_open a, op_read = fat16_read a, op_seek = fat16_seek, op_stat = fat16_stat,
     op_close = fat16_close\<rparr>"

record file_descriptor =
  desc_addr :: u32
  index :: int
  desc_filesystem :: fs_ref
  desc_private :: u32

record file_state =
  fsys :: fat_state
  filesystems :: "fs_ref option list"
  file_descriptors :: "file_descriptor option list"

text \<open>The index of the first null entry of an array.\<close>

fun first_null :: "'a option list \<Rightarrow> nat option" where
  "first_null [] = None"
| "first_null (x # xs) = (if x = None then Some 0 else map_option Suc (first_null xs))"

definition fs_get_free_filesystem :: "file_state \<Rightarrow> nat option" where
  "fs_get_free_filesystem s = first_null (filesystems s)"

text \<open>Without a free entry the kernel prints a message and stops.\<close>

definition fs_insert_filesystem :: "file_state \<Rightarrow> fs_ref \<Rightarrow> file_state option" where
  "fs_insert_filesystem s f =
     do { i \<leftarrow> fs_get_free_filesystem s; Some (s\<lparr>filesystems := (filesystems s)[i := Some f]\<rparr>) }"

definition fs_static_load :: "file_state \<Rightarrow> file_state option" where
  "fs_static_load s = fs_insert_filesystem s Fat16Fs"

definition fs_load :: "file_state \<Rightarrow> file_state option" where
  "fs_load s = fs_static_load (s\<lparr>filesystems := replicate HARDIKHYPERIONOS_MAX_FILESYSTEMS None\<rparr>)"

definition fs_init :: "file_state \<Rightarrow> file_state option" where
  "fs_init s = fs_load (s\<lparr>file_descriptors := replicate HARDIKHYPERIONOS_MAX_FILE_DESCRIPTORS None\<rparr>)"

definition on_heap :: "(kmem \<Rightarrow> kmem) \<Rightarrow> file_state \<Rightarrow> file_state" where
  "on_heap f s = s\<lparr>fsys := (fsys s)\<lparr>km := f (km (fsys s))\<rparr>\<rparr>"

definition file_free_descriptor :: "file_state \<Rightarrow> file_descriptor \<Rightarrow> file_state option" where
  "file_free_descriptor s desc =
     do { fds \<leftarrow> arr_set (file_descriptors s) (index desc - 1) None;
          Some (on_heap (\<lambda>m. kfree m (desc_addr desc)) (s\<lparr>file_descriptors := fds\<rparr>)) }"

text \<open>
  The new descriptor is in the table when the function returns; its other fields are
  filled by the caller, \<open>fopen\<close>, through the pointer.
\<close>

definition file_new_descriptor :: "file_state \<Rightarrow> (int \<times> file_descriptor option \<times> file_state) option" where
  "file_new_descriptor s =
     (case first_null (file_descriptors s) of None \<Rightarrow> Some (- ENOMEM, None, s)
      | Some i \<Rightarrow> let (desc, m1) = kzalloc (km (fsys s)) 16
          in if desc = 0 then None
             else let d = \<lparr>desc_addr = desc, index = int i + 1, desc_filesystem = OtherFs 0, desc_private = 0\<rparr>
             in Some (0, Some d, s\<lparr>fsys := (fsys s)\<lparr>km := m1\<rparr>,
                  file_descriptors := (file_descriptors s)[i := Some d]\<rparr>))"

definition file_get_descriptor :: "file_state \<Rightarrow> int \<Rightarrow> file_descriptor option" where
  "file_get_descriptor s fd =
     (if fd \<le> 0 \<or> fd > int HARDIKHYPERIONOS_MAX_FILE_DESCRIPTORS then None
      else file_descriptors s ! nat (fd - 1))"

fun fs_resolve_loop :: "(fs_ref \<Rightarrow> fs_ops) \<Rightarrow> fs_ref option list \<Rightarrow> fat_state \<Rightarrow> (fs_ref option \<times> fat_state) option" where
  "fs_resolve_loop ops [] s = Some (None, s)"
| "fs_resolve_loop ops (None # fs) s = fs_resolve_loop ops fs s"
| "fs_resolve_loop ops (Some f # fs) s =
     do { (res, s') \<leftarrow> op_resolve (ops f) s;
          if res = 0 then Some (Some f, s') else fs_resolve_loop ops fs s' }"

definition fs_resolve :: "(fs_ref \<Rightarrow> fs_ops) \<Rightarrow> file_state \<Rightarrow> (fs_ref option \<times> file_state) option" where
  "fs_resolve ops s =
     do { (f, s') \<leftarrow> fs_resolve_loop ops (filesystems s) (fsys s); Some (f, s\<lparr>fsys := s'\<rparr>) }"

text \<open>\<open>disk_search_and_init\<close> of \<open>disk.c\<close>.\<close>

definition disk_search_and_init :: "(fs_ref \<Rightarrow> fs_ops) \<Rightarrow> file_state \<Rightarrow> file_state option" where
  "disk_search_and_init ops s =
     do { let d = \<lparr>disk_type = HARDIKHYPERIONOS_DISK_TYPE_REAL, sector_size = HARDIKHYPERIONOS_SECTOR_SIZE,
                   disk_id = 0, disk_filesystem = None, fs_private = None\<rparr>;
          (f, s') \<leftarrow> fs_resolve ops (s\<lparr>fsys := (fsys s)\<lparr>the_disk := d\<rparr>\<rparr>);
          Some (s'\<lparr>fsys := (fsys s')\<lparr>the_disk := (the_disk (fsys s'))\<lparr>disk_filesystem := f\<rparr>\<rparr>\<rparr>) }"

definition file_get_mode_by_string :: "u8 list \<Rightarrow> u32 option" where
  "file_get_mode_by_string str =
     do { r \<leftarrow> strncmp str (ascii ''r'') 1;
          if r = 0 then Some FILE_MODE_READ
          else do { w \<leftarrow> strncmp str (ascii ''w'') 1;
            if w = 0 then Some FILE_MODE_WRITE
            else do { ap \<leftarrow> strncmp str (ascii ''a'') 1;
              if ap = 0 then Some FILE_MODE_APPEND else Some FILE_MODE_INVALID } } }"

text \<open>The result before the label \<open>out\<close>, where a negative one becomes 0.\<close>

definition fopen_res :: "(fs_ref \<Rightarrow> fs_ops) \<Rightarrow> file_state \<Rightarrow> u8 list \<Rightarrow> u8 list \<Rightarrow> (int \<times> file_state) option" where
  "fopen_res ops s filename mode_str =
     do { (root_path, m1) \<leftarrow> pathparser_parse (km (fsys s)) filename;
          let s1 = s\<lparr>fsys := (fsys s)\<lparr>km := m1\<rparr>\<rparr>;
          case root_path of None \<Rightarrow> Some (- EINVARG, s1)
          | Some root \<Rightarrow>
            if first root = [] then Some (- EINVARG, s1)
            else if disk_get (drive_no root) = None then Some (- EIO, s1)
            else case disk_filesystem (the_disk (fsys s1)) of None \<Rightarrow> Some (- EIO, s1)
            | Some f \<Rightarrow>
              do { mode \<leftarrow> file_get_mode_by_string mode_str;
                if mode = FILE_MODE_INVALID then Some (- EINVARG, s1)
                else do { (p, fs2) \<leftarrow> op_open (ops f) (fsys s1) (first root) mode;
                  let s2 = s1\<lparr>fsys := fs2\<rparr>;
                  if IS_ERR (sint p) then Some (ERROR_I p, s2)
                  else do { (res, desc, s3) \<leftarrow> file_new_descriptor s2;
                    if res < 0 then Some (res, s3)
                    else do { d \<leftarrow> desc;
                      let d' = d\<lparr>desc_filesystem := f, desc_private := p\<rparr>;
                      Some (index d', s3\<lparr>file_descriptors := (file_descriptors s3)[nat (index d - 1) := Some d']\<rparr>) } } } } }"

definition fopen :: "(fs_ref \<Rightarrow> fs_ops) \<Rightarrow> file_state \<Rightarrow> u8 list \<Rightarrow> u8 list \<Rightarrow> (int \<times> file_state) option" where
  "fopen ops s filename mode_str =
     do { (res, s') \<leftarrow> fopen_res ops s filename mode_str; Some (if res < 0 then 0 else res, s') }"

definition fstat :: "(fs_ref \<Rightarrow> fs_ops) \<Rightarrow> file_state \<Rightarrow> int \<Rightarrow> file_stat \<Rightarrow> (int \<times> file_stat) option" where
  "fstat ops s fd st =
     (case file_get_descriptor s fd of None \<Rightarrow> Some (- EIO, st)
      | Some desc \<Rightarrow> op_stat (ops (desc_filesystem desc)) (fsys s) (desc_private desc) st)"

definition fseek :: "(fs_ref \<Rightarrow> fs_ops) \<Rightarrow> file_state \<Rightarrow> int \<Rightarrow> int \<Rightarrow> u32 \<Rightarrow> (int \<times> file_state) option" where
  "fseek ops s fd offset whence =
     (case file_get_descriptor s fd of None \<Rightarrow> Some (- EIO, s)
      | Some desc \<Rightarrow>
          do { (res, fs') \<leftarrow> op_seek (ops (desc_filesystem desc)) (fsys s) (desc_private desc) (word_of_int offset) whence;
               Some (res, s\<lparr>fsys := fs'\<rparr>) })"

definition fread :: "(fs_ref \<Rightarrow> fs_ops) \<Rightarrow> file_state \<Rightarrow> u8 list \<Rightarrow> nat \<Rightarrow> u32 \<Rightarrow> u32 \<Rightarrow> int \<Rightarrow>
    (int \<times> file_state \<times> u8 list) option" where
  "fread ops s out d sz nmemb fd =
     (if sz = 0 \<or> nmemb = 0 \<or> fd < 1 then Some (- EINVARG, s, out)
      else case file_get_descriptor s fd of None \<Rightarrow> Some (- EINVARG, s, out)
      | Some desc \<Rightarrow>
          do { (res, fs', out') \<leftarrow> op_read (ops (desc_filesystem desc)) (fsys s) (desc_private desc) sz nmemb out d;
               Some (res, s\<lparr>fsys := fs'\<rparr>, out') })"

definition fclose :: "(fs_ref \<Rightarrow> fs_ops) \<Rightarrow> file_state \<Rightarrow> int \<Rightarrow> (int \<times> file_state) option" where
  "fclose ops s fd =
     (case file_get_descriptor s fd of None \<Rightarrow> Some (- EIO, s)
      | Some desc \<Rightarrow>
          do { (res, fs') \<leftarrow> op_close (ops (desc_filesystem desc)) (fsys s) (desc_private desc);
               if res = ALL_OK
               then do { s' \<leftarrow> file_free_descriptor (s\<lparr>fsys := fs'\<rparr>) desc; Some (res, s') }
               else Some (res, s\<lparr>fsys := fs'\<rparr>) })"

section \<open>The interface of a file system\<close>

text \<open>
  What the virtual file system relies on: for a path that satisfies \<open>pre\<close>, opening for
  reading gives a handle whose \<open>blocks\<close> are exactly the heap blocks that were allocated,
  and closing a handle succeeds and releases its blocks.
\<close>

locale filesystem =
  fixes fs :: fs_ops
    and pre :: "fat_state \<Rightarrow> path_part list \<Rightarrow> bool"
    and blocks :: "fat_state \<Rightarrow> u32 \<Rightarrow> u32 list option"
  assumes open_law: "pre s path \<Longrightarrow> \<exists>p s' bs. op_open fs s path FILE_MODE_READ = Some (p, s') \<and>
      \<not> IS_ERR (sint p) \<and> kgrew (km s) bs (km s') \<and> 0 < kroom (km s') \<and> blocks s' p = Some bs"
    and close_law: "blocks s p = Some bs \<Longrightarrow> kgrew m ps (km s) \<Longrightarrow> mset ps = mset bs + mset rs \<Longrightarrow>
      \<exists>s'. op_close fs s p = Some (0, s') \<and> kgrew m rs (km s')"
    and blocks_heap: "blocks (s\<lparr>km := m\<rparr>) p = blocks s p"

lemma first_null_law:
  "first_null xs = Some i \<Longrightarrow> i < length xs \<and> xs ! i = None \<and> (\<forall>j < i. xs ! j \<noteq> None)"
proof (induction xs arbitrary: i)
  case (Cons x xs)
  show ?case
  proof (cases "x = None")
    case False
    with Cons obtain j where "first_null xs = Some j" "i = Suc j" by auto
    with Cons.IH False show ?thesis by (auto simp: less_Suc_eq_0_disj)
  qed (use Cons in auto)
qed simp

lemma first_null_none: "first_null xs = None \<longleftrightarrow> None \<notin> set xs"
  by (induction xs) auto

context filesystem begin

lemma fopen_opened:
  assumes ok: "kheap_ok (km (fsys s))"
    and parse: "pathparser_parse (km (fsys s)) filename = Some (Some r, m1)" "kgrew (km (fsys s)) rb m1"
    and root: "first r \<noteq> []" "drive_no r = 0" "pre ((fsys s)\<lparr>km := m1\<rparr>) (first r)"
    and disk: "disk_filesystem (the_disk (fsys s)) = Some f" "tab f = fs"
    and mode: "file_get_mode_by_string mode_str = Some FILE_MODE_READ"
    and table: "length (file_descriptors s) = 512" "first_null (file_descriptors s) = Some i"
  obtains p fs2 bs q m3 d sa where "op_open fs ((fsys s)\<lparr>km := m1\<rparr>) (first r) FILE_MODE_READ = Some (p, fs2)"
    "blocks (fs2\<lparr>km := m3\<rparr>) p = Some bs" "kgrew (km (fsys s)) (rb @ bs @ [q]) m3"
    "d = \<lparr>desc_addr = q, index = int i + 1, desc_filesystem = f, desc_private = p\<rparr>"
    "sa = s\<lparr>fsys := fs2\<lparr>km := m3\<rparr>, file_descriptors := (file_descriptors s)[i := Some d]\<rparr>"
    "fopen tab s filename mode_str = Some (int i + 1, sa)" "file_get_descriptor sa (int i + 1) = Some d"
proof -
  let ?s1 = "s\<lparr>fsys := (fsys s)\<lparr>km := m1\<rparr>\<rparr>"
  have i: "i < 512" using first_null_law [OF table(2)] table(1) by auto
  obtain p fs2 bs where o: "op_open fs ((fsys s)\<lparr>km := m1\<rparr>) (first r) FILE_MODE_READ = Some (p, fs2)"
    "\<not> IS_ERR (sint p)" "kgrew m1 bs (km fs2)" "0 < kroom (km fs2)" "blocks fs2 p = Some bs"
    using open_law [OF root(3)] by auto
  have "kheap_ok (km fs2)" using o(3) by (simp add: kgrew_def grown_def)
  then obtain q m3 where q: "kzalloc (km fs2) 16 = (q, m3)" "q \<noteq> 0" "kgrew (km fs2) [q] m3"
    using o(4) by (auto elim: kgrew_alloc [of "km fs2" 16])
  define d where "d = \<lparr>desc_addr = q, index = int i + 1, desc_filesystem = f, desc_private = p\<rparr>"
  define sa where "sa = s\<lparr>fsys := fs2\<lparr>km := m3\<rparr>, file_descriptors := (file_descriptors s)[i := Some d]\<rparr>"
  have op: "fopen tab s filename mode_str = Some (int i + 1, sa)"
    using parse(1) root disk mode o(1,2) q(1,2) table(2)
    by (simp add: fopen_def fopen_res_def file_new_descriptor_def FILE_MODE_READ_def FILE_MODE_INVALID_def Let_def disk_get_def
        sa_def d_def)
  have get: "file_get_descriptor sa (int i + 1) = Some d"
    using i table(1) by (simp add: file_get_descriptor_def HARDIKHYPERIONOS_MAX_FILE_DESCRIPTORS_def sa_def)
  have g: "kgrew (km (fsys s)) (rb @ bs @ [q]) m3"
    using kgrew_trans [OF parse(2) kgrew_trans [OF o(3) q(3)]] by simp
  have "blocks (fs2\<lparr>km := m3\<rparr>) p = Some bs" using o(5) by (simp add: blocks_heap)
  then show thesis by (rule that [OF o(1) _ g d_def sa_def op get])
qed

lemma fopen_fclose:
  assumes ok: "kheap_ok (km (fsys s))"
    and parse: "pathparser_parse (km (fsys s)) filename = Some (Some r, m1)" "kgrew (km (fsys s)) rb m1"
    and root: "first r \<noteq> []" "drive_no r = 0" "pre ((fsys s)\<lparr>km := m1\<rparr>) (first r)"
    and disk: "disk_filesystem (the_disk (fsys s)) = Some f" "tab f = fs"
    and mode: "file_get_mode_by_string mode_str = Some FILE_MODE_READ"
    and table: "length (file_descriptors s) = 512" "first_null (file_descriptors s) = Some i"
  obtains s1 s2 where "fopen tab s filename mode_str = Some (int i + 1, s1)"
    "fclose tab s1 (int i + 1) = Some (0, s2)" "file_descriptors s2 = file_descriptors s"
    "kgrew (km (fsys s)) rb (km (fsys s2))"
proof -
  obtain p fs2 bs q m3 d sa where o: "blocks (fs2\<lparr>km := m3\<rparr>) p = Some bs" "kgrew (km (fsys s)) (rb @ bs @ [q]) m3"
    and d: "d = \<lparr>desc_addr = q, index = int i + 1, desc_filesystem = f, desc_private = p\<rparr>"
    and sa: "sa = s\<lparr>fsys := fs2\<lparr>km := m3\<rparr>, file_descriptors := (file_descriptors s)[i := Some d]\<rparr>"
    and op: "fopen tab s filename mode_str = Some (int i + 1, sa)" and get: "file_get_descriptor sa (int i + 1) = Some d"
    by (rule fopen_opened [where tab = tab, OF assms]) (rule that, assumption+)
  have i: "i < 512" "file_descriptors s ! i = None" using first_null_law [OF table(2)] table(1) by auto
  have "kgrew (km (fsys s)) (rb @ bs @ [q]) (km (fs2\<lparr>km := m3\<rparr>))" using o(2) by simp
  with o(1) obtain fs3 where cl: "op_close fs (fs2\<lparr>km := m3\<rparr>) p = Some (0, fs3)" "kgrew (km (fsys s)) (rb @ [q]) (km fs3)"
    using close_law [of "fs2\<lparr>km := m3\<rparr>" p bs _ "rb @ bs @ [q]" "rb @ [q]"] by (auto simp: ac_simps)
  define sb where "sb = on_heap (\<lambda>m. kfree m q) (sa\<lparr>fsys := fs3, file_descriptors := file_descriptors s\<rparr>)"
  have "(file_descriptors s)[i := Some d, i := None] = file_descriptors s"
    using i(2) by (simp add: list_update_same_conv [symmetric]) (metis list_update_id)
  then have fr: "file_free_descriptor (sa\<lparr>fsys := fs3\<rparr>) d = Some sb"
    using i table(1) by (simp add: file_free_descriptor_def d [symmetric] sa sb_def arr_set_def) (simp add: d)
  have fc: "fclose tab sa (int i + 1) = Some (0, sb)"
    using get cl(1) disk(2) fr by (simp add: fclose_def ALL_OK_def) (simp add: d sa)
  have "kgrew (km (fsys s)) rb (kfree (km fs3) q)"
    using kgrew_release_seq [OF cl(2), of "[q]" rb] by (simp add: ac_simps)
  then show thesis
    using op fc by (intro that [of sa sb]) (simp_all add: sb_def on_heap_def)
qed

end

section \<open>FAT16 provides the interface\<close>

definition kheap_low :: "kmem \<Rightarrow> bool" where
  "kheap_low m \<longleftrightarrow> unat (saddr (kernel_heap m)) + 4096 * length (tbl (kernel_heap m)) \<le> 2 ^ 31"

lemma kgrew_low:
  assumes "kgrew m ps m'" "kheap_low m" "p \<in> set ps"
  shows "0 \<le> sint p"
proof -
  have ok: "heap_ok (kernel_heap m')" and own: "owned (kernel_heap m') p = Some 1"
    and fr: "heap_frame (kernel_heap m') = heap_frame (kernel_heap m)"
    using assms(1,3) by (auto simp: kgrew_def grown_def kheap_ok_def kowned_def kframe_def)
  from owned_cases [OF ok own] obtain b
    where b: "p = block_addr (kernel_heap m') b" "b < length (tbl (kernel_heap m'))" .
  have "saddr (kernel_heap m') = saddr (kernel_heap m)" "length (tbl (kernel_heap m')) = length (tbl (kernel_heap m))"
    using fr by (simp_all add: heap_frame_def tbl_length)
  then have "unat p < 2 ^ 31"
    using unat_block_addr [OF ok b(2)] b assms(2) by (simp add: kheap_low_def)
  then show ?thesis by (simp add: sint_u32_small)
qed

text \<open>A name that exactly one item of the root directory carries, item \<open>i\<close>.\<close>

definition unique_root_file :: "fat_private \<Rightarrow> u8 list \<Rightarrow> nat \<Rightarrow> bool" where
  "unique_root_file pr nm i \<longleftrightarrow>
     (\<forall>b. length b = 108 \<longrightarrow> terminated b \<longrightarrow> cstr b = nm \<longrightarrow>
        (\<forall>j < root_total pr. searchable (root_items pr) b j) \<and> matches (root_items pr) b 0 (root_total pr) = [i])"

definition fat16_pre :: "fat_state \<Rightarrow> path_part list \<Rightarrow> bool" where
  "fat16_pre s path \<longleftrightarrow> (\<exists>p pr i. path = [p] \<and> disk_private s = Some pr \<and> length (part p) = 108 \<and>
     terminated (part p) \<and> unique_root_file pr (cstr (part p)) i \<and>
     kheap_ok (km s) \<and> kheap_low (km s) \<and> 4 \<le> kroom (km s))"

definition fat16_blocks :: "fat_state \<Rightarrow> u32 \<Rightarrow> u32 list option" where
  "fat16_blocks s d =
     (case fat_descriptors s d of None \<Rightarrow> None
      | Some fd \<Rightarrow> if fi_type (fd_item fd) = FAT_ITEM_TYPE_FILE
                  then (case fi_union (fd_item fd) of UItem q b \<Rightarrow> Some [d, fi_addr (fd_item fd), q] | _ \<Rightarrow> None)
                  else None)"

interpretation fat16: filesystem "fat16_fs a" fat16_pre fat16_blocks
proof unfold_locales
  fix s path assume "fat16_pre s path"
  then obtain p pr i where P: "path = [p]" "disk_private s = Some pr" "length (part p) = 108"
    "terminated (part p)" "unique_root_file pr (cstr (part p)) i"
    "kheap_ok (km s)" "kheap_low (km s)" "4 \<le> kroom (km s)" by (auto simp: fat16_pre_def)
  have one: "root_matches pr p = [i]" "\<forall>j < root_total pr. searchable (root_items pr) (part p) j"
    using P(3,4,5) by (auto simp: unique_root_file_def root_matches_def)
  then have ok: "lookup_ok s pr p" using P by (simp add: lookup_ok_def)
  obtain d s' bs where D:
    "fat16_open a s [p] FILE_MODE_READ = Some (if root_matches pr p = [] \<or> [] \<noteq> ([] :: path_part list) then ERROR (- EIO) else d, s')"
    "d \<noteq> 0" "kgrew (km s) (d # bs) (km s')" "length bs = 2 * length (root_matches pr p)"
    "if root_matches pr p = [] \<or> [] \<noteq> ([] :: path_part list) then fat_descriptors s' = fat_descriptors s
     else \<exists>ad q qs. fat_descriptors s' = (fat_descriptors s)
         (d \<mapsto> \<lparr>fd_item = file_item ad q (root_items pr) (last (root_matches pr p)), fd_pos = 0\<rparr>) \<and> bs = qs @ [ad, q]"
    by (rule fat16_open_law [OF ok, of a "[]"]) blast
  then obtain ad q where B: "fat_descriptors s' = (fat_descriptors s)
      (d \<mapsto> \<lparr>fd_item = file_item ad q (root_items pr) i, fd_pos = 0\<rparr>)" "bs = [ad, q]"
    using one by auto
  have "\<not> IS_ERR (sint d)" using kgrew_low [OF D(3) P(7), of d] by (simp add: IS_ERR_def)
  moreover have "0 < kroom (km s')" using D(3) P(8) B(2) by (simp add: kgrew_def grown_def)
  ultimately show "\<exists>p s' bs. op_open (fat16_fs a) s path FILE_MODE_READ = Some (p, s') \<and>
      \<not> IS_ERR (sint p) \<and> kgrew (km s) bs (km s') \<and> 0 < kroom (km s') \<and> fat16_blocks s' p = Some bs"
    using D(1,3) B one P(1)
    by (intro exI [of _ d] exI [of _ s'] exI [of _ "[d, ad, q]"])
      (simp add: fat16_fs_def fat16_blocks_def file_item_def)
next
  fix s p bs m ps rs
  assume b: "fat16_blocks s p = Some bs" and g: "kgrew m ps (km s)" and ms: "mset ps = mset bs + mset rs"
  then obtain fd q ib where fd: "fat_descriptors s p = Some fd" "fi_type (fd_item fd) = FAT_ITEM_TYPE_FILE"
    "fi_union (fd_item fd) = UItem q ib" "bs = [p, fi_addr (fd_item fd), q]"
    by (auto simp: fat16_blocks_def split: option.splits if_splits fat_union.splits)
  let ?m = "release_seq kfree [q, fi_addr (fd_item fd), p] (km s)"
  have "fat16_close s p = Some (0, s\<lparr>km := ?m, fat_descriptors := (fat_descriptors s)(p := None)\<rparr>)"
    using fd by (simp add: fat16_close_def fat16_free_file_descriptor_def fat16_fat_item_free_def
        FAT_ITEM_TYPE_FILE_def FAT_ITEM_TYPE_DIRECTORY_def)
  moreover have "kgrew m rs ?m"
    by (rule kgrew_release_seq [OF g]) (simp add: ms fd(4))
  ultimately show "\<exists>s'. op_close (fat16_fs a) s p = Some (0, s') \<and> kgrew m rs (km s')"
    by (auto simp: fat16_fs_def)
next
  show "fat16_blocks (s\<lparr>km := m\<rparr>) p = fat16_blocks s p" for s m p
    by (simp add: fat16_blocks_def)
qed

text \<open>Closing an open file of FAT16, with the new state written out.\<close>

lemma fclose_fat16:
  assumes "file_get_descriptor s fd = Some d" "index d = fd" "tab (desc_filesystem d) = fat16_fs a"
    and "length (file_descriptors s) = 512"
    and "fat_descriptors (fsys s) (desc_private d) = Some \<lparr>fd_item = file_item ad q items i, fd_pos = k\<rparr>"
  shows "fclose tab s fd = Some (0, s\<lparr>fsys := (fsys s)\<lparr>km := release_seq kfree [q, ad, desc_private d, desc_addr d] (km (fsys s)),
       fat_descriptors := (fat_descriptors (fsys s))(desc_private d := None)\<rparr>,
     file_descriptors := (file_descriptors s)[nat (fd - 1) := None]\<rparr>)"
proof -
  have "0 < fd" "fd \<le> 512" using assms(1)
    by (auto simp: file_get_descriptor_def HARDIKHYPERIONOS_MAX_FILE_DESCRIPTORS_def split: if_splits)
  then have "arr_set (file_descriptors s) (fd - 1) None = Some ((file_descriptors s)[nat (fd - 1) := None])"
    using assms(4) by (simp add: arr_set_def)
  then show ?thesis
    using assms(1-3) fat16_close_law [OF assms(5)]
    by (simp add: fclose_def fat16_fs_def ALL_OK_def file_free_descriptor_def on_heap_def)
qed

end
