(* ===== verification/Keyboard.thy ===== *)
theory Keyboard
  imports Prelude
begin

text \<open>
  Keyboards, \<open>src/src/keyboard/keyboard.c\<close> and \<open>classic.c\<close>: the ring buffer of a process, the
  list of keyboards, the scan code table and the interrupt handler. The process whose buffer
  is used is looked up by the callers; here the functions get its \<open>keyboard_buffer\<close>. The
  locale \<open>bounded_queue\<close> is what the readers of the keyboard rely on.
\<close>

section \<open>keyboard.c\<close>

definition HARDIKHYPERIONOS_KEYBOARD_BUFFER_SIZE :: nat where
  "HARDIKHYPERIONOS_KEYBOARD_BUFFER_SIZE = 1024"

text \<open>\<open>tail\<close> and \<open>head\<close> are \<open>int\<close>s used modulo an unsigned size: 32-bit words.\<close>

record keyboard_buffer =
  buffer :: "u8 list"
  tail :: u32
  head :: u32

definition empty_buffer :: keyboard_buffer where
  "empty_buffer = \<lparr>buffer = replicate HARDIKHYPERIONOS_KEYBOARD_BUFFER_SIZE 0, tail = 0, head = 0\<rparr>"

definition keyboard_get_tail_index :: "keyboard_buffer \<Rightarrow> nat" where
  "keyboard_get_tail_index k = unat (tail k) mod HARDIKHYPERIONOS_KEYBOARD_BUFFER_SIZE"

definition keyboard_backspace :: "keyboard_buffer \<Rightarrow> keyboard_buffer" where
  "keyboard_backspace k =
     (let k1 = k\<lparr>tail := tail k - 1\<rparr>; real_index = keyboard_get_tail_index k1
      in k1\<lparr>buffer := (buffer k1)[real_index := 0x00]\<rparr>)"

definition keyboard_push :: "keyboard_buffer \<Rightarrow> u8 \<Rightarrow> keyboard_buffer" where
  "keyboard_push k c =
     (if c = 0 then k
      else k\<lparr>buffer := (buffer k)[keyboard_get_tail_index k := c], tail := tail k + 1\<rparr>)"

definition keyboard_pop :: "keyboard_buffer \<Rightarrow> u8 \<times> keyboard_buffer" where
  "keyboard_pop k =
     (let real_index = unat (head k) mod HARDIKHYPERIONOS_KEYBOARD_BUFFER_SIZE;
          c = buffer k ! real_index
      in if c = 0x00 then (0, k)
         else (c, k\<lparr>buffer := (buffer k)[real_index := 0], head := head k + 1\<rparr>))"

text \<open>The list of keyboards; \<open>init\<close> is null or succeeds with the status it returns.\<close>

record keyboard =
  kb_name :: string
  kb_init :: "int option"
  capslock_state :: int

definition keyboard_insert :: "keyboard list \<Rightarrow> keyboard \<Rightarrow> int \<times> keyboard list" where
  "keyboard_insert ks k =
     (case kb_init k of None \<Rightarrow> (- EINVARG, ks) | Some res \<Rightarrow> (res, ks @ [k]))"

definition KEYBOARD_CAPS_LOCK_ON :: int where "KEYBOARD_CAPS_LOCK_ON = 1"
definition KEYBOARD_CAPS_LOCK_OFF :: int where "KEYBOARD_CAPS_LOCK_OFF = 0"

definition keyboard_set_capslock :: "keyboard \<Rightarrow> int \<Rightarrow> keyboard" where
  "keyboard_set_capslock k st = k\<lparr>capslock_state := st\<rparr>"

definition keyboard_get_capslock :: "keyboard \<Rightarrow> int" where
  "keyboard_get_capslock k = capslock_state k"

section \<open>classic.c\<close>

definition CLASSIC_KEYBOARD_CAPSLOCK :: u8 where "CLASSIC_KEYBOARD_CAPSLOCK = 0x3A"
definition CLASSIC_KEYBOARD_KEY_RELEASED :: u8 where "CLASSIC_KEYBOARD_KEY_RELEASED = 0x80"

definition chr :: "string \<Rightarrow> u8 list" where "chr s = map of_char s"

definition keyboard_scan_set_one :: "u8 list" where
  "keyboard_scan_set_one =
     [0x00, 0x1B] @ chr ''1234567890-='' @ [0x08, 0x09] @ chr ''QWERTYUIOP[]'' @
     [0x0d, 0x00] @ chr ''ASDFGHJKL;'' @ [0x27, 0x60] @
     [0x00, 0x5C] @ chr ''ZXCVBNM,./'' @ [0x00, 0x2A] @
     [0x00, 0x20, 0x00, 0x00, 0x00, 0x00] @ [0x00, 0x00, 0x00, 0x00, 0x00, 0x00] @
     [0x00] @ chr ''789-456+1230.''"

text \<open>The bound of the check is the size of the table, not the last index.\<close>

definition classic_keyboard_scancode_to_char :: "keyboard \<Rightarrow> u8 \<Rightarrow> u8 option" where
  "classic_keyboard_scancode_to_char k scancode =
     (if unat scancode > length keyboard_scan_set_one then Some 0
      else do { c \<leftarrow> arr_get keyboard_scan_set_one (int (unat scancode));
        if keyboard_get_capslock k = KEYBOARD_CAPS_LOCK_OFF
        then (if 65 \<le> sint c \<and> sint c \<le> 90 then Some (c + 32) else Some c)
        else Some c })"

text \<open>The handler with the scan code it read; the buffer is that of the current process, if any.\<close>

definition classic_keyboard_handle_interrupt ::
    "u8 \<Rightarrow> keyboard \<Rightarrow> keyboard_buffer option \<Rightarrow> (keyboard \<times> keyboard_buffer option) option" where
  "classic_keyboard_handle_interrupt scancode k b =
     (if scancode AND CLASSIC_KEYBOARD_KEY_RELEASED \<noteq> 0 then Some (k, b)
      else let k1 = (if scancode = CLASSIC_KEYBOARD_CAPSLOCK
                     then keyboard_set_capslock k
                       (if keyboard_get_capslock k = KEYBOARD_CAPS_LOCK_ON then KEYBOARD_CAPS_LOCK_OFF
                        else KEYBOARD_CAPS_LOCK_ON)
                     else k)
      in do { c \<leftarrow> classic_keyboard_scancode_to_char k1 scancode;
              Some (k1, if c \<noteq> 0 then map_option (\<lambda>q. keyboard_push q c) b else b) })"

text \<open>The static keyboard after \<open>classic_keyboard_init\<close>.\<close>

definition classic_keyboard :: keyboard where
  "classic_keyboard = \<lparr>kb_name = ''Classic'', kb_init = Some 0, capslock_state = KEYBOARD_CAPS_LOCK_OFF\<rparr>"

definition keyboard_init :: "keyboard list \<Rightarrow> keyboard list" where
  "keyboard_init ks = snd (keyboard_insert ks classic_keyboard)"

section \<open>A bounded queue\<close>

text \<open>
  First in, first out: while fewer than \<open>cap\<close> elements wait, \<open>put\<close> appends; \<open>get\<close> takes
  the oldest, and the value \<open>nil\<close> when nothing waits.
\<close>

locale bounded_queue =
  fixes put :: "'q \<Rightarrow> 'a \<Rightarrow> 'q"
    and get :: "'q \<Rightarrow> 'a \<times> 'q"
    and waiting :: "'q \<Rightarrow> 'a list"
    and ok :: "'q \<Rightarrow> bool"
    and cap :: nat
    and nil :: 'a
  assumes put_law: "ok q \<Longrightarrow> c \<noteq> nil \<Longrightarrow> length (waiting q) < cap \<Longrightarrow>
      ok (put q c) \<and> waiting (put q c) = waiting q @ [c]"
    and get_empty: "ok q \<Longrightarrow> waiting q = [] \<Longrightarrow> get q = (nil, q)"
    and get_law: "ok q \<Longrightarrow> waiting q = c # cs \<Longrightarrow>
      fst (get q) = c \<and> ok (snd (get q)) \<and> waiting (snd (get q)) = cs"

text \<open>A history of insertions (\<open>Some\<close>) and removals, run on a queue and on a list.\<close>

fun run_queue :: "('q \<Rightarrow> 'a \<Rightarrow> 'q) \<Rightarrow> ('q \<Rightarrow> 'a \<times> 'q) \<Rightarrow> 'q \<Rightarrow> 'a option list \<Rightarrow> 'a list \<times> 'q" where
  "run_queue pt gt q [] = ([], q)"
| "run_queue pt gt q (Some c # es) = run_queue pt gt (pt q c) es"
| "run_queue pt gt q (None # es) = (let (c, q') = gt q; (cs, q'') = run_queue pt gt q' es in (c # cs, q''))"

fun run_list :: "'a \<Rightarrow> 'a list \<Rightarrow> 'a option list \<Rightarrow> 'a list \<times> 'a list" where
  "run_list z w [] = ([], w)"
| "run_list z w (Some c # es) = run_list z (w @ [c]) es"
| "run_list z [] (None # es) = (let (cs, w') = run_list z [] es in (z # cs, w'))"
| "run_list z (c # w) (None # es) = (let (cs, w') = run_list z w es in (c # cs, w'))"

text \<open>No insertion finds \<open>cap\<close> elements waiting, and none inserts the null value.\<close>

fun within :: "nat \<Rightarrow> 'a \<Rightarrow> nat \<Rightarrow> 'a option list \<Rightarrow> bool" where
  "within cap z n [] = True"
| "within cap z n (Some c # es) = (c \<noteq> z \<and> n < cap \<and> within cap z (n + 1) es)"
| "within cap z n (None # es) = within cap z (n - 1) es"

context bounded_queue begin

lemma run_queue_law:
  "ok q \<Longrightarrow> within cap nil (length (waiting q)) es \<Longrightarrow>
   fst (run_queue put get q es) = fst (run_list nil (waiting q) es) \<and>
   waiting (snd (run_queue put get q es)) = snd (run_list nil (waiting q) es) \<and>
   ok (snd (run_queue put get q es))"
proof (induction es arbitrary: q)
  case (Cons e es)
  show ?case
  proof (cases e)
    case (Some c)
    then have "ok (put q c)" "waiting (put q c) = waiting q @ [c]" using Cons.prems put_law by auto
    with Cons.IH [of "put q c"] Cons.prems Some show ?thesis by simp
  next
    case None
    show ?thesis
    proof (cases "waiting q")
      case Nil
      with Cons.IH [of q] Cons.prems None get_empty [of q] show ?thesis
        by (auto simp: Let_def split: prod.splits)
    next
      case w: (Cons c cs)
      obtain q' where q': "get q = (c, q')" "ok q'" "waiting q' = cs"
        using get_law [OF Cons.prems(1) w] by (metis prod.collapse)
      with Cons.IH [of q'] Cons.prems None w show ?thesis
        by (auto simp: Let_def split: prod.splits)
    qed
  qed
qed simp

end

section \<open>The ring buffer is a bounded queue\<close>

definition pending :: "keyboard_buffer \<Rightarrow> nat" where
  "pending k = unat (tail k - head k)"

definition ring_slot :: "keyboard_buffer \<Rightarrow> nat \<Rightarrow> nat" where
  "ring_slot k i = (unat (head k) + i) mod 1024"

definition ring_waiting :: "keyboard_buffer \<Rightarrow> u8 list" where
  "ring_waiting k = map (\<lambda>i. buffer k ! ring_slot k i) [0..<pending k]"

definition ring_ok :: "keyboard_buffer \<Rightarrow> bool" where
  "ring_ok k \<longleftrightarrow> length (buffer k) = 1024 \<and> pending k \<le> 1024 \<and>
     (\<forall>i < 1024. buffer k ! ring_slot k i \<noteq> 0 \<longleftrightarrow> i < pending k)"

lemma ring_slot_less [simp]: "ring_slot k i < 1024"
  by (simp add: ring_slot_def)

lemma ring_slot_inject:
  assumes "i < 1024" "j < 1024"
  shows "ring_slot k i = ring_slot k j \<longleftrightarrow> i = j"
proof
  assume "ring_slot k i = ring_slot k j"
  then have "(int (unat (head k)) + int i) mod 1024 = (int (unat (head k)) + int j) mod 1024"
    unfolding ring_slot_def by (metis of_nat_add of_nat_numeral zmod_int)
  then have "int i mod 1024 = int j mod 1024" by (metis add_diff_cancel_left' mod_diff_cong)
  with assms show "i = j" by simp
qed simp

lemma unat_mod_1024: "unat (a + b :: u32) mod 1024 = (unat a + unat b) mod 1024"
  by (simp add: unat_word_ariths mod_mod_cancel)

lemma tail_slot: "unat (tail k) mod 1024 = ring_slot k (pending k)"
proof -
  have "tail k = head k + (tail k - head k)" by simp
  then show ?thesis unfolding ring_slot_def pending_def by (metis unat_mod_1024)
qed

lemma head_slot: "unat (head k) mod 1024 = ring_slot k 0"
  by (simp add: ring_slot_def)

interpretation ring: bounded_queue keyboard_push keyboard_pop ring_waiting ring_ok 1024 0
proof unfold_locales
  fix q c assume ok: "ring_ok q" and c: "c \<noteq> (0 :: u8)" and len: "length (ring_waiting q) < 1024"
  let ?q = "keyboard_push q c" and ?n = "pending q"
  have n: "?n < 1024" using len by (simp add: ring_waiting_def)
  have q: "?q = q\<lparr>buffer := (buffer q)[ring_slot q ?n := c], tail := tail q + 1\<rparr>"
    using c tail_slot [of q]
    by (simp add: keyboard_push_def keyboard_get_tail_index_def HARDIKHYPERIONOS_KEYBOARD_BUFFER_SIZE_def)
  have p: "pending ?q = ?n + 1"
  proof -
    have e: "tail ?q - head ?q = (tail q - head q) + 1" by (simp add: q)
    have "unat ((tail q - head q) + 1) = unat (tail q - head q) + 1"
      using n unfolding pending_def by (simp add: unat_word_ariths)
    then show ?thesis unfolding pending_def e .
  qed
  have s: "ring_slot ?q = ring_slot q" by (simp add: ring_slot_def q fun_eq_iff)
  have b: "buffer ?q ! ring_slot q i = (if i = ?n then c else buffer q ! ring_slot q i)" if "i < 1024" for i
    using ok that n ring_slot_inject [of i ?n q] by (auto simp: q ring_ok_def nth_list_update)
  have "ring_ok ?q"
    using ok n b c by (auto simp: ring_ok_def p s less_Suc_eq) (simp add: q)
  moreover have "ring_waiting ?q = ring_waiting q @ [c]"
    using n b by (auto simp: ring_waiting_def p s)
  ultimately show "ring_ok ?q \<and> ring_waiting ?q = ring_waiting q @ [c]" ..
next
  fix q assume ok: "ring_ok q" and e: "ring_waiting q = []"
  then have "buffer q ! ring_slot q 0 = 0" by (auto simp: ring_ok_def ring_waiting_def)
  then show "keyboard_pop q = (0, q)"
    by (simp add: keyboard_pop_def head_slot HARDIKHYPERIONOS_KEYBOARD_BUFFER_SIZE_def)
next
  fix q c cs assume ok: "ring_ok q" and w: "ring_waiting q = c # cs"
  let ?n = "pending q"
  have "length (ring_waiting q) = ?n" by (simp add: ring_waiting_def)
  then obtain m where m: "?n = Suc m" using w by (cases ?n) auto
  have up: "[0..<Suc m] = 0 # map Suc [0..<m]" by (simp add: upt_conv_Cons map_Suc_upt)
  then have c: "c = buffer q ! ring_slot q 0" "cs = map (\<lambda>i. buffer q ! ring_slot q (Suc i)) [0..<m]"
    using w unfolding ring_waiting_def m by (simp_all add: comp_def)
  have nz: "c \<noteq> 0" using ok c(1) m by (auto simp: ring_ok_def)
  let ?q = "q\<lparr>buffer := (buffer q)[ring_slot q 0 := 0], head := head q + 1\<rparr>"
  have pop: "keyboard_pop q = (c, ?q)"
    using nz c(1) by (simp add: keyboard_pop_def head_slot HARDIKHYPERIONOS_KEYBOARD_BUFFER_SIZE_def Let_def)
  have p: "pending ?q = m"
  proof -
    have e: "tail ?q - head ?q = (tail q - head q) - 1" by simp
    have "tail q - head q \<noteq> 0" using m by (metis pending_def nat.distinct(1) unsigned_0)
    then have "unat (tail q - head q - 1) = unat (tail q - head q) - 1"
      by (metis unat_minus_one)
    with m show ?thesis unfolding pending_def e by simp
  qed
  have s: "ring_slot ?q i = ring_slot q (Suc i)" for i
  proof -
    have "ring_slot ?q i = (unat (head q + 1) mod 1024 + i) mod 1024" by (simp add: ring_slot_def mod_add_left_eq)
    also have "\<dots> = (unat (head q) + 1 + i) mod 1024" by (simp add: unat_mod_1024 mod_add_left_eq)
    finally show ?thesis by (simp add: ring_slot_def)
  qed
  have len: "length (buffer q) = 1024" "m < 1024" using ok m by (auto simp: ring_ok_def)
  have b: "buffer ?q ! ring_slot ?q i = (if i = 1023 then 0 else buffer q ! ring_slot q (Suc i))" if "i < 1024" for i
  proof (cases "i = 1023")
    case True
    have "ring_slot q 1024 = ring_slot q 0" by (simp add: ring_slot_def)
    then show ?thesis using True len(1) s [of i] by simp
  next
    case False
    then have "ring_slot q (Suc i) \<noteq> ring_slot q 0" using that ring_slot_inject [of "Suc i" 0 q] by simp
    then show ?thesis using False s [of i] by simp
  qed
  have "ring_ok ?q"
    unfolding ring_ok_def p
  proof (intro conjI allI impI)
    fix i :: nat assume i: "i < 1024"
    show "buffer ?q ! ring_slot ?q i \<noteq> 0 \<longleftrightarrow> i < m"
    proof (cases "i = 1023")
      case True
      then show ?thesis using b [OF i] len(2) by simp
    next
      case False
      then have "buffer q ! ring_slot q (Suc i) \<noteq> 0 \<longleftrightarrow> Suc i < Suc m"
        using ok i m by (simp add: ring_ok_def)
      then show ?thesis using b [OF i] False by simp
    qed
  qed (use len in simp_all)
  moreover have "ring_waiting ?q = cs"
    unfolding c(2) ring_waiting_def p using b len(2) by (auto intro!: map_cong)
  ultimately show "fst (keyboard_pop q) = c \<and> ring_ok (snd (keyboard_pop q)) \<and> ring_waiting (snd (keyboard_pop q)) = cs"
    by (simp add: pop)
qed

end
