(* ===== verification/Terminal.thy ===== *)
theory Terminal
  imports CString
begin

text \<open>
  The text terminal of \<open>src/src/kernel.c\<close>. Video memory is a map from cell numbers, and
  cells beyond the screen exist: nothing in the code stops the row. Row and column are
  16-bit words and wrap.
\<close>

section \<open>kernel.c, the terminal\<close>

definition VGA_WIDTH :: nat where "VGA_WIDTH = 80"
definition VGA_HEIGHT :: nat where "VGA_HEIGHT = 20"

record terminal =
  video_memory :: "nat \<Rightarrow> u16"
  terminal_row :: u16
  terminal_col :: u16

text \<open>\<open>char\<close> is signed: a negative character sets all the attribute bits.\<close>

definition terminal_make_char :: "u8 \<Rightarrow> u8 \<Rightarrow> u16" where
  "terminal_make_char c color = push_bit 8 (scast color) OR scast c"

definition terminal_putchar :: "terminal \<Rightarrow> nat \<Rightarrow> nat \<Rightarrow> u8 \<Rightarrow> u8 \<Rightarrow> terminal" where
  "terminal_putchar t x y c color =
     t\<lparr>video_memory := (video_memory t)(y * VGA_WIDTH + x := terminal_make_char c color)\<rparr>"

text \<open>The two functions call each other; writing a space does not call back again.\<close>

function terminal_writechar :: "terminal \<Rightarrow> u8 \<Rightarrow> u8 \<Rightarrow> terminal"
  and terminal_backspace :: "terminal \<Rightarrow> terminal" where
  "terminal_writechar t c color =
     (if c = 0x0A then t\<lparr>terminal_col := 0, terminal_row := terminal_row t + 1\<rparr>
      else if c = 0x08 then terminal_backspace t
      else let t1 = terminal_putchar t (unat (terminal_col t)) (unat (terminal_row t)) c color;
               t2 = t1\<lparr>terminal_col := terminal_col t1 + 1\<rparr>
           in if unat (terminal_col t2) \<ge> VGA_WIDTH
              then t2\<lparr>terminal_col := 0, terminal_row := terminal_row t2 + 1\<rparr> else t2)"
| "terminal_backspace t =
     (if terminal_row t = 0 \<and> terminal_col t = 0 then t
      else let t1 = (if terminal_col t = 0
                     then t\<lparr>terminal_row := terminal_row t - 1, terminal_col := of_nat VGA_WIDTH\<rparr> else t);
               t2 = t1\<lparr>terminal_col := terminal_col t1 - 1\<rparr>;
               t3 = terminal_writechar t2 (of_char CHR '' '') 15
           in t3\<lparr>terminal_col := terminal_col t3 - 1\<rparr>)"
  by pat_completeness auto
termination
  by (relation "measure (\<lambda>x. case x of Inl (t, c, color) \<Rightarrow> if c = 0x08 then 2 else 0 | Inr t \<Rightarrow> 1)") auto

declare terminal_writechar.simps [simp del] terminal_backspace.simps [simp del]

fun terminal_fill :: "terminal \<Rightarrow> (nat \<times> nat) list \<Rightarrow> terminal" where
  "terminal_fill t [] = t"
| "terminal_fill t ((y, x) # ps) = terminal_fill (terminal_putchar t x y (of_char CHR '' '') 0) ps"

text \<open>The cells in the order of the two loops.\<close>

definition terminal_initialize :: "terminal \<Rightarrow> terminal" where
  "terminal_initialize t =
     terminal_fill (t\<lparr>terminal_row := 0, terminal_col := 0\<rparr>)
       (List.product [0..<VGA_HEIGHT] [0..<VGA_WIDTH])"

definition terminal_print :: "terminal \<Rightarrow> u8 list \<Rightarrow> terminal" where
  "terminal_print t cs = fold (\<lambda>c t. terminal_writechar t c 15) cs t"

definition print :: "terminal \<Rightarrow> u8 list \<Rightarrow> terminal option" where
  "print t str = do { len \<leftarrow> strlen str; Some (terminal_print t (take (nat len) str)) }"

section \<open>The cursor\<close>

definition cursor :: "terminal \<Rightarrow> nat" where
  "cursor t = unat (terminal_row t) * 80 + unat (terminal_col t)"

definition plain :: "u8 \<Rightarrow> bool" where
  "plain c \<longleftrightarrow> c \<noteq> 0x0A \<and> c \<noteq> 0x08"

lemma writechar_plain:
  fixes color :: u8
  assumes "plain c" "unat (terminal_col t) < 80" "unat (terminal_row t) < 2 ^ 16 - 1"
  defines "t' \<equiv> terminal_writechar t c color"
  shows "cursor t' = cursor t + 1" "unat (terminal_col t') < 80"
    "unat (terminal_row t') \<le> unat (terminal_row t) + 1"
    "video_memory t' = (video_memory t)(cursor t := terminal_make_char c color)"
proof -
  have c1: "unat (terminal_col t + 1) = unat (terminal_col t) + 1"
    using assms(2) by (simp add: unat_word_ariths)
  have r1: "unat (terminal_row t + 1) = unat (terminal_row t) + 1"
    using assms(3) by (simp add: unat_word_ariths)
  show "cursor t' = cursor t + 1" "unat (terminal_col t') < 80"
    "unat (terminal_row t') \<le> unat (terminal_row t) + 1"
    "video_memory t' = (video_memory t)(cursor t := terminal_make_char c color)"
    using assms(1,2) c1 r1
    by (auto simp: t'_def terminal_writechar.simps plain_def Let_def terminal_putchar_def VGA_WIDTH_def cursor_def)
qed

text \<open>The cells of a stretch of text, written from cell \<open>p\<close> on.\<close>

fun write_cells :: "(nat \<Rightarrow> u16) \<Rightarrow> nat \<Rightarrow> u8 list \<Rightarrow> nat \<Rightarrow> u16" where
  "write_cells v p [] = v"
| "write_cells v p (c # cs) = write_cells (v(p := terminal_make_char c 15)) (p + 1) cs"

lemma write_cells_at:
  "write_cells v p cs k = (if p \<le> k \<and> k < p + length cs then terminal_make_char (cs ! (k - p)) 15 else v k)"
proof (induction cs arbitrary: v p)
  case (Cons c cs)
  show ?case by (cases "p = k") (auto simp: Cons nth_Cons')
qed auto

lemma print_plain:
  assumes "\<forall>c \<in> set cs. plain c" "unat (terminal_col t) < 80" "unat (terminal_row t) + length cs < 2 ^ 16"
  shows "video_memory (terminal_print t cs) = write_cells (video_memory t) (cursor t) cs \<and>
    cursor (terminal_print t cs) = cursor t + length cs \<and> unat (terminal_col (terminal_print t cs)) < 80"
  using assms
proof (induction cs arbitrary: t)
  case Nil
  then show ?case by (simp add: terminal_print_def)
next
  case (Cons c cs)
  let ?t = "terminal_writechar t c 15"
  have p: "plain c" "unat (terminal_row t) < 2 ^ 16 - 1" using Cons.prems by auto
  note W = writechar_plain [OF p(1) Cons.prems(2) p(2), of 15]
  have "unat (terminal_row ?t) + length cs < 2 ^ 16" using W(3) Cons.prems(3) by simp
  from Cons.IH [OF _ W(2) this] Cons.prems(1) W(1,4) show ?case
    by (simp add: terminal_print_def fun_upd_def)
qed

section \<open>Properties\<close>

text \<open>A blank screen with the cursor in the given row and column.\<close>

definition screen :: "u16 \<Rightarrow> u16 \<Rightarrow> terminal" where
  "screen r c = \<lparr>video_memory = (\<lambda>_. 0), terminal_row = r, terminal_col = c\<rparr>"

text \<open>
  C35. \<open>print\<close> (kernel.c) of a terminated string without newlines and backspaces, with the
  cursor on a line: it writes exactly the characters of the string, in white, to the
  consecutive cells from the cursor on, across line ends, changes no other cell, leaves the
  cursor after the last character and the column below 80.
\<close>

theorem print_writes_text:
  assumes "terminated str" "\<forall>c \<in> set (cstr str). plain c" "unat (terminal_col t) < 80"
    and "unat (terminal_row t) + length (cstr str) < 2 ^ 16"
  shows "\<exists>t'. print t str = Some t' \<and> cursor t' = cursor t + length (cstr str) \<and> unat (terminal_col t') < 80 \<and>
    (\<forall>k. video_memory t' k = (if cursor t \<le> k \<and> k < cursor t + length (cstr str)
       then terminal_make_char (cstr str ! (k - cursor t)) 15 else video_memory t k))"
proof -
  obtain s where "str = cstr str @ 0 # s" using cstr_prefix [OF assms(1)] by blast
  then have "take (length (cstr str)) str = cstr str" by (metis append_eq_conv_conj)
  then have "print t str = Some (terminal_print t (cstr str))"
    using assms(1) by (simp add: print_def)
  then show ?thesis
    using print_plain [OF assms(2-4)] by (simp add: write_cells_at)
qed

theorem print_writes_text_witness:
  "\<exists>t'. print (screen 3 78) (ascii ''Abc'' @ [0]) = Some t' \<and> cursor t' = 321 \<and>
     video_memory t' 320 = 0x0F63 \<and> video_memory t' 321 = 0"
proof -
  have "\<forall>c \<in> set (cstr (ascii ''Abc'' @ [0])). plain c" by (simp add: ascii_def plain_def)
  then show ?thesis
    using print_writes_text [of "ascii ''Abc'' @ [0]" "screen 3 78"]
    by (auto simp: screen_def cursor_def ascii_def terminal_make_char_def)
qed

text \<open>
  \<open>terminal_backspace\<close> after \<open>terminal_writechar\<close> (kernel.c). Away from the last column
  the two cancel: the cursor is where it was, its cell is blank and the other cells are
  unchanged. After a character in the last column they do not: rewriting the cell wraps to
  the next line, and the column goes from 0 to 65535.
\<close>

theorem terminal_backspace_undo:
  assumes "plain c" "unat (terminal_col t) < 80" "unat (terminal_row t) < 2 ^ 16 - 1"
  defines "t' \<equiv> terminal_backspace (terminal_writechar t c 15)"
  shows "if unat (terminal_col t) < 79
    then cursor t' = cursor t \<and> video_memory t' = (video_memory t)(cursor t := 0x0F20)
    else terminal_col t' = 0xFFFF \<and> terminal_row t' = terminal_row t + 1"
proof -
  have c1: "unat (terminal_col t + 1) = unat (terminal_col t) + 1"
    using assms(2) by (simp add: unat_word_ariths)
  have r1: "unat (terminal_row t + 1) = unat (terminal_row t) + 1"
    using assms(3) by (simp add: unat_word_ariths)
  have nz: "terminal_col t + 1 \<noteq> 0" "terminal_row t + 1 \<noteq> 0"
    using c1 r1 by (metis Suc_eq_plus1 nat.distinct(1) unsigned_0)+
  have blank: "terminal_make_char (of_char CHR '' '') 15 = 0x0F20" by (simp add: terminal_make_char_def)
  note defs = t'_def terminal_backspace.simps terminal_writechar.simps Let_def terminal_putchar_def VGA_WIDTH_def cursor_def
  show ?thesis
  proof (cases "unat (terminal_col t) < 79")
    case True
    then show ?thesis using assms(1) c1 nz blank by (simp add: defs plain_def)
  next
    case False
    then have col: "unat (terminal_col t) = 79" using assms(2) by simp
    then have "terminal_col t = 79" by (simp flip: unat_inj_iff)
    then show ?thesis using assms(1) nz by (simp add: defs plain_def)
  qed
qed

theorem terminal_backspace_undo_witness:
  "cursor (terminal_backspace (terminal_writechar (screen 3 7) 0x41 15)) = 247 \<and>
   terminal_col (terminal_backspace (terminal_writechar (screen 3 79) 0x41 15)) = 0xFFFF"
  using terminal_backspace_undo [where c = "0x41" and t = "screen 3 7"]
    terminal_backspace_undo [where c = "0x41" and t = "screen 3 79"]
  by (simp add: screen_def plain_def cursor_def)

end
