(* ===== verification/ElfFormat.thy ===== *)
theory ElfFormat
  imports KMem CString
begin

text \<open>
  Executables, \<open>src/src/loader/formats/elf.h\<close>, \<open>elf.c\<close> and \<open>elfloader.c\<close> without
  \<open>elf_load\<close>: the headers read from the kernel's memory, the checks of a file, and the
  addresses between which the loadable segments lie. A pointer to a header is its address;
  the object \<open>struct elf_file\<close> is a value.
\<close>

section \<open>Structures\<close>

definition load16 :: "ram \<Rightarrow> u32 \<Rightarrow> u16" where
  "load16 m a = ucast (m a) OR push_bit 8 (ucast (m (a + 1)))"

text \<open>The bytes of memory from an address on, and a list of bytes written there.\<close>

definition ram_bytes :: "ram \<Rightarrow> u32 \<Rightarrow> nat \<Rightarrow> u8 list" where
  "ram_bytes m p n = map (\<lambda>i. m (p + of_nat i)) [0..<n]"

fun ram_write :: "ram \<Rightarrow> u32 \<Rightarrow> u8 list \<Rightarrow> ram" where
  "ram_write m p [] = m"
| "ram_write m p (b # bs) = ram_write (m(p := b)) (p + 1) bs"

definition PF_W :: u32 where "PF_W = 0x02"
definition PT_LOAD :: u32 where "PT_LOAD = 1"
definition ET_EXEC :: u16 where "ET_EXEC = 2"
definition EI_NIDENT :: nat where "EI_NIDENT = 16"
definition EI_CLASS :: nat where "EI_CLASS = 4"
definition EI_DATA :: nat where "EI_DATA = 5"
definition ELFCLASSNONE :: u8 where "ELFCLASSNONE = 0"
definition ELFCLASS32 :: u8 where "ELFCLASS32 = 1"
definition ELFDATANONE :: u8 where "ELFDATANONE = 0"
definition ELFDATA2LSB :: u8 where "ELFDATA2LSB = 1"

record elf32_phdr =
  p_type :: u32
  p_offset :: u32
  p_vaddr :: u32
  p_paddr :: u32
  p_filesz :: u32
  p_memsz :: u32
  p_flags :: u32
  p_align :: u32

definition sizeof_phdr :: u32 where "sizeof_phdr = 32"

definition read_phdr :: "ram \<Rightarrow> u32 \<Rightarrow> elf32_phdr" where
  "read_phdr m p = \<lparr>p_type = load32 m p, p_offset = load32 m (p + 4), p_vaddr = load32 m (p + 8),
     p_paddr = load32 m (p + 12), p_filesz = load32 m (p + 16), p_memsz = load32 m (p + 20),
     p_flags = load32 m (p + 24), p_align = load32 m (p + 28)\<rparr>"

record elf32_shdr =
  sh_name :: u32
  sh_type :: u32
  sh_flags :: u32
  sh_addr :: u32
  sh_offset :: u32
  sh_size :: u32
  sh_link :: u32
  sh_info :: u32
  sh_addralign :: u32
  sh_entsize :: u32

definition sizeof_shdr :: u32 where "sizeof_shdr = 40"

definition read_shdr :: "ram \<Rightarrow> u32 \<Rightarrow> elf32_shdr" where
  "read_shdr m p = \<lparr>sh_name = load32 m p, sh_type = load32 m (p + 4), sh_flags = load32 m (p + 8),
     sh_addr = load32 m (p + 12), sh_offset = load32 m (p + 16), sh_size = load32 m (p + 20),
     sh_link = load32 m (p + 24), sh_info = load32 m (p + 28), sh_addralign = load32 m (p + 32),
     sh_entsize = load32 m (p + 36)\<rparr>"

record elf_header =
  e_ident :: "u8 list"
  e_type :: u16
  e_machine :: u16
  e_version :: u32
  e_entry :: u32
  e_phoff :: u32
  e_shoff :: u32
  e_flags :: u32
  e_ehsize :: u16
  e_phentsize :: u16
  e_phnum :: u16
  e_shentsize :: u16
  e_shnum :: u16
  e_shstrndx :: u16

definition read_elf_header :: "ram \<Rightarrow> u32 \<Rightarrow> elf_header" where
  "read_elf_header m p = \<lparr>e_ident = ram_bytes m p EI_NIDENT, e_type = load16 m (p + 16),
     e_machine = load16 m (p + 18), e_version = load32 m (p + 20), e_entry = load32 m (p + 24),
     e_phoff = load32 m (p + 28), e_shoff = load32 m (p + 32), e_flags = load32 m (p + 36),
     e_ehsize = load16 m (p + 40), e_phentsize = load16 m (p + 42), e_phnum = load16 m (p + 44),
     e_shentsize = load16 m (p + 46), e_shnum = load16 m (p + 48), e_shstrndx = load16 m (p + 50)\<rparr>"

text \<open>The name and the size in memory of \<open>struct elf_file\<close> are never set after \<open>kzalloc\<close>.\<close>

record elf_file =
  elf_memory :: u32
  virtual_base_address :: u32
  virtual_end_address :: u32
  physical_base_address :: u32
  physical_end_address :: u32

definition zero_elf_file :: elf_file where
  "zero_elf_file = \<lparr>elf_memory = 0, virtual_base_address = 0, virtual_end_address = 0,
     physical_base_address = 0, physical_end_address = 0\<rparr>"

section \<open>elf.c and the accessors\<close>

definition elf_get_entry_ptr :: "ram \<Rightarrow> u32 \<Rightarrow> u32" where
  "elf_get_entry_ptr m header = e_entry (read_elf_header m header)"

definition elf_get_entry :: "ram \<Rightarrow> u32 \<Rightarrow> u32" where
  "elf_get_entry m header = e_entry (read_elf_header m header)"

definition elf_header_of :: "elf_file \<Rightarrow> u32" where
  "elf_header_of file = elf_memory file"

definition elf_sheader :: "ram \<Rightarrow> u32 \<Rightarrow> u32" where
  "elf_sheader m header = header + e_shoff (read_elf_header m header)"

definition elf_pheader :: "ram \<Rightarrow> u32 \<Rightarrow> u32" where
  "elf_pheader m header =
     (if e_phoff (read_elf_header m header) = 0 then 0 else header + e_phoff (read_elf_header m header))"

definition elf_program_header :: "ram \<Rightarrow> u32 \<Rightarrow> nat \<Rightarrow> u32" where
  "elf_program_header m header index = elf_pheader m header + of_nat index * sizeof_phdr"

definition elf_section :: "ram \<Rightarrow> u32 \<Rightarrow> nat \<Rightarrow> u32" where
  "elf_section m header index = elf_sheader m header + of_nat index * sizeof_shdr"

definition elf_phdr_phys_address :: "elf_file \<Rightarrow> elf32_phdr \<Rightarrow> u32" where
  "elf_phdr_phys_address file phdr = elf_memory file + p_offset phdr"

definition elf_str_table :: "ram \<Rightarrow> u32 \<Rightarrow> u32" where
  "elf_str_table m header =
     header + sh_offset (read_shdr m (elf_section m header (unat (e_shstrndx (read_elf_header m header)))))"

definition elf_virtual_base :: "elf_file \<Rightarrow> u32" where "elf_virtual_base file = virtual_base_address file"
definition elf_virtual_end :: "elf_file \<Rightarrow> u32" where "elf_virtual_end file = virtual_end_address file"
definition elf_phys_base :: "elf_file \<Rightarrow> u32" where "elf_phys_base file = physical_base_address file"
definition elf_phys_end :: "elf_file \<Rightarrow> u32" where "elf_phys_end file = physical_end_address file"

section \<open>Checks\<close>

definition elf_signature :: "u8 list" where
  "elf_signature = 0x7F # ascii ''ELF''"

definition elf_valid_signature :: "ram \<Rightarrow> u32 \<Rightarrow> bool" where
  "elf_valid_signature m buffer \<longleftrightarrow> memcmp (ram_bytes m buffer 4) elf_signature 4 = Some 0"

definition elf_valid_class :: "elf_header \<Rightarrow> bool" where
  "elf_valid_class header \<longleftrightarrow>
     e_ident header ! EI_CLASS = ELFCLASSNONE \<or> e_ident header ! EI_CLASS = ELFCLASS32"

definition elf_valid_encoding :: "elf_header \<Rightarrow> bool" where
  "elf_valid_encoding header \<longleftrightarrow>
     e_ident header ! EI_DATA = ELFDATANONE \<or> e_ident header ! EI_DATA = ELFDATA2LSB"

definition HARDIKHYPERIONOS_PROGRAM_VIRTUAL_ADDRESS :: u32 where
  "HARDIKHYPERIONOS_PROGRAM_VIRTUAL_ADDRESS = 0x400000"

text \<open>Defined in the source but called nowhere.\<close>

definition elf_is_executable :: "elf_header \<Rightarrow> bool" where
  "elf_is_executable header \<longleftrightarrow>
     e_type header = ET_EXEC \<and> HARDIKHYPERIONOS_PROGRAM_VIRTUAL_ADDRESS \<le> e_entry header"

definition elf_has_program_header :: "elf_header \<Rightarrow> bool" where
  "elf_has_program_header header \<longleftrightarrow> e_phoff header \<noteq> 0"

definition elf_validate_loaded :: "ram \<Rightarrow> u32 \<Rightarrow> int" where
  "elf_validate_loaded m header =
     (let h = read_elf_header m header
      in if elf_valid_signature m header \<and> elf_valid_class h \<and> elf_valid_encoding h \<and> elf_has_program_header h
         then ALL_OK else - EINFORMAT)"

section \<open>The loadable segments\<close>

definition elf_process_phdr_pt_load :: "elf_file \<Rightarrow> elf32_phdr \<Rightarrow> int \<times> elf_file" where
  "elf_process_phdr_pt_load f phdr =
     (let f1 = (if virtual_base_address f \<ge> p_vaddr phdr \<or> virtual_base_address f = 0
                then f\<lparr>virtual_base_address := p_vaddr phdr,
                       physical_base_address := elf_memory f + p_offset phdr\<rparr> else f);
          end_virtual_address = p_vaddr phdr + p_filesz phdr
      in (0, if virtual_end_address f1 \<le> end_virtual_address \<or> virtual_end_address f1 = 0
             then f1\<lparr>virtual_end_address := end_virtual_address,
                     physical_end_address := elf_memory f1 + p_offset phdr + p_filesz phdr\<rparr> else f1))"

definition elf_process_pheader :: "elf_file \<Rightarrow> elf32_phdr \<Rightarrow> int \<times> elf_file" where
  "elf_process_pheader f phdr = (if p_type phdr = PT_LOAD then elf_process_phdr_pt_load f phdr else (0, f))"

text \<open>The loop of \<open>elf_process_pheaders\<close> from header \<open>i\<close> on, \<open>n\<close> left.\<close>

fun elf_pheaders_loop :: "ram \<Rightarrow> u32 \<Rightarrow> elf_file \<Rightarrow> int \<Rightarrow> nat \<Rightarrow> nat \<Rightarrow> int \<times> elf_file" where
  "elf_pheaders_loop m header f res i 0 = (res, f)"
| "elf_pheaders_loop m header f res i (Suc n) =
     (let (res', f') = elf_process_pheader f (read_phdr m (elf_program_header m header i))
      in if res' < 0 then (res', f') else elf_pheaders_loop m header f' res' (Suc i) n)"

definition elf_process_pheaders :: "ram \<Rightarrow> elf_file \<Rightarrow> int \<times> elf_file" where
  "elf_process_pheaders m f =
     (let header = elf_header_of f
      in elf_pheaders_loop m header f 0 0 (unat (e_phnum (read_elf_header m header))))"

definition elf_process_loaded :: "ram \<Rightarrow> elf_file \<Rightarrow> int \<times> elf_file" where
  "elf_process_loaded m f =
     (let res = elf_validate_loaded m (elf_header_of f)
      in if res < 0 then (res, f) else elf_process_pheaders m f)"

section \<open>The bounds\<close>

text \<open>The program headers of an image, and those that are loaded.\<close>

definition phdrs :: "ram \<Rightarrow> u32 \<Rightarrow> elf32_phdr list" where
  "phdrs m header = map (\<lambda>i. read_phdr m (elf_program_header m header i))
     [0..<unat (e_phnum (read_elf_header m header))]"

definition loaded :: "elf32_phdr list \<Rightarrow> elf32_phdr list" where
  "loaded hs = filter (\<lambda>h. p_type h = PT_LOAD) hs"

definition seg_end :: "elf32_phdr \<Rightarrow> u32" where
  "seg_end h = p_vaddr h + p_filesz h"

lemma elf_process_pheader_ok: "elf_process_pheader f h = (0, snd (elf_process_pheader f h))"
  by (simp add: elf_process_pheader_def elf_process_phdr_pt_load_def Let_def)

lemma elf_pheaders_loop_fold:
  "elf_pheaders_loop m header f 0 i n =
   (0, fold (\<lambda>h f. snd (elf_process_pheader f h))
      (map (\<lambda>i. read_phdr m (elf_program_header m header i)) [i..<i + n]) f)"
proof (induction n arbitrary: f i)
  case (Suc n)
  have "[i..<i + Suc n] = i # [Suc i..<Suc i + n]" by (simp add: upt_conv_Cons)
  with Suc.IH show ?case
    using elf_process_pheader_ok [of f "read_phdr m (elf_program_header m header i)"]
    by (auto simp: Let_def split: prod.splits)
qed simp

lemma elf_process_pheaders_fold:
  "elf_process_pheaders m f =
     (0, fold (\<lambda>h f. snd (elf_process_pheader f h)) (phdrs m (elf_memory f)) f)"
  by (simp add: elf_process_pheaders_def elf_header_of_def phdrs_def elf_pheaders_loop_fold Let_def)

text \<open>
  What the pass over the headers maintains after the loaded segments \<open>hs\<close>: the base is the lowest
  address, the end the highest, and the physical ones belong to such a segment.
\<close>

definition bounds_of :: "u32 \<Rightarrow> elf32_phdr list \<Rightarrow> elf_file \<Rightarrow> bool" where
  "bounds_of mm hs f \<longleftrightarrow> elf_memory f = mm \<and>
     (if hs = [] then virtual_base_address f = 0 \<and> virtual_end_address f = 0
      else virtual_base_address f = Min (p_vaddr ` set hs) \<and> virtual_end_address f = Max (seg_end ` set hs) \<and>
        (\<exists>h \<in> set hs. p_vaddr h = virtual_base_address f \<and> physical_base_address f = mm + p_offset h) \<and>
        (\<exists>h \<in> set hs. seg_end h = virtual_end_address f \<and>
           physical_end_address f = mm + p_offset h + p_filesz h))"

lemma bounds_of_step:
  assumes "bounds_of mm hs f" "\<forall>h \<in> set (hs @ [h]). p_vaddr h \<noteq> 0 \<and> seg_end h \<noteq> 0"
  shows "bounds_of mm (hs @ [h]) (snd (elf_process_phdr_pt_load f h))"
proof (cases "hs = []")
  case True
  with assms show ?thesis
    by (simp add: bounds_of_def elf_process_phdr_pt_load_def Let_def seg_end_def)
next
  case False
  let ?f = "snd (elf_process_phdr_pt_load f h)"
  have b: "virtual_base_address f = Min (p_vaddr ` set hs)" "virtual_end_address f = Max (seg_end ` set hs)"
    and mm: "elf_memory f = mm"
    using assms(1) False by (auto simp: bounds_of_def)
  have nz: "virtual_base_address f \<noteq> 0" "virtual_end_address f \<noteq> 0"
    using assms False by (auto simp: bounds_of_def)
  have "Min (p_vaddr ` set (hs @ [h])) = min (p_vaddr h) (virtual_base_address f)"
    and "Max (seg_end ` set (hs @ [h])) = max (seg_end h) (virtual_end_address f)"
    using False by (simp_all add: b)
  moreover have "virtual_base_address ?f = min (p_vaddr h) (virtual_base_address f)"
    "virtual_end_address ?f = max (seg_end h) (virtual_end_address f)"
    using nz linear by (auto simp: elf_process_phdr_pt_load_def Let_def seg_end_def min_def max_def)
  moreover have "\<exists>g \<in> set (hs @ [h]). p_vaddr g = virtual_base_address ?f \<and> physical_base_address ?f = mm + p_offset g"
    using assms(1) False nz(1) mm
    by (cases "p_vaddr h \<le> virtual_base_address f") (auto simp: bounds_of_def elf_process_phdr_pt_load_def Let_def)
  moreover have "\<exists>g \<in> set (hs @ [h]). seg_end g = virtual_end_address ?f \<and>
      physical_end_address ?f = mm + p_offset g + p_filesz g"
    using assms(1) False nz(2) mm
    by (cases "virtual_end_address f \<le> seg_end h")
      (auto simp: bounds_of_def elf_process_phdr_pt_load_def Let_def seg_end_def)
  moreover have "elf_memory ?f = mm" using mm by (simp add: elf_process_phdr_pt_load_def Let_def)
  ultimately show ?thesis by (simp add: bounds_of_def)
qed

lemma bounds_of_fold:
  assumes "bounds_of mm done f" "\<forall>h \<in> set (done @ loaded hs). p_vaddr h \<noteq> 0 \<and> seg_end h \<noteq> 0"
  shows "bounds_of mm (done @ loaded hs) (fold (\<lambda>h f. snd (elf_process_pheader f h)) hs f)"
  using assms
proof (induction hs arbitrary: "done" f)
  case (Cons h hs)
  show ?case
  proof (cases "p_type h = PT_LOAD")
    case True
    have "bounds_of mm (done @ [h]) (snd (elf_process_phdr_pt_load f h))"
      using Cons.prems True by (intro bounds_of_step) (auto simp: loaded_def)
    then have "bounds_of mm ((done @ [h]) @ loaded hs)
        (fold (\<lambda>h f. snd (elf_process_pheader f h)) hs (snd (elf_process_phdr_pt_load f h)))"
      using Cons.prems True by (intro Cons.IH) (auto simp: loaded_def)
    with True show ?thesis by (simp add: loaded_def elf_process_pheader_def)
  next
    case False
    then have "loaded (h # hs) = loaded hs" by (simp add: loaded_def)
    with Cons.IH [OF Cons.prems(1)] Cons.prems(2) False show ?thesis by (simp add: elf_process_pheader_def)
  qed
qed (simp add: loaded_def)

end
