(* ===== verification/Paging.thy ===== *)
theory Paging
  imports KMem
begin

text \<open>
  Two-level paging, \<open>src/src/memory/paging/paging.c\<close>. Page directories and page
  tables are arrays of 1024 words in physical memory, each in a block of the kernel
  heap; a \<open>paging_4gb_chunk\<close> is a heap block whose first word is the address of the
  directory. All accesses go through \<open>load32\<close> and \<open>store32\<close>, so that a function that
  writes to the wrong page is visible in the model.

  C's \<open>int offset\<close> of \<open>paging_new_4gb\<close> passes \<open>2^31\<close> half way through; the compiled
  code wraps, and so does the 32-bit word here.
\<close>

named_theorems paging_consts \<open>constants of paging\<close>

definition PAGING_ACCESS_FROM_ALL :: u32 where [paging_consts]: "PAGING_ACCESS_FROM_ALL = 4"
definition PAGING_IS_WRITEABLE :: u32 where [paging_consts]: "PAGING_IS_WRITEABLE = 2"
definition PAGING_IS_PRESENT :: u32 where [paging_consts]: "PAGING_IS_PRESENT = 1"
definition PAGING_TOTAL_ENTRIES_PER_TABLE :: nat where [paging_consts]: "PAGING_TOTAL_ENTRIES_PER_TABLE = 1024"
definition PAGING_PAGE_SIZE :: u32 where [paging_consts]: "PAGING_PAGE_SIZE = 4096"

section \<open>The C functions\<close>

text \<open>The inner loop of \<open>paging_new_4gb\<close>, from entry \<open>j\<close> on, \<open>n\<close> entries left.\<close>

fun paging_fill_table :: "ram \<Rightarrow> u32 \<Rightarrow> u32 \<Rightarrow> u32 \<Rightarrow> nat \<Rightarrow> nat \<Rightarrow> ram" where
  "paging_fill_table m entry offset flags j 0 = m"
| "paging_fill_table m entry offset flags j (Suc n) =
     paging_fill_table
       (store32 m (entry + of_nat j * 4) ((offset + of_nat j * PAGING_PAGE_SIZE) OR flags))
       entry offset flags (Suc j) n"

text \<open>The outer loop, from directory entry \<open>i\<close> on.\<close>

fun paging_fill_directory :: "kmem \<Rightarrow> u32 \<Rightarrow> u32 \<Rightarrow> u32 \<Rightarrow> nat \<Rightarrow> nat \<Rightarrow> kmem" where
  "paging_fill_directory m directory flags offset i 0 = m"
| "paging_fill_directory m directory flags offset i (Suc n) =
     (let (entry, m1) = kzalloc m (4 * of_nat PAGING_TOTAL_ENTRIES_PER_TABLE);
          m2 = m1\<lparr>ram := paging_fill_table (ram m1) entry offset flags 0 PAGING_TOTAL_ENTRIES_PER_TABLE\<rparr>;
          m3 = m2\<lparr>ram := store32 (ram m2) (directory + of_nat i * 4)
                           (entry OR flags OR PAGING_IS_WRITEABLE)\<rparr>
      in paging_fill_directory m3 directory flags
           (offset + PAGING_PAGE_SIZE * of_nat PAGING_TOTAL_ENTRIES_PER_TABLE) (Suc i) n)"

definition paging_new_4gb :: "kmem \<Rightarrow> u8 \<Rightarrow> u32 \<times> kmem" where
  "paging_new_4gb m flags =
     (let (directory, m1) = kzalloc m (4 * of_nat PAGING_TOTAL_ENTRIES_PER_TABLE);
          m2 = paging_fill_directory m1 directory (ucast flags) 0 0 PAGING_TOTAL_ENTRIES_PER_TABLE;
          (chunk_4gb, m3) = kzalloc m2 4
      in (chunk_4gb, m3\<lparr>ram := store32 (ram m3) chunk_4gb directory\<rparr>))"

definition paging_4gb_chunk_get_directory :: "ram \<Rightarrow> u32 \<Rightarrow> u32" where
  "paging_4gb_chunk_get_directory m chunk = load32 m chunk"

text \<open>
  The page directory register that \<open>paging_load_directory\<close> (assembly) writes, and the
  static variable \<open>current_directory\<close>.
\<close>

record mmu =
  cr3 :: u32
  current_directory :: u32

definition paging_switch :: "ram \<Rightarrow> mmu \<Rightarrow> u32 \<Rightarrow> mmu" where
  "paging_switch m u directory = u\<lparr>cr3 := load32 m directory, current_directory := load32 m directory\<rparr>"

fun paging_free_tables :: "kmem \<Rightarrow> u32 \<Rightarrow> nat \<Rightarrow> nat \<Rightarrow> kmem" where
  "paging_free_tables m chunk i 0 = m"
| "paging_free_tables m chunk i (Suc n) =
     (let entry = load32 (ram m) (load32 (ram m) chunk + of_nat i * 4);
          ptable = entry AND 0xfffff000
      in paging_free_tables (kfree m ptable) chunk (Suc i) n)"

definition paging_free_4gb :: "kmem \<Rightarrow> u32 \<Rightarrow> kmem" where
  "paging_free_4gb m chunk =
     (let m1 = paging_free_tables m chunk 0 PAGING_TOTAL_ENTRIES_PER_TABLE;
          m2 = kfree m1 (load32 (ram m1) chunk)
      in kfree m2 chunk)"

definition paging_is_aligned :: "u32 \<Rightarrow> bool" where
  "paging_is_aligned addr \<longleftrightarrow> addr mod PAGING_PAGE_SIZE = 0"

text \<open>Status, directory index and table index; the callers start both indexes at 0.\<close>

definition paging_get_indexes :: "u32 \<Rightarrow> int \<times> u32 \<times> u32" where
  "paging_get_indexes virtual_address =
     (if \<not> paging_is_aligned virtual_address then (- EINVARG, 0, 0)
      else (0, virtual_address div (of_nat PAGING_TOTAL_ENTRIES_PER_TABLE * PAGING_PAGE_SIZE),
            virtual_address mod (of_nat PAGING_TOTAL_ENTRIES_PER_TABLE * PAGING_PAGE_SIZE)
              div PAGING_PAGE_SIZE))"

definition paging_align_address :: "u32 \<Rightarrow> u32" where
  "paging_align_address ptr =
     (if ptr mod PAGING_PAGE_SIZE \<noteq> 0 then ptr + PAGING_PAGE_SIZE - ptr mod PAGING_PAGE_SIZE else ptr)"

definition paging_align_to_lower_page :: "u32 \<Rightarrow> u32" where
  "paging_align_to_lower_page addr = addr - addr mod PAGING_PAGE_SIZE"

definition paging_set :: "ram \<Rightarrow> u32 \<Rightarrow> u32 \<Rightarrow> u32 \<Rightarrow> int \<times> ram" where
  "paging_set m directory virt val =
     (if \<not> paging_is_aligned virt then (- EINVARG, m)
      else let (res, directory_index, table_index) = paging_get_indexes virt
           in if res < 0 then (res, m)
              else let entry = load32 m (directory + directory_index * 4);
                       ptable = entry AND 0xFFFFF000
                   in (0, store32 m (ptable + table_index * 4) val))"

definition paging_get :: "ram \<Rightarrow> u32 \<Rightarrow> u32 \<Rightarrow> u32" where
  "paging_get m directory virt =
     (let (res, directory_index, table_index) = paging_get_indexes virt;
          entry = load32 m (directory + directory_index * 4);
          ptable = entry AND 0xfffff000
      in load32 m (ptable + table_index * 4))"

definition paging_map :: "ram \<Rightarrow> u32 \<Rightarrow> u32 \<Rightarrow> u32 \<Rightarrow> u32 \<Rightarrow> int \<times> ram" where
  "paging_map m directory virt phys flags =
     (if virt mod PAGING_PAGE_SIZE \<noteq> 0 \<or> phys mod PAGING_PAGE_SIZE \<noteq> 0 then (- EINVARG, m)
      else paging_set m (load32 m directory) virt (phys OR flags))"

text \<open>The loop of \<open>paging_map_range\<close> with \<open>n\<close> pages left; it stops at an error.\<close>

fun paging_map_loop :: "ram \<Rightarrow> u32 \<Rightarrow> u32 \<Rightarrow> u32 \<Rightarrow> u32 \<Rightarrow> int \<Rightarrow> nat \<Rightarrow> int \<times> ram" where
  "paging_map_loop m directory virt phys flags res 0 = (res, m)"
| "paging_map_loop m directory virt phys flags res (Suc n) =
     (let (res', m') = paging_map m directory virt phys flags
      in if res' < 0 then (res', m')
         else paging_map_loop m' directory (virt + PAGING_PAGE_SIZE) (phys + PAGING_PAGE_SIZE) flags res' n)"

definition paging_map_range :: "ram \<Rightarrow> u32 \<Rightarrow> u32 \<Rightarrow> u32 \<Rightarrow> int \<Rightarrow> u32 \<Rightarrow> int \<times> ram" where
  "paging_map_range m directory virt phys npages flags =
     paging_map_loop m directory virt phys flags 0 (nat npages)"

definition paging_map_to :: "ram \<Rightarrow> u32 \<Rightarrow> u32 \<Rightarrow> u32 \<Rightarrow> u32 \<Rightarrow> u32 \<Rightarrow> int \<times> ram" where
  "paging_map_to m directory virt phys phys_end flags =
     (if virt mod PAGING_PAGE_SIZE \<noteq> 0 then (- EINVARG, m)
      else if phys mod PAGING_PAGE_SIZE \<noteq> 0 then (- EINVARG, m)
      else if phys_end mod PAGING_PAGE_SIZE \<noteq> 0 then (- EINVARG, m)
      else if phys_end < phys then (- EINVARG, m)
      else let total_bytes = phys_end - phys;
               total_pages = sint (total_bytes div PAGING_PAGE_SIZE)
           in paging_map_range m directory virt phys total_pages flags)"

definition paging_get_physical_address :: "ram \<Rightarrow> u32 \<Rightarrow> u32 \<Rightarrow> u32" where
  "paging_get_physical_address m directory virt =
     (let virt_addr_new = paging_align_to_lower_page virt; difference = virt - virt_addr_new
      in (paging_get m directory virt_addr_new AND 0xfffff000) + difference)"

section \<open>Pages\<close>

definition page_aligned :: "u32 \<Rightarrow> bool" where
  "page_aligned p \<longleftrightarrow> unat p mod 4096 = 0"

text \<open>The address of word \<open>j\<close> of the page at \<open>p\<close>.\<close>

definition page_word :: "u32 \<Rightarrow> nat \<Rightarrow> u32" where
  "page_word p j = p + of_nat j * 4"

lemma paging_is_aligned_iff: "paging_is_aligned p \<longleftrightarrow> page_aligned p"
  by (simp add: paging_is_aligned_def page_aligned_def PAGING_PAGE_SIZE_def unat_mod_distrib
      flip: unat_inj_iff)

lemma mod_page_zero: "p mod PAGING_PAGE_SIZE = 0 \<longleftrightarrow> page_aligned p"
  using paging_is_aligned_iff by (simp add: paging_is_aligned_def)

lemma page_alignedE:
  assumes "page_aligned p"
  obtains k where "unat p = 4096 * k" "k < 1048576"
proof -
  obtain k where k: "unat p = 4096 * k" using assms by (auto simp: page_aligned_def)
  moreover have "unat p < 4096 * 1048576" using unsigned_less [of p] by simp
  ultimately show thesis using that by simp
qed

lemma page_aligned_room: "page_aligned p \<Longrightarrow> unat p + 4096 \<le> 2 ^ 32"
  by (erule page_alignedE) simp

lemma unat_page_offset: "page_aligned p \<Longrightarrow> i < 4096 \<Longrightarrow> unat (p + of_nat i) = unat p + i"
  using page_aligned_room [of p] by (intro unat_add_small) linarith

lemma page_word_eq: "page_word p j = p + of_nat (4 * j)"
  by (simp add: page_word_def)

lemma unat_page_word: "page_aligned p \<Longrightarrow> j < 1024 \<Longrightarrow> unat (page_word p j) = unat p + 4 * j"
  unfolding page_word_eq by (rule unat_page_offset) auto

lemma page_word_aligned: "page_aligned p \<Longrightarrow> j < 1024 \<Longrightarrow> word_aligned (page_word p j)"
  by (auto simp: word_aligned_def unat_page_word page_aligned_def intro!: dvd_add intro: dvd_trans [of 4 4096])

lemma page_word_inject:
  assumes "page_aligned p" "page_aligned q" "j < 1024" "k < 1024"
  shows "page_word p j = page_word q k \<longleftrightarrow> p = q \<and> j = k"
proof
  assume "page_word p j = page_word q k"
  then have eq: "unat p + 4 * j = unat q + 4 * k"
    using assms by (metis unat_page_word)
  from assms(1) obtain a where a: "unat p = 4096 * a" by (rule page_alignedE)
  from assms(2) obtain b where b: "unat q = 4096 * b" by (rule page_alignedE)
  have "a = b" using eq a b assms(3,4) by (cases a b rule: linorder_cases) auto
  then have "unat p = unat q" using a b by simp
  with eq show "p = q \<and> j = k" by simp
qed auto

lemma load_store_page:
  assumes "page_aligned p" "page_aligned q" "j < 1024" "k < 1024"
  shows "load32 (store32 m (page_word p j) v) (page_word q k) =
    (if p = q \<and> j = k then v else load32 m (page_word q k))"
  using assms page_word_inject [OF assms] page_word_aligned load32_store32_other by auto

text \<open>Masking the flag bits of an entry.\<close>

lemma page_mask: "(0xFFFFF000 :: u32) = NOT (mask 12)"
  by (simp add: mask_eq_exp_minus_1)

lemma page_aligned_bits: "page_aligned p \<longleftrightarrow> (\<forall>n < 12. \<not> bit p n)"
proof -
  have "page_aligned p \<longleftrightarrow> take_bit 12 p = 0"
    by (simp add: page_aligned_def take_bit_eq_mod unat_mod_distrib flip: unat_inj_iff)
  also have "\<dots> \<longleftrightarrow> (\<forall>n < 12. \<not> bit p n)"
    by (auto simp: bit_eq_iff bit_simps) 
  finally show ?thesis .
qed

lemma page_aligned_mask: "page_aligned (x AND 0xFFFFF000)"
  unfolding page_mask by (simp add: page_aligned_bits bit_simps)

lemma mask_flags:
  assumes "page_aligned p" "\<forall>n \<ge> 12. \<not> bit f n"
  shows "(p OR f) AND 0xFFFFF000 = p"
  using assms unfolding page_mask page_aligned_bits
  by (intro bit_word_eqI) (auto simp: bit_simps)

end
