(* ===== verification/PagingMap.thy ===== *)
theory PagingMap
  imports Paging
begin

text \<open>
  A page directory as a map from virtual pages to entries: when the tables of a
  directory are distinct pages (\<open>pdir_ok\<close>), \<open>paging_set\<close> and \<open>paging_get\<close> are update and
  lookup of that map, and the mapping loops set exactly the pages of their range.
\<close>

section \<open>Directories\<close>

definition pt :: "ram \<Rightarrow> u32 \<Rightarrow> nat \<Rightarrow> u32" where
  "pt m dir i = load32 m (page_word dir i) AND 0xFFFFF000"

definition pdir_ok :: "ram \<Rightarrow> u32 \<Rightarrow> bool" where
  "pdir_ok m dir \<longleftrightarrow> page_aligned dir \<and> (\<forall>i < 1024. pt m dir i \<noteq> dir) \<and> inj_on (pt m dir) {..<1024}"

definition dir_index :: "u32 \<Rightarrow> nat" where "dir_index v = unat v div 4194304"
definition tbl_index :: "u32 \<Rightarrow> nat" where "tbl_index v = unat v div 4096 mod 1024"

definition slot :: "ram \<Rightarrow> u32 \<Rightarrow> u32 \<Rightarrow> u32" where
  "slot m dir v = page_word (pt m dir (dir_index v)) (tbl_index v)"

lemma dir_index_less [simp]: "dir_index v < 1024"
  using unat_u32_less [of v] by (simp add: dir_index_def less_mult_imp_div_less)

lemma tbl_index_less [simp]: "tbl_index v < 1024"
  by (simp add: tbl_index_def)

lemma pt_aligned [simp]: "page_aligned (pt m dir i)"
  by (simp add: pt_def page_aligned_mask)

lemma page_number_split: "unat v div 4096 = 1024 * dir_index v + tbl_index v"
proof -
  have "dir_index v = unat v div 4096 div 1024"
    by (simp add: dir_index_def flip: div_mult2_eq)
  then show ?thesis by (simp add: tbl_index_def)
qed

lemma page_indexes_inject:
  assumes "page_aligned v" "page_aligned w"
  shows "dir_index v = dir_index w \<and> tbl_index v = tbl_index w \<longleftrightarrow> v = w"
proof
  assume "dir_index v = dir_index w \<and> tbl_index v = tbl_index w"
  then have "unat v div 4096 = unat w div 4096" by (simp add: page_number_split)
  moreover have "unat u = 4096 * (unat u div 4096)" if "page_aligned u" for u
    using that by (auto elim: page_alignedE)
  ultimately have "unat v = unat w" using assms by metis
  then show "v = w" by simp
qed simp

lemma paging_get_indexes_aligned:
  assumes "page_aligned v"
  shows "paging_get_indexes v = (0, of_nat (dir_index v), of_nat (tbl_index v))"
proof -
  have "unat v mod 4194304 div 4096 = tbl_index v"
    using mod_mult2_eq [of "unat v" 4096 1024] by (simp add: tbl_index_def)
  then have "v mod 4194304 div 4096 = of_nat (tbl_index v)"
    by (simp add: unat_div_distrib unat_mod_distrib unat_of_nat_u32 tbl_index_def flip: unat_inj_iff)
  moreover have "v div 4194304 = of_nat (dir_index v)"
    using dir_index_less [of v]
    by (simp add: unat_div_distrib unat_of_nat_u32 dir_index_def flip: unat_inj_iff)
  ultimately show ?thesis
    using assms by (simp add: paging_get_indexes_def paging_is_aligned_iff paging_consts)
qed

lemma paging_get_slot: "page_aligned v \<Longrightarrow> paging_get m dir v = load32 m (slot m dir v)"
  by (simp add: paging_get_def paging_get_indexes_aligned slot_def pt_def page_word_def)

lemma paging_set_slot:
  "page_aligned v \<Longrightarrow> paging_set m dir v x = (0, store32 m (slot m dir v) x)"
  by (simp add: paging_set_def paging_is_aligned_iff paging_get_indexes_aligned slot_def pt_def page_word_def)

text \<open>Writing an entry leaves the directory alone, and every other page of the map.\<close>

lemma pt_store_slot:
  assumes "pdir_ok m dir" "i < 1024"
  shows "pt (store32 m (slot m dir v) x) dir i = pt m dir i"
proof -
  have "pt m dir (dir_index v) \<noteq> dir" "page_aligned dir" using assms by (auto simp: pdir_ok_def)
  then show ?thesis using assms(2) by (simp add: pt_def [of _ dir i] slot_def load_store_page)
qed

lemma pdir_ok_store_slot:
  assumes "pdir_ok m dir"
  shows "pdir_ok (store32 m (slot m dir v) x) dir"
  using assms pt_store_slot [OF assms]
  by (auto simp: pdir_ok_def inj_on_def)

lemma paging_get_set:
  assumes ok: "pdir_ok m dir" and v: "page_aligned v" and w: "page_aligned w"
  shows "paging_get (snd (paging_set m dir v x)) dir w = (if w = v then x else paging_get m dir w)"
proof -
  have inj: "pt m dir (dir_index v) = pt m dir (dir_index w) \<longleftrightarrow> dir_index v = dir_index w"
    using ok inj_on_eq_iff [of "pt m dir" "{..<1024}" "dir_index v" "dir_index w"]
    by (simp add: pdir_ok_def)
  have "slot (store32 m (slot m dir v) x) dir w = slot m dir w"
    by (simp add: slot_def [of _ dir w] pt_store_slot [OF ok])
  then have "paging_get (snd (paging_set m dir v x)) dir w =
      load32 (store32 m (slot m dir v) x) (slot m dir w)"
    by (simp add: paging_get_slot w paging_set_slot v)
  also have "\<dots> = (if w = v then x else load32 m (slot m dir w))"
    using page_indexes_inject [OF v w] inj unfolding slot_def by (subst load_store_page) auto
  finally show ?thesis by (simp add: paging_get_slot w)
qed

section \<open>Chunks and ranges\<close>

text \<open>A chunk whose block is neither its directory nor one of its tables.\<close>

definition chunk_ok :: "ram \<Rightarrow> u32 \<Rightarrow> bool" where
  "chunk_ok m c \<longleftrightarrow> page_aligned c \<and> pdir_ok m (load32 m c) \<and> load32 m c \<noteq> c \<and>
     (\<forall>i < 1024. pt m (load32 m c) i \<noteq> c)"

lemma page_word_0: "page_word p 0 = p"
  by (simp add: page_word_def)

lemma chunk_store_slot:
  assumes "chunk_ok m c"
  shows "load32 (store32 m (slot m (load32 m c) v) x) c = load32 m c"
    and "chunk_ok (store32 m (slot m (load32 m c) v) x) c"
proof -
  have ok: "page_aligned c" "pdir_ok m (load32 m c)" "load32 m c \<noteq> c"
    "\<forall>i < 1024. pt m (load32 m c) i \<noteq> c" using assms by (auto simp: chunk_ok_def)
  then have "pt m (load32 m c) (dir_index v) \<noteq> c" by simp
  then show l: "load32 (store32 m (slot m (load32 m c) v) x) c = load32 m c"
    using load_store_page [of "pt m (load32 m c) (dir_index v)" c "tbl_index v" 0] ok(1)
    by (simp add: slot_def page_word_0)
  show "chunk_ok (store32 m (slot m (load32 m c) v) x) c"
    unfolding chunk_ok_def l using ok pdir_ok_store_slot [OF ok(2)] pt_store_slot [OF ok(2)] by simp
qed

lemma page_aligned_plus:
  assumes "page_aligned a" "page_aligned b"
  shows "page_aligned (a + b)"
proof -
  have "(unat a + unat b) mod 4294967296 mod 4096 = (unat a + unat b) mod 4096"
    by (rule mod_mod_cancel) simp
  also have "\<dots> = 0" using assms by (auto simp: page_aligned_def)
  finally show ?thesis by (simp add: page_aligned_def unat_word_ariths)
qed

lemma page_aligned_minus:
  assumes "page_aligned a" "page_aligned b"
  shows "page_aligned (a - b)"
proof -
  from assms(1) obtain k where k: "unat a = 4096 * k" by (rule page_alignedE)
  from assms(2) obtain l where l: "unat b = 4096 * l" by (rule page_alignedE)
  have "unat (a - b) = (if l \<le> k then 4096 * (k - l) else 4096 * (k + 1048576 - l))"
    by (simp add: unat_sub_if_size word_size k l diff_mult_distrib2 add_mult_distrib2)
  then show ?thesis by (simp add: page_aligned_def)
qed

lemma page_aligned_size [simp]: "page_aligned 4096"
  by (simp add: page_aligned_def)

lemma paging_map_chunk:
  assumes "page_aligned v" "page_aligned p"
  shows "paging_map m c v p flags = (0, store32 m (slot m (load32 m c) v) (p OR flags))"
  using assms by (simp add: paging_map_def mod_page_zero paging_set_slot)

text \<open>Is \<open>w\<close> one of the \<open>n\<close> pages from \<open>v\<close> on?\<close>

definition in_range :: "u32 \<Rightarrow> nat \<Rightarrow> u32 \<Rightarrow> bool" where
  "in_range v n w \<longleftrightarrow> unat (w - v) div 4096 < n"

lemma in_range_Suc:
  assumes "page_aligned v" "page_aligned w" "Suc n \<le> 2 ^ 20"
  shows "in_range v (Suc n) w \<longleftrightarrow> w = v \<or> in_range (v + 4096) n w"
    and "in_range (v + 4096) n w \<Longrightarrow> w \<noteq> v"
proof -
  from page_aligned_minus [OF assms(2,1)] obtain k where k: "unat (w - v) = 4096 * k" "k < 1048576"
    by (rule page_alignedE)
  have e: "w - (v + 4096) = (w - v) - 4096" by simp
  have z: "w = v \<longleftrightarrow> k = 0" using k(1) by (metis eq_iff_diff_eq_0 mult_eq_0_iff unsigned_0 unsigned_eq_0_iff zero_neq_numeral)
  have s: "unat (w - (v + 4096)) = (if k = 0 then 4096 * 1048575 else 4096 * (k - 1))"
  proof (cases "k = 0")
    case True
    then have "w - v = 0" using z by simp
    then show ?thesis unfolding e using True by simp
  next
    case False
    then show ?thesis unfolding e using k by (subst unat_sub) (auto simp: word_le_nat_alt diff_mult_distrib2)
  qed
  show "in_range v (Suc n) w \<longleftrightarrow> w = v \<or> in_range (v + 4096) n w"
    unfolding in_range_def s z using k assms(3) by (cases "k = 0") auto
  show "in_range (v + 4096) n w \<Longrightarrow> w \<noteq> v"
    unfolding in_range_def s z using assms(3) by (cases "k = 0") auto
qed

lemma paging_map_loop_range:
  assumes "chunk_ok m c" "page_aligned v" "page_aligned p" "n \<le> 2 ^ 20" "dir = load32 m c"
  obtains m' where "paging_map_loop m c v p flags 0 n = (0, m')" "chunk_ok m' c" "load32 m' c = dir"
    "\<And>w. page_aligned w \<Longrightarrow> paging_get m' dir w =
       (if in_range v n w then (p + (w - v)) OR flags else paging_get m dir w)"
  using assms
proof (induction n arbitrary: m v p thesis)
  case 0
  then show ?case by (auto simp: in_range_def)
next
  case (Suc n)
  define m1 where "m1 = store32 m (slot m dir v) (p OR flags)"
  have map1: "paging_map m c v p flags = (0, m1)"
    using Suc.prems by (simp add: paging_map_chunk m1_def)
  have ok1: "chunk_ok m1 c" "load32 m1 c = dir"
    using chunk_store_slot [OF Suc.prems(2)] Suc.prems(6) by (simp_all add: m1_def)
  have get1: "paging_get m1 dir w = (if w = v then p OR flags else paging_get m dir w)"
    if "page_aligned w" for w
  proof -
    have "pdir_ok m dir" using Suc.prems(2,6) by (simp add: chunk_ok_def)
    from paging_get_set [OF this Suc.prems(3) that, of "p OR flags"] show ?thesis
      using Suc.prems(3) by (simp add: paging_set_slot m1_def)
  qed
  have al: "page_aligned (v + 4096)" "page_aligned (p + 4096)"
    using Suc.prems(3,4) by (simp_all add: page_aligned_plus)
  have "n \<le> 2 ^ 20" "dir = load32 m1 c" using Suc.prems(5) ok1(2) by simp_all
  then obtain m' where m': "paging_map_loop m1 c (v + 4096) (p + 4096) flags 0 n = (0, m')"
    "chunk_ok m' c" "load32 m' c = dir"
    "\<And>w. page_aligned w \<Longrightarrow> paging_get m' dir w =
       (if in_range (v + 4096) n w then (p + 4096 + (w - (v + 4096))) OR flags else paging_get m1 dir w)"
    using Suc.IH [OF _ ok1(1) al] by blast
  show ?case
  proof (rule Suc.prems(1))
    show "paging_map_loop m c v p flags 0 (Suc n) = (0, m')"
      using map1 m'(1) by (simp add: PAGING_PAGE_SIZE_def)
    fix w assume w: "page_aligned w"
    show "paging_get m' dir w = (if in_range v (Suc n) w then (p + (w - v)) OR flags else paging_get m dir w)"
      using m'(4) [OF w] get1 [OF w] in_range_Suc [OF Suc.prems(3) w Suc.prems(5)] by auto
  qed (use m' in auto)
qed

end
