(* ===== verification/PagingNew.thy ===== *)
theory PagingNew
  imports PagingMap KRuns
begin

text \<open>
  What \<open>paging_new_4gb\<close> builds: an invariant of its outer loop that combines the state of
  the heap (which blocks have been handed out since the start) with the contents of the
  directory and of the tables filled so far.
\<close>

section \<open>Frames\<close>

lemma kowned_page_aligned:
  assumes "kheap_ok m" "kowned m p = Some n"
  shows "page_aligned p"
proof -
  have ok: "heap_ok (kernel_heap m)" using assms(1) by (simp add: kheap_ok_def)
  from owned_cases [OF this assms(2) [unfolded kowned_def]] obtain b
    where b: "p = block_addr (kernel_heap m) b" "b < length (tbl (kernel_heap m))" .
  with ok show ?thesis
    by (auto simp: page_aligned_def unat_block_addr heap_ok_def)
qed

lemma page_bytes_distinct:
  assumes "page_aligned p" "page_aligned q" "p \<noteq> q" "i < 4096" "j < 4096"
  shows "p + of_nat i \<noteq> q + of_nat j"
proof
  assume "p + of_nat i = q + of_nat j"
  then have eq: "unat p + i = unat q + j" using assms by (metis unat_page_offset)
  from assms(1) obtain a where a: "unat p = 4096 * a" by (rule page_alignedE)
  from assms(2) obtain b where b: "unat q = 4096 * b" by (rule page_alignedE)
  have "a = b" using eq a b assms(4,5) by (cases a b rule: linorder_cases) auto
  then have "unat p = unat q" using a b by simp
  with assms(3) show False by simp
qed

lemma load32_memset_other:
  assumes "page_aligned p" "page_aligned q" "p \<noteq> q" "n \<le> 4096" "k < 1024"
  shows "load32 (ram_memset m p c n) (page_word q k) = load32 m (page_word q k)"
proof -
  have "ram_memset m p c n (page_word q k + of_nat b) = m (page_word q k + of_nat b)" if "b < 4" for b
  proof (rule ram_memset_out)
    fix i assume "i < n"
    have "p + of_nat i \<noteq> q + of_nat (4 * k + b)"
      using assms that \<open>i < n\<close> by (intro page_bytes_distinct) auto
    then show "page_word q k + of_nat b \<noteq> p + of_nat i"
      by (simp add: page_word_def ac_simps)
  qed
  from this [of 0] this [of 1] this [of 2] this [of 3]
  show ?thesis by (simp add: load32_def)
qed

lemma paging_fill_table_words:
  assumes "page_aligned p" "page_aligned q" "j + n \<le> 1024" "k < 1024"
  shows "load32 (paging_fill_table m p off fl j n) (page_word q k) =
    (if q = p \<and> j \<le> k \<and> k < j + n then (off + of_nat k * 4096) OR fl else load32 m (page_word q k))"
  using assms
proof (induction n arbitrary: j m)
  case (Suc n)
  then show ?case
    by (auto simp: page_word_def [symmetric] PAGING_PAGE_SIZE_def load_store_page)
qed auto

lemma flag_bits_small:
  assumes "12 \<le> n"
  shows "\<not> bit (ucast (f :: u8) OR PAGING_IS_WRITEABLE :: u32) n" "\<not> bit (ucast f :: u32) n"
proof -
  have "(2 :: u32) = push_bit 1 1" by simp
  then have "\<not> bit (2 :: u32) n" using assms by (simp only: bit_push_bit_iff) (auto simp: bit_1_iff)
  moreover have "\<not> bit f n" using assms by (auto dest: bit_imp_le_length)
  ultimately show "\<not> bit (ucast f OR PAGING_IS_WRITEABLE :: u32) n" "\<not> bit (ucast f :: u32) n"
    by (auto simp: bit_simps PAGING_IS_WRITEABLE_def)
qed

section \<open>The loop invariant\<close>

definition fill_inv :: "kmem \<Rightarrow> u32 \<Rightarrow> u32 \<Rightarrow> nat \<Rightarrow> kmem \<Rightarrow> bool" where
  "fill_inv m0 dir fl i m \<longleftrightarrow> kheap_ok m \<and> kframe m = kframe m0 \<and> kroom m0 = i + kroom m \<and>
     inj_on (pt (ram m) dir) {..<i} \<and> pt (ram m) dir ` {..<i} \<inter> dom (kowned m0) = {} \<and>
     kowned m = (\<lambda>p. if p \<in> pt (ram m) dir ` {..<i} then Some 1 else kowned m0 p) \<and>
     (\<forall>i' < i. \<forall>j < 1024. load32 (ram m) (page_word (pt (ram m) dir i') j) =
        (of_nat i' * 4194304 + of_nat j * 4096) OR fl) \<and>
     (\<forall>i' < i. load32 (ram m) (page_word dir i') = pt (ram m) dir i' OR fl OR PAGING_IS_WRITEABLE)"

lemma fill_inv_step:
  assumes inv: "fill_inv m0 dir fl i m" and dir: "kowned m0 dir = Some 1" and i: "i < 1024"
    and room: "0 < kroom m" and fl: "fl = ucast (f :: u8)"
    and alloc: "kzalloc m 4096 = (entry, m1)"
    and r2: "r2 = paging_fill_table (ram m1) entry (of_nat i * 4194304) fl 0 1024"
    and r3: "r3 = store32 r2 (page_word dir i) (entry OR fl OR PAGING_IS_WRITEABLE)"
  shows "fill_inv m0 dir fl (Suc i) (m1\<lparr>ram := r3\<rparr>)"
proof -
  let ?T = "pt (ram m) dir" and ?T' = "pt r3 dir"
  note I = inv [unfolded fill_inv_def]
  obtain m1': "kheap_ok m1" "kowned m entry = None" "kowned m1 = (kowned m)(entry \<mapsto> 1)"
    "kroom m = Suc (kroom m1)" "kframe m1 = kframe m" "ram m1 = ram_memset (ram m) entry 0 4096"
    by (rule kzalloc_page [of m 4096]) (use I room alloc in auto)
  have own_dir: "kowned m dir = Some 1" using I dir by auto
  have al: "page_aligned entry" "page_aligned dir"
    using kowned_page_aligned [of m1 entry 1] kowned_page_aligned [of m dir 1] m1' own_dir I by auto
  have ne: "entry \<noteq> dir" using own_dir m1'(2) by auto
  have owned_T: "kowned m (?T i') = Some 1" if "i' < i" for i' using I that by auto
  have neT: "?T i' \<noteq> entry" "?T i' \<noteq> dir" if "i' < i" for i'
    using owned_T [OF that] m1'(2) I dir that by (auto simp: disjoint_iff)
  have word: "load32 r3 (page_word q k) =
      (if q = dir \<and> k = i then entry OR fl OR PAGING_IS_WRITEABLE
       else if q = entry then (of_nat i * 4194304 + of_nat k * 4096) OR fl
       else load32 (ram m) (page_word q k))" if "page_aligned q" "k < 1024" for q k
    using that al ne i
    by (auto simp: r3 r2 m1'(6) load_store_page paging_fill_table_words load32_memset_other)
  have T': "?T' i' = (if i' = i then entry else ?T i')" if "i' < Suc i" for i'
  proof (cases "i' = i")
    case True
    have "(entry OR (fl OR PAGING_IS_WRITEABLE)) AND 0xFFFFF000 = entry"
      using al(1) by (rule mask_flags) (use flag_bits_small fl in auto)
    then show ?thesis using True word [OF al(2) i] by (simp add: pt_def or.assoc)
  next
    case False
    then have "i' < 1024" using that i by simp
    from word [OF al(2) this] show ?thesis using False ne by (simp add: pt_def)
  qed
  have img: "?T' ` {..<Suc i} = insert entry (?T ` {..<i})"
  proof -
    have "?T' ` {..<i} = ?T ` {..<i}" using T' by (intro image_cong) auto
    then show ?thesis using T' [of i] by (simp add: lessThan_Suc)
  qed
  have "inj_on ?T' {..<Suc i}"
  proof (rule inj_onI)
    fix a b assume ab: "a \<in> {..<Suc i}" "b \<in> {..<Suc i}" "?T' a = ?T' b"
    then show "a = b"
      using T' [of a] T' [of b] neT(1) [of a] neT(1) [of b] inj_onD [OF I [THEN conjunct2, THEN conjunct2, THEN conjunct2, THEN conjunct1], of a b]
      by (auto simp: less_Suc_eq split: if_splits)
  qed
  moreover have "?T' ` {..<Suc i} \<inter> dom (kowned m0) = {}"
  proof -
    have "kowned m0 entry = None" using I m1'(2) by (auto split: if_splits)
    then show ?thesis unfolding img using I by auto
  qed
  moreover have "kowned m1 = (\<lambda>p. if p \<in> ?T' ` {..<Suc i} then Some 1 else kowned m0 p)"
    unfolding img m1'(3) using I by (auto simp: fun_eq_iff)
  moreover have "load32 r3 (page_word (?T' i') j) = (of_nat i' * 4194304 + of_nat j * 4096) OR fl"
    if "i' < Suc i" "j < 1024" for i' j
  proof (cases "i' = i")
    case True
    then show ?thesis using word [OF al(1) that(2)] T' [OF that(1)] ne by simp
  next
    case False
    then have "i' < i" using that by simp
    then have "load32 (ram m) (page_word (?T i') j) = (of_nat i' * 4194304 + of_nat j * 4096) OR fl"
      using I that(2) by blast
    then show ?thesis
      using word [of "?T i'" j] T' [OF that(1)] neT [OF \<open>i' < i\<close>] that(2) False by simp
  qed
  moreover have "load32 r3 (page_word dir i') = ?T' i' OR fl OR PAGING_IS_WRITEABLE" if "i' < Suc i" for i'
  proof (cases "i' = i")
    case True
    then show ?thesis using word [OF al(2) i] T' [OF that] by simp
  next
    case False
    then have "i' < i" "i' < 1024" using that i by simp_all
    then have "load32 (ram m) (page_word dir i') = ?T i' OR fl OR PAGING_IS_WRITEABLE" using I by blast
    then show ?thesis using word [OF al(2) \<open>i' < 1024\<close>] T' [OF that] False ne by simp
  qed
  ultimately show ?thesis
    unfolding fill_inv_def using m1' I
    by (simp add: kheap_ok_def kframe_def kroom_def kowned_def)
qed

lemma fill_inv_loop:
  assumes "fill_inv m0 dir fl i m" "kowned m0 dir = Some 1" "i + n \<le> 1024" "n \<le> kroom m"
    and "fl = ucast (f :: u8)"
  shows "fill_inv m0 dir fl (i + n) (paging_fill_directory m dir fl (of_nat i * 4194304) i n)"
  using assms(1,3,4)
proof (induction n arbitrary: i m)
  case (Suc n)
  obtain entry m1 where alloc: "kzalloc m 4096 = (entry, m1)" by (cases "kzalloc m 4096")
  define m2 where "m2 = m1\<lparr>ram := store32 (paging_fill_table (ram m1) entry (of_nat i * 4194304) fl 0 1024)
    (page_word dir i) (entry OR fl OR PAGING_IS_WRITEABLE)\<rparr>"
  have "fill_inv m0 dir fl (Suc i) m2"
    unfolding m2_def using Suc.prems assms(2,5)
    by (intro fill_inv_step [OF Suc.prems(1) _ _ _ _ alloc refl refl]) auto
  moreover from this have "kroom m0 = Suc i + kroom m2" by (simp add: fill_inv_def)
  moreover have "kroom m0 = i + kroom m" using Suc.prems(1) by (simp add: fill_inv_def)
  ultimately have "fill_inv m0 dir fl (Suc i + n)
      (paging_fill_directory m2 dir fl (of_nat (Suc i) * 4194304) (Suc i) n)"
    using Suc.prems by (intro Suc.IH) auto
  then show ?case
    using alloc by (simp add: m2_def paging_consts page_word_def algebra_simps)
qed simp

section \<open>A new address space\<close>

text \<open>The heap blocks of a chunk: the chunk, its directory and its tables.\<close>

definition chunk_blocks :: "ram \<Rightarrow> u32 \<Rightarrow> u32 list" where
  "chunk_blocks m c = map (pt m (load32 m c)) [0..<1024] @ [load32 m c, c]"

text \<open>
  \<open>fresh_chunk m0 c m\<close>: in \<open>m\<close> there is a chunk at \<open>c\<close> that is not in \<open>m0\<close>, and the heap
  of \<open>m\<close> differs from that of \<open>m0\<close> in the blocks of the chunk only.
\<close>

definition fresh_chunk :: "kmem \<Rightarrow> u32 \<Rightarrow> kmem \<Rightarrow> bool" where
  "fresh_chunk m0 c m \<longleftrightarrow> kheap_ok m \<and> kframe m = kframe m0 \<and> c \<noteq> 0 \<and> chunk_ok (ram m) c \<and>
     set (chunk_blocks (ram m) c) \<inter> dom (kowned m0) = {} \<and>
     kowned m = (\<lambda>p. if p \<in> set (chunk_blocks (ram m) c) then Some 1 else kowned m0 p)"

lemma chunk_blocks_distinct: "chunk_ok m c \<Longrightarrow> distinct (chunk_blocks m c)"
  by (auto simp: chunk_blocks_def chunk_ok_def pdir_ok_def distinct_map atLeast0LessThan)

lemma load32_header:
  assumes "page_aligned c" "page_aligned q" "c \<noteq> q" "k < 1024"
  shows "load32 (store32 (ram_memset m c 0 4) c v) (page_word q k) = load32 m (page_word q k)"
  using load_store_page [OF assms(1,2), of 0 k] load32_memset_other [OF assms(1-3), of 4 k] assms
  by (simp add: page_word_0)

theorem paging_new_4gb_entries:
  assumes ok: "kheap_ok m" and room: "1026 \<le> kroom m"
  obtains c m' where "paging_new_4gb m flags = (c, m')" "fresh_chunk m c m'"
    "kroom m = 1026 + kroom m'"
    "\<And>v. page_aligned v \<Longrightarrow> paging_get (ram m') (load32 (ram m') c) v = v OR ucast flags"
    "\<And>i. i < 1024 \<Longrightarrow> load32 (ram m') (page_word (load32 (ram m') c) i) =
       pt (ram m') (load32 (ram m') c) i OR ucast flags OR PAGING_IS_WRITEABLE"
proof -
  let ?fl = "ucast flags :: u32"
  obtain dir m1 where a1: "kzalloc m 4096 = (dir, m1)" "kheap_ok m1" "kowned m dir = None"
    "kowned m1 = (kowned m)(dir \<mapsto> 1)" "kroom m = Suc (kroom m1)" "kframe m1 = kframe m"
    by (rule kzalloc_page [OF ok, of 4096]) (use room in auto)
  define m2 where "m2 = paging_fill_directory m1 dir ?fl 0 0 1024"
  have "fill_inv m1 dir ?fl 0 m1" using a1(2) by (simp add: fill_inv_def fun_eq_iff)
  then have "fill_inv m1 dir ?fl (0 + 1024) (paging_fill_directory m1 dir ?fl (of_nat 0 * 4194304) 0 1024)"
    by (rule fill_inv_loop) (use a1 room in auto)
  then have "fill_inv m1 dir ?fl 1024 m2" by (simp add: m2_def)
  note F = this [unfolded fill_inv_def]
  obtain c m3 where a3: "kzalloc m2 4 = (c, m3)" "c \<noteq> 0" "kheap_ok m3" "kowned m2 c = None"
    "kowned m3 = (kowned m2)(c \<mapsto> 1)" "kroom m2 = Suc (kroom m3)" "kframe m3 = kframe m2"
    "ram m3 = ram_memset (ram m2) c 0 (unat (4 :: u32))"
    by (rule kzalloc_page [of m2 4]) (use F a1(5) room in auto)
  define r where "r = store32 (ram_memset (ram m2) c 0 4) c dir"
  let ?T = "pt (ram m2) dir"
  have T: "kowned m2 (?T i) = Some 1" if "i < 1024" for i using F that by auto
  have d: "kowned m2 dir = Some 1" using F a1(4) by auto
  have ne: "c \<noteq> dir" "\<And>i. i < 1024 \<Longrightarrow> ?T i \<noteq> c" "\<And>i. i < 1024 \<Longrightarrow> ?T i \<noteq> dir"
    using T d a3(4) F a1(4) by (auto simp: disjoint_iff)
  have al: "page_aligned dir" "page_aligned c"
    using kowned_page_aligned [OF _ d] kowned_page_aligned [of m3 c 1] F a3 by auto
  have word: "load32 r (page_word q k) = load32 (ram m2) (page_word q k)"
    if "page_aligned q" "c \<noteq> q" "k < 1024" for q k
    unfolding r_def by (rule load32_header [OF al(2) that])
  have dirr: "load32 r c = dir" by (simp add: r_def)
  have pt: "pt r dir i = ?T i" if "i < 1024" for i
    using word [OF al(1) ne(1) that] by (simp add: pt_def)
  have chunk: "chunk_ok r c"
    using al ne pt F by (auto simp: chunk_ok_def pdir_ok_def dirr inj_on_def)
  have blocks: "set (chunk_blocks r c) = insert c (insert dir (?T ` {..<1024}))"
    using pt by (auto simp: chunk_blocks_def dirr image_iff)
  have new: "paging_new_4gb m flags = (c, m3\<lparr>ram := r\<rparr>)"
    using a1(1) a3(1,8) by (simp add: paging_new_4gb_def paging_consts m2_def r_def)
  have "fresh_chunk m c (m3\<lparr>ram := r\<rparr>)"
  proof -
    have "kowned m c = None" "kowned m (?T i) = None" if "i < 1024" for i
      using a3(4) F a1(4) that ne by (auto split: if_splits simp: disjoint_iff)
    then have "set (chunk_blocks r c) \<inter> dom (kowned m) = {}"
      using a1(3) a3(4) F a1(4) ne(1) unfolding blocks by (auto split: if_splits)
    moreover have "kowned m3 = (\<lambda>p. if p \<in> set (chunk_blocks r c) then Some 1 else kowned m p)"
      unfolding blocks a3(5) using F a1(4) by (auto simp: fun_eq_iff)
    ultimately show ?thesis
      using a3 a1 F chunk by (simp add: fresh_chunk_def kheap_ok_def kowned_def kframe_def)
  qed
  moreover have "paging_get r dir v = v OR ?fl" if "page_aligned v" for v
  proof -
    have "paging_get r dir v = load32 r (page_word (?T (dir_index v)) (tbl_index v))"
      using pt by (simp add: paging_get_slot [OF that] slot_def)
    also have "\<dots> = load32 (ram m2) (page_word (?T (dir_index v)) (tbl_index v))"
      using ne(2) by (intro word) (auto simp: eq_commute)
    also have "\<dots> = (of_nat (dir_index v) * 4194304 + of_nat (tbl_index v) * 4096) OR ?fl"
      using F by simp
    also have "of_nat (dir_index v) * 4194304 + of_nat (tbl_index v) * 4096 = v"
    proof -
      from that obtain k where k: "unat v = 4096 * k" by (rule page_alignedE)
      then have "unat v = dir_index v * 4194304 + tbl_index v * 4096"
        using page_number_split [of v] by simp
      then have "of_nat (unat v) = (of_nat (dir_index v * 4194304 + tbl_index v * 4096) :: u32)"
        by (rule arg_cong)
      then show ?thesis by simp
    qed
    finally show ?thesis .
  qed
  moreover have "kroom m = 1026 + kroom m3" using a1(5) a3(6) F by simp
  moreover have "load32 r (page_word dir i) = pt r dir i OR ?fl OR PAGING_IS_WRITEABLE" if "i < 1024" for i
    using F word [OF al(1) ne(1) that] pt [OF that] that by simp
  ultimately show thesis
    using new dirr by (intro that [of c "m3\<lparr>ram := r\<rparr>"]) (simp_all add: kroom_def)
qed

lemma paging_new_4gb_chunk:
  assumes "kheap_ok m" "1026 \<le> kroom m"
  obtains c m' where "paging_new_4gb m flags = (c, m')" "fresh_chunk m c m'" "kroom m = 1026 + kroom m'"
    "\<And>v. page_aligned v \<Longrightarrow> paging_get (ram m') (load32 (ram m') c) v = v OR ucast flags"
  by (rule paging_new_4gb_entries [OF assms]) (rule that, assumption+)

section \<open>Freeing an address space\<close>

lemma paging_free_tables_release:
  "paging_free_tables m c i n = release_seq kfree (map (pt (ram m) (load32 (ram m) c)) [i..<i+n]) m"
proof (induction n arbitrary: m i)
  case (Suc n)
  have "[i..<i + Suc n] = i # [Suc i..<Suc i + n]" by (simp add: upt_conv_Cons)
  then show ?case using Suc.IH by (simp add: pt_def page_word_def)
qed simp

lemma paging_free_release:
  "paging_free_4gb m c = release_seq kfree (chunk_blocks (ram m) c) m"
  by (simp add: paging_free_4gb_def paging_free_tables_release chunk_blocks_def paging_consts)

lemma fresh_chunk_free:
  assumes "kheap_ok m0" "fresh_chunk m0 c m"
  shows "kernel_heap (paging_free_4gb m c) = kernel_heap m0"
proof -
  let ?bs = "chunk_blocks (ram m) c"
  note F = assms(2) [unfolded fresh_chunk_def]
  have "distinct ?bs" "set ?bs \<subseteq> dom (kowned m)"
    using F chunk_blocks_distinct by auto
  from kheap.release_seq_law [OF _ this] F
  have r: "kheap_ok (release_seq kfree ?bs m)" "kframe (release_seq kfree ?bs m) = kframe m0"
    "kowned (release_seq kfree ?bs m) = (\<lambda>p. if p \<in> set ?bs then None else kowned m p)" by auto
  have "kowned (release_seq kfree ?bs m) = kowned m0"
  proof
    fix x
    have m: "kowned m x = (if x \<in> set ?bs then Some 1 else kowned m0 x)" using F by metis
    have "kowned m0 x = None" if "x \<in> set ?bs" using F that by blast
    with m show "kowned (release_seq kfree ?bs m) x = kowned m0 x" unfolding r(3) by simp
  qed
  then show ?thesis
    unfolding paging_free_release using r(1,2) assms(1) by (intro kheap.core_inject)
qed

text \<open>Writing entries of the chunk's tables does not change its blocks.\<close>

lemma fresh_chunk_store:
  assumes "fresh_chunk m0 c m"
  shows "fresh_chunk m0 c (m\<lparr>ram := store32 (ram m) (slot (ram m) (load32 (ram m) c) v) x\<rparr>)"
proof -
  note F = assms [unfolded fresh_chunk_def]
  have ok: "chunk_ok (ram m) c" using F by simp
  then have "pdir_ok (ram m) (load32 (ram m) c)" by (simp add: chunk_ok_def)
  then have "chunk_blocks (store32 (ram m) (slot (ram m) (load32 (ram m) c) v) x) c = chunk_blocks (ram m) c"
    using chunk_store_slot(1) [OF ok] pt_store_slot by (simp add: chunk_blocks_def)
  with F chunk_store_slot(2) [OF ok] show ?thesis
    by (simp add: fresh_chunk_def kheap_ok_def kowned_def kframe_def)
qed

end
