(* ===== verification/HeapProps.thy ===== *)
theory HeapProps
  imports KMem
begin

text \<open>
  The properties of the kernel heap, each with a concrete instance. The instances use
  a pool of eight blocks at the kernel's heap address.
\<close>

definition sample_heap :: "u8 list \<Rightarrow> heap" where
  "sample_heap es = \<lparr>table = \<lparr>entries = (\<lambda>i. if 0 \<le> i \<and> i < int (length es) then es ! nat i else 0),
     total = of_nat (length es)\<rparr>, saddr = HEAP_ADDRESS\<rparr>"

lemma sample_heap_tbl: "length es < 2 ^ 19 \<Longrightarrow> tbl (sample_heap es) = es"
  by (auto simp: sample_heap_def tbl_def unat_of_nat_u32 intro!: nth_equalityI)

lemma sample_heap_saddr [simp]: "saddr (sample_heap es) = HEAP_ADDRESS"
  by (simp add: sample_heap_def)

lemma sample_heap_ok: "wf_tbl False es \<Longrightarrow> length es < 2 ^ 13 \<Longrightarrow> heap_ok (sample_heap es)"
  by (simp add: heap_ok_def sample_heap_tbl) (simp add: sample_heap_def HEAP_ADDRESS_def)

section \<open>Allocation\<close>

text \<open>
  First fit. On a well-formed heap that has a long enough run of free blocks,
  \<open>heap_malloc\<close> returns the address of the first block of the lowest such run and
  writes exactly the bytes of one allocation over that run: the head entry with the
  first-block bit, continuation bits on all entries but the last, nothing else.
\<close>

theorem heap_malloc_first_fit:
  assumes "heap_ok h" "0 < unat sz" "unat sz \<le> 2 ^ 32 - 4096"
    and "\<exists>s. free_at (tbl h) s (blocks_for (unat sz))"
  shows "\<exists>b. heap_malloc h sz = (saddr h + of_nat b * 4096, heap_write h b (run_bytes (blocks_for (unat sz)))) \<and>
    free_at (tbl h) b (blocks_for (unat sz)) \<and>
    (\<forall>s < b. \<not> free_at (tbl h) s (blocks_for (unat sz)))"
proof -
  from assms(4) obtain s where "free_at (tbl h) s (blocks_for (unat sz))" ..
  from heap_malloc_write [OF assms(1-3) this] show ?thesis
    by (metis block_addr_def HEAP_BLOCK_SIZE_def)
qed

theorem heap_malloc_first_fit_witness:
  "\<exists>b. heap_malloc (sample_heap [0x41, 0, 0x41, 0, 0]) 5000 =
     (saddr (sample_heap [0x41, 0, 0x41, 0, 0]) + of_nat b * 4096,
      heap_write (sample_heap [0x41, 0, 0x41, 0, 0]) b (run_bytes (blocks_for (unat (5000 :: u32))))) \<and>
    free_at (tbl (sample_heap [0x41, 0, 0x41, 0, 0])) b (blocks_for (unat (5000 :: u32))) \<and>
    (\<forall>s < b. \<not> free_at (tbl (sample_heap [0x41, 0, 0x41, 0, 0])) s (blocks_for (unat (5000 :: u32))))"
proof (rule heap_malloc_first_fit)
  have "blocks_for (unat (5000 :: u32)) = 2" by (simp add: blocks_for_def)
  then have "free_at (tbl (sample_heap [0x41, 0, 0x41, 0, 0])) 3 (blocks_for (unat (5000 :: u32)))"
    by (simp add: free_at_def sample_heap_tbl less_2_cases_iff)
  then show "\<exists>s. free_at (tbl (sample_heap [0x41, 0, 0x41, 0, 0])) s (blocks_for (unat (5000 :: u32)))" ..
qed (simp_all add: sample_heap_ok)

text \<open>
  C3. Refinement of an abstract allocator. Seen as the map \<open>owned\<close> from addresses to
  block counts, a successful \<open>heap_malloc\<close> on a well-formed heap adds one binding for
  a non-null address that had none, leaves all others alone, keeps the heap well formed
  and takes exactly the blocks it hands out from the free ones.
\<close>

theorem heap_malloc_refines:
  assumes "heap_ok h" "0 < unat sz" "unat sz \<le> 2 ^ 32 - 4096"
    and "\<exists>s. free_at (tbl h) s (blocks_for (unat sz))"
    and "heap_malloc h sz = (p, h')"
  shows "p \<noteq> 0 \<and> heap_ok h' \<and> owned h p = None \<and> owned h' = (owned h)(p \<mapsto> blocks_for (unat sz)) \<and>
    free_count (tbl h) = blocks_for (unat sz) + free_count (tbl h')"
proof -
  from assms(4) obtain s where "free_at (tbl h) s (blocks_for (unat sz))" ..
  from heap_malloc_owned [OF assms(1-3) this] assms(5) show ?thesis by auto
qed

theorem heap_malloc_refines_witness:
  "fst (heap_malloc (sample_heap [0, 0, 0]) 4097) \<noteq> 0 \<and>
   owned (snd (heap_malloc (sample_heap [0, 0, 0]) 4097)) =
     (owned (sample_heap [0, 0, 0]))(fst (heap_malloc (sample_heap [0, 0, 0]) 4097) \<mapsto> 2)"
proof -
  have b: "blocks_for 4097 = 2" by (simp add: blocks_for_def)
  have "free_at (tbl (sample_heap [0, 0, 0])) 0 (blocks_for (unat (4097 :: u32)))"
    by (simp add: b free_at_def sample_heap_tbl less_2_cases_iff)
  then have "\<exists>s. free_at (tbl (sample_heap [0, 0, 0])) s (blocks_for (unat (4097 :: u32)))" ..
  from heap_malloc_refines [OF _ _ _ this, of "fst (heap_malloc (sample_heap [0, 0, 0]) 4097)"
      "snd (heap_malloc (sample_heap [0, 0, 0]) 4097)"]
  show ?thesis by (simp add: sample_heap_ok b)
qed

section \<open>No run, no block\<close>

lemma heap_scan_zero:
  assumes "0 < n" "es (i + int n - 1) = 0" "0 \<le> bc" "0 \<le> i" "bc \<le> i" "i + int n < 2 ^ 31"
    "bs = -1 \<or> (0 \<le> bs \<and> bs < i)"
  shows "0 \<le> heap_scan es 0 n i bc bs \<and> heap_scan es 0 n i bc bs < i + int n"
  using assms
proof (induction n arbitrary: i bc bs)
  case (Suc n)
  have nz: "word_of_int (bc + 1) \<noteq> (0 :: u32)"
    using Suc.prems word_of_int_eq_iff_u32 [of "bc + 1" 0] by auto
  show ?case
  proof (cases "n = 0")
    case True
    with Suc.prems nz show ?thesis
      by (auto simp: Let_def ENTRY_FREE_def heap_get_entry_type_def)
  next
    case False
    have e: "es (i + 1 + int n - 1) = 0" using Suc.prems(2) by (simp add: algebra_simps)
    show ?thesis
    proof (cases "es i = 0")
      case True
      with Suc.IH [of "i + 1" "bc + 1" "if bs = -1 then i else bs"] False Suc.prems e nz
      show ?thesis by (auto simp: Let_def ENTRY_FREE_def heap_get_entry_type_def)
    next
      case el: False
      with Suc.IH [of "i + 1" 0 "-1"] False Suc.prems e
      show ?thesis by (auto simp: ENTRY_FREE_def heap_get_entry_type_def)
    qed
  qed
qed simp

lemma heap_mark_nothing: "heap_mark_blocks_taken h b 0 = h"
  by (simp add: heap_mark_blocks_taken_def)

lemma heap_malloc_blocks_zero:
  assumes ok: "heap_ok h" and room: "tbl h \<noteq> []" "last (tbl h) = 0"
  obtains p where "p \<noteq> 0" "heap_malloc_blocks h 0 = (p, h)"
proof -
  let ?b = "heap_scan (entries (table h)) 0 (length (tbl h)) 0 0 (-1)"
  have "entries (table h) (int (length (tbl h)) - 1) = 0"
    using room tbl_nth [of "length (tbl h) - 1" h] by (simp add: last_conv_nth of_nat_diff Suc_leI)
  then have b: "0 \<le> ?b" "?b < int (length (tbl h))"
    using heap_scan_zero [of "length (tbl h)" "entries (table h)" 0 0 "-1"] room heap_ok_bounds(3) [OF ok]
    by simp_all
  then have st: "heap_get_start_block h 0 = ?b"
    by (simp add: heap_get_start_block_def tbl_length [symmetric])
  obtain c where c: "?b = int c" using b(1) zero_le_imp_eq_int by blast
  have "heap_malloc_blocks h 0 = (block_addr h c, h)"
    using st c by (simp add: heap_malloc_blocks_def block_addr_eq heap_mark_nothing)
  moreover have "block_addr h c \<noteq> 0" using block_addr_nonzero [OF ok] b(2) c by simp
  ultimately show thesis using that by blast
qed

text \<open>A size in the last page of the address space is no block at all; without a free last block that is refused.\<close>

lemma last_page_no_blocks:
  assumes sz: "2 ^ 32 - 4096 < unat sz"
  shows "heap_align_value_to_upper sz div HEAP_BLOCK_SIZE = 0"
proof -
  define r where "r = unat sz mod 4096"
  have u: "unat sz < 2 ^ 32" using unsigned_less [of sz] by simp
  define q where "q = unat sz div 4096"
  have s: "unat sz = q * 4096 + r" "r < 4096" by (simp_all add: r_def q_def)
  have "q = 1048575" using s sz u by simp
  then have q: "q = 2 ^ 20 - 1" and r: "0 < r" using s sz by simp_all
  have m: "unat (sz mod HEAP_BLOCK_SIZE) = r"
    by (simp add: HEAP_BLOCK_SIZE_def unat_mod_distrib r_def)
  have low: "unat (sz - sz mod HEAP_BLOCK_SIZE) = q * 4096"
    using m s by (subst unat_sub) (auto simp: word_le_nat_alt)
  have "unat (sz - sz mod HEAP_BLOCK_SIZE + HEAP_BLOCK_SIZE) = 0"
    using low q by (simp add: unat_word_ariths HEAP_BLOCK_SIZE_def)
  moreover have "sz mod HEAP_BLOCK_SIZE \<noteq> 0" using m r by (metis unsigned_0 less_irrefl)
  ultimately show ?thesis
    by (simp add: heap_align_value_to_upper_def unsigned_eq_0_iff)
qed

lemma heap_scan_zero_taken:
  "es (i + int n - 1) \<noteq> 0 \<Longrightarrow> 0 < n \<Longrightarrow> 0 \<le> bc \<Longrightarrow> bc \<le> i \<Longrightarrow> i + int n < 2 ^ 31 \<Longrightarrow> heap_scan es 0 n i bc bs = -1"
proof (induction n arbitrary: i bc bs)
  case (Suc n)
  have nz: "word_of_int (bc + 1) \<noteq> (0 :: u32)"
    using Suc.prems word_of_int_eq_iff_u32 [of "bc + 1" 0] by auto
  have e: "es (i + 1 + int n - 1) \<noteq> 0" using Suc.prems(1) by (simp add: algebra_simps)
  show ?case
  proof (cases "n = 0")
    case True
    then show ?thesis using Suc.prems(1) by (simp add: ENTRY_FREE_def heap_get_entry_type_def)
  next
    case False
    with Suc.IH [OF e, of 0 "-1"] Suc.IH [OF e, of "bc + 1" "if bs = -1 then i else bs"] Suc.prems nz
    show ?thesis by (auto simp: Let_def ENTRY_FREE_def heap_get_entry_type_def)
  qed
qed simp

lemma heap_malloc_refused:
  assumes ok: "heap_ok h" and full: "tbl h = [] \<or> last (tbl h) \<noteq> 0"
    and no: "0 < unat sz \<Longrightarrow> unat sz \<le> 2 ^ 32 - 4096 \<Longrightarrow> \<nexists>s. free_at (tbl h) s (blocks_for (unat sz))"
  shows "heap_malloc h sz = (0, h)"
proof -
  let ?want = "heap_align_value_to_upper sz div HEAP_BLOCK_SIZE"
  have "heap_get_start_block h ?want = - ENOMEM"
  proof (cases "0 < unat sz \<and> unat sz \<le> 2 ^ 32 - 4096")
    case True
    have "\<not> free_at (tbl h) b (length (tbl h) - b)" if "b < length (tbl h)" for b
    proof
      assume "free_at (tbl h) b (length (tbl h) - b)"
      then have "tbl h ! (b + (length (tbl h) - b - 1)) = 0"
        using that unfolding free_at_def by (elim conjE) (drule spec [of _ "length (tbl h) - b - 1"], simp)
      moreover have "tbl h \<noteq> []" using that by auto
      ultimately show False using that full by (auto simp: last_conv_nth simp del: tbl_nth)
    qed
    moreover have "unat ?want = blocks_for (unat sz)" "0 < blocks_for (unat sz)"
      using heap_align_blocks True by (simp_all add: blocks_for_pos)
    moreover have "\<nexists>s. free_at (tbl h) s (blocks_for (unat sz))" using no True by simp
    ultimately show ?thesis using heap_no_fit [OF ok, of ?want "blocks_for (unat sz)"] by blast
  next
    case False
    then have z: "?want = 0"
      using last_page_no_blocks [of sz] by (cases "unat sz = 0") (auto simp: heap_align_value_to_upper_def unsigned_eq_0_iff)
    have "heap_scan (entries (table h)) 0 (length (tbl h)) 0 0 (-1) = -1"
    proof (cases "tbl h")
      case Nil
      then show ?thesis by simp
    next
      case (Cons e es)
      then have "tbl h ! (length (tbl h) - 1) \<noteq> 0" using full by (metis last_conv_nth list.distinct(1))
      then have "entries (table h) (int (length (tbl h)) - 1) \<noteq> 0"
        using Cons tbl_nth [of "length (tbl h) - 1" h] by (simp add: of_nat_diff)
      then show ?thesis using Cons heap_ok_bounds(3) [OF ok] by (intro heap_scan_zero_taken) simp_all
    qed
    then show ?thesis by (simp add: heap_get_start_block_def z tbl_length [symmetric])
  qed
  then show ?thesis by (simp add: heap_malloc_def heap_malloc_blocks_def ENOMEM_def)
qed

text \<open>
  C28. No run is long enough. If the last block of the pool is taken (or the pool is
  empty), \<open>heap_malloc\<close> returns NULL and changes nothing. If the last block is free, it
  returns a non-null address all the same: the search loop leaves \<open>bs\<close> at the start of
  the short run at the end of the pool, and the marking loop writes past the table (the
  byte just behind it becomes non-zero).
\<close>

theorem heap_malloc_no_run:
  assumes ok: "heap_ok h" and sz: "0 < unat sz" "unat sz \<le> 2 ^ 32 - 4096"
    and nofit: "\<nexists>s. free_at (tbl h) s (blocks_for (unat sz))"
  shows "if tbl h = [] \<or> last (tbl h) \<noteq> 0 then heap_malloc h sz = (0, h)
    else fst (heap_malloc h sz) \<noteq> 0 \<and>
      entries (table (snd (heap_malloc h sz))) (int (length (tbl h))) \<noteq> 0"
proof -
  define n where "n = blocks_for (unat sz)"
  have n: "0 < n" "n < 2 ^ 31" using sz by (simp_all add: n_def blocks_for_pos) (simp add: blocks_for_def)
  let ?want = "heap_align_value_to_upper sz div HEAP_BLOCK_SIZE"
  have want: "unat ?want = n" using heap_align_blocks sz(2) by (simp add: n_def)
  have nf: "\<nexists>s. free_at (tbl h) s n" using nofit by (simp add: n_def)
  show ?thesis
  proof (cases "tbl h = [] \<or> last (tbl h) \<noteq> 0")
    case True
    with heap_malloc_refused [OF ok _ nofit] show ?thesis by simp
  next
    case False
    with heap_no_fit [OF ok want n(1) nf] obtain b
      where b: "b < length (tbl h)" "heap_get_start_block h ?want = int b"
        "free_at (tbl h) b (length (tbl h) - b)" by blast
    have over: "length (tbl h) < b + n"
    proof (rule ccontr)
      assume "\<not> length (tbl h) < b + n"
      then have "free_at (tbl h) b n" using b(3) by (simp add: free_at_def)
      with nf show False by blast
    qed
    have "?want = of_nat n" using of_nat_unat_id [of ?want] unfolding want by simp
    then have "sint ?want = int n" using n(2) sint_word_of_int_u32 [of "int n"] by simp
    then have m: "heap_malloc h sz = (block_addr h b, heap_write h b (run_bytes n))"
      using b(2) n(1) by (simp add: heap_malloc_def heap_malloc_blocks_def block_addr_eq heap_mark_write)
    have "run_bytes n ! nat (int (length (tbl h)) - int b) \<noteq> 0"
      using over b(1) by (simp add: run_bytes_def run_entry_def nat_diff_distrib)
    then show ?thesis using False m over b(1) block_addr_nonzero [OF ok b(1)]
      by (simp add: entries_heap_write)
  qed
qed

theorem heap_malloc_no_run_witness:
  "heap_malloc (sample_heap [0, 0x41]) 8192 = (0, sample_heap [0, 0x41]) \<and>
   fst (heap_malloc (sample_heap [0x41, 0]) 8192) \<noteq> 0 \<and>
   entries (table (snd (heap_malloc (sample_heap [0x41, 0]) 8192))) 2 \<noteq> 0"
proof -
  have b: "blocks_for 8192 = 2" by (simp add: blocks_for_def)
  have "\<nexists>s. free_at (tbl (sample_heap [0, 0x41])) s (blocks_for (unat (8192 :: u32)))"
    by (auto simp: b free_at_def sample_heap_tbl less_2_cases_iff)
  from heap_malloc_no_run [OF _ _ _ this]
  have 1: "heap_malloc (sample_heap [0, 0x41]) 8192 = (0, sample_heap [0, 0x41])"
    by (simp add: sample_heap_ok sample_heap_tbl)
  have "\<nexists>s. free_at (tbl (sample_heap [0x41, 0])) s (blocks_for (unat (8192 :: u32)))"
    by (auto simp: b free_at_def sample_heap_tbl less_2_cases_iff)
  from heap_malloc_no_run [OF _ _ _ this] 1 show ?thesis
    by (simp add: sample_heap_ok sample_heap_tbl)
qed

text \<open>
  C29. A size in the last page of the address space. Rounding it up to whole blocks
  wraps to 0, so \<open>heap_malloc\<close> reserves nothing, yet when the last block of the pool
  is free it returns a non-null address: the same as for a request of 0 bytes.
\<close>

theorem heap_malloc_wraps:
  assumes ok: "heap_ok h" and sz: "2 ^ 32 - 4096 < unat sz"
    and room: "tbl h \<noteq> []" "last (tbl h) = 0"
  shows "heap_malloc h sz = heap_malloc h 0 \<and> snd (heap_malloc h sz) = h \<and> fst (heap_malloc h sz) \<noteq> 0"
proof -
  have z: "heap_align_value_to_upper sz div HEAP_BLOCK_SIZE = 0" by (rule last_page_no_blocks [OF sz])
  obtain p where "p \<noteq> 0" "heap_malloc_blocks h 0 = (p, h)" by (rule heap_malloc_blocks_zero [OF ok room])
  then show ?thesis using z by (simp add: heap_malloc_def heap_align_value_to_upper_def)
qed

theorem heap_malloc_wraps_witness:
  "heap_malloc (sample_heap [0x41, 0, 0]) 0xFFFFFFFF = heap_malloc (sample_heap [0x41, 0, 0]) 0 \<and>
   snd (heap_malloc (sample_heap [0x41, 0, 0]) 0xFFFFFFFF) = sample_heap [0x41, 0, 0] \<and>
   fst (heap_malloc (sample_heap [0x41, 0, 0]) 0xFFFFFFFF) \<noteq> 0"
  by (rule heap_malloc_wraps) (simp_all add: sample_heap_ok sample_heap_tbl)

section \<open>Release\<close>

text \<open>
  C4. Refinement, release. Freeing the address of an allocation removes exactly that
  allocation from the abstract map, gives all its blocks back and keeps the heap
  well formed.
\<close>

theorem heap_free_refines:
  assumes "heap_ok h" "owned h p = Some n"
  shows "heap_ok (heap_free h p) \<and> owned (heap_free h p) = (owned h)(p := None) \<and>
    free_count (tbl (heap_free h p)) = free_count (tbl h) + n"
  using heap_free_owned [OF assms] by blast

theorem heap_free_refines_witness:
  "owned (heap_free (sample_heap [0xC1, 0x81, 0x01, 0x41]) HEAP_ADDRESS) =
     (owned (sample_heap [0xC1, 0x81, 0x01, 0x41]))(HEAP_ADDRESS := None) \<and>
   free_count (tbl (heap_free (sample_heap [0xC1, 0x81, 0x01, 0x41]) HEAP_ADDRESS)) = 3"
proof -
  have o: "owned (sample_heap [0xC1, 0x81, 0x01, 0x41]) HEAP_ADDRESS = Some 3"
    by (simp add: owned_def sample_heap_tbl owner_def heap_consts)
  from heap_free_refines [OF _ o] show ?thesis
    by (simp add: sample_heap_ok sample_heap_tbl free_count_def)
qed

text \<open>
  C27. No leak and no order. Any list of kernel allocations of at most one block each
  succeeds while there are as many free blocks, gives distinct non-null pointers, and
  freeing these pointers in any order brings the kernel heap back to exactly the state
  it had.
\<close>

theorem kmem_alloc_release:
  assumes "kheap_ok m" "\<forall>sz \<in> set szs. 0 < unat sz \<and> unat sz \<le> 4096" "length szs \<le> kroom m"
  shows "\<exists>ps m'. alloc_seq kzalloc m szs = (ps, m') \<and> distinct ps \<and> 0 \<notin> set ps \<and>
    (\<forall>qs. mset qs = mset ps \<longrightarrow> kernel_heap (release_seq kfree qs m') = kernel_heap m)"
proof -
  from kheap.alloc_seq_law [OF assms] obtain ps m'
    where "alloc_seq kzalloc m szs = (ps, m')" "distinct ps" "0 \<notin> set ps" by blast
  with kheap.alloc_release_core [OF assms] show ?thesis by blast
qed

definition sample_kmem :: "u8 list \<Rightarrow> kmem" where
  "sample_kmem es = \<lparr>kernel_heap = sample_heap es, ram = (\<lambda>_. 0xAA)\<rparr>"

theorem kmem_alloc_release_witness:
  "\<exists>ps m'. alloc_seq kzalloc (sample_kmem [0, 0x41, 0, 0]) [8, 108, 4096] = (ps, m') \<and>
    distinct ps \<and> 0 \<notin> set ps \<and>
    (\<forall>qs. mset qs = mset ps \<longrightarrow>
       kernel_heap (release_seq kfree qs m') = kernel_heap (sample_kmem [0, 0x41, 0, 0]))"
  by (rule kmem_alloc_release)
    (simp_all add: kheap_ok_def sample_kmem_def sample_heap_ok kroom_def sample_heap_tbl free_count_def)

lemma kheap_init_boot:
  "fst (kheap_init mem h) = 0 \<and> heap_ok (snd (kheap_init mem h)) \<and>
   tbl (snd (kheap_init mem h)) = replicate 25600 0 \<and>
   owned (snd (kheap_init mem h)) = Map.empty \<and> saddr (snd (kheap_init mem h)) = HEAP_ADDRESS \<and>
   (\<forall>k. k < 0 \<or> 25600 \<le> k \<longrightarrow> entries (table (snd (kheap_init mem h))) k = mem k)"
proof -
  define h' where "h' = \<lparr>table = \<lparr>entries = (\<lambda>k. if 0 \<le> k \<and> k < 25600 then 0 else mem k), total = 25600\<rparr>,
    saddr = HEAP_ADDRESS\<rparr>"
  have init: "kheap_init mem h = (0, h')"
    by (simp add: kheap_init_def heap_create_def heap_validate_alignment_def heap_validate_table_def
        HEAP_ADDRESS_def HEAP_SIZE_BYTES_def heap_consts h'_def cong: if_cong)
  have t: "tbl h' = replicate 25600 0"
    by (auto simp: h'_def tbl_def list_eq_iff_nth_eq)
  have "wf_tbl False (replicate 25600 0 @ [])" by (subst wf_tbl_free) simp
  then have "heap_ok h'" by (simp add: heap_ok_def t) (simp add: h'_def HEAP_ADDRESS_def)
  moreover have "owner (replicate 25600 0) b = None" for b
    using owner_free [of 25600 "[]" b] by (simp add: owner_def)
  then have "owned h' = Map.empty" by (simp add: owned_def t fun_eq_iff Let_def)
  ultimately show ?thesis by (simp add: init t) (simp add: h'_def)
qed

text \<open>The kernel's memory after \<open>kheap_init\<close>: every block is free.\<close>

definition boot_kmem :: kmem where
  "boot_kmem = \<lparr>kernel_heap = snd (kheap_init (\<lambda>_. 0) (sample_heap [])), ram = (\<lambda>_. 0xAA)\<rparr>"

lemma boot_kmem_facts: "kheap_ok boot_kmem" "kroom boot_kmem = 25600" "kowned boot_kmem = Map.empty"
  using kheap_init_boot [of "\<lambda>_. 0" "sample_heap []"]
  by (simp_all add: kheap_ok_def kroom_def kowned_def boot_kmem_def free_count_def)

text \<open>
  Start-up. \<open>kheap_init\<close> passes the checks of \<open>heap_create\<close> and leaves a
  well-formed heap of 25600 free blocks with no allocation, whatever the memory at the
  table address held; bytes outside the table keep their values.
\<close>

theorem kheap_init_ok:
  "fst (kheap_init mem h) = 0 \<and> heap_ok (snd (kheap_init mem h)) \<and>
   tbl (snd (kheap_init mem h)) = replicate 25600 0 \<and>
   owned (snd (kheap_init mem h)) = Map.empty \<and> saddr (snd (kheap_init mem h)) = HEAP_ADDRESS \<and>
   (\<forall>k. k < 0 \<or> 25600 \<le> k \<longrightarrow> entries (table (snd (kheap_init mem h))) k = mem k)"
  by (rule kheap_init_boot)

theorem kheap_init_ok_witness:
  "tbl (snd (kheap_init (\<lambda>_. 7) (sample_heap []))) = replicate 25600 0 \<and>
   entries (table (snd (kheap_init (\<lambda>_. 7) (sample_heap [])))) (-1) = 7"
  using kheap_init_ok [of "\<lambda>_. 7" "sample_heap []"] by simp

lemma heap_free_zero:
  assumes "saddr h = HEAP_ADDRESS" "total (table h) = 25600"
  shows "heap_address_to_block h 0 = -4096 \<and> entries (table (heap_free h 0)) (-4096) = 0 \<and>
    (entries (table h) (-4096) AND 0x80 = 0 \<longrightarrow>
       heap_free h 0 = h\<lparr>table := (table h)\<lparr>entries := (entries (table h))(-4096 := 0)\<rparr>\<rparr>)"
proof -
  have b: "heap_address_to_block h 0 = -4096"
    using assms by (simp add: heap_address_to_block_def HEAP_ADDRESS_def HEAP_BLOCK_SIZE_def)
  have "nat (sint (total (table h)) + 4096) = 29696" using assms(2) by simp
  then obtain N where n: "nat (sint (total (table h)) + 4096) = Suc N"
    by (cases "nat (sint (total (table h)) + 4096)") auto
  have keep: "heap_free_loop es N i k = es k" if "k < i" for es N i k
    using that by (induction es N i rule: heap_free_loop.induct) (auto simp: Let_def)
  have "heap_free_loop (entries (table h)) (Suc N) (-4096) (-4096) = 0"
    using keep [of "-4096" "-4095"] by (simp add: Let_def ENTRY_FREE_def)
  with b n show ?thesis
    by (simp add: heap_free_def heap_mark_blocks_free_def Let_def ENTRY_FREE_def BLOCK_HAS_NEXT_def)
qed

text \<open>
  \<open>kfree(NULL)\<close> on the kernel heap. The function does not test for NULL: it
  computes block number -4096 and clears the byte 4096 before the table; if that byte has
  its top bit clear, this is the only byte that changes.
\<close>

theorem kfree_null:
  assumes "saddr h = HEAP_ADDRESS" "total (table h) = 25600"
  shows "heap_address_to_block h 0 = -4096 \<and> entries (table (heap_free h 0)) (-4096) = 0 \<and>
    (entries (table h) (-4096) AND 0x80 = 0 \<longrightarrow>
       heap_free h 0 = h\<lparr>table := (table h)\<lparr>entries := (entries (table h))(-4096 := 0)\<rparr>\<rparr>)"
  using assms by (rule heap_free_zero)

theorem kfree_null_witness:
  "entries (table (heap_free (snd (kheap_init (\<lambda>_. 0x7F) (sample_heap []))) 0)) (-4096) = 0"
  using kfree_null [of "snd (kheap_init (\<lambda>_. 0x7F) (sample_heap []))"]
  by (simp add: kheap_init_def heap_create_def heap_validate_alignment_def heap_validate_table_def
      HEAP_ADDRESS_def HEAP_SIZE_BYTES_def heap_consts)

end
