(* ===== verification/PagingProps.thy ===== *)
theory PagingProps
  imports PagingNew HeapProps
begin

text \<open>
  The properties of paging: a new address space is the identity map, \<open>paging_map_to\<close>
  maps exactly the pages of its range, address translation, and the life of an address
  space from \<open>paging_new_4gb\<close> over any mappings to \<open>paging_free_4gb\<close>.
\<close>

section \<open>Mapping a range\<close>

lemma paging_map_to_pages:
  assumes "page_aligned phys" "page_aligned phys_end" "phys \<le> phys_end"
  shows "unat (phys_end - phys) div 4096 < 2 ^ 20"
    "nat (sint ((phys_end - phys) div PAGING_PAGE_SIZE)) = unat (phys_end - phys) div 4096"
proof -
  show b: "unat (phys_end - phys) div 4096 < 2 ^ 20"
    using unat_u32_less [of "phys_end - phys"] by (simp add: less_mult_imp_div_less)
  have "unat ((phys_end - phys) div 4096) = unat (phys_end - phys) div 4096"
    by (simp add: unat_div_distrib)
  then have "(phys_end - phys) div 4096 = word_of_int (int (unat (phys_end - phys) div 4096))"
    by (metis of_int_of_nat_eq of_nat_unat_id)
  moreover have "sint (word_of_int (int (unat (phys_end - phys) div 4096)) :: u32) =
      int (unat (phys_end - phys) div 4096)"
    using b by (intro sint_word_of_int_u32) simp_all
  ultimately show "nat (sint ((phys_end - phys) div PAGING_PAGE_SIZE)) = unat (phys_end - phys) div 4096"
    by (simp add: PAGING_PAGE_SIZE_def)
qed

definition map_to_ok :: "u32 \<Rightarrow> u32 \<Rightarrow> u32 \<Rightarrow> bool" where
  "map_to_ok virt phys phys_end \<longleftrightarrow>
     page_aligned virt \<and> page_aligned phys \<and> page_aligned phys_end \<and> phys \<le> phys_end"

lemma map_to_bad: "\<not> map_to_ok virt phys phys_end \<Longrightarrow> paging_map_to m c virt phys phys_end flags = (- EINVARG, m)"
  by (auto simp: map_to_ok_def paging_map_to_def mod_page_zero not_le)

lemma map_to_loop:
  assumes "map_to_ok virt phys phys_end"
  shows "paging_map_to m c virt phys phys_end flags =
    paging_map_loop m c virt phys flags 0 (unat (phys_end - phys) div 4096)"
  using assms paging_map_to_pages [of phys phys_end]
  by (auto simp: map_to_ok_def paging_map_to_def mod_page_zero paging_map_range_def)

text \<open>
  C10. \<open>paging_map_to\<close> (paging.c) is all or nothing: if one of its three addresses is not
  page aligned, or the physical range ends before it starts, it returns \<open>-EINVARG\<close> and
  memory is unchanged; otherwise it returns 0, and afterwards the entry of a page is
  the corresponding page of the physical range with the flags if the page lies in the
  virtual range, and what it was before if it does not.
\<close>

theorem paging_map_to_spec:
  assumes "chunk_ok m c"
  shows "if map_to_ok virt phys phys_end
    then \<exists>m'. paging_map_to m c virt phys phys_end flags = (0, m') \<and>
           chunk_ok m' c \<and> load32 m' c = load32 m c \<and>
           (\<forall>w. page_aligned w \<longrightarrow> paging_get m' (load32 m c) w =
              (if in_range virt (unat (phys_end - phys) div 4096) w then (phys + (w - virt)) OR flags
               else paging_get m (load32 m c) w))
    else paging_map_to m c virt phys phys_end flags = (- EINVARG, m)"
proof (cases "map_to_ok virt phys phys_end")
  case True
  then have p: "page_aligned virt" "page_aligned phys" "unat (phys_end - phys) div 4096 \<le> 2 ^ 20"
    using paging_map_to_pages(1) [of phys phys_end] by (auto simp: map_to_ok_def)
  obtain m' where "paging_map_loop m c virt phys flags 0 (unat (phys_end - phys) div 4096) = (0, m')"
    "chunk_ok m' c" "load32 m' c = load32 m c"
    "\<And>w. page_aligned w \<Longrightarrow> paging_get m' (load32 m c) w =
       (if in_range virt (unat (phys_end - phys) div 4096) w then (phys + (w - virt)) OR flags
        else paging_get m (load32 m c) w)"
    using paging_map_loop_range [OF assms p refl] by blast
  with True show ?thesis unfolding map_to_loop [OF True] by auto
qed (simp add: map_to_bad)

definition boot_chunk :: "u32 \<times> kmem" where
  "boot_chunk = paging_new_4gb boot_kmem 7"

lemma boot_chunk_ok: "chunk_ok (ram (snd boot_chunk)) (fst boot_chunk)"
proof -
  obtain c m where "paging_new_4gb boot_kmem 7 = (c, m)" "fresh_chunk boot_kmem c m"
    by (rule paging_new_4gb_chunk [of boot_kmem 7]) (simp_all add: boot_kmem_facts)
  then show ?thesis by (simp add: boot_chunk_def fresh_chunk_def)
qed

theorem paging_map_to_spec_witness:
  "(\<exists>m'. paging_map_to (ram (snd boot_chunk)) (fst boot_chunk) 0x400000 0x1000000 0x1003000 7 = (0, m')) \<and>
   paging_map_to (ram (snd boot_chunk)) (fst boot_chunk) 0x400001 0x1000000 0x1003000 7
     = (- EINVARG, ram (snd boot_chunk))"
  using paging_map_to_spec [OF boot_chunk_ok, where virt = "0x400000" and phys = "0x1000000" and phys_end = "0x1003000" and flags = 7]
    paging_map_to_spec [OF boot_chunk_ok, where virt = "0x400001" and phys = "0x1000000" and phys_end = "0x1003000" and flags = 7]
  by (auto simp: map_to_ok_def page_aligned_def)

section \<open>Address translation\<close>

text \<open>
  \<open>paging_get_physical_address\<close> (paging.c) translates every address, aligned or not:
  if the page of the address is mapped to the page \<open>p\<close> with any flags in the low 12 bits,
  the result is the byte of \<open>p\<close> at the same offset within the page.
\<close>

theorem paging_translation:
  assumes "page_aligned p" "\<forall>n \<ge> 12. \<not> bit f n"
    and "paging_get m dir (paging_align_to_lower_page v) = p OR f"
  shows "paging_get_physical_address m dir v = p + (v - paging_align_to_lower_page v) \<and>
    unat (paging_get_physical_address m dir v) = unat p + unat v mod 4096"
proof -
  have d: "v - paging_align_to_lower_page v = of_nat (unat v mod 4096)"
    by (simp add: paging_align_to_lower_page_def PAGING_PAGE_SIZE_def unat_mod_distrib unat_of_nat_u32
        flip: unat_inj_iff)
  have t: "paging_get_physical_address m dir v = p + (v - paging_align_to_lower_page v)"
    using assms mask_flags [OF assms(1,2)] by (simp add: paging_get_physical_address_def Let_def)
  then show ?thesis unfolding d using unat_page_offset [OF assms(1), of "unat v mod 4096"] by simp
qed

theorem paging_translation_witness:
  "\<exists>m dir. unat (paging_get_physical_address m dir 0x400123) = 0x1000123"
proof -
  let ?r = "ram (snd boot_chunk)"
  have al: "page_aligned 0x400000" "page_aligned 0x1000000" by (simp_all add: page_aligned_def)
  obtain m' where m': "\<And>w. page_aligned w \<Longrightarrow> paging_get m' (load32 ?r (fst boot_chunk)) w =
      (if in_range 0x400000 1 w then (0x1000000 + (w - 0x400000)) OR 7
       else paging_get ?r (load32 ?r (fst boot_chunk)) w)"
    using paging_map_loop_range [OF boot_chunk_ok al _ refl, where n = 1 and flags = 7] by auto
  have "paging_align_to_lower_page 0x400123 = 0x400000"
    by (simp add: paging_align_to_lower_page_def PAGING_PAGE_SIZE_def)
  then have e: "paging_get m' (load32 ?r (fst boot_chunk)) (paging_align_to_lower_page 0x400123) = 0x1000000 OR 7"
    using m' by (simp add: page_aligned_def in_range_def)
  have "\<forall>n \<ge> 12. \<not> bit (7 :: u32) n"
    using flag_bits_small(2) [where f = 7] by simp
  from conjunct2 [OF paging_translation [OF al(2) this e]]
  have "unat (paging_get_physical_address m' (load32 ?r (fst boot_chunk)) 0x400123) = 0x1000123" by simp
  then show ?thesis by blast
qed

section \<open>The life of an address space\<close>

text \<open>
  C23. \<open>paging_new_4gb\<close> (paging.c): with 1026 free blocks in the heap it succeeds and uses
  exactly these, the new chunk is well formed (1024 distinct tables, none of them the
  directory or the chunk), and its address space is the identity: the entry of every page
  is that page with the flags passed, over all 4 GB.
\<close>

theorem paging_new_4gb_identity:
  assumes "kheap_ok m" "1026 \<le> kroom m"
  shows "\<exists>c m'. paging_new_4gb m flags = (c, m') \<and> c \<noteq> 0 \<and> kheap_ok m' \<and> chunk_ok (ram m') c \<and>
    kroom m = 1026 + kroom m' \<and>
    (\<forall>v. page_aligned v \<longrightarrow> paging_get (ram m') (load32 (ram m') c) v = v OR ucast flags)"
proof -
  obtain c m' where "paging_new_4gb m flags = (c, m')" "fresh_chunk m c m'" "kroom m = 1026 + kroom m'"
    "\<And>v. page_aligned v \<Longrightarrow> paging_get (ram m') (load32 (ram m') c) v = v OR ucast flags"
    using paging_new_4gb_chunk [OF assms] by blast
  then show ?thesis by (auto simp: fresh_chunk_def)
qed

theorem paging_new_4gb_identity_witness:
  "\<exists>c m'. paging_new_4gb boot_kmem 7 = (c, m') \<and> c \<noteq> 0 \<and> kheap_ok m' \<and> kroom m' = 24574"
  using paging_new_4gb_identity [of boot_kmem 7] by (auto simp: boot_kmem_facts)

text \<open>A sequence of mapping requests on a chunk, successful or not.\<close>

definition map_requests :: "u32 \<Rightarrow> (u32 \<times> u32 \<times> u32 \<times> u32) list \<Rightarrow> kmem \<Rightarrow> kmem" where
  "map_requests c rs m =
     fold (\<lambda>(v, p, e, fl) m. m\<lparr>ram := snd (paging_map_to (ram m) c v p e fl)\<rparr>) rs m"

lemma fresh_chunk_loop:
  assumes "fresh_chunk m0 c m" "page_aligned v" "page_aligned p"
  shows "fresh_chunk m0 c (m\<lparr>ram := snd (paging_map_loop (ram m) c v p fl res n)\<rparr>)"
  using assms
proof (induction n arbitrary: m v p res)
  case (Suc n)
  let ?m = "m\<lparr>ram := store32 (ram m) (slot (ram m) (load32 (ram m) c) v) (p OR fl)\<rparr>"
  have "fresh_chunk m0 c (?m\<lparr>ram := snd (paging_map_loop (ram ?m) c (v + 4096) (p + 4096) fl 0 n)\<rparr>)"
    using fresh_chunk_store [OF Suc.prems(1)] Suc.prems
    by (intro Suc.IH) (simp_all add: page_aligned_plus)
  then show ?case using paging_map_chunk [OF Suc.prems(2,3)] by (simp add: PAGING_PAGE_SIZE_def)
qed simp

lemma fresh_chunk_requests: "fresh_chunk m0 c m \<Longrightarrow> fresh_chunk m0 c (map_requests c rs m)"
proof (induction rs arbitrary: m)
  case (Cons r rs)
  obtain v p e fl where r: "r = (v, p, e, fl)" by (cases r)
  have "fresh_chunk m0 c (m\<lparr>ram := snd (paging_map_to (ram m) c v p e fl)\<rparr>)"
  proof (cases "map_to_ok v p e")
    case True
    then show ?thesis using fresh_chunk_loop [OF Cons.prems] by (simp add: map_to_loop map_to_ok_def)
  qed (simp add: map_to_bad Cons.prems)
  from Cons.IH [OF this] show ?case by (simp add: map_requests_def r)
qed (simp add: map_requests_def)

text \<open>
  No leak: creating an address space, mapping any ranges in it and freeing it with
  \<open>paging_free_4gb\<close> (paging.c) brings the kernel heap back to exactly the state before;
  all 1026 blocks are released, also after mappings that failed.
\<close>

theorem paging_life:
  assumes "kheap_ok m" "1026 \<le> kroom m" "paging_new_4gb m flags = (c, m')"
  shows "kernel_heap (paging_free_4gb (map_requests c rs m') c) = kernel_heap m"
proof -
  obtain "fresh_chunk m c m'"
    using paging_new_4gb_chunk [OF assms(1,2), of flags] assms(3) by auto
  from fresh_chunk_free [OF assms(1) fresh_chunk_requests [OF this]] show ?thesis .
qed

theorem paging_life_witness:
  "kernel_heap (paging_free_4gb (map_requests (fst boot_chunk)
     [(0x400000, 0x1000000, 0x1003000, 7), (0x3FF000, 0x1001000, 0x1000000, 7)] (snd boot_chunk))
     (fst boot_chunk)) = kernel_heap boot_kmem"
  by (rule paging_life [of boot_kmem 7]) (simp_all add: boot_kmem_facts boot_chunk_def)

end
