(* ===== verification/KernelState.thy ===== *)
theory KernelState
  imports FileLayer Keyboard Terminal ElfFormat PagingProps
begin

text \<open>
  The state of the running kernel: the objects of \<open>src/src/task/task.h\<close>, \<open>process.h\<close>,
  \<open>src/src/idt/idt.h\<close> and the global variables of \<open>task.c\<close>, \<open>process.c\<close>, \<open>idt.c\<close>,
  \<open>keyboard.c\<close> and \<open>kernel.c\<close>, in one record, because the handlers of \<open>isr80h\<close> reach all of
  them. A \<open>struct task\<close>, \<open>struct process\<close> or \<open>struct elf_file\<close> is an object in the kernel heap:
  a record in a map from its address. An address without an object (NULL, or one that was
  freed) has no record, and following it has no result (\<open>None\<close>). The
  kernel's memory itself (heap and RAM) is the one the file layer works on.
\<close>

section \<open>Objects\<close>

record registers =
  edi :: u32
  esi :: u32
  ebp :: u32
  ebx :: u32
  edx :: u32
  ecx :: u32
  eax :: u32
  ip :: u32
  cs :: u32
  eflags :: u32
  esp :: u32
  ss :: u32

record interrupt_frame =
  frame_edi :: u32
  frame_esi :: u32
  frame_ebp :: u32
  frame_reserved :: u32
  frame_ebx :: u32
  frame_edx :: u32
  frame_ecx :: u32
  frame_eax :: u32
  frame_ip :: u32
  frame_cs :: u32
  frame_flags :: u32
  frame_esp :: u32
  frame_ss :: u32

definition zero_registers :: registers where
  "zero_registers = \<lparr>edi = 0, esi = 0, ebp = 0, ebx = 0, edx = 0, ecx = 0, eax = 0, ip = 0, cs = 0,
     eflags = 0, esp = 0, ss = 0\<rparr>"

record task =
  page_directory :: u32
  registers_of :: registers
  process_of :: u32
  next_of :: u32
  prev_of :: u32

definition zero_task :: task where
  "zero_task = \<lparr>page_directory = 0, registers_of = zero_registers, process_of = 0, next_of = 0, prev_of = 0\<rparr>"

record process_allocation =
  alloc_ptr :: u32
  alloc_size :: u32

definition no_allocation :: process_allocation where
  "no_allocation = \<lparr>alloc_ptr = 0, alloc_size = 0\<rparr>"

definition PROCESS_FILETYPE_ELF :: u8 where "PROCESS_FILETYPE_ELF = 0"
definition PROCESS_FILETYPE_BINARY :: u8 where "PROCESS_FILETYPE_BINARY = 1"
definition HARDIKHYPERIONOS_MAX_PROGRAM_ALLOCATIONS :: nat where "HARDIKHYPERIONOS_MAX_PROGRAM_ALLOCATIONS = 1024"
definition HARDIKHYPERIONOS_MAX_PROCESSES :: nat where "HARDIKHYPERIONOS_MAX_PROCESSES = 12"

text \<open>\<open>program\<close> is the union of \<open>ptr\<close> and \<open>elf_file\<close>.\<close>

record process =
  pid :: u16
  filename :: "u8 list"
  task_of :: u32
  allocations :: "process_allocation list"
  filetype :: u8
  program :: u32
  stack :: u32
  program_size :: u32
  keys :: keyboard_buffer
  argc :: u32
  argv :: u32

definition zero_process :: process where
  "zero_process = \<lparr>pid = 0, filename = replicate HARDIKHYPERIONOS_MAX_PATH 0, task_of = 0,
     allocations = replicate HARDIKHYPERIONOS_MAX_PROGRAM_ALLOCATIONS no_allocation, filetype = 0, program = 0,
     stack = 0, program_size = 0, keys = empty_buffer, argc = 0, argv = 0\<rparr>"

text \<open>Gates of the interrupt table; a handler installed in C is the name of its function.\<close>

record idt_desc =
  offset_1 :: u16
  selector :: u16
  zero :: u8
  type_attr :: u8
  offset_2 :: u16

datatype interrupt_callback = Idt_handle_exception | Idt_clock | Classic_keyboard_handle_interrupt

datatype isr80h_command = Command0_sum | Command1_print | Command2_getkey | Command3_putchar | Command4_malloc
  | Command5_free | Command6_process_load_start | Command7_invoke_system_command
  | Command8_get_program_arguments | Command9_exit

record interrupt_state =
  idt_descriptors :: "idt_desc list"
  interrupt_callbacks :: "interrupt_callback option list"
  isr80h_commands :: "isr80h_command option list"

section \<open>The kernel\<close>

record kernel =
  file_layer :: file_state
  cpu :: mmu
  data_selector :: u32
  kernel_chunk :: u32
  tasks :: "u32 \<rightharpoonup> task"
  current_task :: u32
  task_head :: u32
  task_tail :: u32
  procs :: "u32 \<rightharpoonup> process"
  processes :: "u32 list"
  current_process :: u32
  elf_files :: "u32 \<rightharpoonup> elf_file"
  interrupts :: interrupt_state
  keyboards :: "keyboard list"
  screen :: terminal

text \<open>The kernel's memory.\<close>

definition mem :: "kernel \<Rightarrow> kmem" where
  "mem s = km (fsys (file_layer s))"

definition set_mem :: "kmem \<Rightarrow> kernel \<Rightarrow> kernel" where
  "set_mem m s = s\<lparr>file_layer := (file_layer s)\<lparr>fsys := (fsys (file_layer s))\<lparr>km := m\<rparr>\<rparr>\<rparr>"

definition set_ram :: "ram \<Rightarrow> kernel \<Rightarrow> kernel" where
  "set_ram r s = set_mem ((mem s)\<lparr>ram := r\<rparr>) s"

lemma mem_set_mem [simp]: "mem (set_mem m s) = m" "set_mem m (set_mem m' s) = set_mem m s"
  by (simp_all add: mem_def set_mem_def)

lemma set_mem_mem [simp]: "set_mem (mem s) s = s"
  by (simp add: mem_def set_mem_def)

lemma set_mem_fields [simp]:
  "cpu (set_mem m s) = cpu s" "data_selector (set_mem m s) = data_selector s"
  "kernel_chunk (set_mem m s) = kernel_chunk s" "tasks (set_mem m s) = tasks s"
  "current_task (set_mem m s) = current_task s" "task_head (set_mem m s) = task_head s"
  "task_tail (set_mem m s) = task_tail s" "procs (set_mem m s) = procs s"
  "processes (set_mem m s) = processes s" "current_process (set_mem m s) = current_process s"
  "elf_files (set_mem m s) = elf_files s" "interrupts (set_mem m s) = interrupts s"
  "keyboards (set_mem m s) = keyboards s" "screen (set_mem m s) = screen s"
  by (simp_all add: set_mem_def)

lemma mem_update [simp]:
  "mem (s\<lparr>cpu := c\<rparr>) = mem s" "mem (s\<lparr>data_selector := d\<rparr>) = mem s" "mem (s\<lparr>kernel_chunk := d\<rparr>) = mem s"
  "mem (s\<lparr>tasks := t\<rparr>) = mem s" "mem (s\<lparr>current_task := d\<rparr>) = mem s" "mem (s\<lparr>task_head := d\<rparr>) = mem s"
  "mem (s\<lparr>task_tail := d\<rparr>) = mem s" "mem (s\<lparr>procs := p\<rparr>) = mem s" "mem (s\<lparr>processes := ps\<rparr>) = mem s"
  "mem (s\<lparr>current_process := d\<rparr>) = mem s" "mem (s\<lparr>elf_files := e\<rparr>) = mem s" "mem (s\<lparr>interrupts := i\<rparr>) = mem s"
  "mem (s\<lparr>keyboards := k\<rparr>) = mem s" "mem (s\<lparr>screen := sc\<rparr>) = mem s"
  by (simp_all add: mem_def)

lemma set_mem_update [simp]:
  "(set_mem m s)\<lparr>cpu := v0\<rparr> = set_mem m (s\<lparr>cpu := v0\<rparr>)"
  "(set_mem m s)\<lparr>data_selector := v1\<rparr> = set_mem m (s\<lparr>data_selector := v1\<rparr>)"
  "(set_mem m s)\<lparr>kernel_chunk := v2\<rparr> = set_mem m (s\<lparr>kernel_chunk := v2\<rparr>)"
  "(set_mem m s)\<lparr>tasks := v3\<rparr> = set_mem m (s\<lparr>tasks := v3\<rparr>)"
  "(set_mem m s)\<lparr>current_task := v4\<rparr> = set_mem m (s\<lparr>current_task := v4\<rparr>)"
  "(set_mem m s)\<lparr>task_head := v5\<rparr> = set_mem m (s\<lparr>task_head := v5\<rparr>)"
  "(set_mem m s)\<lparr>task_tail := v6\<rparr> = set_mem m (s\<lparr>task_tail := v6\<rparr>)"
  "(set_mem m s)\<lparr>procs := v7\<rparr> = set_mem m (s\<lparr>procs := v7\<rparr>)"
  "(set_mem m s)\<lparr>processes := v8\<rparr> = set_mem m (s\<lparr>processes := v8\<rparr>)"
  "(set_mem m s)\<lparr>current_process := v9\<rparr> = set_mem m (s\<lparr>current_process := v9\<rparr>)"
  "(set_mem m s)\<lparr>elf_files := v10\<rparr> = set_mem m (s\<lparr>elf_files := v10\<rparr>)"
  "(set_mem m s)\<lparr>interrupts := v11\<rparr> = set_mem m (s\<lparr>interrupts := v11\<rparr>)"
  "(set_mem m s)\<lparr>keyboards := v12\<rparr> = set_mem m (s\<lparr>keyboards := v12\<rparr>)"
  "(set_mem m s)\<lparr>screen := v13\<rparr> = set_mem m (s\<lparr>screen := v13\<rparr>)"
  by (simp_all add: set_mem_def)

text \<open>Changing the heap.\<close>

definition on_mem :: "(kmem \<Rightarrow> kmem) \<Rightarrow> kernel \<Rightarrow> kernel" where
  "on_mem f s = set_mem (f (mem s)) s"

text \<open>Changing the object at an address; there has to be one.\<close>

definition put_task :: "u32 \<Rightarrow> (task \<Rightarrow> task) \<Rightarrow> kernel \<Rightarrow> kernel option" where
  "put_task p f s = do { t \<leftarrow> tasks s p; Some (s\<lparr>tasks := (tasks s)(p \<mapsto> f t)\<rparr>) }"

definition put_process :: "u32 \<Rightarrow> (process \<Rightarrow> process) \<Rightarrow> kernel \<Rightarrow> kernel option" where
  "put_process p f s = do { t \<leftarrow> procs s p; Some (s\<lparr>procs := (procs s)(p \<mapsto> f t)\<rparr>) }"

section \<open>Segment registers and pages of the kernel\<close>

definition USER_DATA_SEGMENT :: u32 where "USER_DATA_SEGMENT = 0x23"
definition USER_CODE_SEGMENT :: u32 where "USER_CODE_SEGMENT = 0x1b"
definition KERNEL_DATA_SELECTOR :: u32 where "KERNEL_DATA_SELECTOR = 0x10"
definition KERNEL_CODE_SELECTOR :: u32 where "KERNEL_CODE_SELECTOR = 0x08"

text \<open>Both are assembly: \<open>kernel_registers\<close> of \<open>kernel.asm\<close>, \<open>user_registers\<close> of \<open>task.asm\<close>.\<close>

definition kernel_registers :: "kernel \<Rightarrow> kernel" where
  "kernel_registers s = s\<lparr>data_selector := KERNEL_DATA_SELECTOR\<rparr>"

definition user_registers :: "kernel \<Rightarrow> kernel" where
  "user_registers s = s\<lparr>data_selector := USER_DATA_SEGMENT\<rparr>"

definition switch_page :: "u32 \<Rightarrow> kernel \<Rightarrow> kernel" where
  "switch_page chunk s = s\<lparr>cpu := paging_switch (ram (mem s)) (cpu s) chunk\<rparr>"

definition kernel_page :: "kernel \<Rightarrow> kernel" where
  "kernel_page s = switch_page (kernel_chunk s) (kernel_registers s)"

section \<open>Access through an address space\<close>

text \<open>
  What the processor does with a virtual address: both entries have to be present, and the
  kernel may write any present page.
\<close>

definition mapped :: "ram \<Rightarrow> u32 \<Rightarrow> u32 \<Rightarrow> bool" where
  "mapped m dir v \<longleftrightarrow> bit (load32 m (dir + (v div 0x400000) * 4)) 0 \<and>
     bit (paging_get m dir (paging_align_to_lower_page v)) 0"

definition vload :: "ram \<Rightarrow> u32 \<Rightarrow> u32 \<Rightarrow> u8 option" where
  "vload m dir v = (if mapped m dir v then Some (m (paging_get_physical_address m dir v)) else None)"

definition vstore :: "ram \<Rightarrow> u32 \<Rightarrow> u32 \<Rightarrow> u8 \<Rightarrow> ram option" where
  "vstore m dir v b = (if mapped m dir v then Some (m(paging_get_physical_address m dir v := b)) else None)"

definition vload32 :: "ram \<Rightarrow> u32 \<Rightarrow> u32 \<Rightarrow> u32 option" where
  "vload32 m dir v =
     do { b0 \<leftarrow> vload m dir v; b1 \<leftarrow> vload m dir (v + 1); b2 \<leftarrow> vload m dir (v + 2); b3 \<leftarrow> vload m dir (v + 3);
          Some (ucast b0 OR push_bit 8 (ucast b1) OR push_bit 16 (ucast b2) OR push_bit 24 (ucast b3)) }"

text \<open>\<open>strncpy\<close> between virtual addresses, with \<open>n\<close> characters left to copy.\<close>

fun vstrncpy_loop :: "ram \<Rightarrow> u32 \<Rightarrow> u32 \<Rightarrow> u32 \<Rightarrow> nat \<Rightarrow> ram option" where
  "vstrncpy_loop m dir dest src 0 = vstore m dir dest 0"
| "vstrncpy_loop m dir dest src (Suc n) =
     do { c \<leftarrow> vload m dir src;
          if c = 0 then vstore m dir dest 0
          else do { m' \<leftarrow> vstore m dir dest c; vstrncpy_loop m' dir (dest + 1) (src + 1) n } }"

definition vstrncpy :: "ram \<Rightarrow> u32 \<Rightarrow> u32 \<Rightarrow> u32 \<Rightarrow> int \<Rightarrow> ram option" where
  "vstrncpy m dir dest src n = vstrncpy_loop m dir dest src (nat (n - 1))"

end
