(* ===== verification/TaskSched.thy ===== *)
theory TaskSched
  imports KernelState
begin

text \<open>
  Tasks, \<open>src/src/task/task.c\<close>, with \<open>task_return\<close> of \<open>task.asm\<close>: the doubly linked list of tasks,
  the current task, switching, saving registers, and access to the memory of a task through
  its page directory. \<open>panic\<close> and following a pointer without an object give no result.
\<close>

section \<open>task.c\<close>

definition HARDIKHYPERION_OS_VIRTUAL_ADDRESS :: u32 where "HARDIKHYPERION_OS_VIRTUAL_ADDRESS = 0x400000"

definition PROGRAM_VIRTUAL_STACK_ADDRESS_START :: u32 where
  "PROGRAM_VIRTUAL_STACK_ADDRESS_START = 0x3FF000"

definition task_get_next :: "kernel \<Rightarrow> u32 option" where
  "task_get_next s =
     do { t \<leftarrow> tasks s (current_task s); Some (if next_of t = 0 then task_head s else next_of t) }"

definition task_list_remove :: "u32 \<Rightarrow> kernel \<Rightarrow> kernel option" where
  "task_list_remove task s =
     do { t \<leftarrow> tasks s task;
          s1 \<leftarrow> (if prev_of t \<noteq> 0 then put_task (prev_of t) (\<lambda>u. u\<lparr>next_of := next_of t\<rparr>) s else Some s);
          let s2 = (if task = task_head s1 then s1\<lparr>task_head := next_of t\<rparr> else s1);
          let s3 = (if task = task_tail s2 then s2\<lparr>task_tail := prev_of t\<rparr> else s2);
          if task = current_task s3
          then do { n \<leftarrow> task_get_next s3; Some (s3\<lparr>current_task := n\<rparr>) } else Some s3 }"

definition task_free :: "u32 \<Rightarrow> kernel \<Rightarrow> kernel option" where
  "task_free task s =
     do { t \<leftarrow> tasks s task;
          s1 \<leftarrow> task_list_remove task (on_mem (\<lambda>m. paging_free_4gb m (page_directory t)) s);
          Some (on_mem (\<lambda>m. kfree m task) (s1\<lparr>tasks := (tasks s1)(task := None)\<rparr>)) }"

text \<open>The task object exists and is zero when \<open>task_init\<close> is called; the flags are present and user.\<close>

definition task_init :: "u32 \<Rightarrow> u32 \<Rightarrow> kernel \<Rightarrow> (int \<times> kernel) option" where
  "task_init task process s =
     do { s0 \<leftarrow> put_task task (\<lambda>_. zero_task) s;
          let (chunk, m1) = paging_new_4gb (mem s0) (ucast (PAGING_IS_PRESENT OR PAGING_ACCESS_FROM_ALL));
          s1 \<leftarrow> put_task task (\<lambda>t. t\<lparr>page_directory := chunk\<rparr>) (set_mem m1 s0);
          if chunk = 0 then Some (- EIO, s1)
          else do { p \<leftarrow> procs s1 process;
            entry \<leftarrow> (if filetype p = PROCESS_FILETYPE_ELF
                      then do { f \<leftarrow> elf_files s1 (program p);
                                Some (e_entry (read_elf_header (ram (mem s1)) (elf_header_of f))) }
                      else Some HARDIKHYPERION_OS_VIRTUAL_ADDRESS);
            s2 \<leftarrow> put_task task (\<lambda>t. t\<lparr>registers_of := (registers_of t)\<lparr>ip := entry, ss := USER_DATA_SEGMENT,
                     cs := USER_CODE_SEGMENT, esp := PROGRAM_VIRTUAL_STACK_ADDRESS_START\<rparr>,
                   process_of := process\<rparr>) s1;
            Some (0, s2) } }"

definition sizeof_task :: u32 where "sizeof_task = 64"

definition task_new :: "u32 \<Rightarrow> kernel \<Rightarrow> (u32 \<times> kernel) option" where
  "task_new process s =
     do { let (task, m1) = kzalloc (mem s) sizeof_task;
          let s1 = set_mem m1 s;
          let s1 = (if task = 0 then s1 else s1\<lparr>tasks := (tasks s1)(task \<mapsto> zero_task)\<rparr>);
          (res, s2) \<leftarrow> (if task = 0 then Some (- ENOMEM, s1)
             else do { (res, s2) \<leftarrow> task_init task process s1;
               if res \<noteq> ALL_OK then Some (res, s2)
               else if task_head s2 = 0
               then Some (res, s2\<lparr>task_head := task, task_tail := task, current_task := task\<rparr>)
               else do { s3 \<leftarrow> put_task (task_tail s2) (\<lambda>t. t\<lparr>next_of := task\<rparr>) s2;
                         s4 \<leftarrow> put_task task (\<lambda>t. t\<lparr>prev_of := task_tail s3\<rparr>) s3;
                         Some (res, s4\<lparr>task_tail := task\<rparr>) } });
          if IS_ERR res then do { s3 \<leftarrow> task_free task s2; Some (ERROR res, s3) }
          else Some (task, s2) }"

definition task_switch :: "u32 \<Rightarrow> kernel \<Rightarrow> kernel option" where
  "task_switch task s =
     do { t \<leftarrow> tasks s task; Some (switch_page (page_directory t) (s\<lparr>current_task := task\<rparr>)) }"

text \<open>
  \<open>task_return\<close> loads the registers of the object and enters user mode. The flags are the kernel's
  with interrupts enabled. \<open>restore_general_purpose_registers\<close> loads \<open>ebp\<close> and then pops the value
  it pushed on entry into it: the base pointer of the kernel.
\<close>

definition task_return :: "u32 \<Rightarrow> u32 \<Rightarrow> registers \<Rightarrow> registers" where
  "task_return kernel_ebp kernel_flags regs = regs\<lparr>ebp := kernel_ebp, eflags := kernel_flags OR 0x200\<rparr>"

text \<open>\<open>task_next\<close> ends in \<open>task_return\<close> with the registers it is given here.\<close>

definition task_next :: "kernel \<Rightarrow> (registers \<times> kernel) option" where
  "task_next s =
     do { next_task \<leftarrow> task_get_next s;
          if next_task = 0 then None
          else do { s' \<leftarrow> task_switch next_task s; t \<leftarrow> tasks s' next_task; Some (registers_of t, s') } }"

definition task_save_state :: "u32 \<Rightarrow> interrupt_frame \<Rightarrow> kernel \<Rightarrow> kernel option" where
  "task_save_state task frame s =
     put_task task (\<lambda>t. t\<lparr>registers_of := \<lparr>edi = frame_edi frame, esi = frame_esi frame, ebp = frame_ebp frame,
        ebx = frame_ebx frame, edx = frame_edx frame, ecx = frame_ecx frame, eax = frame_eax frame,
        ip = frame_ip frame, cs = frame_cs frame, eflags = frame_flags frame, esp = frame_esp frame,
        ss = frame_ss frame\<rparr>\<rparr>) s"

definition task_current_save_state :: "interrupt_frame \<Rightarrow> kernel \<Rightarrow> kernel option" where
  "task_current_save_state frame s =
     (if current_task s = 0 then None else task_save_state (current_task s) frame s)"

definition task_page :: "kernel \<Rightarrow> kernel option" where
  "task_page s = task_switch (current_task s) (user_registers s)"

definition task_page_task :: "u32 \<Rightarrow> kernel \<Rightarrow> kernel option" where
  "task_page_task task s =
     do { t \<leftarrow> tasks s task; Some (switch_page (page_directory t) (user_registers s)) }"

definition task_run_first_ever_task :: "kernel \<Rightarrow> (registers \<times> kernel) option" where
  "task_run_first_ever_task s =
     (if current_task s = 0 then None
      else do { s' \<leftarrow> task_switch (task_head s) s; t \<leftarrow> tasks s' (task_head s'); Some (registers_of t, s') })"

text \<open>
  The string is copied through a block \<open>tmp\<close> that is mapped in the address space of the task for
  the time of the copy; the target \<open>phys\<close> is an object of the kernel.
\<close>

definition copy_string_from_task :: "u32 \<Rightarrow> u32 \<Rightarrow> u8 list \<Rightarrow> int \<Rightarrow> kernel \<Rightarrow> (int \<times> u8 list \<times> kernel) option" where
  "copy_string_from_task task virtual phys mx s =
     (if mx \<ge> 4096 then Some (- EINVARG, phys, s)
      else let (tmp, m1) = kzalloc (mem s) (word_of_int mx); s1 = set_mem m1 s
      in if tmp = 0 then Some (- ENOMEM, phys, s1)
      else do { t \<leftarrow> tasks s1 task;
        let task_directory = load32 (ram (mem s1)) (page_directory t);
        let old_entry = paging_get (ram (mem s1)) task_directory tmp;
        let (_, r2) = paging_map (ram (mem s1)) (page_directory t) tmp tmp
              (PAGING_IS_WRITEABLE OR PAGING_IS_PRESENT OR PAGING_ACCESS_FROM_ALL);
        let s2 = switch_page (page_directory t) (set_ram r2 s1);
        r3 \<leftarrow> vstrncpy (ram (mem s2)) (cr3 (cpu s2)) tmp virtual mx;
        let s3 = kernel_page (set_ram r3 s2);
        let (res, r4) = paging_set (ram (mem s3)) task_directory tmp old_entry;
        let s4 = set_ram r4 s3;
        (res', phys') \<leftarrow> (if res < 0 then Some (- EIO, phys)
          else do { phys' \<leftarrow> strncpy phys 0 (ram_bytes (ram (mem s4)) tmp (nat mx)) mx; Some (res, phys') });
        Some (res', phys', on_mem (\<lambda>m. kfree m tmp) s4) })"

definition task_get_stack_item :: "u32 \<Rightarrow> nat \<Rightarrow> kernel \<Rightarrow> (u32 \<times> kernel) option" where
  "task_get_stack_item task item s =
     do { t \<leftarrow> tasks s task;
          let sp_ptr = esp (registers_of t);
          s1 \<leftarrow> task_page_task task s;
          result \<leftarrow> vload32 (ram (mem s1)) (cr3 (cpu s1)) (sp_ptr + of_nat item * 4);
          Some (result, kernel_page s1) }"

definition task_virtual_address_to_physical :: "u32 \<Rightarrow> u32 \<Rightarrow> kernel \<Rightarrow> u32 option" where
  "task_virtual_address_to_physical task virtual_address s =
     do { t \<leftarrow> tasks s task;
          Some (paging_get_physical_address (ram (mem s)) (load32 (ram (mem s)) (page_directory t)) virtual_address) }"

section \<open>Steps of the scheduler\<close>

text \<open>The address of the task before a task in the list, 0 before the first.\<close>

fun before :: "u32 list \<Rightarrow> u32 \<Rightarrow> u32" where
  "before [] p = 0"
| "before [q] p = 0"
| "before (q # r # ps) p = (if r = p then q else before (r # ps) p)"

text \<open>
  \<open>linked T ps e\<close>: following \<open>next\<close> from the first address gives exactly the list, and then \<open>e\<close>. The links \<open>prev\<close>
  need not be right: \<open>task_list_remove\<close> does not update the one of the task after the removed one.
\<close>

fun linked :: "(u32 \<rightharpoonup> task) \<Rightarrow> u32 list \<Rightarrow> u32 \<Rightarrow> bool" where
  "linked T [] e = True"
| "linked T (p # ps) e =
     ((case T p of None \<Rightarrow> False | Some t \<Rightarrow> next_of t = (if ps = [] then e else hd ps)) \<and> linked T ps e)"

definition prev_right :: "kernel \<Rightarrow> u32 list \<Rightarrow> u32 \<Rightarrow> bool" where
  "prev_right s ps p \<longleftrightarrow> (\<exists>t. tasks s p = Some t \<and> prev_of t = before ps p)"

text \<open>
  \<open>task_links s ps\<close>: the list of tasks is \<open>ps\<close>; the task after a removed one keeps a wrong \<open>prev\<close>.
\<close>

definition task_links :: "kernel \<Rightarrow> u32 list \<Rightarrow> bool" where
  "task_links s ps \<longleftrightarrow> distinct ps \<and> 0 \<notin> set ps \<and> dom (tasks s) = set ps \<and> linked (tasks s) ps 0 \<and>
     task_head s = (if ps = [] then 0 else hd ps) \<and> (ps \<noteq> [] \<longrightarrow> task_tail s = last ps) \<and>
     (ps = [] \<longrightarrow> current_task s = 0) \<and> (ps \<noteq> [] \<longrightarrow> current_task s \<in> set ps)"

text \<open>The heap blocks of the tasks: each task object, and the blocks of its address space.\<close>

definition task_blocks :: "kernel \<Rightarrow> u32 \<Rightarrow> u32 list" where
  "task_blocks s p = (case tasks s p of None \<Rightarrow> [] | Some t \<Rightarrow> p # chunk_blocks (ram (mem s)) (page_directory t))"

text \<open>
  \<open>sched_ok m0 s ps\<close>: the tasks are linked as \<open>ps\<close>, each has a well-formed address space, and the
  kernel heap is that of \<open>m0\<close> with the blocks of the tasks allocated in addition, all different.
\<close>

definition sched_ok :: "kmem \<Rightarrow> kernel \<Rightarrow> u32 list \<Rightarrow> bool" where
  "sched_ok m0 s ps \<longleftrightarrow> task_links s ps \<and> kgrown m0 (concat (map (task_blocks s) ps)) (mem s) \<and>
     (\<forall>p t. tasks s p = Some t \<longrightarrow> chunk_ok (ram (mem s)) (page_directory t))"

text \<open>
  What the kernel does to the scheduler: it creates a task, runs the next one, saves the current one or frees one. A run records
  each operation with the state it was done in.
\<close>

datatype sched_op = Create u32 | Tick | SaveState interrupt_frame | Release u32

inductive sched_step :: "sched_op \<Rightarrow> kernel \<Rightarrow> kernel \<Rightarrow> bool" where
  New: "task_new process s = Some (p, s') \<Longrightarrow> sched_step (Create process) s s'"
| Next: "task_next s = Some (regs, s') \<Longrightarrow> sched_step Tick s s'"
| Save: "task_current_save_state frame s = Some s' \<Longrightarrow> sched_step (SaveState frame) s s'"
| Free: "task_free p s = Some s' \<Longrightarrow> sched_step (Release p) s s'"

inductive sched_run :: "kernel \<Rightarrow> (kernel \<times> sched_op) list \<Rightarrow> kernel \<Rightarrow> bool" where
  Done: "sched_run s [] s"
| Step: "sched_step x s s' \<Longrightarrow> sched_run s' tr s'' \<Longrightarrow> sched_run s ((s, x) # tr) s''"

text \<open>
  What the code does not check. \<open>paging_new_4gb\<close> builds its tables at NULL when the heap runs out in the middle, and
  \<open>task_list_remove\<close> writes through a \<open>prev\<close> that can be stale: no more a task, then there is no result, or, if the
  address has been given to a new task, the wrong one. So a task is created with blocks for all of it or with none at all, and if the
  \<open>prev\<close> of a task to be freed is a task, it is the one before it.
\<close>

fun sched_safe :: "kernel \<times> sched_op \<Rightarrow> bool" where
  "sched_safe (s, Create process) \<longleftrightarrow> kroom (mem s) = 0 \<or> 1027 \<le> kroom (mem s)"
| "sched_safe (s, Release p) \<longleftrightarrow>
     (case tasks s p of None \<Rightarrow> True
      | Some t \<Rightarrow> if prev_of t = 0 then task_head s = p
          else (case tasks s (prev_of t) of None \<Rightarrow> True | Some q \<Rightarrow> next_of q = p))"
| "sched_safe (s, x) \<longleftrightarrow> True"

inductive_cases sched_stepE: "sched_step x s s'"

lemmas sched_step_cases = sched_stepE [consumes 1, case_names New Next Save Free]

end
