(* ===== verification/ElfLoad.thy ===== *)
theory ElfLoad
  imports TaskSched
begin

text \<open>
  \<open>elf_load\<close> and \<open>elf_close\<close> of \<open>src/src/loader/formats/elfloader.c\<close>: an executable is read into
  a block of the kernel heap, checked, and its object filled. \<open>ops\<close> are the file systems.
\<close>

definition on_files :: "(file_state \<Rightarrow> ('a \<times> file_state) option) \<Rightarrow> kernel \<Rightarrow> ('a \<times> kernel) option" where
  "on_files g s = do { (r, f) \<leftarrow> g (file_layer s); Some (r, s\<lparr>file_layer := f\<rparr>) }"

definition put_elf_file :: "u32 \<Rightarrow> (elf_file \<Rightarrow> elf_file) \<Rightarrow> kernel \<Rightarrow> kernel option" where
  "put_elf_file p f s = do { e \<leftarrow> elf_files s p; Some (s\<lparr>elf_files := (elf_files s)(p \<mapsto> f e)\<rparr>) }"

text \<open>
  \<open>fread(p, size, 1, fd)\<close> with a block of the heap as the target; the block holds \<open>size\<close> bytes,
  and NULL holds none.
\<close>

definition fread_block :: "(fs_ref \<Rightarrow> fs_ops) \<Rightarrow> u32 \<Rightarrow> u32 \<Rightarrow> int \<Rightarrow> kernel \<Rightarrow> (int \<times> kernel) option" where
  "fread_block ops p sz fd s =
     do { ((res, bytes), s') \<leftarrow> on_files (\<lambda>f. do {
            (res, f', bytes) \<leftarrow> fread ops f (if p = 0 then [] else ram_bytes (ram (mem s)) p (unat sz)) 0 sz 1 fd;
            Some ((res, bytes), f') }) s;
          Some (res, if p = 0 then s' else set_ram (ram_write (ram (mem s')) p bytes) s') }"

definition sizeof_elf_file :: u32 where "sizeof_elf_file = 132"

text \<open>What \<open>elf_load\<close> does with an open file: the status and, on success, the value of \<open>*file_out\<close>.\<close>

definition elf_load_file :: "(fs_ref \<Rightarrow> fs_ops) \<Rightarrow> u32 \<Rightarrow> int \<Rightarrow> kernel \<Rightarrow> (int \<times> u32 option \<times> kernel) option" where
  "elf_load_file ops elf_file fd s =
     do { (res, stat) \<leftarrow> fstat ops (file_layer s) fd \<lparr>st_flags = 0, st_filesize = 0\<rparr>;
          if res < 0 then Some (res, None, s)
          else do {
            let (memory, m1) = kzalloc (mem s) (st_filesize stat);
            s1 \<leftarrow> put_elf_file elf_file (\<lambda>e. e\<lparr>elf_memory := memory\<rparr>) (set_mem m1 s);
            (res, s2) \<leftarrow> fread_block ops memory (st_filesize stat) fd s1;
            if res < 0 then Some (res, None, s2)
            else do {
              e \<leftarrow> elf_files s2 elf_file;
              let (res, e') = elf_process_loaded (ram (mem s2)) e;
              s3 \<leftarrow> put_elf_file elf_file (\<lambda>_. e') s2;
              Some (res, if res < 0 then None else Some elf_file, s3) } } }"

definition elf_load :: "(fs_ref \<Rightarrow> fs_ops) \<Rightarrow> u8 list \<Rightarrow> kernel \<Rightarrow> (int \<times> u32 option \<times> kernel) option" where
  "elf_load ops fname s =
     do { let (elf_file, m1) = kzalloc (mem s) sizeof_elf_file;
          let s1 = set_mem m1 s;
          let s1 = (if elf_file = 0 then s1 else s1\<lparr>elf_files := (elf_files s1)(elf_file \<mapsto> zero_elf_file)\<rparr>);
          (fd, s2) \<leftarrow> on_files (\<lambda>f. fopen ops f fname (ascii ''r'' @ [0])) s1;
          (res, file_out, s3) \<leftarrow> (if fd \<le> 0 then Some (- EIO, None, s2) else elf_load_file ops elf_file fd s2);
          (_, s4) \<leftarrow> on_files (\<lambda>f. fclose ops f (if fd \<le> 0 then 0 else fd)) s3;
          Some (res, file_out, s4) }"

definition elf_close :: "u32 \<Rightarrow> kernel \<Rightarrow> kernel option" where
  "elf_close file s =
     (if file = 0 then Some s
      else do { e \<leftarrow> elf_files s file;
                Some (on_mem (\<lambda>m. kfree (kfree m (elf_memory e)) file) (s\<lparr>elf_files := (elf_files s)(file := None)\<rparr>)) })"

end
