(* ===== verification/ProcessMgr.thy ===== *)
theory ProcessMgr
  imports ElfLoad
begin

text \<open>
  Processes, \<open>src/src/task/process.c\<close>: the table of processes, the memory a process allocates in its
  address space, its arguments, loading a program and terminating it. A process is known by the
  address of its object.
\<close>

section \<open>The table\<close>

definition process_get :: "int \<Rightarrow> kernel \<Rightarrow> u32" where
  "process_get process_id s =
     (if process_id < 0 \<or> process_id \<ge> int HARDIKHYPERIONOS_MAX_PROCESSES then 0
      else processes s ! nat process_id)"

definition process_switch :: "u32 \<Rightarrow> kernel \<Rightarrow> kernel" where
  "process_switch process s = s\<lparr>current_process := process\<rparr>"

fun free_slot_loop :: "u32 list \<Rightarrow> int \<Rightarrow> int" where
  "free_slot_loop [] i = - EISTKN"
| "free_slot_loop (p # ps) i = (if p = 0 then i else free_slot_loop ps (i + 1))"

definition progess_get_free_slot :: "kernel \<Rightarrow> int" where
  "progess_get_free_slot s = free_slot_loop (processes s) 0"

text \<open>Panics without a process.\<close>

definition process_switch_to_any :: "kernel \<Rightarrow> kernel option" where
  "process_switch_to_any s =
     (case filter (\<lambda>p. p \<noteq> 0) (processes s) of [] \<Rightarrow> None | p # _ \<Rightarrow> Some (process_switch p s))"

definition process_unlink :: "u32 \<Rightarrow> kernel \<Rightarrow> kernel option" where
  "process_unlink process s =
     do { p \<leftarrow> procs s process;
          ps \<leftarrow> arr_set (processes s) (int (unat (pid p))) 0;
          let s1 = s\<lparr>processes := ps\<rparr>;
          if current_process s1 = process then process_switch_to_any s1 else Some s1 }"

section \<open>Memory of a process\<close>

fun free_allocation_loop :: "process_allocation list \<Rightarrow> int \<Rightarrow> int" where
  "free_allocation_loop [] i = - ENOMEM"
| "free_allocation_loop (a # as) i = (if alloc_ptr a = 0 then i else free_allocation_loop as (i + 1))"

definition process_find_free_allocation_index :: "process \<Rightarrow> int" where
  "process_find_free_allocation_index p = free_allocation_loop (allocations p) 0"

text \<open>The address space of a process.\<close>

definition process_chunk :: "u32 \<Rightarrow> kernel \<Rightarrow> u32 option" where
  "process_chunk process s = do { p \<leftarrow> procs s process; t \<leftarrow> tasks s (task_of p); Some (page_directory t) }"

definition PAGE_FLAGS_ALL :: u32 where
  "PAGE_FLAGS_ALL = PAGING_IS_WRITEABLE OR PAGING_IS_PRESENT OR PAGING_ACCESS_FROM_ALL"

text \<open>\<open>paging_map_to\<close> in the address space of a process.\<close>

definition process_map_to :: "u32 \<Rightarrow> u32 \<Rightarrow> u32 \<Rightarrow> u32 \<Rightarrow> u32 \<Rightarrow> kernel \<Rightarrow> (int \<times> kernel) option" where
  "process_map_to process virt phys phys_end flgs s =
     do { c \<leftarrow> process_chunk process s;
          let (res, r) = paging_map_to (ram (mem s)) c virt phys phys_end flgs;
          Some (res, set_ram r s) }"

definition process_malloc :: "u32 \<Rightarrow> u32 \<Rightarrow> kernel \<Rightarrow> (u32 \<times> kernel) option" where
  "process_malloc process sz s =
     (let (ptr, m1) = kzalloc (mem s) sz; s1 = set_mem m1 s
      in if ptr = 0 then Some (0, s1)
         else do { p \<leftarrow> procs s1 process;
           let i = process_find_free_allocation_index p;
           if i < 0 then Some (0, on_mem (\<lambda>m. kfree m ptr) s1)
           else do { (res, s2) \<leftarrow> process_map_to process ptr ptr (paging_align_address (ptr + sz)) PAGE_FLAGS_ALL s1;
             if res < 0 then Some (0, on_mem (\<lambda>m. kfree m ptr) s2)
             else do { s3 \<leftarrow> put_process process
                 (\<lambda>p. p\<lparr>allocations := (allocations p)[nat i := \<lparr>alloc_ptr = ptr, alloc_size = sz\<rparr>]\<rparr>) s2;
               Some (ptr, s3) } } })"

definition process_is_process_pointer :: "process \<Rightarrow> u32 \<Rightarrow> bool" where
  "process_is_process_pointer p ptr \<longleftrightarrow> list_ex (\<lambda>a. alloc_ptr a = ptr) (allocations p)"

definition process_allocation_unjoin :: "u32 \<Rightarrow> process \<Rightarrow> process" where
  "process_allocation_unjoin ptr p =
     p\<lparr>allocations := map (\<lambda>a. if alloc_ptr a = ptr then no_allocation else a) (allocations p)\<rparr>"

definition process_get_allocation_by_addr :: "process \<Rightarrow> u32 \<Rightarrow> process_allocation option" where
  "process_get_allocation_by_addr p addr = find (\<lambda>a. alloc_ptr a = addr) (allocations p)"

definition process_free :: "u32 \<Rightarrow> u32 \<Rightarrow> kernel \<Rightarrow> kernel option" where
  "process_free process ptr s =
     do { p \<leftarrow> procs s process;
          case process_get_allocation_by_addr p ptr of None \<Rightarrow> Some s
          | Some a \<Rightarrow> do {
              (res, s1) \<leftarrow> process_map_to process (alloc_ptr a) (alloc_ptr a)
                (paging_align_address (alloc_ptr a + alloc_size a)) 0x00 s;
              if res < 0 then Some s1
              else do { s2 \<leftarrow> put_process process (process_allocation_unjoin ptr) s1;
                Some (on_mem (\<lambda>m. kfree m ptr) s2) } } }"

text \<open>The loop of \<open>process_terminate_allocations\<close>, from index \<open>i\<close>, \<open>n\<close> left.\<close>

fun terminate_allocations_loop :: "u32 \<Rightarrow> nat \<Rightarrow> nat \<Rightarrow> kernel \<Rightarrow> kernel option" where
  "terminate_allocations_loop process i 0 s = Some s"
| "terminate_allocations_loop process i (Suc n) s =
     do { p \<leftarrow> procs s process;
          a \<leftarrow> arr_get (allocations p) (int i);
          s1 \<leftarrow> process_free process (alloc_ptr a) s;
          terminate_allocations_loop process (Suc i) n s1 }"

definition process_terminate_allocations :: "u32 \<Rightarrow> kernel \<Rightarrow> (int \<times> kernel) option" where
  "process_terminate_allocations process s =
     do { s1 \<leftarrow> terminate_allocations_loop process 0 HARDIKHYPERIONOS_MAX_PROGRAM_ALLOCATIONS s; Some (0, s1) }"

section \<open>Termination\<close>

definition process_free_binary_data :: "u32 \<Rightarrow> kernel \<Rightarrow> (int \<times> kernel) option" where
  "process_free_binary_data process s =
     do { p \<leftarrow> procs s process; Some (0, on_mem (\<lambda>m. kfree m (program p)) s) }"

definition process_free_elf_data :: "u32 \<Rightarrow> kernel \<Rightarrow> (int \<times> kernel) option" where
  "process_free_elf_data process s =
     do { p \<leftarrow> procs s process; s1 \<leftarrow> elf_close (program p) s; Some (0, s1) }"

definition process_free_program_data :: "u32 \<Rightarrow> kernel \<Rightarrow> (int \<times> kernel) option" where
  "process_free_program_data process s =
     do { p \<leftarrow> procs s process;
          if filetype p = PROCESS_FILETYPE_BINARY then process_free_binary_data process s
          else if filetype p = PROCESS_FILETYPE_ELF then process_free_elf_data process s
          else Some (- EINVARG, s) }"

text \<open>The object of the process itself is not freed.\<close>

definition process_terminate :: "u32 \<Rightarrow> kernel \<Rightarrow> (int \<times> kernel) option" where
  "process_terminate process s =
     do { (res, s1) \<leftarrow> process_terminate_allocations process s;
          if res < 0 then Some (res, s1)
          else do { (res, s2) \<leftarrow> process_free_program_data process s1;
            if res < 0 then Some (res, s2)
            else do { p \<leftarrow> procs s2 process;
              let s3 = on_mem (\<lambda>m. kfree m (stack p)) s2;
              s4 \<leftarrow> task_free (task_of p) s3;
              s5 \<leftarrow> process_unlink process s4;
              Some (res, s5) } } }"

section \<open>Arguments\<close>

definition process_get_arguments :: "u32 \<Rightarrow> kernel \<Rightarrow> (u32 \<times> u32) option" where
  "process_get_arguments process s = do { p \<leftarrow> procs s process; Some (argc p, argv p) }"

definition sizeof_argument :: nat where "sizeof_argument = 512"

text \<open>The list of arguments is in memory, linked at offset 512; a cycle is never left.\<close>

partial_function (option) count_command_arguments :: "ram \<Rightarrow> u32 \<Rightarrow> int \<Rightarrow> int option" where
  "count_command_arguments m current i =
     (if current = 0 then Some i
      else count_command_arguments m (load32 m (current + of_nat sizeof_argument)) (i + 1))"

definition process_count_command_arguments :: "ram \<Rightarrow> u32 \<Rightarrow> int option" where
  "process_count_command_arguments m root_argument = count_command_arguments m root_argument 0"

text \<open>\<open>strncpy\<close> between blocks of memory, with \<open>n\<close> characters left to copy.\<close>

fun ram_strncpy_loop :: "ram \<Rightarrow> u32 \<Rightarrow> u32 \<Rightarrow> nat \<Rightarrow> ram" where
  "ram_strncpy_loop m dest src 0 = m(dest := 0)"
| "ram_strncpy_loop m dest src (Suc n) =
     (if m src = 0 then m(dest := 0) else ram_strncpy_loop (m(dest := m src)) (dest + 1) (src + 1) n)"

definition ram_strncpy :: "ram \<Rightarrow> u32 \<Rightarrow> u32 \<Rightarrow> int \<Rightarrow> ram" where
  "ram_strncpy m dest src n = ram_strncpy_loop m dest src (nat (n - 1))"

partial_function (option) inject_loop :: "u32 \<Rightarrow> u32 \<Rightarrow> u32 \<Rightarrow> nat \<Rightarrow> kernel \<Rightarrow> (int \<times> kernel) option" where
  "inject_loop process args current i s =
     (if current = 0 then Some (0, s)
      else do { (argument_str, s1) \<leftarrow> process_malloc process (of_nat sizeof_argument) s;
        if argument_str = 0 then Some (- ENOMEM, s1)
        else do {
          let s2 = set_ram (ram_strncpy (ram (mem s1)) argument_str current (int sizeof_argument)) s1;
          let s3 = set_ram (store32 (ram (mem s2)) (args + of_nat i * 4) argument_str) s2;
          inject_loop process args (load32 (ram (mem s3)) (current + of_nat sizeof_argument)) (Suc i) s3 } })"

definition process_inject_arguments :: "u32 \<Rightarrow> u32 \<Rightarrow> kernel \<Rightarrow> (int \<times> kernel) option" where
  "process_inject_arguments process root_argument s =
     do { n \<leftarrow> process_count_command_arguments (ram (mem s)) root_argument;
          if n = 0 then Some (- EIO, s)
          else do { (args, s1) \<leftarrow> process_malloc process (4 * word_of_int n) s;
            if args = 0 then Some (- ENOMEM, s1)
            else do { (res, s2) \<leftarrow> inject_loop process args root_argument 0 s1;
              if res < 0 then Some (res, s2)
              else do { s3 \<leftarrow> put_process process (\<lambda>p. p\<lparr>argc := word_of_int n, argv := args\<rparr>) s2; Some (res, s3) } } } }"

end
