(* ===== verification/ProcessLoad.thy ===== *)
theory ProcessLoad
  imports ProcessMgr
begin

text \<open>
  Loading a program, the second half of \<open>src/src/task/process.c\<close>: an executable or a plain binary
  is read, mapped with its stack into the address space of a new task, and the process is entered in
  the table. \<open>ops\<close> are the file systems.
\<close>

definition HARDIKHYPERIONOS_USER_PROGRAM_STACK_SIZE :: u32 where
  "HARDIKHYPERIONOS_USER_PROGRAM_STACK_SIZE = 1024 * 16"

definition PROGRAM_VIRTUAL_STACK_ADDRESS_END :: u32 where
  "PROGRAM_VIRTUAL_STACK_ADDRESS_END = PROGRAM_VIRTUAL_STACK_ADDRESS_START - HARDIKHYPERIONOS_USER_PROGRAM_STACK_SIZE"

section \<open>Reading the program\<close>

text \<open>The part of \<open>process_load_binary\<close> before the label \<open>out\<close>, with an open file.\<close>

definition load_binary_file :: "(fs_ref \<Rightarrow> fs_ops) \<Rightarrow> u32 \<Rightarrow> int \<Rightarrow> kernel \<Rightarrow> (int \<times> kernel) option" where
  "load_binary_file ops process fd s =
     do { (res, stat) \<leftarrow> fstat ops (file_layer s) fd \<lparr>st_flags = 0, st_filesize = 0\<rparr>;
          if res \<noteq> ALL_OK then Some (res, s)
          else do {
            let (program_data_ptr, m1) = kzalloc (mem s) (st_filesize stat);
            let s1 = set_mem m1 s;
            if program_data_ptr = 0 then Some (- ENOMEM, s1)
            else do { (n, s2) \<leftarrow> fread_block ops program_data_ptr (st_filesize stat) fd s1;
              if n \<noteq> 1 then Some (- EIO, s2)
              else do { s3 \<leftarrow> put_process process (\<lambda>p. p\<lparr>filetype := PROCESS_FILETYPE_BINARY,
                          program := program_data_ptr, program_size := st_filesize stat\<rparr>) s2;
                Some (res, s3) } } } }"

definition process_load_binary :: "(fs_ref \<Rightarrow> fs_ops) \<Rightarrow> u8 list \<Rightarrow> u32 \<Rightarrow> kernel \<Rightarrow> (int \<times> kernel) option" where
  "process_load_binary ops fname process s =
     do { (fd, s1) \<leftarrow> on_files (\<lambda>f. fopen ops f fname (ascii ''r'' @ [0])) s;
          (res, s2) \<leftarrow> (if fd = 0 then Some (- EIO, s1) else load_binary_file ops process fd s1);
          (_, s3) \<leftarrow> on_files (\<lambda>f. fclose ops f fd) s2;
          Some (res, s3) }"

definition process_load_elf :: "(fs_ref \<Rightarrow> fs_ops) \<Rightarrow> u8 list \<Rightarrow> u32 \<Rightarrow> kernel \<Rightarrow> (int \<times> kernel) option" where
  "process_load_elf ops fname process s =
     do { (res, file_out, s1) \<leftarrow> elf_load ops fname s;
          if IS_ERR res then Some (res, s1)
          else do { s2 \<leftarrow> put_process process (\<lambda>p. p\<lparr>filetype := PROCESS_FILETYPE_ELF,
                      program := (case file_out of None \<Rightarrow> 0 | Some f \<Rightarrow> f)\<rparr>) s1;
            Some (res, s2) } }"

definition process_load_data :: "(fs_ref \<Rightarrow> fs_ops) \<Rightarrow> u8 list \<Rightarrow> u32 \<Rightarrow> kernel \<Rightarrow> (int \<times> kernel) option" where
  "process_load_data ops fname process s =
     do { (res, s1) \<leftarrow> process_load_elf ops fname process s;
          if res = - EINFORMAT then process_load_binary ops fname process s1 else Some (res, s1) }"

section \<open>Mapping the program\<close>

definition process_map_binary :: "u32 \<Rightarrow> kernel \<Rightarrow> (int \<times> kernel) option" where
  "process_map_binary process s =
     do { p \<leftarrow> procs s process;
          (_, s1) \<leftarrow> process_map_to process HARDIKHYPERIONOS_PROGRAM_VIRTUAL_ADDRESS (program p)
            (paging_align_address (program p + program_size p)) PAGE_FLAGS_ALL s;
          Some (0, s1) }"

text \<open>The loop of \<open>process_map_elf\<close>, from segment \<open>i\<close>, \<open>n\<close> left.\<close>

fun map_elf_loop :: "u32 \<Rightarrow> elf_file \<Rightarrow> u32 \<Rightarrow> int \<Rightarrow> nat \<Rightarrow> nat \<Rightarrow> kernel \<Rightarrow> (int \<times> kernel) option" where
  "map_elf_loop process elf_file phdr_base res i 0 s = Some (res, s)"
| "map_elf_loop process elf_file phdr_base res i (Suc n) s =
     do { let phdr = read_phdr (ram (mem s)) (phdr_base + of_nat i * sizeof_phdr);
          let phdr_phys_address = elf_phdr_phys_address elf_file phdr;
          let flgs = (if p_flags phdr AND PF_W \<noteq> 0 then PAGING_IS_PRESENT OR PAGING_ACCESS_FROM_ALL OR PAGING_IS_WRITEABLE
                      else PAGING_IS_PRESENT OR PAGING_ACCESS_FROM_ALL);
          (res', s1) \<leftarrow> process_map_to process (paging_align_to_lower_page (p_vaddr phdr))
            (paging_align_to_lower_page phdr_phys_address)
            (paging_align_address (phdr_phys_address + p_memsz phdr)) flgs s;
          if IS_ERR res' then Some (res', s1)
          else map_elf_loop process elf_file phdr_base res' (Suc i) n s1 }"

definition process_map_elf :: "u32 \<Rightarrow> kernel \<Rightarrow> (int \<times> kernel) option" where
  "process_map_elf process s =
     do { p \<leftarrow> procs s process;
          elf_file \<leftarrow> elf_files s (program p);
          let header = elf_header_of elf_file;
          map_elf_loop process elf_file (elf_pheader (ram (mem s)) header) 0 0
            (unat (e_phnum (read_elf_header (ram (mem s)) header))) s }"

text \<open>Another type of file panics. The result of mapping the stack is not looked at.\<close>

definition process_map_memory :: "u32 \<Rightarrow> kernel \<Rightarrow> (int \<times> kernel) option" where
  "process_map_memory process s =
     do { p \<leftarrow> procs s process;
          (res, s1) \<leftarrow> (if filetype p = PROCESS_FILETYPE_ELF then process_map_elf process s
             else if filetype p = PROCESS_FILETYPE_BINARY then process_map_binary process s
             else None);
          if res < 0 then Some (res, s1)
          else do { p \<leftarrow> procs s1 process;
            (_, s2) \<leftarrow> process_map_to process PROGRAM_VIRTUAL_STACK_ADDRESS_END (stack p)
              (paging_align_address (stack p + HARDIKHYPERIONOS_USER_PROGRAM_STACK_SIZE)) PAGE_FLAGS_ALL s1;
            Some (res, s2) } }"

section \<open>A new process\<close>

definition sizeof_process :: u32 where "sizeof_process = 9364"

text \<open>
  What follows a successful \<open>process_load_data\<close>. \<open>ERROR_I(task) == 0\<close> is the test for a failed
  \<open>task_new\<close>, whose errors are not 0.
\<close>

definition load_task :: "u8 list \<Rightarrow> u32 \<Rightarrow> int \<Rightarrow> kernel \<Rightarrow> (int \<times> u32 option \<times> kernel) option" where
  "load_task fname process process_slot s =
     do { let (program_stack_ptr, m1) = kzalloc (mem s) HARDIKHYPERIONOS_USER_PROGRAM_STACK_SIZE;
          let s1 = set_mem m1 s;
          if program_stack_ptr = 0 then Some (- ENOMEM, None, s1)
          else do {
            p \<leftarrow> procs s1 process;
            name \<leftarrow> strncpy (filename p) 0 fname (int HARDIKHYPERIONOS_MAX_PATH);
            s2 \<leftarrow> put_process process (\<lambda>p. p\<lparr>filename := name, stack := program_stack_ptr,
                    pid := word_of_int process_slot\<rparr>) s1;
            (task, s3) \<leftarrow> task_new process s2;
            if ERROR_I task = 0 then Some (ERROR_I task, None, s3)
            else do {
              s4 \<leftarrow> put_process process (\<lambda>p. p\<lparr>task_of := task\<rparr>) s3;
              (res, s5) \<leftarrow> process_map_memory process s4;
              if res < 0 then Some (res, None, s5)
              else do { ps \<leftarrow> arr_set (processes s5) process_slot process;
                Some (res, Some process, s5\<lparr>processes := ps\<rparr>) } } } }"

definition process_load_for_slot ::
    "(fs_ref \<Rightarrow> fs_ops) \<Rightarrow> u8 list \<Rightarrow> int \<Rightarrow> kernel \<Rightarrow> (int \<times> u32 option \<times> kernel) option" where
  "process_load_for_slot ops fname process_slot s =
     (if process_get process_slot s \<noteq> 0 then Some (- EISTKN, None, s)
      else let (process, m1) = kzalloc (mem s) sizeof_process; s1 = set_mem m1 s
      in if process = 0 then Some (- ENOMEM, None, s1)
         else do {
           let s2 = s1\<lparr>procs := (procs s1)(process \<mapsto> zero_process)\<rparr>;
           (res, s3) \<leftarrow> process_load_data ops fname process s2;
           (res, out, s4) \<leftarrow> (if res < 0 then Some (res, None, s3) else load_task fname process process_slot s3);
           if IS_ERR res
           then do { p \<leftarrow> procs s4 process;
             s5 \<leftarrow> (if task_of p \<noteq> 0 then task_free (task_of p) s4 else Some s4);
             Some (res, out, s5) }
           else Some (res, out, s4) })"

definition process_load :: "(fs_ref \<Rightarrow> fs_ops) \<Rightarrow> u8 list \<Rightarrow> kernel \<Rightarrow> (int \<times> u32 option \<times> kernel) option" where
  "process_load ops fname s =
     (let process_slot = progess_get_free_slot s
      in if process_slot < 0 then Some (- EISTKN, None, s)
         else process_load_for_slot ops fname process_slot s)"

text \<open>The callers pass a pointer that is NULL; it stays so when nothing was stored in it.\<close>

definition process_load_switch :: "(fs_ref \<Rightarrow> fs_ops) \<Rightarrow> u8 list \<Rightarrow> kernel \<Rightarrow> (int \<times> u32 option \<times> kernel) option" where
  "process_load_switch ops fname s =
     do { (res, process, s1) \<leftarrow> process_load ops fname s;
          if res = 0 then Some (res, process, process_switch (case process of None \<Rightarrow> 0 | Some p \<Rightarrow> p) s1)
          else Some (res, process, s1) }"

end
