(* ===== verification/PagingFrame.thy ===== *)
theory PagingFrame
  imports PagingProps
begin

text \<open>
  \<open>paging_new_4gb\<close> (paging.c) leaves every run of the heap that was allocated before as it is, so a new
  address space keeps all the others, and its blocks extend the heap by themselves.
\<close>

lemma kowned_end:
  assumes "kheap_ok m" "kowned m p = Some n"
  shows "unat p + 4096 * n < 2 ^ 32" "page_aligned p" "0 < n"
  using kowned_bounds [OF assms] kowned_page_aligned [OF assms] by simp_all

section \<open>What memory an operation leaves alone\<close>

text \<open>The words of the first page of every run that was allocated.\<close>

definition pages_kept :: "kmem \<Rightarrow> ram \<Rightarrow> bool" where
  "pages_kept m r \<longleftrightarrow> (\<forall>q k. q \<in> dom (kowned m) \<longrightarrow> k < 1024 \<longrightarrow>
     load32 r (page_word q k) = load32 (ram m) (page_word q k))"

lemma pages_keptD: "pages_kept m r \<Longrightarrow> kowned m q = Some n \<Longrightarrow> k < 1024 \<Longrightarrow>
    load32 r (page_word q k) = load32 (ram m) (page_word q k)"
  by (auto simp: pages_kept_def)

lemma load32_cong: "(\<And>b. b < 4 \<Longrightarrow> r (a + of_nat b) = r' (a + of_nat b)) \<Longrightarrow> load32 r a = load32 r' a"
proof -
  assume *: "\<And>b. b < 4 \<Longrightarrow> r (a + of_nat b) = r' (a + of_nat b)"
  from * [of 0] * [of 1] * [of 2] * [of 3] show ?thesis by (simp add: load32_def)
qed

lemma runs_kept_pages:
  assumes "kheap_ok m" "runs_kept m r"
  shows "pages_kept m r"
  unfolding pages_kept_def
proof (intro allI impI load32_cong)
  fix q and k b :: nat assume q: "q \<in> dom (kowned m)" and k: "k < 1024" and b: "b < 4"
  from q obtain n where n: "kowned m q = Some n" by auto
  have "4 * k + b < 4096 * n" using k b kowned_end(3) [OF assms(1) n] by linarith
  then have "r (q + of_nat (4 * k + b)) = ram m (q + of_nat (4 * k + b))"
    using assms(2) n unfolding runs_kept_def by blast
  then show "r (page_word q k + of_nat b) = ram m (page_word q k + of_nat b)"
    by (simp add: page_word_def ac_simps)
qed

section \<open>A new address space\<close>

lemma store_page_out:
  assumes "\<And>i. i < 4096 \<Longrightarrow> a \<noteq> p + of_nat i" "j < 1024"
  shows "store32 m (page_word p j) v a = m a"
proof (rule store32_outside)
  fix i :: nat assume "i < 4"
  then show "a \<noteq> page_word p j + of_nat i"
    using assms(1) [of "4 * j + i"] assms(2) by (simp add: page_word_def ac_simps)
qed

lemma paging_fill_table_out:
  assumes "\<And>i. i < 4096 \<Longrightarrow> a \<noteq> p + of_nat i" "j + n \<le> 1024"
  shows "paging_fill_table m p off fl j n a = m a"
  using assms(2)
proof (induction n arbitrary: j m)
  case (Suc n)
  then show ?case using store_page_out [OF assms(1), of j] by (simp add: page_word_def)
qed simp

lemma paging_fill_directory_kept:
  assumes "kheap_ok m" "kowned m dir = Some 1" "n \<le> kroom m" "i + n \<le> 1024"
    and "kowned m q = Some nq" "q \<noteq> dir" "k < 4096 * nq"
  shows "ram (paging_fill_directory m dir fl off i n) (q + of_nat k) = ram m (q + of_nat k)"
  using assms(1-5)
proof (induction n arbitrary: m i off)
  case (Suc n)
  have room: "0 < kroom m" using Suc.prems(3) by simp
  obtain entry m1 where m1: "kzalloc m 4096 = (entry, m1)" "kheap_ok m1" "kowned m entry = None"
    "kowned m1 = (kowned m)(entry \<mapsto> 1)" "kroom m = Suc (kroom m1)"
    by (rule kzalloc_page [of m 4096]) (use Suc.prems room in auto)
  let ?m2 = "m1\<lparr>ram := store32 (paging_fill_table (ram m1) entry off fl 0 1024)
    (page_word dir i) (entry OR fl OR PAGING_IS_WRITEABLE)\<rparr>"
  have own: "kowned m1 entry = Some 1" "kowned m1 dir = Some 1" "kowned m1 q = Some nq" "q \<noteq> entry"
    using m1(3,4) Suc.prems by auto
  have kept: "ram m1 (q + of_nat k) = ram m (q + of_nat k)"
    using kzalloc_page_kept [OF Suc.prems(1) _ _ room m1(1)] Suc.prems(5) assms(7) by (auto simp: runs_kept_def)
  have out: "q + of_nat k \<noteq> p + of_nat j" if "p \<in> {entry, dir}" "j < 4096" for p j
    using that runs_apart [OF m1(2) own(3), of p 1 k j] own assms(6,7) by auto
  have "ram (paging_fill_directory ?m2 dir fl (off + PAGING_PAGE_SIZE * of_nat PAGING_TOTAL_ENTRIES_PER_TABLE) (Suc i) n)
      (q + of_nat k) = ram ?m2 (q + of_nat k)"
  proof (rule Suc.IH)
    show "kheap_ok ?m2" "kowned ?m2 dir = Some 1" "n \<le> kroom ?m2" "Suc i + n \<le> 1024" "kowned ?m2 q = Some nq"
      using m1 Suc.prems by (auto simp: kheap_ok_def kowned_def kroom_def)
  qed
  also have "\<dots> = ram m (q + of_nat k)"
    using out Suc.prems(4) kept by (simp add: store_page_out paging_fill_table_out)
  finally show ?case using m1(1) by (simp add: paging_consts page_word_def)
qed simp

lemma paging_new_4gb_runs:
  assumes "kheap_ok m" "1026 \<le> kroom m" "paging_new_4gb m flags = (c, m')"
  shows "runs_kept m (ram m')"
  unfolding runs_kept_def
proof (intro allI impI)
  fix q nq k assume q: "kowned m q = Some nq" and k: "k < 4096 * nq"
  let ?fl = "ucast flags :: u32"
  obtain dir m1 where a1: "kzalloc m 4096 = (dir, m1)" "kheap_ok m1" "kowned m dir = None"
    "kowned m1 = (kowned m)(dir \<mapsto> 1)" "kroom m = Suc (kroom m1)" "kframe m1 = kframe m"
    by (rule kzalloc_page [OF assms(1), of 4096]) (use assms(2) in auto)
  define m2 where "m2 = paging_fill_directory m1 dir ?fl 0 0 1024"
  have "fill_inv m1 dir ?fl 0 m1" using a1(2) by (simp add: fill_inv_def fun_eq_iff)
  then have "fill_inv m1 dir ?fl (0 + 1024) (paging_fill_directory m1 dir ?fl (of_nat 0 * 4194304) 0 1024)"
    by (rule fill_inv_loop) (use a1 assms(2) in auto)
  then have F: "fill_inv m1 dir ?fl 1024 m2" by (simp add: m2_def)
  then have ok2: "kheap_ok m2" "0 < kroom m2" using a1(5) assms(2) by (auto simp: fill_inv_def)
  obtain c' m3 where a3: "kzalloc m2 4 = (c', m3)" "kheap_ok m3" "kowned m2 c' = None"
    "kowned m3 = (kowned m2)(c' \<mapsto> 1)"
    by (rule kzalloc_page [of m2 4]) (use ok2 in auto)
  have new: "c = c'" "m' = m3\<lparr>ram := store32 (ram m3) c' dir\<rparr>"
    using a1(1) a3(1) assms(3) by (auto simp: paging_new_4gb_def paging_consts m2_def)
  have ne: "q \<noteq> dir" and q1: "kowned m1 q = Some nq" using q a1(3,4) by auto
  have q2: "kowned m2 q = Some nq"
  proof -
    have "q \<notin> pt (ram m2) dir ` {..<1024}" using F q1 unfolding fill_inv_def by blast
    moreover have "kowned m2 = (\<lambda>p. if p \<in> pt (ram m2) dir ` {..<1024} then Some 1 else kowned m1 p)"
      using F unfolding fill_inv_def by blast
    ultimately show ?thesis using q1 by simp
  qed
  then have ne3: "q \<noteq> c'" and q3: "kowned m3 q = Some nq" using a3(3,4) by auto
  have "q + of_nat k \<noteq> c' + of_nat i" if "i < 4096" for i
    using runs_apart [OF a3(2) q3, of c' 1 k i] a3(4) ne3 k that by auto
  from store_page_out [OF this, of 0 "ram m3" dir]
  have "ram m' (q + of_nat k) = ram m3 (q + of_nat k)" by (simp add: new(2) page_word_0)
  also have "\<dots> = ram m2 (q + of_nat k)"
    using kzalloc_page_kept [OF ok2(1) _ _ ok2(2) a3(1)] q2 k by (auto simp: runs_kept_def)
  also have "\<dots> = ram m1 (q + of_nat k)"
    unfolding m2_def by (rule paging_fill_directory_kept) (use a1 assms(2) q1 ne k in auto)
  also have "\<dots> = ram m (q + of_nat k)"
    using kzalloc_page_kept [OF assms(1) _ _ _ a1(1)] assms(2) q k by (auto simp: runs_kept_def)
  finally show "ram m' (q + of_nat k) = ram m (q + of_nat k)" .
qed

text \<open>A chunk depends on its own word and on the words of its directory.\<close>

lemma chunk_same_words:
  assumes "load32 r c = load32 m c"
    and "\<And>i. i < 1024 \<Longrightarrow> load32 r (page_word (load32 m c) i) = load32 m (page_word (load32 m c) i)"
  shows "chunk_blocks r c = chunk_blocks m c" "chunk_ok m c \<Longrightarrow> chunk_ok r c"
proof -
  have p: "pt r (load32 m c) i = pt m (load32 m c) i" if "i < 1024" for i
    using assms(2) [OF that] by (simp add: pt_def)
  then show "chunk_blocks r c = chunk_blocks m c" by (simp add: chunk_blocks_def assms(1))
  show "chunk_ok r c" if "chunk_ok m c"
    using that p by (auto simp: chunk_ok_def pdir_ok_def assms(1) inj_on_def)
qed

lemma pages_kept_chunk:
  assumes "pages_kept m r" "set (chunk_blocks (ram m) c) \<subseteq> dom (kowned m)"
  shows "chunk_blocks r c = chunk_blocks (ram m) c" "chunk_ok (ram m) c \<Longrightarrow> chunk_ok r c"
proof -
  have "c \<in> dom (kowned m)" "load32 (ram m) c \<in> dom (kowned m)"
    using assms(2) by (auto simp: chunk_blocks_def)
  then have w: "load32 r (page_word q k) = load32 (ram m) (page_word q k)"
    if "q \<in> {c, load32 (ram m) c}" "k < 1024" for q k
    using assms(1) that by (auto simp: pages_kept_def)
  have "load32 r c = load32 (ram m) c" using w [of c 0] by (simp add: page_word_0)
  from chunk_same_words [OF this] w
  show "chunk_blocks r c = chunk_blocks (ram m) c" "chunk_ok (ram m) c \<Longrightarrow> chunk_ok r c" by simp_all
qed

text \<open>A new address space as an extension of the heap by its blocks.\<close>

lemma fresh_chunk_grown:
  assumes "kheap_ok m" "fresh_chunk m c m'" "kroom m = 1026 + kroom m'"
  shows "kgrown m (chunk_blocks (ram m') c) m'"
proof -
  note F = assms(2) [unfolded fresh_chunk_def]
  have "length (chunk_blocks (ram m') c) = 1026" by (simp add: chunk_blocks_def)
  moreover have "0 \<notin> set (chunk_blocks (ram m') c)"
  proof
    assume "0 \<in> set (chunk_blocks (ram m') c)"
    then have "kowned m' 0 = Some 1" using F by metis
    with kowned_nonzero [of m' 0] F show False by blast
  qed
  ultimately show ?thesis
    using F assms(3) chunk_blocks_distinct by (simp add: grown_def)
qed

end
