(* ===== verification/ProcessMem.thy ===== *)
theory ProcessMem
  imports ProcessLoad PagingFrame
begin

text \<open>
  The memory of a process: allocations of several blocks on the kernel heap, the identity mapping of
  such a run of pages, and the invariant \<open>process_ok\<close> of a process with its allocations that
  \<open>process_malloc\<close> and \<open>process_free\<close> keep.
\<close>

section \<open>Runs of blocks\<close>

text \<open>An allocation of any size also leaves the page tables as they are.\<close>

lemma kzalloc_run:
  assumes ok: "kheap_ok m" and sz: "0 < unat sz" "unat sz \<le> 2 ^ 32 - 4096"
    and fit: "\<exists>i. free_at (tbl (kernel_heap m)) i (blocks_for (unat sz))"
  obtains p m' where "kzalloc m sz = (p, m')" "p \<noteq> 0" "kheap_ok m'" "kowned m p = None"
    "kowned m' = (kowned m)(p \<mapsto> blocks_for (unat sz))" "kframe m' = kframe m" "runs_kept m (ram m')"
    "pages_kept m (ram m')" "kroom m = blocks_for (unat sz) + kroom m'"
    "ram m' = ram_memset (ram m) p 0 (unat sz)"
proof (rule kzalloc_blocks [OF assms])
  fix p m' assume m: "kzalloc m sz = (p, m')" "p \<noteq> 0" "kheap_ok m'" "kowned m p = None"
    "kowned m' = (kowned m)(p \<mapsto> blocks_for (unat sz))" "kframe m' = kframe m" "runs_kept m (ram m')"
    "kroom m = blocks_for (unat sz) + kroom m'" "ram m' = ram_memset (ram m) p 0 (unat sz)"
  from runs_kept_pages [OF ok m(7)] m show thesis by (intro that)
qed

section \<open>Mapping a run of pages\<close>

lemma align_block_end:
  assumes "page_aligned p" "unat p + 4096 * blocks_for (unat sz) < 2 ^ 32"
  shows "paging_align_address (p + sz) = p + of_nat (4096 * blocks_for (unat sz))"
proof -
  define k where "k = unat sz div 4096"
  define r where "r = unat sz mod 4096"
  have s: "unat sz = 4096 * k + r" "r < 4096" by (simp_all add: k_def r_def)
  have sw: "sz = of_nat (4096 * k + r)" using of_nat_unat_id [of sz] s(1) by metis
  have le: "unat p + unat sz < 2 ^ 32" using assms(2) blocks_for_room [of "unat sz"] by linarith
  have u: "unat (p + sz) = unat p + unat sz" using unat_add_small [of p "unat sz"] le by simp
  have ur: "unat (of_nat r :: u32) = r" using s(2) by (intro unat_of_nat_u32) simp
  obtain a where "unat p = 4096 * a" using assms(1) by (rule page_alignedE)
  then have "unat (p + sz) mod 4096 = r" using s by (simp add: u mod_add_eq [symmetric, of "4096 * a"])
  then have m: "(p + sz) mod PAGING_PAGE_SIZE = of_nat r"
    by (simp add: PAGING_PAGE_SIZE_def unat_mod_distrib ur flip: unat_inj_iff)
  show ?thesis
  proof (cases "r = 0")
    case True
    then have "blocks_for (unat sz) = k" using s by (simp add: blocks_for_def)
    then show ?thesis using True m sw by (simp add: paging_align_address_def)
  next
    case False
    have b: "blocks_for (unat sz) = k + 1"
    proof -
      have "(4096 * k + r + 4095) div 4096 = k + (r + 4095) div 4096" by (simp add: add.assoc)
      moreover have "(r + 4095) div 4096 = 1" using False s(2) by (simp add: div_nat_eqI)
      ultimately show ?thesis by (simp add: blocks_for_def s(1))
    qed
    have "(of_nat r :: u32) \<noteq> 0"
      using False ur by (metis unsigned_0)
    then show ?thesis
      using m unfolding paging_align_address_def b by (subst sw) (simp add: PAGING_PAGE_SIZE_def algebra_simps)
  qed
qed

lemma paging_map_loop_blocks:
  assumes "chunk_ok m c" "page_aligned v" "page_aligned p"
  shows "chunk_blocks (snd (paging_map_loop m c v p fl res n)) c = chunk_blocks m c"
  using assms
proof (induction n arbitrary: m v p res)
  case (Suc n)
  let ?m = "store32 m (slot m (load32 m c) v) (p OR fl)"
  note cs = chunk_store_slot [OF Suc.prems(1), of v "p OR fl"]
  have "pdir_ok m (load32 m c)" using Suc.prems(1) by (simp add: chunk_ok_def)
  then have "chunk_blocks ?m c = chunk_blocks m c"
    using cs(1) pt_store_slot by (simp add: chunk_blocks_def)
  moreover have "chunk_blocks (snd (paging_map_loop ?m c (v + 4096) (p + 4096) fl 0 n)) c = chunk_blocks ?m c"
    using Suc.prems cs(2) by (intro Suc.IH) (simp_all add: page_aligned_plus)
  ultimately show ?case using paging_map_chunk [OF Suc.prems(2,3)] by (simp add: PAGING_PAGE_SIZE_def)
qed simp

text \<open>Mapping changes only the pages that hold the tables.\<close>

definition outside_tables :: "ram \<Rightarrow> u32 \<Rightarrow> u32 \<Rightarrow> bool" where
  "outside_tables m dir a \<longleftrightarrow> (\<forall>i < 1024. \<forall>j < 4096. a \<noteq> pt m dir i + of_nat j)"

lemma paging_map_loop_out:
  assumes "chunk_ok m c" "page_aligned v" "page_aligned p" "outside_tables m (load32 m c) a"
  shows "snd (paging_map_loop m c v p fl res n) a = m a"
  using assms
proof (induction n arbitrary: m v p res)
  case (Suc n)
  let ?m = "store32 m (slot m (load32 m c) v) (p OR fl)"
  note cs = chunk_store_slot [OF Suc.prems(1), of v "p OR fl"]
  have ok: "pdir_ok m (load32 m c)" using Suc.prems(1) by (simp add: chunk_ok_def)
  have "snd (paging_map_loop ?m c (v + 4096) (p + 4096) fl 0 n) a = ?m a"
  proof (rule Suc.IH [OF cs(2)])
    show "outside_tables ?m (load32 ?m c) a"
      using Suc.prems(4) pt_store_slot [OF ok, of _ v "p OR fl"] by (simp add: cs(1) outside_tables_def)
  qed (use Suc.prems in \<open>simp_all add: page_aligned_plus\<close>)
  also have "?m a = m a"
    unfolding slot_def by (rule store_page_out) (use Suc.prems(4) in \<open>simp_all add: outside_tables_def\<close>)
  finally show ?case using paging_map_chunk [OF Suc.prems(2,3)] by (simp add: PAGING_PAGE_SIZE_def)
qed simp

lemma page_bytes_apart:
  assumes "page_aligned p" "page_aligned q" "p \<noteq> q" "k < 1024" "b < 4" "i < 4096"
  shows "page_word q k + of_nat b \<noteq> p + of_nat i"
  using page_bytes_distinct [OF assms(1-3,6), of "4 * k + b"] assms(4,5) by (simp add: page_word_def ac_simps)

text \<open>The entries of the directory stay, with their flags.\<close>

lemma paging_map_loop_directory:
  assumes ok: "chunk_ok m c" "page_aligned v" "page_aligned p" and i: "i < 1024"
  shows "load32 (snd (paging_map_loop m c v p fl res n)) (page_word (load32 m c) i) = load32 m (page_word (load32 m c) i)"
proof (rule load32_cong, rule paging_map_loop_out [OF ok])
  fix b :: nat assume b: "b < 4"
  have "pt m (load32 m c) j \<noteq> load32 m c" "page_aligned (load32 m c)" if "j < 1024" for j
    using ok(1) that by (simp_all add: chunk_ok_def pdir_ok_def)
  then show "outside_tables m (load32 m c) (page_word (load32 m c) i + of_nat b)"
    unfolding outside_tables_def using page_bytes_apart [OF pt_aligned _ _ i b] by blast
qed

text \<open>\<open>n\<close> pages from \<open>v\<close> on, mapped to those from \<open>p\<close> on.\<close>

lemma paging_map_window:
  assumes ok: "chunk_ok m c" and v: "page_aligned v" and p: "page_aligned p" "unat p + 4096 * n < 2 ^ 32"
  obtains m' where "paging_map_to m c v p (p + of_nat (4096 * n)) fl = (0, m')" "chunk_ok m' c"
    "load32 m' c = load32 m c" "chunk_blocks m' c = chunk_blocks m c"
    "\<And>w. page_aligned w \<Longrightarrow> paging_get m' (load32 m c) w =
       (if in_range v n w then (p + (w - v)) OR fl else paging_get m (load32 m c) w)"
    "\<And>i. i < 1024 \<Longrightarrow> load32 m' (page_word (load32 m c) i) = load32 m (page_word (load32 m c) i)"
    "\<And>a. outside_tables m (load32 m c) a \<Longrightarrow> m' a = m a"
proof -
  let ?e = "p + of_nat (4096 * n)"
  have u: "unat ?e = unat p + 4096 * n" using p(2) by (rule unat_add_small)
  then have al: "page_aligned ?e" using p(1) by (simp add: page_aligned_def)
  moreover have "p \<le> ?e" using u by (simp add: word_le_nat_alt)
  ultimately have mo: "map_to_ok v p ?e" using p(1) v by (simp add: map_to_ok_def)
  have "unat (?e - p) = 4096 * n" using p(2) unat_of_nat_u32 [of "4096 * n"] by simp
  then have cnt: "unat (?e - p) div 4096 = n" by simp
  have "n \<le> 2 ^ 20" using p(2) by simp
  from paging_map_loop_range [OF ok v p(1) this refl] obtain m'
    where m': "paging_map_loop m c v p fl 0 n = (0, m')" "chunk_ok m' c" "load32 m' c = load32 m c"
      "\<And>w. page_aligned w \<Longrightarrow> paging_get m' (load32 m c) w =
         (if in_range v n w then (p + (w - v)) OR fl else paging_get m (load32 m c) w)" by blast
  have "chunk_blocks m' c = chunk_blocks m c"
    using paging_map_loop_blocks [OF ok v p(1), of fl 0 n] m'(1) by simp
  moreover have "load32 m' (page_word (load32 m c) i) = load32 m (page_word (load32 m c) i)" if "i < 1024" for i
    using paging_map_loop_directory [OF ok v p(1) that, of fl 0 n] m'(1) by simp
  moreover have "m' a = m a" if "outside_tables m (load32 m c) a" for a
    using paging_map_loop_out [OF ok v p(1) that, of fl 0 n] m'(1) by simp
  ultimately show thesis
    using m' map_to_loop [OF mo, of m c fl] cnt by (intro that [of m']) simp_all
qed

text \<open>All runs but those of a set; mapping leaves all but the blocks of the address space.\<close>

definition runs_kept_but :: "u32 set \<Rightarrow> kmem \<Rightarrow> ram \<Rightarrow> bool" where
  "runs_kept_but S m r \<longleftrightarrow> (\<forall>q n i. kowned m q = Some n \<longrightarrow> q \<notin> S \<longrightarrow> i < 4096 * n \<longrightarrow>
     r (q + of_nat i) = ram m (q + of_nat i))"

lemma runs_kept_but_trans:
  assumes "runs_kept_but S m (ram m1)" "runs_kept_but S m1 r" "\<And>q n. kowned m q = Some n \<Longrightarrow> q \<notin> S \<Longrightarrow> kowned m1 q = Some n"
  shows "runs_kept_but S m r"
  using assms unfolding runs_kept_but_def by metis

lemma runs_kept_but: "runs_kept m r \<Longrightarrow> runs_kept_but S m r"
  by (simp add: runs_kept_def runs_kept_but_def)

lemma runs_kept_but_mono: "runs_kept_but S m r \<Longrightarrow> S \<subseteq> T \<Longrightarrow> runs_kept_but T m r"
  unfolding runs_kept_but_def by blast

lemma mapped_runs_kept:
  assumes ok: "kheap_ok m" and sub: "set (chunk_blocks (ram m) c) \<subseteq> dom (kowned m)"
    and out: "\<And>a. outside_tables (ram m) (load32 (ram m) c) a \<Longrightarrow> r a = ram m a"
  shows "runs_kept_but (set (chunk_blocks (ram m) c)) m r"
  unfolding runs_kept_but_def
proof (intro allI impI)
  fix q n k assume q: "kowned m q = Some n" "q \<notin> set (chunk_blocks (ram m) c)" and k: "k < 4096 * n"
  show "r (q + of_nat k) = ram m (q + of_nat k)"
  proof (rule out, unfold outside_tables_def, intro allI impI)
    fix i j :: nat assume i: "i < 1024" and j: "j < 4096"
    have t: "pt (ram m) (load32 (ram m) c) i \<in> set (chunk_blocks (ram m) c)" using i by (simp add: chunk_blocks_def)
    then obtain b where b: "kowned m (pt (ram m) (load32 (ram m) c) i) = Some b" using sub by blast
    have "j < 4096 * b" using j kowned_end(3) [OF ok b] by linarith
    then show "q + of_nat k \<noteq> pt (ram m) (load32 (ram m) c) i + of_nat j"
      using runs_apart [OF ok q(1) b _ k] q(2) t by metis
  qed
qed

lemma paging_map_identity:
  assumes "chunk_ok m c" "page_aligned p" "unat p + 4096 * n < 2 ^ 32"
  obtains m' where "paging_map_to m c p p (p + of_nat (4096 * n)) fl = (0, m')" "chunk_ok m' c"
    "load32 m' c = load32 m c" "chunk_blocks m' c = chunk_blocks m c"
    "\<And>w. page_aligned w \<Longrightarrow> paging_get m' (load32 m c) w =
       (if in_range p n w then w OR fl else paging_get m (load32 m c) w)"
    "\<And>i. i < 1024 \<Longrightarrow> load32 m' (page_word (load32 m c) i) = load32 m (page_word (load32 m c) i)"
    "\<And>a. outside_tables m (load32 m c) a \<Longrightarrow> m' a = m a"
proof (rule paging_map_window [OF assms(1,2,2,3), where fl = fl])
  fix m' assume m': "paging_map_to m c p p (p + of_nat (4096 * n)) fl = (0, m')" "chunk_ok m' c"
    "load32 m' c = load32 m c" "chunk_blocks m' c = chunk_blocks m c"
    "\<And>w. page_aligned w \<Longrightarrow> paging_get m' (load32 m c) w =
       (if in_range p n w then (p + (w - p)) OR fl else paging_get m (load32 m c) w)"
    "\<And>i. i < 1024 \<Longrightarrow> load32 m' (page_word (load32 m c) i) = load32 m (page_word (load32 m c) i)"
    "\<And>a. outside_tables m (load32 m c) a \<Longrightarrow> m' a = m a"
  show thesis by (rule that [OF m'(1-4) _ m'(6,7)]) (simp add: m'(5))
qed

section \<open>A process and its allocations\<close>

text \<open>The pointers of the slots in use.\<close>

definition used_ptrs :: "process_allocation list \<Rightarrow> u32 list" where
  "used_ptrs as = filter (\<lambda>x. x \<noteq> 0) (map alloc_ptr as)"

text \<open>
  \<open>process_ok s pr p c\<close>: the process at \<open>pr\<close> is \<open>p\<close> and \<open>c\<close> its well-formed address space, in
  blocks of the heap; empty slots are zero, the others hold different runs of the heap that are
  as long as their size says and no part of the address space.
\<close>

definition process_ok :: "kernel \<Rightarrow> u32 \<Rightarrow> process \<Rightarrow> u32 \<Rightarrow> bool" where
  "process_ok s pr p c \<longleftrightarrow> procs s pr = Some p \<and> process_chunk pr s = Some c \<and> kheap_ok (mem s) \<and>
     chunk_ok (ram (mem s)) c \<and> set (chunk_blocks (ram (mem s)) c) \<subseteq> dom (kowned (mem s)) \<and>
     length (allocations p) = 1024 \<and> distinct (used_ptrs (allocations p)) \<and>
     (\<forall>a \<in> set (allocations p). if alloc_ptr a = 0 then a = no_allocation
        else kowned (mem s) (alloc_ptr a) = Some (blocks_for (unat (alloc_size a))) \<and>
          alloc_ptr a \<notin> set (chunk_blocks (ram (mem s)) c))"

lemma free_allocation_loop_cases:
  "(\<exists>i < length as. free_allocation_loop as n = n + int i \<and> alloc_ptr (as ! i) = 0) \<or>
   free_allocation_loop as n = - ENOMEM \<and> (\<forall>a \<in> set as. alloc_ptr a \<noteq> 0)"
proof (induction as arbitrary: n)
  case (Cons a as)
  show ?case
  proof (cases "alloc_ptr a = 0")
    case False
    from Cons.IH [of "n + 1"] show ?thesis
    proof
      assume "\<exists>i < length as. free_allocation_loop as (n + 1) = n + 1 + int i \<and> alloc_ptr (as ! i) = 0"
      then obtain i where "i < length as" "free_allocation_loop as (n + 1) = n + 1 + int i" "alloc_ptr (as ! i) = 0" by blast
      with False show ?thesis by (intro disjI1 exI [of _ "Suc i"]) simp
    qed (use False in simp)
  qed (auto intro: exI [of _ 0])
qed simp

lemma process_map_to_value:
  assumes "process_chunk pr s = Some c" "paging_map_to (ram (mem s)) c v p e fl = (res, r)"
  shows "process_map_to pr v p e fl s = Some (res, set_ram r s)"
  using assms by (simp add: process_map_to_def)

lemma set_ram_simps [simp]:
  "mem (set_ram r s) = (mem s)\<lparr>ram := r\<rparr>" "procs (set_ram r s) = procs s" "tasks (set_ram r s) = tasks s"
  "process_chunk pr (set_ram r s) = process_chunk pr s" "process_chunk pr (set_mem m s) = process_chunk pr s"
  "processes (set_ram r s) = processes s"
  by (simp_all add: set_ram_def process_chunk_def)

lemma used_ptrs_update:
  "i < length as \<Longrightarrow> alloc_ptr (as ! i) = 0 \<Longrightarrow> alloc_ptr a \<noteq> 0 \<Longrightarrow>
   mset (used_ptrs (as[i := a])) = mset (used_ptrs as) + {#alloc_ptr a#}"
  by (induction as arbitrary: i) (auto simp: used_ptrs_def nth_Cons split: nat.splits)

lemma used_ptrs_unjoin:
  "ptr \<noteq> 0 \<Longrightarrow> used_ptrs (map (\<lambda>a. if alloc_ptr a = ptr then no_allocation else a) as) =
     filter (\<lambda>x. x \<noteq> ptr) (used_ptrs as)"
  by (induction as) (auto simp: used_ptrs_def no_allocation_def)

lemma in_used_ptrs: "a \<in> set as \<Longrightarrow> alloc_ptr a \<noteq> 0 \<Longrightarrow> alloc_ptr a \<in> set (used_ptrs as)"
  by (auto simp: used_ptrs_def)

lemma process_chunk_put: "process_chunk pr (s\<lparr>procs := (procs s)(pr \<mapsto> p'), processes := ps\<rparr>) = process_chunk pr s"
  if "procs s pr = Some p" "task_of p' = task_of p"
  using that by (simp add: process_chunk_def)

lemma pages_kept_get:
  assumes "pages_kept m r" "set (chunk_blocks (ram m) c) \<subseteq> dom (kowned m)"
  shows "load32 r c = load32 (ram m) c"
    "page_aligned w \<Longrightarrow> paging_get r (load32 (ram m) c) w = paging_get (ram m) (load32 (ram m) c) w"
proof -
  have own: "c \<in> dom (kowned m)" "load32 (ram m) c \<in> dom (kowned m)"
    "\<And>i. i < 1024 \<Longrightarrow> pt (ram m) (load32 (ram m) c) i \<in> dom (kowned m)"
    using assms(2) by (auto simp: chunk_blocks_def image_subset_iff)
  have w: "load32 r (page_word q k) = load32 (ram m) (page_word q k)" if "q \<in> dom (kowned m)" "k < 1024" for q k
    using assms(1) that by (simp add: pages_kept_def)
  show "load32 r c = load32 (ram m) c" using w [OF own(1), of 0] by (simp add: page_word_0)
  have "pt r (load32 (ram m) c) i = pt (ram m) (load32 (ram m) c) i" if "i < 1024" for i
    using w [OF own(2) that] by (simp add: pt_def)
  then show "paging_get r (load32 (ram m) c) v = paging_get (ram m) (load32 (ram m) c) v" if "page_aligned v" for v
    using w [OF own(3)] by (simp add: paging_get_slot [OF that] slot_def)
qed

section \<open>process_malloc\<close>

lemma process_malloc_ok:
  assumes ok: "process_ok s pr p c" and sz: "0 < unat sz" "unat sz \<le> 2 ^ 32 - 4096"
    and fit: "\<exists>i. free_at (tbl (kernel_heap (mem s))) i (blocks_for (unat sz))"
    and slot: "\<exists>a \<in> set (allocations p). alloc_ptr a = 0"
  obtains ptr s' i where "process_malloc pr sz s = Some (ptr, s')" "ptr \<noteq> 0" "i < 1024"
    "alloc_ptr (allocations p ! i) = 0"
    "process_ok s' pr (p\<lparr>allocations := (allocations p)[i := \<lparr>alloc_ptr = ptr, alloc_size = sz\<rparr>]\<rparr>) c"
    "kowned (mem s) ptr = None" "kowned (mem s') = (kowned (mem s))(ptr \<mapsto> blocks_for (unat sz))"
    "kframe (mem s') = kframe (mem s)" "tasks s' = tasks s"
    "load32 (ram (mem s')) c = load32 (ram (mem s)) c"
    "\<And>w. page_aligned w \<Longrightarrow> paging_get (ram (mem s')) (load32 (ram (mem s)) c) w =
       (if in_range ptr (blocks_for (unat sz)) w then w OR PAGE_FLAGS_ALL
        else paging_get (ram (mem s)) (load32 (ram (mem s)) c) w)"
    "ptr \<notin> set (used_ptrs (allocations p))" "chunk_blocks (ram (mem s')) c = chunk_blocks (ram (mem s)) c"
    "\<And>i. i < 1024 \<Longrightarrow> load32 (ram (mem s')) (page_word (load32 (ram (mem s)) c) i) =
       load32 (ram (mem s)) (page_word (load32 (ram (mem s)) c) i)"
    "runs_kept_but (set (chunk_blocks (ram (mem s)) c)) (mem s) (ram (mem s'))"
    "kroom (mem s) = blocks_for (unat sz) + kroom (mem s')"
proof -
  note P = ok [unfolded process_ok_def]
  obtain ptr m1 where m1: "kzalloc (mem s) sz = (ptr, m1)" "ptr \<noteq> 0" "kheap_ok m1" "kowned (mem s) ptr = None"
    "kowned m1 = (kowned (mem s))(ptr \<mapsto> blocks_for (unat sz))" "kframe m1 = kframe (mem s)"
    "pages_kept (mem s) (ram m1)" "runs_kept (mem s) (ram m1)" "kroom (mem s) = blocks_for (unat sz) + kroom m1"
    by (rule kzalloc_run [OF _ sz fit]) (use P in auto)
  let ?n = "blocks_for (unat sz)"
  have sub: "set (chunk_blocks (ram (mem s)) c) \<subseteq> dom (kowned (mem s))" using P by simp
  note kept = pages_kept_chunk [OF m1(7) sub] pages_kept_get [OF m1(7) sub]
  have own: "kowned m1 ptr = Some ?n" using m1(5) by simp
  note e = kowned_end [OF m1(3) own]
  have ok1: "chunk_ok (ram m1) c" using P kept(2) by simp
  obtain r where r: "paging_map_to (ram m1) c ptr ptr (ptr + of_nat (4096 * ?n)) PAGE_FLAGS_ALL = (0, r)"
    "chunk_ok r c" "load32 r c = load32 (ram m1) c" "chunk_blocks r c = chunk_blocks (ram m1) c"
    "\<And>w. page_aligned w \<Longrightarrow> paging_get r (load32 (ram m1) c) w =
       (if in_range ptr ?n w then w OR PAGE_FLAGS_ALL else paging_get (ram m1) (load32 (ram m1) c) w)"
    "\<And>i. i < 1024 \<Longrightarrow> load32 r (page_word (load32 (ram m1) c) i) = load32 (ram m1) (page_word (load32 (ram m1) c) i)"
    "\<And>a. outside_tables (ram m1) (load32 (ram m1) c) a \<Longrightarrow> r a = ram m1 a"
    by (rule paging_map_identity [OF ok1 e(2,1), where fl = PAGE_FLAGS_ALL])
      (rule that, assumption+)
  have map: "paging_map_to (ram m1) c ptr ptr (paging_align_address (ptr + sz)) PAGE_FLAGS_ALL = (0, r)"
    using r(1) by (simp only: align_block_end [OF e(2,1)])
  from free_allocation_loop_cases [of "allocations p" 0] slot P obtain i
    where i: "process_find_free_allocation_index p = int i" "i < 1024" "alloc_ptr (allocations p ! i) = 0"
    by (auto simp: process_find_free_allocation_index_def)
  define p' where "p' = p\<lparr>allocations := (allocations p)[i := \<lparr>alloc_ptr = ptr, alloc_size = sz\<rparr>]\<rparr>"
  define s' where "s' = (set_ram r (set_mem m1 s))\<lparr>procs := (procs s)(pr \<mapsto> p')\<rparr>"
  have new: "process_malloc pr sz s = Some (ptr, s')"
    using P m1(1,2) i map process_map_to_value [of pr "set_mem m1 s" c ptr ptr _ PAGE_FLAGS_ALL 0 r]
    by (simp add: process_malloc_def put_process_def s'_def p'_def)
  have mem': "mem s' = m1\<lparr>ram := r\<rparr>" by (simp add: s'_def)
  then have k': "kowned (mem s') = (kowned (mem s))(ptr \<mapsto> ?n)" "kheap_ok (mem s')" "kframe (mem s') = kframe (mem s)"
    using m1(3,5,6) by (simp_all add: kowned_def kheap_ok_def kframe_def)
  have bl: "chunk_blocks (ram (mem s')) c = chunk_blocks (ram (mem s)) c" by (simp add: mem' r(4) kept(1))
  have fresh: "ptr \<notin> set (used_ptrs (allocations p))" "ptr \<notin> set (chunk_blocks (ram (mem s)) c)"
    using P m1(2,4) by (auto simp: used_ptrs_def split: if_splits)
  have "process_ok s' pr p' c"
    unfolding process_ok_def
  proof (intro conjI ballI)
    show "procs s' pr = Some p'" by (simp add: s'_def)
    have "procs s pr = Some p" "process_chunk pr s = Some c" using P by simp_all
    then show "process_chunk pr s' = Some c" by (simp add: s'_def p'_def process_chunk_def)
    show "kheap_ok (mem s')" by (rule k'(2))
    show "chunk_ok (ram (mem s')) c" by (simp add: mem' r(2))
    show "set (chunk_blocks (ram (mem s')) c) \<subseteq> dom (kowned (mem s'))" using sub by (auto simp: k'(1) bl)
    show "length (allocations p') = 1024" using P by (simp add: p'_def)
    have "mset (used_ptrs (allocations p')) = mset (used_ptrs (allocations p)) + {#ptr#}"
      using used_ptrs_update [of i "allocations p" "\<lparr>alloc_ptr = ptr, alloc_size = sz\<rparr>"] i P m1(2) by (simp add: p'_def)
    then have "mset (used_ptrs (allocations p')) = mset (ptr # used_ptrs (allocations p))" by simp
    then have "distinct (used_ptrs (allocations p')) \<longleftrightarrow> distinct (ptr # used_ptrs (allocations p))"
      by (rule mset_eq_imp_distinct_iff)
    then show "distinct (used_ptrs (allocations p'))" using fresh(1) P by simp
    fix a assume "a \<in> set (allocations p')"
    then have "a = \<lparr>alloc_ptr = ptr, alloc_size = sz\<rparr> \<or> a \<in> set (allocations p)"
      using set_update_subset_insert by (fastforce simp: p'_def)
    then show "if alloc_ptr a = 0 then a = no_allocation
        else kowned (mem s') (alloc_ptr a) = Some (blocks_for (unat (alloc_size a))) \<and>
          alloc_ptr a \<notin> set (chunk_blocks (ram (mem s')) c)"
    proof
      assume "a = \<lparr>alloc_ptr = ptr, alloc_size = sz\<rparr>"
      then show ?thesis using m1(2) fresh(2) by (simp add: k'(1) bl)
    next
      assume a: "a \<in> set (allocations p)"
      then have "alloc_ptr a \<noteq> 0 \<Longrightarrow> alloc_ptr a \<noteq> ptr" using fresh(1) in_used_ptrs by metis
      then show ?thesis using P a by (auto simp: k'(1) bl)
    qed
  qed
  moreover have "paging_get (ram (mem s')) (load32 (ram (mem s)) c) w =
       (if in_range ptr ?n w then w OR PAGE_FLAGS_ALL else paging_get (ram (mem s)) (load32 (ram (mem s)) c) w)"
    if "page_aligned w" for w
    using r(5) [OF that] kept(3,4) that by (simp add: mem')
  moreover have "load32 (ram (mem s')) (page_word (load32 (ram (mem s)) c) j) = load32 (ram (mem s)) (page_word (load32 (ram (mem s)) c) j)"
    if "j < 1024" for j
  proof -
    have "load32 (ram (mem s)) c \<in> dom (kowned (mem s))" using sub by (simp add: chunk_blocks_def)
    then have "load32 (ram m1) (page_word (load32 (ram (mem s)) c) j) = load32 (ram (mem s)) (page_word (load32 (ram (mem s)) c) j)"
      using m1(7) that unfolding pages_kept_def by blast
    then show ?thesis using r(6) [OF that] by (simp add: mem' kept(3))
  qed
  moreover have "runs_kept_but (set (chunk_blocks (ram (mem s)) c)) (mem s) (ram (mem s'))"
  proof (rule runs_kept_but_trans [of _ _ m1])
    have "set (chunk_blocks (ram m1) c) \<subseteq> dom (kowned m1)" using sub by (auto simp: kept(1) m1(5))
    from mapped_runs_kept [OF m1(3) this r(7)]
    show "runs_kept_but (set (chunk_blocks (ram (mem s)) c)) m1 (ram (mem s'))" by (simp add: mem' kept(1))
  qed (use m1(4,5,8) in \<open>auto intro: runs_kept_but\<close>)
  ultimately show thesis
    using m1(2,4,9) i fresh(1) k' r(3) kept(3) bl
    by (intro that [OF new _ i(2,3)]) (simp_all add: p'_def mem' s'_def kroom_def)
qed

end
