(* ===== verification/TaskLinks.thy ===== *)
theory TaskLinks
  imports TaskSched PagingFrame
begin

text \<open>
  The invariant \<open>sched_ok\<close> of the scheduler and its operations: creating a task appends it,
  freeing one with a right \<open>prev\<close> takes it and its blocks out, switching and saving change nothing
  of the list.
\<close>

section \<open>Linked lists\<close>

lemma linked_append:
  "linked T (xs @ ys) e \<longleftrightarrow> linked T xs (if ys = [] then e else hd ys) \<and> linked T ys e"
  by (induction xs) (auto split: option.splits)

lemma linked_cong:
  "(\<And>p. p \<in> set ps \<Longrightarrow> map_option next_of (T p) = map_option next_of (T' p)) \<Longrightarrow> linked T ps e = linked T' ps e"
proof (induction ps)
  case (Cons p ps)
  have "map_option next_of (T p) = map_option next_of (T' p)" using Cons.prems by simp
  with Cons show ?case by (cases "T p"; cases "T' p") auto
qed simp

lemma linked_nth:
  "linked T ps e \<Longrightarrow> i < length ps \<Longrightarrow>
   \<exists>t. T (ps ! i) = Some t \<and> next_of t = (if Suc i < length ps then ps ! Suc i else e)"
proof (induction ps arbitrary: i)
  case (Cons p ps)
  then show ?case
  proof (cases i)
    case 0
    with Cons.prems show ?thesis by (cases ps) (auto split: option.splits)
  next
    case (Suc j)
    with Cons.IH [of j] Cons.prems show ?thesis by auto
  qed
qed simp

lemma linked_end:
  "linked T ps e \<Longrightarrow> ps \<noteq> [] \<Longrightarrow> T (last ps) = Some t \<Longrightarrow> distinct ps \<Longrightarrow>
   linked (T(last ps \<mapsto> t\<lparr>next_of := e'\<rparr>)) ps e'"
proof (induction ps)
  case (Cons p ps)
  show ?case
  proof (cases "ps = []")
    case False
    then have "p \<noteq> last ps" using Cons.prems(4) by (metis distinct.simps(2) last_in_set)
    with False Cons show ?thesis by (auto split: option.splits)
  qed simp
qed simp

lemma before_none: "p \<notin> set (tl ps) \<Longrightarrow> before ps p = 0"
  by (induction ps p rule: before.induct) auto

lemma before_split:
  "p \<notin> set xs \<Longrightarrow> p \<notin> set ys \<Longrightarrow> before (xs @ p # ys) p = (if xs = [] then 0 else last xs)"
proof (induction xs)
  case (Cons x xs)
  then show ?case by (cases xs) auto
qed (simp add: before_none)


lemma before_snoc: "q \<noteq> p \<Longrightarrow> before (ps @ [p]) q = before ps q"
  by (induction ps q rule: before.induct) auto

section \<open>Removing a task\<close>

lemma task_list_remove_links:
  assumes links: "task_links s (xs @ p # ys)" and prev: "prev_right s (xs @ p # ys) p"
  obtains s' where "task_list_remove p s = Some s'" "task_links (s'\<lparr>tasks := (tasks s')(p := None)\<rparr>) (xs @ ys)"
    "mem s' = mem s" "\<And>q. map_option page_directory (tasks s' q) = map_option page_directory (tasks s q)"
    "\<And>q. map_option prev_of (tasks s' q) = map_option prev_of (tasks s q)"
proof -
  note L = links [unfolded task_links_def]
  have dist: "distinct (xs @ p # ys)" using L by simp
  obtain t where t: "tasks s p = Some t" "prev_of t = (if xs = [] then 0 else last xs)"
    using prev before_split [of p xs ys] dist by (auto simp: prev_right_def)
  have nxt: "next_of t = (if ys = [] then 0 else hd ys)"
    using L t(1) by (auto simp: linked_append)
  have lx: "linked (tasks s) xs p" and ly: "linked (tasks s) ys 0"
    using L by (auto simp: linked_append split: if_splits)
  define u where "u = the (tasks s (last xs))"
  define s1 where "s1 = (if xs = [] then s else s\<lparr>tasks := (tasks s)(last xs \<mapsto> u\<lparr>next_of := next_of t\<rparr>)\<rparr>)"
  have u: "tasks s (last xs) = Some u" "last xs \<noteq> p" "last xs \<notin> set ys" "last xs \<noteq> 0" if "xs \<noteq> []"
  proof -
    have lin: "last xs \<in> set xs" using that by simp
    then have "last xs \<in> dom (tasks s)" using L by auto
    then show "tasks s (last xs) = Some u" by (auto simp: u_def)
    show "last xs \<noteq> p" "last xs \<notin> set ys" "last xs \<noteq> 0" using lin dist L by auto
  qed
  have p1: "tasks s1 p = Some t" using t(1) u(2) by (auto simp: s1_def)
  have prevstep: "(if prev_of t \<noteq> 0 then put_task (prev_of t) (\<lambda>u. u\<lparr>next_of := next_of t\<rparr>) s else Some s) = Some s1"
    using t(2) u by (simp add: s1_def put_task_def)
  have "linked (tasks s1) xs (next_of t)"
    using linked_end [OF lx] u(1) dist by (cases "xs = []") (simp_all add: s1_def)
  moreover have "linked (tasks s1) ys 0"
    using ly u(3) by (subst linked_cong [of ys _ "tasks s"]) (auto simp: s1_def)
  ultimately have "linked (tasks s1) (xs @ ys) 0" using nxt by (simp add: linked_append)
  then have l1: "linked ((tasks s1)(p := None)) (xs @ ys) 0"
    using dist by (subst linked_cong [of _ _ "tasks s1"]) auto
  have hd: "p = task_head s \<longleftrightarrow> xs = []" and tl: "p = task_tail s \<longleftrightarrow> ys = []"
    using L by (cases xs; force)+
  define h where "h = (if xs = [] then next_of t else task_head s)"
  define c where "c = (if p = current_task s then (if next_of t = 0 then h else next_of t) else current_task s)"
  define s' where "s' = s1\<lparr>task_head := h, task_tail := (if ys = [] then prev_of t else task_tail s), current_task := c\<rparr>"
  have "task_list_remove p s = Some s'"
  proof -
    have sel: "task_head s1 = task_head s" "task_tail s1 = task_tail s" "current_task s1 = current_task s"
      by (simp_all add: s1_def)
    let ?s3 = "s1\<lparr>task_head := h, task_tail := (if ys = [] then prev_of t else task_tail s)\<rparr>"
    have s2: "(if p = task_head s1 then s1\<lparr>task_head := next_of t\<rparr> else s1) = s1\<lparr>task_head := h\<rparr>"
      using sel hd by (simp add: h_def)
    have s3: "(if p = task_tail (s1\<lparr>task_head := h\<rparr>) then s1\<lparr>task_head := h, task_tail := prev_of t\<rparr>
        else s1\<lparr>task_head := h\<rparr>) = ?s3"
      using sel tl by simp
    have s4: "(if p = current_task ?s3 then do { n \<leftarrow> task_get_next ?s3; Some (?s3\<lparr>current_task := n\<rparr>) } else Some ?s3) = Some s'"
    proof (cases "p = current_task s")
      case True
      then have "task_get_next ?s3 = Some c" using p1 sel by (simp add: task_get_next_def c_def)
      with True sel show ?thesis by (simp add: s'_def)
    qed (use sel in \<open>simp add: s'_def c_def\<close>)
    show ?thesis
      unfolding task_list_remove_def t(1) option.simps Option.bind.simps prevstep Let_def s2 s3 s4 ..
  qed
  moreover have "task_links (s'\<lparr>tasks := (tasks s')(p := None)\<rparr>) (xs @ ys)"
  proof -
    have "dom ((tasks s1)(p := None)) = set (xs @ ys)"
      using L u(1) by (auto simp: s1_def dom_def split: if_splits)
    moreover have "h = (if xs @ ys = [] then 0 else hd (xs @ ys))"
      using L nxt by (auto simp: h_def)
    moreover have "xs @ ys \<noteq> [] \<Longrightarrow> (if ys = [] then prev_of t else task_tail s) = last (xs @ ys)"
      using L t(2) by auto
    moreover have "(xs @ ys = [] \<longrightarrow> c = 0) \<and> (xs @ ys \<noteq> [] \<longrightarrow> c \<in> set (xs @ ys))"
    proof (cases "p = current_task s")
      case True
      have "0 \<notin> set ys" "task_head s = hd (xs @ p # ys)" using L by auto
      then show ?thesis using True nxt unfolding c_def h_def by (cases ys; cases xs) auto
    next
      case False
      have "current_task s \<in> set (xs @ p # ys)" using L by (simp split: if_splits)
      with False show ?thesis unfolding c_def by auto
    qed
    ultimately show ?thesis using L l1 by (auto simp: task_links_def s'_def split: if_splits)
  qed
  moreover have "mem s' = mem s" by (simp add: s'_def s1_def)
  moreover have "map_option page_directory (tasks s' q) = map_option page_directory (tasks s q)" for q
    using u(1) by (auto simp: s'_def s1_def)
  moreover have "map_option prev_of (tasks s' q) = map_option prev_of (tasks s q)" for q
    using u(1) by (auto simp: s'_def s1_def)
  ultimately show thesis by (rule that)
qed


section \<open>Blocks\<close>

lemma task_blocks_same:
  assumes "map_option page_directory (tasks s' p) = map_option page_directory (tasks s p)" "ram (mem s') = ram (mem s)"
  shows "task_blocks s' p = task_blocks s p"
  using assms by (cases "tasks s' p"; cases "tasks s p") (auto simp: task_blocks_def)

lemma sched_ok_owned:
  assumes "sched_ok m0 s ps" "tasks s p = Some t"
  shows "set (p # chunk_blocks (ram (mem s)) (page_directory t)) \<subseteq> dom (kowned (mem s))"
proof -
  have "p \<in> set ps" using assms by (auto simp: sched_ok_def task_links_def)
  then have "set (task_blocks s p) \<subseteq> set (concat (map (task_blocks s) ps))" by auto
  also have "\<dots> \<subseteq> dom (kowned (mem s))" using assms(1) by (auto simp: sched_ok_def grown_def)
  finally show ?thesis using assms(2) by (simp add: task_blocks_def)
qed

section \<open>Freeing a task\<close>

lemma task_free_ok:
  assumes ok: "sched_ok m0 s (xs @ p # ys)" and prev: "prev_right s (xs @ p # ys) p"
  obtains s' where "task_free p s = Some s'" "sched_ok m0 s' (xs @ ys)" "ram (mem s') = ram (mem s)"
    "tasks s' p = None" "\<And>q. q \<noteq> p \<Longrightarrow> map_option prev_of (tasks s' q) = map_option prev_of (tasks s q)"
proof -
  note S = ok [unfolded sched_ok_def]
  have links: "task_links s (xs @ p # ys)" using S by simp
  then obtain t where t: "tasks s p = Some t" by (auto simp: task_links_def)
  let ?bs = "chunk_blocks (ram (mem s)) (page_directory t) @ [p]"
  define s0 where "s0 = on_mem (\<lambda>m. paging_free_4gb m (page_directory t)) s"
  have mem0: "mem s0 = release_seq kfree (chunk_blocks (ram (mem s)) (page_directory t)) (mem s)"
    by (simp add: s0_def on_mem_def paging_free_release)
  have "task_links s0 (xs @ p # ys)" "prev_right s0 (xs @ p # ys) p"
    using links prev by (simp_all add: s0_def on_mem_def task_links_def prev_right_def)
  from task_list_remove_links [OF this] obtain s1
    where s1: "task_list_remove p s0 = Some s1" "task_links (s1\<lparr>tasks := (tasks s1)(p := None)\<rparr>) (xs @ ys)"
      "mem s1 = mem s0" "\<And>q. map_option page_directory (tasks s1 q) = map_option page_directory (tasks s0 q)"
      "\<And>q. map_option prev_of (tasks s1 q) = map_option prev_of (tasks s0 q)"
    by blast
  define s' where "s' = on_mem (\<lambda>m. kfree m p) (s1\<lparr>tasks := (tasks s1)(p := None)\<rparr>)"
  have free: "task_free p s = Some s'"
    using t s1(1) by (simp add: task_free_def s'_def s0_def)
  have mem': "mem s' = release_seq kfree ?bs (mem s)"
    by (simp add: s'_def on_mem_def s1(3) mem0)
  then have ram': "ram (mem s') = ram (mem s)" by simp
  have np: "p \<notin> set (xs @ ys)" using links by (auto simp: task_links_def)
  have blocks: "task_blocks s' q = task_blocks s q" if "q \<in> set (xs @ ys)" for q
    using that np s1(4) [of q] ram'
    by (intro task_blocks_same) (auto simp: s'_def on_mem_def s0_def)
  have "kgrown m0 (concat (map (task_blocks s) (xs @ ys))) (release_seq kfree ?bs (mem s))"
    using S t by (intro kheap.grown_release_seq [of _ "concat (map (task_blocks s) (xs @ p # ys))"])
      (auto simp: task_blocks_def)
  moreover have "map (task_blocks s') (xs @ ys) = map (task_blocks s) (xs @ ys)" using blocks by auto
  ultimately have "kgrown m0 (concat (map (task_blocks s') (xs @ ys))) (mem s')"
    unfolding mem' by metis
  moreover have "task_links s' (xs @ ys)" using s1(2) by (simp add: s'_def on_mem_def task_links_def)
  moreover have "chunk_ok (ram (mem s')) (page_directory u)" if "tasks s' q = Some u" for q u
  proof -
    have "tasks s1 q = Some u" using that by (auto simp: s'_def on_mem_def split: if_splits)
    then have "map_option page_directory (tasks s q) = Some (page_directory u)"
      using s1(4) [of q] by (simp add: s0_def on_mem_def)
    then obtain u' where "tasks s q = Some u'" "page_directory u' = page_directory u" by auto
    then show ?thesis using S ram' by metis
  qed
  ultimately have "sched_ok m0 s' (xs @ ys)" by (simp add: sched_ok_def)
  then show thesis
    by (rule that [OF free _ ram']) (use s1(5) in \<open>simp_all add: s'_def on_mem_def s0_def\<close>)
qed


section \<open>Creating a task\<close>

text \<open>The entry point of a process, where \<open>task_init\<close> can find it.\<close>

definition process_ready :: "kernel \<Rightarrow> u32 \<Rightarrow> bool" where
  "process_ready s process \<longleftrightarrow> (\<exists>p. procs s process = Some p \<and>
     (filetype p = PROCESS_FILETYPE_ELF \<longrightarrow> elf_files s (program p) \<noteq> None))"

definition process_entry :: "kernel \<Rightarrow> ram \<Rightarrow> u32 \<Rightarrow> u32" where
  "process_entry s r process =
     (let p = the (procs s process)
      in if filetype p = PROCESS_FILETYPE_ELF
         then e_entry (read_elf_header r (elf_memory (the (elf_files s (program p)))))
         else HARDIKHYPERION_OS_VIRTUAL_ADDRESS)"

definition new_task :: "u32 \<Rightarrow> u32 \<Rightarrow> u32 \<Rightarrow> u32 \<Rightarrow> task" where
  "new_task chunk entry process prev =
     \<lparr>page_directory = chunk, registers_of = zero_registers\<lparr>ip := entry, ss := USER_DATA_SEGMENT,
        cs := USER_CODE_SEGMENT, esp := PROGRAM_VIRTUAL_STACK_ADDRESS_START\<rparr>,
      process_of = process, next_of = 0, prev_of = prev\<rparr>"

lemma task_new_value:
  assumes "kzalloc (mem s) 64 = (p, m1)" "p \<noteq> 0" "paging_new_4gb m1 5 = (c, m2)" "c \<noteq> 0"
  shows "task_new process s =
    (if \<not> process_ready s process then None
     else let t = new_task c (process_entry s (ram m2) process) process 0;
              s2 = set_mem m2 (s\<lparr>tasks := (tasks s)(p \<mapsto> t)\<rparr>)
      in if task_head s = 0 then Some (p, s2\<lparr>task_head := p, task_tail := p, current_task := p\<rparr>)
         else do { s3 \<leftarrow> put_task (task_tail s) (\<lambda>t. t\<lparr>next_of := p\<rparr>) s2;
                   s4 \<leftarrow> put_task p (\<lambda>t. t\<lparr>prev_of := task_tail s\<rparr>) s3;
                   Some (p, s4\<lparr>task_tail := p\<rparr>) })"
proof -
  let ?s0 = "set_mem m1 (s\<lparr>tasks := (tasks s)(p \<mapsto> zero_task)\<rparr>)"
  let ?s2 = "set_mem m2 (s\<lparr>tasks := (tasks s)(p \<mapsto> new_task c (process_entry s (ram m2) process) process 0)\<rparr>)"
  have fl: "ucast (PAGING_IS_PRESENT OR PAGING_ACCESS_FROM_ALL) = (5 :: u8)"
    by (simp add: paging_consts)
  have "task_init p process ?s0 = (if process_ready s process then Some (0, ?s2) else None)"
  proof (cases "procs s process")
    case None
    then show ?thesis using assms(3,4)
      by (simp add: task_init_def put_task_def fl process_ready_def)
  next
    case (Some pr)
    then show ?thesis using assms(3,4)
      by (cases "elf_files s (program pr)")
        (simp_all add: task_init_def put_task_def fl process_ready_def process_entry_def new_task_def zero_task_def
          elf_header_of_def)
  qed
  moreover have "(set_mem m1 s)\<lparr>tasks := (tasks s)(p \<mapsto> zero_task)\<rparr> = ?s0" by simp
  ultimately show ?thesis
    using assms(1,2) by (simp add: task_new_def sizeof_task_def status_simps IS_ERR_def Let_def put_task_def)
qed


lemma kept_task_blocks:
  assumes "pages_kept (mem s) r" "sched_ok m0 s ps" "tasks s q = Some t"
  shows "chunk_blocks r (page_directory t) = chunk_blocks (ram (mem s)) (page_directory t)"
    and "chunk_ok r (page_directory t)"
proof -
  have "set (chunk_blocks (ram (mem s)) (page_directory t)) \<subseteq> dom (kowned (mem s))"
    using sched_ok_owned [OF assms(2,3)] by simp
  from pages_kept_chunk [OF assms(1) this] assms(2,3)
  show "chunk_blocks r (page_directory t) = chunk_blocks (ram (mem s)) (page_directory t)"
    "chunk_ok r (page_directory t)" by (auto simp: sched_ok_def)
qed

lemma task_new_ok:
  assumes ok: "sched_ok m0 s ps" and room: "1027 \<le> kroom (mem s)" and ready: "process_ready s process"
  obtains p s' c where "task_new process s = Some (p, s')" "sched_ok m0 s' (ps @ [p])" "p \<notin> set ps"
    "tasks s' p = Some (new_task c (process_entry s (ram (mem s')) process) process (if ps = [] then 0 else last ps))"
    "\<And>v. page_aligned v \<Longrightarrow> paging_get (ram (mem s')) (load32 (ram (mem s')) c) v = v OR 5"
    "current_task s' = (if ps = [] then p else current_task s)" "kroom (mem s) = 1027 + kroom (mem s')"
    "\<And>q. q \<in> set ps \<Longrightarrow> map_option (\<lambda>t. t\<lparr>next_of := 0\<rparr>) (tasks s' q) = map_option (\<lambda>t. t\<lparr>next_of := 0\<rparr>) (tasks s q)"
    "procs s' = procs s" "elf_files s' = elf_files s" "processes s' = processes s" "runs_kept (mem s) (ram (mem s'))"
    "\<And>i. i < 1024 \<Longrightarrow> load32 (ram (mem s')) (page_word (load32 (ram (mem s')) c) i) =
       pt (ram (mem s')) (load32 (ram (mem s')) c) i OR 7"
    "kowned (mem s) p = None" "kowned (mem s) \<subseteq>\<^sub>m kowned (mem s')"
    "set (chunk_blocks (ram (mem s')) c) \<inter> dom (kowned (mem s)) = {}"
    "kgrown (mem s) (p # chunk_blocks (ram (mem s')) c) (mem s')"
proof -
  note S = ok [unfolded sched_ok_def] and L = ok [unfolded sched_ok_def task_links_def]
  have okm: "kheap_ok (mem s)" using S by (simp add: grown_def)
  obtain p m1 where m1: "kzalloc (mem s) 64 = (p, m1)" "p \<noteq> 0" "kgrown (mem s) [p] m1"
    by (rule kheap.grown_alloc [OF okm, of 64]) (use room in auto)
  have ok1: "kheap_ok m1" "1026 \<le> kroom m1" "kroom (mem s) = 1 + kroom m1"
    using m1(3) room by (auto simp: grown_def)
  obtain c m2 where m2: "paging_new_4gb m1 5 = (c, m2)" "fresh_chunk m1 c m2" "kroom m1 = 1026 + kroom m2"
    "\<And>v. page_aligned v \<Longrightarrow> paging_get (ram m2) (load32 (ram m2) c) v = v OR ucast (5 :: u8)"
    "\<And>i. i < 1024 \<Longrightarrow> load32 (ram m2) (page_word (load32 (ram m2) c) i) =
       pt (ram m2) (load32 (ram m2) c) i OR ucast (5 :: u8) OR PAGING_IS_WRITEABLE"
    by (rule paging_new_4gb_entries [OF ok1(1,2), of 5]) (rule that, assumption+)
  have c: "c \<noteq> 0" "chunk_ok (ram m2) c" using m2(2) by (simp_all add: fresh_chunk_def)
  have "kowned m1 = (\<lambda>q. if q \<in> set [p] then Some 1 else kowned (mem s) q)"
    using m1(3) unfolding grown_def by blast
  moreover have newp: "p \<notin> dom (kowned (mem s))" using m1(3) by (auto simp: grown_def)
  ultimately have sub: "kowned m1 q = Some n" if "kowned (mem s) q = Some n" for q n using that by auto
  have runs: "runs_kept (mem s) (ram m2)"
    using kzalloc_page_kept [OF okm _ _ _ m1(1)] paging_new_4gb_runs [OF ok1(1,2) m2(1)] room sub
    by (auto intro: runs_kept_trans)
  note kept = runs_kept_pages [OF okm runs]
  have sub2: "kowned (mem s) \<subseteq>\<^sub>m kowned m2"
    using m2(2) sub unfolding fresh_chunk_def map_le_def by fastforce
  have apart: "set (chunk_blocks (ram m2) c) \<inter> dom (kowned (mem s)) = {}"
    using m2(2) sub unfolding fresh_chunk_def by fast
  have np: "p \<notin> dom (tasks s)"
    using sched_ok_owned [OF ok] newp by fastforce
  then have nps: "p \<notin> set ps" using L by simp
  define e where "e = process_entry s (ram m2) process"
  define tl where "tl = the (tasks s (task_tail s))"
  define T where "T = (if ps = [] then tasks s else (tasks s)(task_tail s \<mapsto> tl\<lparr>next_of := p\<rparr>))
    (p \<mapsto> new_task c e process (if ps = [] then 0 else last ps))"
  define s' where "s' = set_mem m2 (s\<lparr>tasks := T, task_head := (if ps = [] then p else task_head s), task_tail := p,
     current_task := (if ps = [] then p else current_task s)\<rparr>)"
  have tl: "tasks s (last ps) = Some tl" "task_tail s = last ps" "last ps \<noteq> p" if "ps \<noteq> []"
  proof -
    show l: "task_tail s = last ps" using L that by simp
    have "last ps \<in> set ps" using that by simp
    then have "last ps \<in> dom (tasks s)" using L by simp
    then show "tasks s (last ps) = Some tl" "last ps \<noteq> p" using np by (auto simp: tl_def l)
  qed
  have new: "task_new process s = Some (p, s')"
  proof (cases "ps = []")
    case True
    then have "task_head s = 0" using L by simp
    with True ready show ?thesis
      by (simp add: task_new_value [OF m1(1,2) m2(1) c(1)] s'_def T_def e_def)
  next
    case False
    then have "task_head s \<noteq> 0" using L by (metis hd_in_set)
    with False ready tl [OF False] np show ?thesis
      by (simp add: task_new_value [OF m1(1,2) m2(1) c(1)] s'_def T_def e_def put_task_def new_task_def
          fun_upd_twist)
  qed
  have Tp: "T p = Some (new_task c e process (if ps = [] then 0 else last ps))" by (simp add: T_def)
  have Told: "map_option (\<lambda>t. t\<lparr>next_of := 0\<rparr>) (T q) = map_option (\<lambda>t. t\<lparr>next_of := 0\<rparr>) (tasks s q)" if "q \<in> set ps" for q
  proof -
    have "q \<noteq> p" "ps \<noteq> []" using that nps by auto
    then show ?thesis using tl by (auto simp: T_def)
  qed
  have pd: "map_option page_directory (T q) = map_option page_directory (tasks s q)" if "q \<in> set ps" for q
    using arg_cong [OF Told [OF that], of "map_option page_directory"] by (simp add: map_option.compositionality comp_def)
  have links: "task_links s' (ps @ [p])"
  proof -
    have "linked T ps p"
    proof (cases "ps = []")
      case False
      have "linked ((tasks s)(last ps \<mapsto> tl\<lparr>next_of := p\<rparr>)) ps p"
        using L False tl(1) [OF False] by (intro linked_end) auto
      then show ?thesis using False nps tl(2) by (subst linked_cong) (auto simp: T_def)
    qed simp
    then have "linked T (ps @ [p]) 0" by (simp add: linked_append Tp new_task_def)
    moreover have "dom T = set (ps @ [p])"
    proof (cases "ps = []")
      case False
      then have "task_tail s \<in> set ps" using tl(2) by simp
      with False L show ?thesis by (auto simp: T_def)
    qed (use L in \<open>auto simp: T_def\<close>)
    ultimately show ?thesis using L nps m1(2) by (simp add: task_links_def s'_def)
  qed
  have same: "task_blocks s' q = task_blocks s q" if q: "q \<in> set ps" for q
  proof -
    have "q \<in> dom (tasks s)" using q L by simp
    then obtain t where t: "tasks s q = Some t" by auto
    then obtain u where u: "T q = Some u" "page_directory u = page_directory t" using pd [OF q] by auto
    with t kept_task_blocks(1) [OF kept ok t] show ?thesis by (simp add: task_blocks_def s'_def)
  qed
  have "task_blocks s' p = p # chunk_blocks (ram m2) c" by (simp add: task_blocks_def s'_def Tp new_task_def)
  moreover have mp: "map (task_blocks s') ps = map (task_blocks s) ps" using same by simp
  ultimately have bl: "concat (map (task_blocks s') (ps @ [p])) =
      concat (map (task_blocks s) ps) @ [p] @ chunk_blocks (ram m2) c"
    by (simp add: mp)
  have grown: "kgrown (mem s) ([p] @ chunk_blocks (ram m2) c) m2"
    by (rule kheap.grown_trans [OF m1(3) fresh_chunk_grown [OF ok1(1) m2(2,3)]])
  then have "kgrown m0 (concat (map (task_blocks s) ps) @ [p] @ chunk_blocks (ram m2) c) m2"
    using S kheap.grown_trans by blast
  moreover have "chunk_ok (ram m2) (page_directory t)" if "T q = Some t" for q t
  proof (cases "q = p")
    case True
    then show ?thesis using that c(2) by (auto simp: Tp new_task_def)
  next
    case False
    have "q \<in> dom T" using that by auto
    then have q: "q \<in> set ps" using links False by (simp add: task_links_def s'_def)
    then have "q \<in> dom (tasks s)" using L by simp
    then obtain u where u: "tasks s q = Some u" by auto
    with pd [OF q] that have "page_directory u = page_directory t" by simp
    with kept_task_blocks(2) [OF kept ok u] show ?thesis by simp
  qed
  ultimately have "sched_ok m0 s' (ps @ [p])"
    using links bl by (simp add: sched_ok_def) (simp add: s'_def)
  moreover have "paging_get (ram (mem s')) (load32 (ram (mem s')) c) v = v OR 5" if "page_aligned v" for v
    using m2(4) [OF that] by (simp add: s'_def)
  moreover have "kroom (mem s) = 1027 + kroom (mem s')" using ok1(3) m2(3) by (simp add: s'_def)
  ultimately show thesis
    by (intro that [OF new])
      (use nps Tp Told runs sub2 newp apart grown m2(5) in \<open>auto simp: s'_def e_def PAGING_IS_WRITEABLE_def or.assoc\<close>)
qed


lemma task_new_not_ready:
  assumes "sched_ok m0 s ps" "1027 \<le> kroom (mem s)" "\<not> process_ready s process"
  shows "task_new process s = None"
proof -
  have okm: "kheap_ok (mem s)" using assms(1) by (simp add: sched_ok_def grown_def)
  obtain p m1 where m1: "kzalloc (mem s) 64 = (p, m1)" "p \<noteq> 0" "kgrown (mem s) [p] m1"
    by (rule kheap.grown_alloc [OF okm, of 64]) (use assms(2) in auto)
  then have "kheap_ok m1" "1026 \<le> kroom m1" using assms(2) by (auto simp: grown_def)
  then obtain c m2 where "paging_new_4gb m1 5 = (c, m2)" "fresh_chunk m1 c m2"
    using paging_new_4gb_chunk [of m1 5] by blast
  with m1 assms(3) show ?thesis by (simp add: task_new_value fresh_chunk_def)
qed

section \<open>Switching and saving\<close>

text \<open>Other allocations may come and go: the tasks stay as they are.\<close>

lemma sched_ok_rebase:
  assumes ok: "sched_ok m0 s ps" and kept: "pages_kept (mem s) (ram (mem s'))" and heap: "kheap_ok (mem s')"
    and own: "kowned (mem s) \<subseteq>\<^sub>m kowned (mem s')"
    and same: "tasks s' = tasks s" "task_head s' = task_head s" "task_tail s' = task_tail s" "current_task s' = current_task s"
  shows "sched_ok (release_seq kfree (concat (map (task_blocks s) ps)) (mem s')) s' ps"
proof -
  let ?bs = "concat (map (task_blocks s) ps)"
  note S = ok [unfolded sched_ok_def]
  have "task_blocks s' q = task_blocks s q" for q
    using kept_task_blocks(1) [OF kept ok] by (auto simp: task_blocks_def same split: option.splits)
  then have bl: "map (task_blocks s') ps = map (task_blocks s) ps" by simp
  have G: "distinct ?bs" "0 \<notin> set ?bs" "\<And>p. p \<in> set ?bs \<Longrightarrow> kowned (mem s) p = Some 1"
    using S unfolding grown_def by auto
  have "kgrown (release_seq kfree ?bs (mem s')) ?bs (mem s')"
    by (rule kheap.grown_base [OF heap G(1,2)]) (use G(3) own in \<open>metis domI map_le_def\<close>)
  moreover have "chunk_ok (ram (mem s')) (page_directory t)" if "tasks s' q = Some t" for q t
    using kept_task_blocks(2) [OF kept ok] that by (simp add: same)
  moreover have "task_links s' ps" using S by (simp add: task_links_def same)
  ultimately show ?thesis by (simp add: sched_ok_def bl)
qed

lemma sched_ok_core:
  assumes "sched_ok m0 s ps" "mem s' = mem s" "task_head s' = task_head s" "task_tail s' = task_tail s"
    and "ps \<noteq> [] \<Longrightarrow> current_task s' \<in> set ps" "ps = [] \<Longrightarrow> current_task s' = 0"
    and "\<And>q. map_option (\<lambda>t. (page_directory t, next_of t)) (tasks s' q) =
      map_option (\<lambda>t. (page_directory t, next_of t)) (tasks s q)"
  shows "sched_ok m0 s' ps"
proof -
  have pd: "map_option page_directory (tasks s' q) = map_option page_directory (tasks s q)"
    and nx: "map_option next_of (tasks s' q) = map_option next_of (tasks s q)" for q
    using arg_cong [OF assms(7) [of q], of "map_option fst"] arg_cong [OF assms(7) [of q], of "map_option snd"]
    by (simp_all add: map_option.compositionality comp_def)
  have d: "dom (tasks s') = dom (tasks s)"
  proof -
    have "tasks s' q = None \<longleftrightarrow> tasks s q = None" for q
      using pd [of q] by (cases "tasks s' q"; cases "tasks s q") auto
    then show ?thesis unfolding dom_def by simp
  qed
  have "task_blocks s' = task_blocks s"
    using pd assms(2) by (auto simp: fun_eq_iff intro: task_blocks_same)
  moreover have "linked (tasks s') ps 0 = linked (tasks s) ps 0" using nx by (intro linked_cong) auto
  moreover have "chunk_ok (ram (mem s')) (page_directory t)" if q: "tasks s' q = Some t" for q t
  proof -
    obtain u where "tasks s q = Some u" "page_directory u = page_directory t"
      using pd [of q] q by (cases "tasks s q") auto
    then have "chunk_ok (ram (mem s)) (page_directory t)" using assms(1) by (metis sched_ok_def)
    then show ?thesis by (simp add: assms(2))
  qed
  ultimately show ?thesis
    using assms(1-6) d by (simp add: sched_ok_def task_links_def)
qed

lemma task_get_next_index:
  assumes "task_links s ps" "i < length ps" "current_task s = ps ! i"
  shows "task_get_next s = Some (ps ! (Suc i mod length ps))"
proof -
  note L = assms(1) [unfolded task_links_def]
  from L linked_nth [of "tasks s" ps 0 i] assms(2) obtain t
    where t: "tasks s (ps ! i) = Some t" "next_of t = (if Suc i < length ps then ps ! Suc i else 0)" by auto
  show ?thesis
  proof (cases "Suc i < length ps")
    case True
    then have "ps ! Suc i \<noteq> 0" using L by (metis nth_mem)
    with True t assms(3) show ?thesis by (simp add: task_get_next_def)
  next
    case False
    then have "Suc i = length ps" using assms(2) by simp
    then have "ps ! (Suc i mod length ps) = hd ps" using assms(2) by (cases ps) auto
    with False t assms(2,3) L show ?thesis by (auto simp: task_get_next_def)
  qed
qed

lemma task_switch_ok:
  assumes "sched_ok m0 s ps" "p \<in> set ps"
  obtains t where "tasks s p = Some t" "task_switch p s = Some (switch_page (page_directory t) (s\<lparr>current_task := p\<rparr>))"
    "sched_ok m0 (switch_page (page_directory t) (s\<lparr>current_task := p\<rparr>)) ps"
proof -
  have "p \<in> dom (tasks s)" using assms by (simp add: sched_ok_def task_links_def)
  then obtain t where t: "tasks s p = Some t" by auto
  have "sched_ok m0 (switch_page (page_directory t) (s\<lparr>current_task := p\<rparr>)) ps"
    by (rule sched_ok_core [OF assms(1)]) (use assms(2) in \<open>auto simp: switch_page_def\<close>)
  with t show thesis by (intro that) (simp_all add: task_switch_def)
qed

text \<open>One tick: the next task in the circle runs, with its own registers and page directory.\<close>

lemma task_next_ok:
  assumes "sched_ok m0 s ps" "i < length ps" "current_task s = ps ! i"
  obtains s' t where "task_next s = Some (registers_of t, s')" "sched_ok m0 s' ps" "tasks s' = tasks s"
    "current_task s' = ps ! (Suc i mod length ps)" "tasks s (current_task s') = Some t" "mem s' = mem s"
    "cr3 (cpu s') = load32 (ram (mem s)) (page_directory t)"
proof -
  let ?p = "ps ! (Suc i mod length ps)"
  have "Suc i mod length ps < length ps" using assms(2) by (metis length_pos_if_in_set mod_less_divisor nth_mem)
  then have p: "?p \<in> set ps" by simp
  then have nz: "?p \<noteq> 0" using assms(1) by (metis sched_ok_def task_links_def)
  obtain t where t: "tasks s ?p = Some t"
    "task_switch ?p s = Some (switch_page (page_directory t) (s\<lparr>current_task := ?p\<rparr>))"
    "sched_ok m0 (switch_page (page_directory t) (s\<lparr>current_task := ?p\<rparr>)) ps"
    by (rule task_switch_ok [OF assms(1) p])
  have "task_get_next s = Some ?p"
    using task_get_next_index [OF _ assms(2,3)] assms(1) by (simp add: sched_ok_def)
  with t nz have "task_next s = Some (registers_of t, switch_page (page_directory t) (s\<lparr>current_task := ?p\<rparr>))"
    by (simp add: task_next_def switch_page_def)
  then show thesis
    by (rule that) (use t in \<open>simp_all add: switch_page_def paging_switch_def\<close>)
qed

lemma task_save_ok:
  assumes "sched_ok m0 s ps" "task_current_save_state frame s = Some s'"
  shows "sched_ok m0 s' ps"
proof -
  obtain t regs where "tasks s (current_task s) = Some t"
    "s' = s\<lparr>tasks := (tasks s)(current_task s \<mapsto> t\<lparr>registers_of := regs\<rparr>)\<rparr>"
    using assms(2)
    by (cases "tasks s (current_task s)") (auto simp: task_current_save_state_def task_save_state_def put_task_def split: if_splits)
  then show ?thesis
    using assms(1) by (intro sched_ok_core [OF assms(1)]) (auto simp: sched_ok_def task_links_def)
qed

section \<open>Every step keeps the invariant\<close>

text \<open>Without a free block no task is created; a safe release has a right \<open>prev\<close>.\<close>

lemma kzalloc_full:
  assumes "kheap_ok m" "kroom m = 0"
  shows "kzalloc m sz = (0, m)"
proof -
  let ?t = "tbl (kernel_heap m)"
  have full: "e \<noteq> 0" if "e \<in> set ?t" for e using assms(2) that by (auto simp: kroom_def free_count_def filter_empty_conv)
  then have "?t = [] \<or> last ?t \<noteq> 0" by (meson last_in_set)
  moreover have "\<not> free_at ?t i n" if "0 < n" for i n
    using full [of "?t ! i"] that unfolding free_at_def by (metis add.right_neutral add_lessD1 less_le_trans nth_mem nat_add_left_cancel_less)
  ultimately have "heap_malloc (kernel_heap m) sz = (0, kernel_heap m)"
    using assms(1) blocks_for_pos by (intro heap_malloc_refused) (auto simp: kheap_ok_def)
  then show ?thesis by (simp add: kzalloc_def kmalloc_def)
qed

lemma task_new_full:
  assumes "sched_ok m0 s ps" "kroom (mem s) = 0"
  shows "task_new process s = None"
proof -
  have "kheap_ok (mem s)" using assms(1) by (auto simp: sched_ok_def grown_def)
  from kzalloc_full [OF this assms(2)] have "kzalloc (mem s) sizeof_task = (0, mem s)" .
  moreover have "0 \<notin> dom (tasks s)" using assms(1) by (simp add: sched_ok_def task_links_def)
  then have "tasks s 0 = None" by blast
  ultimately show ?thesis by (simp add: task_new_def task_free_def IS_ERR_def ENOMEM_def)
qed

lemma safe_prev_right:
  assumes L: "task_links s ps" and free: "task_free p s = Some s'" and safe: "sched_safe (s, Release p)"
  shows "p \<in> set ps" "prev_right s ps p"
proof -
  obtain t where t: "tasks s p = Some t" using free by (auto simp: task_free_def split: bind_splits)
  then show mem: "p \<in> set ps" using L by (auto simp: task_links_def)
  note L' = L [unfolded task_links_def]
  have "prev_of t = before ps p"
  proof (cases "prev_of t = 0")
    case True
    then have "hd ps = p" "ps \<noteq> []" using safe t L' mem by auto
    then obtain ys where "ps = [] @ p # ys" by (cases ps) auto
    moreover from this L' have "p \<notin> set ys" by simp
    ultimately show ?thesis using True before_split [of p "[]" ys] by simp
  next
    case False
    obtain q where q: "tasks s (prev_of t) = Some q"
      using free t False by (auto simp: task_free_def task_list_remove_def put_task_def on_mem_def split: bind_splits)
    have n: "next_of q = p" using safe t q False by simp
    have "prev_of t \<in> set ps" using L' q by auto
    then obtain as bs where ps: "ps = as @ prev_of t # bs" by (metis split_list)
    have "linked (tasks s) (prev_of t # bs) 0" using L' by (simp add: ps linked_append)
    then have "p = (if bs = [] then 0 else hd bs)" using q n by simp
    then obtain cs where "bs = p # cs" using L' mem by (cases bs) auto
    then have e: "ps = (as @ [prev_of t]) @ p # cs" using ps by simp
    have "p \<notin> set (as @ [prev_of t])" "p \<notin> set cs" using L' by (auto simp: e)
    then show ?thesis using before_split [of p "as @ [prev_of t]" cs] unfolding e by simp
  qed
  with t show "prev_right s ps p" by (simp add: prev_right_def)
qed

lemma sched_step_ok:
  assumes "sched_step x s s'" "sched_safe (s, x)" "sched_ok m0 s ps"
  shows "\<exists>ps'. sched_ok m0 s' ps'"
  using assms(1)
proof (cases rule: sched_step_cases)
  case (New process p)
  then have "1027 \<le> kroom (mem s)" "process_ready s process"
    using assms(2) task_new_full [OF assms(3)] task_new_not_ready [OF assms(3)] by fastforce+
  with New task_new_ok [OF assms(3) this] show ?thesis by (metis option.inject prod.inject)
next
  case (Next regs)
  have "ps \<noteq> []"
  proof
    assume "ps = []"
    then have "tasks s = Map.empty" using assms(3) by (simp add: sched_ok_def task_links_def)
    with Next show False by (simp add: task_next_def task_get_next_def)
  qed
  then have "current_task s \<in> set ps" using assms(3) by (simp add: sched_ok_def task_links_def)
  then obtain i where i: "i < length ps" "current_task s = ps ! i" by (metis in_set_conv_nth)
  from task_next_ok [OF assms(3) this] Next show ?thesis by (metis option.inject prod.inject)
next
  case (Save frame)
  with task_save_ok [OF assms(3)] show ?thesis by blast
next
  case (Free p)
  have "task_links s ps" using assms(3) by (simp add: sched_ok_def)
  note R = safe_prev_right [OF this Free(2) assms(2) [unfolded Free(1)]]
  from R(1) obtain xs ys where q: "ps = xs @ p # ys" by (metis split_list)
  from task_free_ok [OF assms(3) [unfolded q] R(2) [unfolded q]] Free(2) show ?thesis by (metis option.inject)
qed

lemma sched_run_ok: "sched_run s tr s' \<Longrightarrow> list_all sched_safe tr \<Longrightarrow> sched_ok m0 s ps \<Longrightarrow> \<exists>ps'. sched_ok m0 s' ps'"
proof (induction arbitrary: ps rule: sched_run.induct)
  case (Step x s s' tr s'')
  then have "sched_safe (s, x)" by simp
  from sched_step_ok [OF Step.hyps(1) this Step.prems(2)] obtain ps' where "sched_ok m0 s' ps'" ..
  then show ?case using Step.IH Step.prems(1) by simp
qed blast

end
