(* ===== verification/TaskProps.thy ===== *)
theory TaskProps
  imports TaskLinks
begin

text \<open>
  Properties of the scheduler: its invariant over all runs that are \<open>sched_safe\<close>, round robin, creation, release, and
  the dangling \<open>prev\<close> link that the release of a task leaves behind.
\<close>

section \<open>A kernel with one loaded process and no task\<close>

definition sample_process :: process where
  "sample_process = zero_process\<lparr>filetype := PROCESS_FILETYPE_BINARY\<rparr>"

definition sample_kernel :: kernel where
  "sample_kernel = \<lparr>
     file_layer = \<lparr>fsys = \<lparr>km = boot_kmem, the_disk = \<lparr>disk_type = 0, sector_size = 512, disk_id = 0,
         disk_filesystem = None, fs_private = None\<rparr>, fat_descriptors = Map.empty\<rparr>,
       filesystems = [], file_descriptors = []\<rparr>,
     cpu = \<lparr>cr3 = 0, current_directory = 0\<rparr>, data_selector = 0x10, kernel_chunk = 0,
     tasks = Map.empty, current_task = 0, task_head = 0, task_tail = 0,
     procs = [0x3000 \<mapsto> sample_process], processes = 0x3000 # replicate 11 0, current_process = 0x3000,
     elf_files = Map.empty,
     interrupts = \<lparr>idt_descriptors = [], interrupt_callbacks = [], isr80h_commands = []\<rparr>,
     keyboards = [], screen = \<lparr>video_memory = (\<lambda>_. 0), terminal_row = 0, terminal_col = 0\<rparr>\<rparr>"

lemma sample_kernel_ok:
  "sched_ok boot_kmem sample_kernel []" "kroom (mem sample_kernel) = 25600" "process_ready sample_kernel 0x3000"
  using kheap.grown_refl [OF boot_kmem_facts(1)]
  by (simp_all add: sched_ok_def task_links_def sample_kernel_def mem_def process_ready_def sample_process_def
      PROCESS_FILETYPE_BINARY_def PROCESS_FILETYPE_ELF_def boot_kmem_facts)

text \<open>Two tasks for the process.\<close>

lemma task_new_keeps:
  assumes "sched_ok m0 s ps" "1027 \<le> kroom (mem s)" "process_ready s r"
    and "task_new r s = Some (p, s')"
  shows "sched_ok m0 s' (ps @ [p])" "p \<notin> set ps" "prev_right s' (ps @ [p]) p" "process_ready s' r"
    "current_task s' = (if ps = [] then p else current_task s)" "kroom (mem s) = 1027 + kroom (mem s')"
    "\<And>q. q \<in> set ps \<Longrightarrow> prev_right s ps q \<Longrightarrow> prev_right s' (ps @ [p]) q"
proof -
  obtain c where n: "sched_ok m0 s' (ps @ [p])" "p \<notin> set ps"
    "tasks s' p = Some (new_task c (process_entry s (ram (mem s')) r) r (if ps = [] then 0 else last ps))"
    "current_task s' = (if ps = [] then p else current_task s)" "kroom (mem s) = 1027 + kroom (mem s')"
    "\<And>q. q \<in> set ps \<Longrightarrow> map_option (\<lambda>t. t\<lparr>next_of := 0\<rparr>) (tasks s' q) = map_option (\<lambda>t. t\<lparr>next_of := 0\<rparr>) (tasks s q)"
    "procs s' = procs s" "elf_files s' = elf_files s"
    by (rule task_new_ok [OF assms(1-3)]) (use assms(4) in simp)
  show "sched_ok m0 s' (ps @ [p])" "p \<notin> set ps" "current_task s' = (if ps = [] then p else current_task s)"
    "kroom (mem s) = 1027 + kroom (mem s')" "process_ready s' r"
    using n assms(3) by (simp_all add: process_ready_def)
  show "prev_right s' (ps @ [p]) p"
    using n(2,3) before_split [of p ps "[]"] by (simp add: prev_right_def new_task_def)
  show "prev_right s' (ps @ [p]) q" if q: "q \<in> set ps" "prev_right s ps q" for q
  proof -
    obtain t where t: "tasks s q = Some t" "prev_of t = before ps q" using q(2) by (auto simp: prev_right_def)
    then obtain u where u: "tasks s' q = Some u" "u\<lparr>next_of := 0\<rparr> = t\<lparr>next_of := 0\<rparr>" using n(6) [OF q(1)] by auto
    have "prev_of u = prev_of t" using arg_cong [OF u(2), of prev_of] by simp
    moreover have "q \<noteq> p" using q(1) n(2) by auto
    moreover note u(1)
    ultimately show ?thesis using t(2) before_snoc [of q p ps] by (simp add: prev_right_def)
  qed
qed

lemma task_new_some:
  assumes "sched_ok m0 s ps" "1027 \<le> kroom (mem s)" "process_ready s r"
  shows "\<exists>p s'. task_new r s = Some (p, s')"
  by (rule task_new_ok [OF assms]) blast

lemma sample_two_tasks:
  obtains p q s1 s2 where "task_new 0x3000 sample_kernel = Some (p, s1)" "task_new 0x3000 s1 = Some (q, s2)"
    "sched_ok boot_kmem s1 [p]" "sched_ok boot_kmem s2 [p, q]" "current_task s2 = p"
    "prev_right s2 [p, q] p" "prev_right s2 [p, q] q" "kroom (mem s1) = 24573" "process_ready s1 0x3000"
proof -
  note S = sample_kernel_ok
  obtain p s1 where p: "task_new 0x3000 sample_kernel = Some (p, s1)"
    using task_new_some [OF S(1) _ S(3)] S(2) by auto
  note P = task_new_keeps [OF S(1) _ S(3) p, simplified S(2), simplified]
  obtain q s2 where q: "task_new 0x3000 s1 = Some (q, s2)"
    using task_new_some [OF P(1) _ P(4)] P(6) by auto
  note Q = task_new_keeps [OF P(1) _ P(4) q]
  have r: "1027 \<le> kroom (mem s1)" using P(6) by simp
  show thesis
    by (rule that [OF p q]) (use P Q [OF r] in simp_all)
qed

section \<open>The invariant\<close>



section \<open>Round robin\<close>

text \<open>The number of clock ticks a list of tasks runs for.\<close>

fun ticks :: "nat \<Rightarrow> kernel \<Rightarrow> kernel option" where
  "ticks 0 s = Some s"
| "ticks (Suc n) s = do { (regs, s') \<leftarrow> task_next s; ticks n s' }"

lemma ticks_index:
  "sched_ok m0 s ps \<Longrightarrow> i < length ps \<Longrightarrow> current_task s = ps ! i \<Longrightarrow>
   \<exists>s'. ticks n s = Some s' \<and> current_task s' = ps ! ((i + n) mod length ps) \<and> sched_ok m0 s' ps \<and>
     tasks s' = tasks s \<and> mem s' = mem s"
proof (induction n arbitrary: s i)
  case (Suc n)
  obtain s1 regs where s1: "task_next s = Some (regs, s1)" "sched_ok m0 s1 ps" "tasks s1 = tasks s"
    "current_task s1 = ps ! (Suc i mod length ps)" "mem s1 = mem s"
    by (rule task_next_ok [OF Suc.prems]) (rule that, assumption+)
  have "Suc i mod length ps < length ps" using Suc.prems(2) by (cases ps) auto
  from Suc.IH [OF s1(2) this s1(4)] obtain s'
    where s': "ticks n s1 = Some s'" "current_task s' = ps ! ((Suc i mod length ps + n) mod length ps)"
      "sched_ok m0 s' ps" "tasks s' = tasks s1" "mem s' = mem s1" by blast
  have "(Suc i mod length ps + n) mod length ps = (i + Suc n) mod length ps"
    by (metis add_Suc_shift mod_add_left_eq)
  with s' s1(1,3,5) show ?case by (intro exI [of _ s']) simp
qed simp

text \<open>
  C16. Fairness. From a well-formed state with tasks, any number \<open>n\<close> of calls of \<open>task_next\<close> (task.c)
  succeeds and makes the task \<open>n\<close> places further in the circle of the list the current one, without
  changing the tasks or memory; so every task runs within as many ticks as there are tasks.
\<close>

theorem task_next_fair:
  assumes "sched_ok m0 s ps" "i < length ps" "current_task s = ps ! i"
  shows "(\<exists>s'. ticks n s = Some s' \<and> current_task s' = ps ! ((i + n) mod length ps) \<and> sched_ok m0 s' ps \<and>
      tasks s' = tasks s \<and> mem s' = mem s) \<and>
    (\<forall>p \<in> set ps. \<exists>k s'. 1 \<le> k \<and> k \<le> length ps \<and> ticks k s = Some s' \<and> current_task s' = p)"
proof (intro conjI ballI)
  fix p assume "p \<in> set ps"
  then obtain j where j: "j < length ps" "p = ps ! j" by (metis in_set_conv_nth)
  define k where "k = (if i < j then j - i else length ps + j - i)"
  have k: "1 \<le> k" "k \<le> length ps" "(i + k) mod length ps = j"
    using j(1) assms(2) by (auto simp: k_def)
  with ticks_index [OF assms, of k] j(2) show "\<exists>k s'. 1 \<le> k \<and> k \<le> length ps \<and> ticks k s = Some s' \<and> current_task s' = p"
    by auto
qed (rule ticks_index [OF assms])

theorem task_next_fair_witness:
  "\<exists>p q s s'. p \<noteq> q \<and> current_task s = p \<and> sched_ok boot_kmem s [p, q] \<and> ticks 3 s = Some s' \<and> current_task s' = q"
proof -
  obtain p q s1 s2 where n: "sched_ok boot_kmem s2 [p, q]" "current_task s2 = p"
    by (rule sample_two_tasks)
  have "p \<noteq> q" using n(1) by (simp add: sched_ok_def task_links_def)
  moreover have three: "(0 + 3) mod length [p, q] = 1" by (simp add: numeral_3_eq_3 mod_Suc)
  moreover obtain s' where "ticks 3 s2 = Some s'" "current_task s' = q"
    using conjunct1 [OF task_next_fair [OF n(1), of 0 3]] n(2) three by (auto simp del: ticks.simps)
  ultimately show ?thesis using n by blast
qed


section \<open>Creating and freeing\<close>

text \<open>
  \<open>task_new\<close> (task.c), for a process that exists and while 1027 blocks are free, returns a new
  object at the end of the list. It runs first if there was no task and changes nothing of who runs
  otherwise; the other tasks keep their registers, address space, process and \<open>prev\<close>. The new task starts at the entry
  point of its process with the stack at the top of the program stack and user segments, and in its
  address space every page of the 4 GB is itself, readable from user mode and not writable. It
  takes exactly 1027 blocks.
\<close>

theorem task_new_spec:
  assumes "sched_ok m0 s ps" "1027 \<le> kroom (mem s)" "process_ready s process"
  shows "\<exists>p s' c. task_new process s = Some (p, s') \<and> sched_ok m0 s' (ps @ [p]) \<and> p \<notin> set ps \<and>
    current_task s' = (if ps = [] then p else current_task s) \<and> kroom (mem s) = 1027 + kroom (mem s') \<and>
    tasks s' p = Some \<lparr>page_directory = c,
       registers_of = zero_registers\<lparr>ip := process_entry s (ram (mem s')) process, ss := USER_DATA_SEGMENT,
         cs := USER_CODE_SEGMENT, esp := PROGRAM_VIRTUAL_STACK_ADDRESS_START\<rparr>,
       process_of = process, next_of = 0, prev_of = (if ps = [] then 0 else last ps)\<rparr> \<and>
    (\<forall>q \<in> set ps. map_option (\<lambda>t. t\<lparr>next_of := 0\<rparr>) (tasks s' q) = map_option (\<lambda>t. t\<lparr>next_of := 0\<rparr>) (tasks s q)) \<and>
    (\<forall>v. page_aligned v \<longrightarrow> paging_get (ram (mem s')) (load32 (ram (mem s')) c) v
       = v OR (PAGING_IS_PRESENT OR PAGING_ACCESS_FROM_ALL))"
proof -
  obtain p s' c where "task_new process s = Some (p, s')" "sched_ok m0 s' (ps @ [p])" "p \<notin> set ps"
    "tasks s' p = Some (new_task c (process_entry s (ram (mem s')) process) process (if ps = [] then 0 else last ps))"
    "\<And>v. page_aligned v \<Longrightarrow> paging_get (ram (mem s')) (load32 (ram (mem s')) c) v = v OR 5"
    "current_task s' = (if ps = [] then p else current_task s)" "kroom (mem s) = 1027 + kroom (mem s')"
    "\<And>q. q \<in> set ps \<Longrightarrow> map_option (\<lambda>t. t\<lparr>next_of := 0\<rparr>) (tasks s' q) = map_option (\<lambda>t. t\<lparr>next_of := 0\<rparr>) (tasks s q)"
    by (rule task_new_ok [OF assms]) (rule that, assumption+)
  then show ?thesis
    by (intro exI [of _ p] exI [of _ s'] exI [of _ c]) (simp add: new_task_def paging_consts)
qed

theorem task_new_spec_witness:
  "\<exists>p s' t. task_new 0x3000 sample_kernel = Some (p, s') \<and> current_task s' = p \<and> tasks s' p = Some t \<and>
     ip (registers_of t) = 0x400000 \<and> esp (registers_of t) = 0x3FF000"
proof -
  have e: "process_entry sample_kernel r 0x3000 = 0x400000" for r
    by (simp add: process_entry_def sample_kernel_def sample_process_def PROCESS_FILETYPE_BINARY_def
        PROCESS_FILETYPE_ELF_def HARDIKHYPERION_OS_VIRTUAL_ADDRESS_def)
  from task_new_spec [OF sample_kernel_ok(1) _ sample_kernel_ok(3)] sample_kernel_ok(2)
  show ?thesis by (auto simp: e PROGRAM_VIRTUAL_STACK_ADDRESS_START_def)
qed

text \<open>
  C37. \<open>task_free\<close> (task.c) of a task whose \<open>prev\<close> is right takes exactly this task out of the list and gives
  back its object and address space. But \<open>task_list_remove\<close> does not change the \<open>prev\<close> of the task
  behind it, which goes on pointing to the freed object: freeing that task next writes through the
  dangling pointer (no result). Two tasks that end in the order of the list are enough.
\<close>

theorem task_free_dangling_prev:
  assumes "sched_ok m0 s (xs @ p # q # ys)" "prev_right s (xs @ p # q # ys) p" "prev_right s (xs @ p # q # ys) q"
  shows "\<exists>s'. task_free p s = Some s' \<and> sched_ok m0 s' (xs @ q # ys) \<and> tasks s' p = None \<and> task_free q s' = None"
proof -
  have dist: "distinct (xs @ p # q # ys)" "0 \<notin> set (xs @ p # q # ys)"
    using assms(1) by (simp_all add: sched_ok_def task_links_def)
  obtain s' where s': "task_free p s = Some s'" "sched_ok m0 s' (xs @ q # ys)" "tasks s' p = None"
    "\<And>r. r \<noteq> p \<Longrightarrow> map_option prev_of (tasks s' r) = map_option prev_of (tasks s r)"
    using task_free_ok [OF assms(1,2)] by metis
  have "before (xs @ p # q # ys) q = p" using before_split [of q "xs @ [p]" ys] dist by auto
  then have "map_option prev_of (tasks s' q) = Some p"
    using s'(4) [of q] assms(3) dist by (auto simp: prev_right_def)
  then obtain t where "tasks s' q = Some t" "prev_of t = p" by auto
  then have "task_free q s' = None"
    using s'(3) dist by (simp add: task_free_def task_list_remove_def put_task_def on_mem_def)
  with s' show ?thesis by blast
qed

theorem task_free_dangling_prev_witness:
  "\<exists>p q s s'. sched_ok boot_kmem s [p, q] \<and> task_free p s = Some s' \<and> task_free q s' = None"
proof -
  obtain p q s1 s2 where n: "sched_ok boot_kmem s2 [p, q]" "prev_right s2 [p, q] p" "prev_right s2 [p, q] q"
    by (rule sample_two_tasks)
  from task_free_dangling_prev [of boot_kmem s2 "[]" p q "[]"] n show ?thesis by auto
qed

end
