(* ===== verification/ProcessProps.thy ===== *)
theory ProcessProps
  imports ProcessMem TaskProps
begin

text \<open>
  Properties of the memory of a process: \<open>process_malloc\<close> followed by \<open>process_free\<close>, and what
  \<open>process_terminate_allocations\<close> releases.
\<close>

section \<open>process_free\<close>

lemma process_free_ok:
  assumes ok: "process_ok s pr p c" and ptr: "ptr \<noteq> 0" "ptr \<in> set (used_ptrs (allocations p))"
  obtains s' n where "process_free pr ptr s = Some s'" "kowned (mem s) ptr = Some n"
    "process_ok s' pr (process_allocation_unjoin ptr p) c"
    "kowned (mem s') = (kowned (mem s))(ptr := None)" "kframe (mem s') = kframe (mem s)" "tasks s' = tasks s"
    "load32 (ram (mem s')) c = load32 (ram (mem s)) c"
    "\<And>w. page_aligned w \<Longrightarrow> paging_get (ram (mem s')) (load32 (ram (mem s)) c) w =
       (if in_range ptr n w then w else paging_get (ram (mem s)) (load32 (ram (mem s)) c) w)"
    "chunk_blocks (ram (mem s')) c = chunk_blocks (ram (mem s)) c"
    "\<And>i. i < 1024 \<Longrightarrow> load32 (ram (mem s')) (page_word (load32 (ram (mem s)) c) i) =
       load32 (ram (mem s)) (page_word (load32 (ram (mem s)) c) i)"
    "runs_kept_but (set (chunk_blocks (ram (mem s)) c)) (mem s) (ram (mem s'))"
proof -
  note P = ok [unfolded process_ok_def]
  have "\<exists>a \<in> set (allocations p). alloc_ptr a = ptr" using ptr(2) by (auto simp: used_ptrs_def)
  then obtain a where a: "process_get_allocation_by_addr p ptr = Some a" "a \<in> set (allocations p)" "alloc_ptr a = ptr"
    unfolding process_get_allocation_by_addr_def
    by (metis (mono_tags, lifting) find_None_iff find_Some_iff nth_mem option.exhaust)
  let ?n = "blocks_for (unat (alloc_size a))"
  have own: "kowned (mem s) ptr = Some ?n" and nb: "ptr \<notin> set (chunk_blocks (ram (mem s)) c)"
    using P a(2,3) ptr(1) by metis+
  have okm: "kheap_ok (mem s)" and okc: "chunk_ok (ram (mem s)) c" and chunk: "process_chunk pr s = Some c"
    and pr: "procs s pr = Some p" using P by simp_all
  note e = kowned_end [OF okm own]
  obtain r where r: "paging_map_to (ram (mem s)) c ptr ptr (ptr + of_nat (4096 * ?n)) 0 = (0, r)"
    "chunk_ok r c" "load32 r c = load32 (ram (mem s)) c" "chunk_blocks r c = chunk_blocks (ram (mem s)) c"
    "\<And>w. page_aligned w \<Longrightarrow> paging_get r (load32 (ram (mem s)) c) w =
       (if in_range ptr ?n w then w OR 0 else paging_get (ram (mem s)) (load32 (ram (mem s)) c) w)"
    "\<And>i. i < 1024 \<Longrightarrow> load32 r (page_word (load32 (ram (mem s)) c) i) = load32 (ram (mem s)) (page_word (load32 (ram (mem s)) c) i)"
    "\<And>a. outside_tables (ram (mem s)) (load32 (ram (mem s)) c) a \<Longrightarrow> r a = ram (mem s) a"
    by (rule paging_map_identity [OF okc e(2,1), where fl = 0]) (rule that, assumption+)
  have map: "paging_map_to (ram (mem s)) c ptr ptr (paging_align_address (ptr + alloc_size a)) 0 = (0, r)"
    using r(1) by (simp only: align_block_end [OF e(2,1)])
  define p' where "p' = process_allocation_unjoin ptr p"
  define s1 where "s1 = (set_ram r s)\<lparr>procs := (procs s)(pr \<mapsto> p')\<rparr>"
  define s' where "s' = on_mem (\<lambda>m. kfree m ptr) s1"
  have free: "process_free pr ptr s = Some s'"
    using pr a process_map_to_value [OF chunk map]
    by (simp add: process_free_def put_process_def s'_def s1_def p'_def)
  have mem': "mem s' = kfree ((mem s)\<lparr>ram := r\<rparr>) ptr" by (simp add: s'_def on_mem_def s1_def)
  have ram': "ram (mem s') = r" by (simp add: mem')
  have "kheap_ok ((mem s)\<lparr>ram := r\<rparr>)" "kowned ((mem s)\<lparr>ram := r\<rparr>) ptr = Some ?n"
    using okm own by (simp_all add: kheap_ok_def kowned_def)
  from kheap.release_law [OF this]
  have k': "kheap_ok (mem s')" "kowned (mem s') = (kowned (mem s))(ptr := None)" "kframe (mem s') = kframe (mem s)"
    by (simp_all add: mem' kowned_def kframe_def)
  have uj: "used_ptrs (allocations p') = filter (\<lambda>x. x \<noteq> ptr) (used_ptrs (allocations p))"
    using used_ptrs_unjoin [OF ptr(1)] by (simp add: p'_def process_allocation_unjoin_def)
  have "process_ok s' pr p' c"
    unfolding process_ok_def
  proof (intro conjI ballI)
    show "procs s' pr = Some p'" by (simp add: s'_def on_mem_def s1_def)
    show "process_chunk pr s' = Some c"
      using pr chunk by (simp add: process_chunk_def s'_def on_mem_def s1_def p'_def process_allocation_unjoin_def)
    show "kheap_ok (mem s')" by (rule k'(1))
    show "chunk_ok (ram (mem s')) c" using r(2) by (simp add: ram')
    show "set (chunk_blocks (ram (mem s')) c) \<subseteq> dom (kowned (mem s'))"
      using P nb by (auto simp: ram' r(4) k'(2))
    show "length (allocations p') = 1024" using P by (simp add: p'_def process_allocation_unjoin_def)
    show "distinct (used_ptrs (allocations p'))" using P by (simp add: uj)
    fix b assume "b \<in> set (allocations p')"
    then consider "b = no_allocation" | "b \<in> set (allocations p)" "alloc_ptr b \<noteq> ptr"
      by (auto simp: p'_def process_allocation_unjoin_def split: if_splits)
    then show "if alloc_ptr b = 0 then b = no_allocation
        else kowned (mem s') (alloc_ptr b) = Some (blocks_for (unat (alloc_size b))) \<and>
          alloc_ptr b \<notin> set (chunk_blocks (ram (mem s')) c)"
      using P by cases (auto simp: no_allocation_def k'(2) ram' r(4))
  qed
  moreover have "runs_kept_but (set (chunk_blocks (ram (mem s)) c)) (mem s) r"
    using P by (intro mapped_runs_kept okm r(7)) simp_all
  ultimately show thesis
    using r(3-6) k' by (intro that [OF free own]) (simp_all add: p'_def ram', simp_all add: s'_def on_mem_def s1_def)
qed


section \<open>Allocating and freeing\<close>

lemma unjoin_update:
  assumes "ptr \<notin> set (used_ptrs as)" "ptr \<noteq> 0" "i < length as" "as ! i = no_allocation"
  shows "map (\<lambda>a. if alloc_ptr a = ptr then no_allocation else a) (as[i := \<lparr>alloc_ptr = ptr, alloc_size = sz\<rparr>]) = as"
proof (rule nth_equalityI)
  fix j assume "j < length (map (\<lambda>a. if alloc_ptr a = ptr then no_allocation else a) (as[i := \<lparr>alloc_ptr = ptr, alloc_size = sz\<rparr>]))"
  then have j: "j < length as" by simp
  have "alloc_ptr (as ! j) \<noteq> ptr" using assms(1,2) j by (metis in_used_ptrs nth_mem)
  then show "map (\<lambda>a. if alloc_ptr a = ptr then no_allocation else a) (as[i := \<lparr>alloc_ptr = ptr, alloc_size = sz\<rparr>]) ! j = as ! j"
    using j assms(3,4) by (cases "j = i") simp_all
qed simp

text \<open>
  C14. \<open>process_malloc\<close> (process.c) of a size the heap has room for returns a block that is new, and maps
  exactly its pages to themselves, writable from user mode. \<open>process_free\<close> of that pointer gives
  everything back: the table of allocations and the kernel heap are what they were before. Only the pages
  of the block are not: their entries are the bare addresses, not present, where a new address
  space has them readable.
\<close>

theorem process_malloc_free:
  assumes "process_ok s pr p c" "0 < unat sz" "unat sz \<le> 2 ^ 32 - 4096"
    and "\<exists>i. free_at (tbl (kernel_heap (mem s))) i (blocks_for (unat sz))"
    and "\<exists>a \<in> set (allocations p). alloc_ptr a = 0"
  shows "\<exists>ptr s1 s2. process_malloc pr sz s = Some (ptr, s1) \<and> ptr \<noteq> 0 \<and> kowned (mem s) ptr = None \<and>
    (\<forall>w. page_aligned w \<longrightarrow> paging_get (ram (mem s1)) (load32 (ram (mem s)) c) w =
       (if in_range ptr (blocks_for (unat sz)) w then w OR (PAGING_IS_WRITEABLE OR PAGING_IS_PRESENT OR PAGING_ACCESS_FROM_ALL)
        else paging_get (ram (mem s)) (load32 (ram (mem s)) c) w)) \<and>
    process_free pr ptr s1 = Some s2 \<and> procs s2 pr = Some p \<and> kernel_heap (mem s2) = kernel_heap (mem s) \<and>
    (\<forall>w. page_aligned w \<longrightarrow> paging_get (ram (mem s2)) (load32 (ram (mem s)) c) w =
       (if in_range ptr (blocks_for (unat sz)) w then w
        else paging_get (ram (mem s)) (load32 (ram (mem s)) c) w))"
proof -
  let ?n = "blocks_for (unat sz)" and ?d = "load32 (ram (mem s)) c"
  obtain ptr s1 i where m: "process_malloc pr sz s = Some (ptr, s1)" "ptr \<noteq> 0" "i < 1024"
    "alloc_ptr (allocations p ! i) = 0"
    "process_ok s1 pr (p\<lparr>allocations := (allocations p)[i := \<lparr>alloc_ptr = ptr, alloc_size = sz\<rparr>]\<rparr>) c"
    "kowned (mem s) ptr = None" "kowned (mem s1) = (kowned (mem s))(ptr \<mapsto> ?n)"
    "kframe (mem s1) = kframe (mem s)" "load32 (ram (mem s1)) c = ?d"
    "\<And>w. page_aligned w \<Longrightarrow> paging_get (ram (mem s1)) ?d w =
       (if in_range ptr ?n w then w OR PAGE_FLAGS_ALL else paging_get (ram (mem s)) ?d w)"
    "ptr \<notin> set (used_ptrs (allocations p))"
    by (rule process_malloc_ok [OF assms]) (rule that, assumption+)
  let ?p = "p\<lparr>allocations := (allocations p)[i := \<lparr>alloc_ptr = ptr, alloc_size = sz\<rparr>]\<rparr>"
  have len: "length (allocations p) = 1024" using assms(1) by (simp add: process_ok_def)
  then have "\<lparr>alloc_ptr = ptr, alloc_size = sz\<rparr> \<in> set (allocations ?p)" using m(3) by (simp add: set_update_memI)
  then have used: "ptr \<in> set (used_ptrs (allocations ?p))" using in_used_ptrs m(2) by fastforce
  obtain s2 n where f: "process_free pr ptr s1 = Some s2" "kowned (mem s1) ptr = Some n"
    "process_ok s2 pr (process_allocation_unjoin ptr ?p) c"
    "kowned (mem s2) = (kowned (mem s1))(ptr := None)" "kframe (mem s2) = kframe (mem s1)"
    "\<And>w. page_aligned w \<Longrightarrow> paging_get (ram (mem s2)) (load32 (ram (mem s1)) c) w =
       (if in_range ptr n w then w else paging_get (ram (mem s1)) (load32 (ram (mem s1)) c) w)"
    by (rule process_free_ok [OF m(5,2) used]) (rule that, assumption+)
  have "allocations p ! i \<in> set (allocations p)" using len m(3) by simp
  then have z: "allocations p ! i = no_allocation" using assms(1) m(4) by (metis process_ok_def)
  have "process_allocation_unjoin ptr ?p = p"
    using unjoin_update [OF m(11,2) _ z, of sz] m(3) len by (simp add: process_allocation_unjoin_def)
  then have p2: "procs s2 pr = Some p" "kheap_ok (mem s2)" using f(3) by (simp_all add: process_ok_def)
  have n: "n = ?n" using f(2) m(7) by simp
  have "kowned (mem s2) = kowned (mem s)" using f(4) m(6,7) by auto
  then have "kernel_heap (mem s2) = kernel_heap (mem s)"
    using p2(2) assms(1) f(5) m(8) by (intro kheap.core_inject) (simp_all add: process_ok_def)
  moreover have "paging_get (ram (mem s2)) ?d w = (if in_range ptr ?n w then w else paging_get (ram (mem s)) ?d w)"
    if "page_aligned w" for w using f(6) [OF that] m(9) m(10) [OF that] by (simp add: n)
  ultimately show ?thesis
    using m(1,2,6,10) f(1) p2(1) by (intro exI [of _ ptr] exI [of _ s1] exI [of _ s2]) (simp add: PAGE_FLAGS_ALL_def)
qed

section \<open>A process with a task and no allocation\<close>

text \<open>
  \<open>kfree(NULL)\<close> on the kernel heap writes the byte 4096 before the table; here that byte is outside every
  table and its top bit clear, so it is the only one that changes.
\<close>

definition null_free_safe :: "kmem \<Rightarrow> bool" where
  "null_free_safe m \<longleftrightarrow> saddr (kernel_heap m) = HEAP_ADDRESS \<and> total (table (kernel_heap m)) = 25600 \<and>
     entries (table (kernel_heap m)) (-4096) AND 0x80 = 0"

lemma null_free_safe_frame:
  assumes "kframe m' = kframe m"
  shows "null_free_safe m' = null_free_safe m"
    "entries (table (kernel_heap m')) (-4096) = entries (table (kernel_heap m)) (-4096)"
proof -
  have f: "saddr (kernel_heap m') = saddr (kernel_heap m)" "total (table (kernel_heap m')) = total (table (kernel_heap m))"
    using assms by (simp_all add: kframe_def heap_frame_def)
  have "snd (snd (kframe m')) (-4096) = snd (snd (kframe m)) (-4096)" using assms by simp
  then show e: "entries (table (kernel_heap m')) (-4096) = entries (table (kernel_heap m)) (-4096)"
    by (simp add: kframe_def heap_frame_def)
  show "null_free_safe m' = null_free_safe m" by (simp add: null_free_safe_def f e)
qed

lemma boot_null_free_safe: "null_free_safe boot_kmem"
  by (simp add: null_free_safe_def boot_kmem_def kheap_init_def heap_create_def heap_validate_alignment_def
      heap_validate_table_def HEAP_ADDRESS_def HEAP_SIZE_BYTES_def heap_consts)

lemma sample_process_ok:
  obtains s c p where "process_ok s 0x3000 p c" "allocations p = replicate 1024 no_allocation"
    "24573 \<le> kroom (mem s)" "null_free_safe (mem s)"
proof -
  obtain q s1 where n: "task_new 0x3000 sample_kernel = Some (q, s1)" "sched_ok boot_kmem s1 [q]"
    "kroom (mem s1) = 24573"
    using sample_two_tasks by metis
  have "1027 \<le> kroom (mem sample_kernel)" by (simp add: sample_kernel_ok)
  from task_new_ok [OF sample_kernel_ok(1) this sample_kernel_ok(3)] n(1)
  have procs: "procs s1 = procs sample_kernel" by (metis option.inject prod.inject)
  note S = n(2) [unfolded sched_ok_def task_links_def]
  have "q \<in> dom (tasks s1)" using S by simp
  then obtain t where t: "tasks s1 q = Some t" by blast
  define s where "s = s1\<lparr>procs := [0x3000 \<mapsto> sample_process\<lparr>task_of := q\<rparr>]\<rparr>"
  have g: "kgrown boot_kmem (q # chunk_blocks (ram (mem s1)) (page_directory t)) (mem s1)"
    using S t by (simp add: task_blocks_def)
  have f: "kframe (mem s1) = kframe boot_kmem" and ok: "kheap_ok (mem s1)" using g by (auto simp: grown_def)
  have "set (chunk_blocks (ram (mem s1)) (page_directory t)) \<subseteq> dom (kowned (mem s1))"
    using g unfolding grown_def by auto
  moreover have "chunk_ok (ram (mem s1)) (page_directory t)" using S t by blast
  ultimately have "process_ok s 0x3000 (sample_process\<lparr>task_of := q\<rparr>) (page_directory t)"
    using ok t by (simp add: process_ok_def s_def process_chunk_def sample_process_def zero_process_def
        HARDIKHYPERIONOS_MAX_PROGRAM_ALLOCATIONS_def no_allocation_def used_ptrs_def)
  moreover have "null_free_safe (mem s1)" using null_free_safe_frame(1) [OF f] boot_null_free_safe by simp
  ultimately show thesis
    using n(3) by (intro that [of s "sample_process\<lparr>task_of := q\<rparr>" "page_directory t"])
      (simp_all add: s_def sample_process_def zero_process_def HARDIKHYPERIONOS_MAX_PROGRAM_ALLOCATIONS_def)
qed

theorem process_malloc_free_witness:
  "\<exists>ptr s s1 s2. process_malloc 0x3000 100 s = Some (ptr, s1) \<and> ptr \<noteq> 0 \<and>
     process_free 0x3000 ptr s1 = Some s2 \<and> kernel_heap (mem s2) = kernel_heap (mem s)"
proof -
  obtain s c p where s: "process_ok s 0x3000 p c" "allocations p = replicate 1024 no_allocation" "24573 \<le> kroom (mem s)"
    by (rule sample_process_ok)
  have "\<exists>i. free_at (tbl (kernel_heap (mem s))) i (blocks_for (unat (100 :: u32)))"
    using free_count_pos s(3) by (simp add: kroom_def blocks_for_one)
  from process_malloc_free [OF s(1) _ _ this] s(2) show ?thesis
    by (auto simp: no_allocation_def)
qed

section \<open>Terminating\<close>

lemma process_free_null:
  assumes ok: "process_ok s pr p c" and safe: "null_free_safe (mem s)" and a: "\<exists>a \<in> set (allocations p). alloc_ptr a = 0"
  obtains s' where "process_free pr 0 s = Some s'" "process_ok s' pr p c" "kowned (mem s') = kowned (mem s)"
    "null_free_safe (mem s')" "entries (table (kernel_heap (mem s'))) (-4096) = 0" "ram (mem s') = ram (mem s)"
    "tasks s' = tasks s"
proof -
  note P = ok [unfolded process_ok_def]
  let ?h = "kernel_heap (mem s)"
  from a have "find (\<lambda>a. alloc_ptr a = 0) (allocations p) \<noteq> None" by (auto simp: find_None_iff)
  then obtain b where b: "find (\<lambda>a. alloc_ptr a = 0) (allocations p) = Some b" by blast
  then have "b \<in> set (allocations p)" "alloc_ptr b = 0" by (auto simp: find_Some_iff)
  then have z: "b = no_allocation" using P by metis
  have z': "no_allocation = a" if "a \<in> set (allocations p)" "alloc_ptr a = 0" for a using P that by metis
  have "map (\<lambda>a. if alloc_ptr a = 0 then no_allocation else a) (allocations p) = allocations p"
    by (rule map_idI) (use z' in auto)
  then have uj: "process_allocation_unjoin 0 p = p" by (simp add: process_allocation_unjoin_def)
  define h' where "h' = ?h\<lparr>table := (table ?h)\<lparr>entries := (entries (table ?h))(-4096 := 0)\<rparr>\<rparr>"
  have free: "heap_free ?h 0 = h'"
    using heap_free_zero [of ?h] safe by (simp add: null_free_safe_def h'_def)
  define s' where "s' = set_mem ((mem s)\<lparr>kernel_heap := h'\<rparr>) s"
  have procs: "procs s pr = Some p" and chunk: "process_chunk pr s = Some c" using P by auto
  have "paging_map_to (ram (mem s)) c 0 0 0 0 = (0, ram (mem s))"
    by (simp add: paging_map_to_def paging_map_range_def)
  from process_map_to_value [OF chunk this]
  have map: "process_map_to pr 0 0 0 0 s = Some (0, s)" by (simp add: set_ram_def)
  have "s\<lparr>procs := (procs s)(pr \<mapsto> p)\<rparr> = s" using procs by (simp add: fun_upd_idem)
  then have val: "process_free pr 0 s = Some s'"
    using procs b map uj by (simp add: process_free_def process_get_allocation_by_addr_def z no_allocation_def
        paging_align_address_def put_process_def on_mem_def kfree_def free s'_def)
  have tbl: "tbl h' = tbl ?h" "saddr h' = saddr ?h" by (simp_all add: tbl_def h'_def)
  have own: "kowned (mem s') = kowned (mem s)" "kheap_ok (mem s') = kheap_ok (mem s)"
    by (simp_all add: s'_def kowned_def owned_def [abs_def] kheap_ok_def heap_ok_def tbl cong: if_cong)
  have f: "procs s' = procs s" "process_chunk pr s' = process_chunk pr s" "ram (mem s') = ram (mem s)" "tasks s' = tasks s"
    by (simp_all add: s'_def)
  have "process_ok s' pr p c" using ok unfolding process_ok_def own f .
  moreover have "null_free_safe (mem s')" "entries (table (kernel_heap (mem s'))) (-4096) = 0"
    using safe by (simp_all add: null_free_safe_def s'_def h'_def)
  ultimately show thesis using that [OF val _ own(1)] f by simp
qed

text \<open>What the loop leaves behind: \<open>ps\<close> are the pointers that were released. Of what is still allocated only the address space has changed.\<close>

definition allocations_freed :: "kernel \<Rightarrow> u32 \<Rightarrow> u32 set \<Rightarrow> kernel \<Rightarrow> bool" where
  "allocations_freed s c ps s' \<longleftrightarrow> tasks s' = tasks s \<and>
     kowned (mem s') = (\<lambda>q. if q \<in> ps then None else kowned (mem s) q) \<and>
     load32 (ram (mem s')) c = load32 (ram (mem s)) c \<and>
     (\<forall>w. page_aligned w \<longrightarrow> paging_get (ram (mem s')) (load32 (ram (mem s)) c) w =
        (if \<exists>q \<in> ps. in_range q (the (kowned (mem s) q)) w then w
         else paging_get (ram (mem s)) (load32 (ram (mem s)) c) w)) \<and>
     chunk_blocks (ram (mem s')) c = chunk_blocks (ram (mem s)) c \<and>
     runs_kept_but (set (chunk_blocks (ram (mem s)) c)) (mem s') (ram (mem s))"

lemma runs_kept_but_back:
  "runs_kept_but S m (ram m') \<Longrightarrow> kowned m' \<subseteq>\<^sub>m kowned m \<Longrightarrow> runs_kept_but S m' (ram m)"
  unfolding runs_kept_but_def map_le_def by (metis domI)

lemma runs_kept_but_back2:
  "runs_kept_but S m2 (ram m1) \<Longrightarrow> runs_kept_but S m1 (ram m) \<Longrightarrow> kowned m2 \<subseteq>\<^sub>m kowned m1 \<Longrightarrow> runs_kept_but S m2 (ram m)"
  unfolding runs_kept_but_def map_le_def by (metis domI)

lemma allocations_freed_refl: "allocations_freed s c {} s"
  by (simp add: allocations_freed_def runs_kept_but_def)

lemma allocations_freed_step:
  assumes "allocations_freed s c {q} s1" "allocations_freed s1 c ps s2" "q \<notin> ps"
  shows "allocations_freed s c (insert q ps) s2"
proof -
  have "kowned (mem s1) r = kowned (mem s) r" if "r \<in> ps" for r
    using assms(1,3) that by (auto simp: allocations_freed_def)
  then have "(\<exists>r \<in> ps. in_range r (the (kowned (mem s1) r)) w) = (\<exists>r \<in> ps. in_range r (the (kowned (mem s) r)) w)" for w
    by simp
  note ranges = this
  have "kowned (mem s2) \<subseteq>\<^sub>m kowned (mem s1)"
    using assms(2) by (auto simp: allocations_freed_def map_le_def split: if_splits)
  then have "runs_kept_but (set (chunk_blocks (ram (mem s)) c)) (mem s2) (ram (mem s))"
    using assms(1,2) runs_kept_but_back2 unfolding allocations_freed_def by metis
  with assms(1,2) ranges show ?thesis by (auto simp: allocations_freed_def fun_eq_iff)
qed

lemma allocations_freed_same:
  "tasks s1 = tasks s \<Longrightarrow> kowned (mem s1) = kowned (mem s) \<Longrightarrow> ram (mem s1) = ram (mem s) \<Longrightarrow>
   allocations_freed s1 c ps s2 \<Longrightarrow> allocations_freed s c ps s2"
  by (simp add: allocations_freed_def runs_kept_but_def cong: if_cong)

lemma terminate_allocations_loop_ok:
  "process_ok s pr p c \<Longrightarrow> null_free_safe (mem s) \<Longrightarrow> i + n = 1024 \<Longrightarrow>
   \<forall>j < i. allocations p ! j = no_allocation \<Longrightarrow>
   \<exists>s'. terminate_allocations_loop pr i n s = Some s' \<and>
     process_ok s' pr (p\<lparr>allocations := replicate 1024 no_allocation\<rparr>) c \<and> null_free_safe (mem s') \<and>
     allocations_freed s c (set (used_ptrs (allocations p))) s' \<and>
     ((\<exists>j. i \<le> j \<and> j < 1024 \<and> alloc_ptr (allocations p ! j) = 0) \<or> entries (table (kernel_heap (mem s))) (-4096) = 0 \<longrightarrow>
        entries (table (kernel_heap (mem s'))) (-4096) = 0)"
proof (induction n arbitrary: s p i)
  case 0
  have len: "length (allocations p) = 1024" using 0(1) by (simp add: process_ok_def)
  then have a: "allocations p = replicate 1024 no_allocation"
    using 0(3,4) by (intro nth_equalityI) simp_all
  then have "used_ptrs (allocations p) = []" by (simp add: used_ptrs_def no_allocation_def)
  then have "allocations_freed s c (set (used_ptrs (allocations p))) s" using allocations_freed_refl by simp
  moreover have "p\<lparr>allocations := replicate 1024 no_allocation\<rparr> = p" unfolding a [symmetric] by simp
  ultimately show ?case using 0(1-3) by (intro exI [of _ s]) auto
next
  case (Suc n)
  note P = Suc.prems(1) [unfolded process_ok_def]
  have i: "i < 1024" using Suc.prems(3) by simp
  then have get: "arr_get (allocations p) (int i) = Some (allocations p ! i)" using P by (simp add: arr_get_def)
  have mem_i: "allocations p ! i \<in> set (allocations p)" using P i by simp
  show ?case
  proof (cases "alloc_ptr (allocations p ! i) = 0")
    case True
    with mem_i have "\<exists>a \<in> set (allocations p). alloc_ptr a = 0" by blast
    from process_free_null [OF Suc.prems(1,2) this] obtain s1 where s1: "process_free pr 0 s = Some s1"
      "process_ok s1 pr p c" "kowned (mem s1) = kowned (mem s)" "null_free_safe (mem s1)"
      "entries (table (kernel_heap (mem s1))) (-4096) = 0" "ram (mem s1) = ram (mem s)" "tasks s1 = tasks s" .
    have "\<forall>j < Suc i. allocations p ! j = no_allocation"
      using Suc.prems(4) True mem_i P by (metis less_Suc_eq)
    from Suc.IH [OF s1(2,4) _ this] Suc.prems(3) obtain s' where s': "terminate_allocations_loop pr (Suc i) n s1 = Some s'"
      "process_ok s' pr (p\<lparr>allocations := replicate 1024 no_allocation\<rparr>) c" "null_free_safe (mem s')"
      "allocations_freed s1 c (set (used_ptrs (allocations p))) s'"
      "entries (table (kernel_heap (mem s'))) (-4096) = 0" using s1(5) by auto
    have "procs s pr = Some p" using P by simp
    with s1(1) s'(1) get True have "terminate_allocations_loop pr i (Suc n) s = Some s'" by simp
    with s' allocations_freed_same [OF s1(7,3,6) s'(4)] show ?thesis by blast
  next
    case False
    let ?ptr = "alloc_ptr (allocations p ! i)" and ?p = "process_allocation_unjoin (alloc_ptr (allocations p ! i)) p"
    have used: "?ptr \<in> set (used_ptrs (allocations p))" using in_used_ptrs [OF mem_i False] .
    obtain s1 m where s1: "process_free pr ?ptr s = Some s1" "kowned (mem s) ?ptr = Some m" "process_ok s1 pr ?p c"
      "kowned (mem s1) = (kowned (mem s))(?ptr := None)" "kframe (mem s1) = kframe (mem s)" "tasks s1 = tasks s"
      "load32 (ram (mem s1)) c = load32 (ram (mem s)) c"
      "\<And>w. page_aligned w \<Longrightarrow> paging_get (ram (mem s1)) (load32 (ram (mem s)) c) w =
         (if in_range ?ptr m w then w else paging_get (ram (mem s)) (load32 (ram (mem s)) c) w)"
      "chunk_blocks (ram (mem s1)) c = chunk_blocks (ram (mem s)) c"
      "runs_kept_but (set (chunk_blocks (ram (mem s)) c)) (mem s) (ram (mem s1))"
      by (rule process_free_ok [OF Suc.prems(1) False used]) (rule that, assumption+)
    note k = null_free_safe_frame [OF s1(5)]
    have al: "allocations ?p ! j = (if alloc_ptr (allocations p ! j) = ?ptr then no_allocation else allocations p ! j)"
      if "j < 1024" for j using that P by (simp add: process_allocation_unjoin_def)
    have done': "\<forall>j < Suc i. allocations ?p ! j = no_allocation"
    proof (intro allI impI)
      fix j assume "j < Suc i"
      then show "allocations ?p ! j = no_allocation" using al [of j] Suc.prems(4) i by (cases "j = i") auto
    qed
    have safe: "null_free_safe (mem s1)" using k(1) Suc.prems(2) by simp
    from Suc.IH [OF s1(3) safe _ done'] Suc.prems(3) obtain s' where s': "terminate_allocations_loop pr (Suc i) n s1 = Some s'"
      "process_ok s' pr (?p\<lparr>allocations := replicate 1024 no_allocation\<rparr>) c" "null_free_safe (mem s')"
      "allocations_freed s1 c (set (used_ptrs (allocations ?p))) s'"
      "(\<exists>j. Suc i \<le> j \<and> j < 1024 \<and> alloc_ptr (allocations ?p ! j) = 0) \<or> entries (table (kernel_heap (mem s1))) (-4096) = 0 \<longrightarrow>
        entries (table (kernel_heap (mem s'))) (-4096) = 0" by auto
    have uj: "set (used_ptrs (allocations ?p)) = set (used_ptrs (allocations p)) - {?ptr}"
      using used_ptrs_unjoin [OF False, of "allocations p"] by (auto simp: process_allocation_unjoin_def)
    have "runs_kept_but (set (chunk_blocks (ram (mem s)) c)) (mem s1) (ram (mem s))"
      by (rule runs_kept_but_back [OF s1(10)]) (simp add: s1(4) map_le_def)
    then have "allocations_freed s c {?ptr} s1" using s1(2,4,6-9) by (auto simp: allocations_freed_def)
    from allocations_freed_step [OF this s'(4)] uj used
    have freed: "allocations_freed s c (set (used_ptrs (allocations p))) s'" by (simp add: insert_absorb)
    have "procs s pr = Some p" using P by simp
    with s1(1) s'(1) get have "terminate_allocations_loop pr i (Suc n) s = Some s'" by simp
    moreover have "entries (table (kernel_heap (mem s'))) (-4096) = 0"
      if "(\<exists>j. i \<le> j \<and> j < 1024 \<and> alloc_ptr (allocations p ! j) = 0) \<or> entries (table (kernel_heap (mem s))) (-4096) = 0"
      using that
    proof
      assume "\<exists>j. i \<le> j \<and> j < 1024 \<and> alloc_ptr (allocations p ! j) = 0"
      then obtain j where j: "i \<le> j" "j < 1024" "alloc_ptr (allocations p ! j) = 0" by blast
      then have "j \<noteq> i" "alloc_ptr (allocations ?p ! j) = 0" using al [of j] False by (auto simp: no_allocation_def)
      with j s'(5) show ?thesis by (metis Suc_leI le_neq_implies_less)
    qed (use s'(5) k(2) in simp)
    ultimately show ?thesis using s'(2,3) freed by (auto simp: process_allocation_unjoin_def)
  qed
qed

text \<open>
  C38. \<open>process_terminate_allocations\<close> (process.c) returns 0 for every process whose table of allocations
  is well-formed: every slot is empty afterwards, exactly the blocks in use are given back to the heap, and
  exactly their pages are no longer present. But it also calls \<open>process_free\<close> for every empty slot,
  which finds the NULL pointer in the table and hands it to \<open>kfree\<close>: with one empty slot the byte
  4096 before the table of the heap is cleared (nothing more if its top bit is clear).
\<close>

theorem process_terminate_allocations_spec:
  assumes "process_ok s pr p c" "null_free_safe (mem s)"
  shows "\<exists>s'. process_terminate_allocations pr s = Some (0, s') \<and>
    procs s' pr = Some (p\<lparr>allocations := replicate 1024 no_allocation\<rparr>) \<and> tasks s' = tasks s \<and>
    process_ok s' pr (p\<lparr>allocations := replicate 1024 no_allocation\<rparr>) c \<and>
    (\<forall>q. kowned (mem s') q = (if q \<in> alloc_ptr ` set (allocations p) then None else kowned (mem s) q)) \<and>
    (\<forall>w. page_aligned w \<longrightarrow> paging_get (ram (mem s')) (load32 (ram (mem s)) c) w =
       (if \<exists>a \<in> set (allocations p). alloc_ptr a \<noteq> 0 \<and> in_range (alloc_ptr a) (blocks_for (unat (alloc_size a))) w
        then w else paging_get (ram (mem s)) (load32 (ram (mem s)) c) w)) \<and>
    ((\<exists>a \<in> set (allocations p). alloc_ptr a = 0) \<longrightarrow> entries (table (kernel_heap (mem s'))) (-4096) = 0)"
proof -
  note P = assms(1) [unfolded process_ok_def]
  from terminate_allocations_loop_ok [OF assms, of 0 1024] obtain s'
    where s': "terminate_allocations_loop pr 0 1024 s = Some s'"
      "process_ok s' pr (p\<lparr>allocations := replicate 1024 no_allocation\<rparr>) c"
      "allocations_freed s c (set (used_ptrs (allocations p))) s'"
      "(\<exists>j < 1024. alloc_ptr (allocations p ! j) = 0) \<longrightarrow> entries (table (kernel_heap (mem s'))) (-4096) = 0" by auto
  have up: "set (used_ptrs (allocations p)) = alloc_ptr ` set (allocations p) - {0}" by (auto simp: used_ptrs_def)
  have "kheap_ok (mem s)" using P by simp
  then have "kowned (mem s) 0 = None" using kowned_nonzero by (metis not_None_eq)
  then have "\<forall>q. kowned (mem s') q = (if q \<in> alloc_ptr ` set (allocations p) then None else kowned (mem s) q)"
    using s'(3) by (auto simp: allocations_freed_def up)
  moreover have "(\<exists>q \<in> set (used_ptrs (allocations p)). in_range q (the (kowned (mem s) q)) w) =
    (\<exists>a \<in> set (allocations p). alloc_ptr a \<noteq> 0 \<and> in_range (alloc_ptr a) (blocks_for (unat (alloc_size a))) w)" for w
  proof -
    have "the (kowned (mem s) (alloc_ptr a)) = blocks_for (unat (alloc_size a))"
      if "a \<in> set (allocations p)" "alloc_ptr a \<noteq> 0" for a using P that by simp
    moreover have "(\<exists>q \<in> alloc_ptr ` set (allocations p) - {0}. Q q) \<longleftrightarrow> (\<exists>a \<in> set (allocations p). alloc_ptr a \<noteq> 0 \<and> Q (alloc_ptr a))" for Q
      by blast
    ultimately show ?thesis unfolding up by (simp cong: conj_cong)
  qed
  moreover have "(\<exists>a \<in> set (allocations p). alloc_ptr a = 0) = (\<exists>j < 1024. alloc_ptr (allocations p ! j) = 0)"
    using P by (metis in_set_conv_nth)
  moreover have "procs s' pr = Some (p\<lparr>allocations := replicate 1024 no_allocation\<rparr>)"
    using s'(2) by (simp add: process_ok_def)
  ultimately show ?thesis
    using s' by (intro exI [of _ s'])
      (simp add: process_terminate_allocations_def HARDIKHYPERIONOS_MAX_PROGRAM_ALLOCATIONS_def allocations_freed_def)
qed

text \<open>A process that allocates 100 bytes and terminates.\<close>

theorem process_terminate_allocations_spec_witness:
  "\<exists>ptr s s1 s2. process_malloc 0x3000 100 s = Some (ptr, s1) \<and>
     process_terminate_allocations 0x3000 s1 = Some (0, s2) \<and> kowned (mem s1) ptr = Some 1 \<and> kowned (mem s2) ptr = None \<and>
     entries (table (kernel_heap (mem s2))) (-4096) = 0"
proof -
  obtain s c p where s: "process_ok s 0x3000 p c" "allocations p = replicate 1024 no_allocation" "24573 \<le> kroom (mem s)"
    "null_free_safe (mem s)" by (rule sample_process_ok)
  have fit: "\<exists>i. free_at (tbl (kernel_heap (mem s))) i (blocks_for (unat (100 :: u32)))"
    using free_count_pos s(3) by (simp add: kroom_def blocks_for_one)
  obtain ptr s1 i where m: "process_malloc 0x3000 100 s = Some (ptr, s1)" "i < 1024"
    "process_ok s1 0x3000 (p\<lparr>allocations := (allocations p)[i := \<lparr>alloc_ptr = ptr, alloc_size = 100\<rparr>]\<rparr>) c"
    "kowned (mem s1) = (kowned (mem s))(ptr \<mapsto> blocks_for (unat (100 :: u32)))" "kframe (mem s1) = kframe (mem s)"
    by (rule process_malloc_ok [OF s(1) _ _ fit]) (auto simp: s(2) no_allocation_def)
  let ?as = "(allocations p)[i := \<lparr>alloc_ptr = ptr, alloc_size = 100\<rparr>]"
  have ptr: "\<lparr>alloc_ptr = ptr, alloc_size = 100\<rparr> \<in> set ?as" using m(2) s(2) by (simp add: set_update_memI)
  have "?as ! (if i = 0 then 1 else 0) = no_allocation" using s(2) m(2) by simp
  then have "no_allocation \<in> set ?as" using s(2) nth_mem [of "if i = 0 then 1 else 0" ?as] by (simp split: if_splits)
  then have z: "\<exists>a \<in> set ?as. alloc_ptr a = 0" by (rule rev_bexI) (simp add: no_allocation_def)
  have safe: "null_free_safe (mem s1)" using null_free_safe_frame [OF m(5)] s(4) by simp
  from process_terminate_allocations_spec [OF m(3) safe] obtain s2 where "process_terminate_allocations 0x3000 s1 = Some (0, s2)"
    "\<forall>q. kowned (mem s2) q = (if q \<in> alloc_ptr ` set ?as then None else kowned (mem s1) q)"
    "entries (table (kernel_heap (mem s2))) (-4096) = 0" using z by auto
  moreover have "ptr \<in> alloc_ptr ` set ?as" using ptr by (metis image_eqI process_allocation.select_convs(1))
  ultimately show ?thesis
    using m(1,4) by (intro exI [of _ ptr] exI [of _ s] exI [of _ s1] exI [of _ s2]) (simp add: blocks_for_one)
qed

end
