(* ===== verification/ProcessView.thy ===== *)
theory ProcessView
  imports ProcessProps
begin

text \<open>
  What a user program sees: the translation of its addresses with the protection bits of the
  processor, and the address space that \<open>process.c\<close> gives to a plain binary, with its program and
  stack the only pages it may write.
\<close>

section \<open>Access from user mode\<close>

text \<open>
  The processor lets a user program read a page when both entries are present and for users, and write it when
  both are writeable in addition. \<open>user_view\<close> is the physical address of a virtual one, and whether it may be written.
\<close>

definition user_view :: "ram \<Rightarrow> u32 \<Rightarrow> u32 \<Rightarrow> (u32 \<times> bool) option" where
  "user_view m dir v =
     (let pde = load32 m (dir + (v div 0x400000) * 4); pte = paging_get m dir (paging_align_to_lower_page v)
      in if bit pde 0 \<and> bit pte 0 \<and> bit pde 2 \<and> bit pte 2
         then Some (paging_get_physical_address m dir v, bit pde 1 \<and> bit pte 1) else None)"

definition user_load :: "ram \<Rightarrow> u32 \<Rightarrow> u32 \<Rightarrow> u8 option" where
  "user_load m dir v = map_option (\<lambda>(a, w). m a) (user_view m dir v)"

definition user_store :: "ram \<Rightarrow> u32 \<Rightarrow> u32 \<Rightarrow> u8 \<Rightarrow> ram option" where
  "user_store m dir v b = (case user_view m dir v of Some (a, True) \<Rightarrow> Some (m(a := b)) | _ \<Rightarrow> None)"

text \<open>All entries of the directory are open to users: the entries of the tables decide.\<close>

definition open_directory :: "ram \<Rightarrow> u32 \<Rightarrow> bool" where
  "open_directory m dir \<longleftrightarrow> (\<forall>i < 1024. load32 m (page_word dir i) = pt m dir i OR 7)"

lemma flags7: "n < 3 \<Longrightarrow> bit (x OR 7 :: u32) n"
proof -
  assume "n < 3"
  then have "n = 0 \<or> n = 1 \<or> n = 2" by auto
  then show ?thesis by (auto simp: bit_simps)
qed

lemma dir_index_word: "of_nat (dir_index v) = v div 0x400000"
proof -
  have "dir_index v < 2 ^ 32" by (rule less_trans [OF dir_index_less]) simp
  then have "unat (of_nat (dir_index v) :: u32) = unat v div 4194304" by (simp add: unat_of_nat_u32 dir_index_def)
  then show ?thesis by (simp add: unat_div_distrib flip: unat_inj_iff)
qed

lemma lower_page: "page_aligned (paging_align_to_lower_page v)" "dir_index (paging_align_to_lower_page v) = dir_index v"
proof -
  have u: "unat (paging_align_to_lower_page v) = unat v - unat v mod 4096"
  proof -
    have "v mod 4096 \<le> v" by (simp add: word_le_nat_alt unat_mod_distrib)
    then show ?thesis
      by (simp add: paging_align_to_lower_page_def PAGING_PAGE_SIZE_def unat_sub unat_mod_distrib)
  qed
  have d: "unat v - unat v mod 4096 = 4096 * (unat v div 4096)" by (simp add: minus_mod_eq_mult_div)
  show "page_aligned (paging_align_to_lower_page v)" by (simp add: page_aligned_def u d)
  have "dir_index w = unat w div 4096 div 1024" for w by (simp add: dir_index_def flip: div_mult2_eq)
  then show "dir_index (paging_align_to_lower_page v) = dir_index v" by (simp add: u d)
qed

lemma page_flag_bits:
  assumes "page_aligned p" "n < 12"
  shows "bit (p OR f) n = bit f n"
  using assms by (simp add: page_aligned_bits bit_simps)

lemma user_view_entry:
  assumes "open_directory m dir" "paging_get m dir (paging_align_to_lower_page v) = p OR f"
    and "page_aligned p" "\<forall>n \<ge> 12. \<not> bit f n"
  shows "user_view m dir v =
    (if bit f 0 \<and> bit f 2 then Some (p + (v - paging_align_to_lower_page v), bit f 1) else None)"
proof -
  have "load32 m (page_word dir (dir_index v)) = pt m dir (dir_index v) OR 7"
    using assms(1) by (simp add: open_directory_def)
  then have "load32 m (dir + (v div 0x400000) * 4) = pt m dir (dir_index v) OR 7"
    by (simp add: page_word_def dir_index_word)
  moreover have "paging_get_physical_address m dir v = p + (v - paging_align_to_lower_page v)"
    using mask_flags [OF assms(3,4)] assms(2) by (simp add: paging_get_physical_address_def Let_def)
  ultimately show ?thesis
    using assms(2,3) by (simp add: user_view_def Let_def flags7 page_flag_bits)
qed

section \<open>The address space of a binary\<close>

text \<open>The addresses of \<open>n\<close> pages from \<open>v\<close> on.\<close>

definition in_window :: "u32 \<Rightarrow> nat \<Rightarrow> u32 \<Rightarrow> bool" where
  "in_window v n w \<longleftrightarrow> unat (w - v) < 4096 * n"

lemma in_range_window:
  assumes "page_aligned v"
  shows "in_range v n (paging_align_to_lower_page w) \<longleftrightarrow> in_window v n w"
proof -
  let ?a = "paging_align_to_lower_page w"
  obtain k where k: "unat (?a - v) = 4096 * k"
    using page_aligned_minus [OF lower_page(1) assms] by (auto elim: page_alignedE)
  have "of_nat (unat w mod 4096) = w mod 4096"
    by (simp add: unat_mod_distrib unat_of_nat_u32 flip: unat_inj_iff)
  then have e: "w - v = (?a - v) + of_nat (unat w mod 4096)"
    by (simp add: paging_align_to_lower_page_def PAGING_PAGE_SIZE_def)
  have "unat (w - v) = 4096 * k + unat w mod 4096"
    unfolding e using unat_page_offset [OF page_aligned_minus [OF lower_page(1) assms], of "unat w mod 4096" w] k by (simp only: mod_less_divisor zero_less_numeral)
  then show ?thesis by (auto simp: in_range_def in_window_def k)
qed

lemma flags_all: "\<forall>n \<ge> 12. \<not> bit PAGE_FLAGS_ALL n" "bit PAGE_FLAGS_ALL 0" "bit PAGE_FLAGS_ALL (Suc 0)" "bit PAGE_FLAGS_ALL 2"
  "\<forall>n \<ge> 12. \<not> bit (5 :: u32) n" "bit (5 :: u32) 0" "\<not> bit (5 :: u32) 1" "bit (5 :: u32) 2"
proof -
  have "PAGE_FLAGS_ALL = ucast (7 :: u8)" by (simp add: PAGE_FLAGS_ALL_def paging_consts)
  then show "\<forall>n \<ge> 12. \<not> bit PAGE_FLAGS_ALL n" using flag_bits_small(2) [of _ 7] by auto
  show "\<forall>n \<ge> 12. \<not> bit (5 :: u32) n" using flag_bits_small(2) [of _ 5] by simp
qed (simp_all add: PAGE_FLAGS_ALL_def paging_consts bit_simps)

text \<open>The view depends on the words of the directory and of the tables.\<close>

lemma user_view_cong:
  assumes "\<And>i. i < 1024 \<Longrightarrow> load32 m' (page_word dir i) = load32 m (page_word dir i)"
    and "paging_get m' dir (paging_align_to_lower_page v) = paging_get m dir (paging_align_to_lower_page v)"
  shows "user_view m' dir v = user_view m dir v"
proof -
  have "dir + (v div 0x400000) * 4 = page_word dir (dir_index v)" by (simp add: page_word_def dir_index_word)
  then show ?thesis using assms by (simp add: user_view_def paging_get_physical_address_def Let_def)
qed

text \<open>A window mapped with some flags; elsewhere the view is the old one.\<close>

lemma user_view_window:
  assumes v: "page_aligned v" and p: "page_aligned p"
    and get: "\<And>w. page_aligned w \<Longrightarrow> paging_get m' dir w =
       (if in_range v n w then (p + (w - v)) OR f else paging_get m dir w)"
    and f: "\<forall>n \<ge> 12. \<not> bit f n" and dir: "open_directory m dir"
    and same: "\<And>i. i < 1024 \<Longrightarrow> load32 m' (page_word dir i) = load32 m (page_word dir i)"
  shows "user_view m' dir w =
    (if in_window v n w then if bit f 0 \<and> bit f 2 then Some (p + (w - v), bit f 1) else None else user_view m dir w)"
proof (cases "in_window v n w")
  case True
  let ?a = "paging_align_to_lower_page w"
  have "open_directory m' dir" using dir same by (simp add: open_directory_def pt_def)
  moreover have "paging_get m' dir ?a = (p + (?a - v)) OR f"
    using True get [OF lower_page(1)] by (simp add: in_range_window [OF v])
  moreover have "page_aligned (p + (?a - v))" by (intro page_aligned_plus page_aligned_minus p v lower_page)
  ultimately show ?thesis using True user_view_entry [of m' dir w "p + (?a - v)" f] f by simp
next
  case False
  then have "paging_get m' dir (paging_align_to_lower_page w) = paging_get m dir (paging_align_to_lower_page w)"
    using get [OF lower_page(1)] by (simp add: in_range_window [OF v])
  with False show ?thesis using user_view_cong [OF same] by simp
qed

lemma open_directory_kept:
  assumes "open_directory m dir" "\<And>i. i < 1024 \<Longrightarrow> load32 r (page_word dir i) = load32 m (page_word dir i)"
  shows "open_directory r dir"
  using assms by (simp add: open_directory_def pt_def)

lemma outside_tables_kept:
  assumes "outside_tables m dir a" "\<And>i. i < 1024 \<Longrightarrow> load32 r (page_word dir i) = load32 m (page_word dir i)"
  shows "outside_tables r dir a"
  using assms by (simp add: outside_tables_def pt_def)

text \<open>The view after \<open>process_map_memory\<close>: the stack below \<open>0x3FF000\<close>, the program from \<open>0x400000\<close> on, the old view.\<close>

definition binary_view :: "u32 \<Rightarrow> nat \<Rightarrow> u32 \<Rightarrow> (u32 \<Rightarrow> (u32 \<times> bool) option) \<Rightarrow> u32 \<Rightarrow> (u32 \<times> bool) option" where
  "binary_view prog n stk old v =
     (if in_window 0x3FB000 4 v then Some (stk + (v - 0x3FB000), True)
      else if in_window 0x400000 n v then Some (prog + (v - 0x400000), True)
      else old v)"

lemma map_memory_binary:
  assumes pr: "procs s pr = Some p" "filetype p = PROCESS_FILETYPE_BINARY" "process_chunk pr s = Some c"
    and ok: "chunk_ok (ram (mem s)) c" "open_directory (ram (mem s)) (load32 (ram (mem s)) c)"
    and prog: "page_aligned (program p)" "unat (program p) + 4096 * blocks_for (unat (program_size p)) < 2 ^ 32"
    and stk: "page_aligned (stack p)" "unat (stack p) + 4096 * 4 < 2 ^ 32"
  obtains r where "process_map_memory pr s = Some (0, set_ram r s)" "chunk_ok r c"
    "load32 r c = load32 (ram (mem s)) c" "chunk_blocks r c = chunk_blocks (ram (mem s)) c"
    "\<And>v. user_view r (load32 (ram (mem s)) c) v = binary_view (program p) (blocks_for (unat (program_size p))) (stack p)
       (user_view (ram (mem s)) (load32 (ram (mem s)) c)) v"
    "open_directory r (load32 (ram (mem s)) c)"
    "\<And>a. outside_tables (ram (mem s)) (load32 (ram (mem s)) c) a \<Longrightarrow> r a = ram (mem s) a"
proof -
  let ?m = "ram (mem s)" and ?n = "blocks_for (unat (program_size p))"
  let ?d = "load32 ?m c"
  have va: "page_aligned 0x400000" "page_aligned 0x3FB000" by (simp_all add: page_aligned_def)
  obtain r1 where r1: "paging_map_to ?m c 0x400000 (program p) (program p + of_nat (4096 * ?n)) PAGE_FLAGS_ALL = (0, r1)"
    "chunk_ok r1 c" "load32 r1 c = ?d" "chunk_blocks r1 c = chunk_blocks ?m c"
    "\<And>w. page_aligned w \<Longrightarrow> paging_get r1 ?d w =
       (if in_range 0x400000 ?n w then (program p + (w - 0x400000)) OR PAGE_FLAGS_ALL else paging_get ?m ?d w)"
    "\<And>i. i < 1024 \<Longrightarrow> load32 r1 (page_word ?d i) = load32 ?m (page_word ?d i)"
    "\<And>a. outside_tables ?m ?d a \<Longrightarrow> r1 a = ?m a"
    by (rule paging_map_window [OF ok(1) va(1) prog, where fl = PAGE_FLAGS_ALL]) (rule that, assumption+)
  obtain r where r: "paging_map_to r1 c 0x3FB000 (stack p) (stack p + of_nat (4096 * 4)) PAGE_FLAGS_ALL = (0, r)"
    "chunk_ok r c" "load32 r c = load32 r1 c" "chunk_blocks r c = chunk_blocks r1 c"
    "\<And>w. page_aligned w \<Longrightarrow> paging_get r (load32 r1 c) w =
       (if in_range 0x3FB000 4 w then (stack p + (w - 0x3FB000)) OR PAGE_FLAGS_ALL else paging_get r1 (load32 r1 c) w)"
    "\<And>i. i < 1024 \<Longrightarrow> load32 r (page_word (load32 r1 c) i) = load32 r1 (page_word (load32 r1 c) i)"
    "\<And>a. outside_tables r1 (load32 r1 c) a \<Longrightarrow> r a = r1 a"
    by (rule paging_map_window [OF r1(2) va(2) stk, where fl = PAGE_FLAGS_ALL]) (rule that, assumption+)
  have "blocks_for (unat HARDIKHYPERIONOS_USER_PROGRAM_STACK_SIZE) = 4"
    by (simp add: blocks_for_def HARDIKHYPERIONOS_USER_PROGRAM_STACK_SIZE_def)
  then have e: "paging_align_address (program p + program_size p) = program p + of_nat (4096 * ?n)"
    "paging_align_address (stack p + HARDIKHYPERIONOS_USER_PROGRAM_STACK_SIZE) = stack p + of_nat (4096 * 4)"
    "PROGRAM_VIRTUAL_STACK_ADDRESS_END = 0x3FB000" "HARDIKHYPERIONOS_PROGRAM_VIRTUAL_ADDRESS = 0x400000"
    using align_block_end [OF prog] align_block_end [OF stk(1), of HARDIKHYPERIONOS_USER_PROGRAM_STACK_SIZE] stk(2)
    by (simp_all add: PROGRAM_VIRTUAL_STACK_ADDRESS_END_def PROGRAM_VIRTUAL_STACK_ADDRESS_START_def
        HARDIKHYPERIONOS_USER_PROGRAM_STACK_SIZE_def HARDIKHYPERIONOS_PROGRAM_VIRTUAL_ADDRESS_def)
  have "process_map_to pr 0x400000 (program p) (program p + of_nat (4096 * ?n)) PAGE_FLAGS_ALL s = Some (0, set_ram r1 s)"
    using process_map_to_value [OF pr(3) r1(1)] .
  moreover have "process_map_to pr 0x3FB000 (stack p) (stack p + of_nat (4096 * 4)) PAGE_FLAGS_ALL (set_ram r1 s) =
      Some (0, set_ram r (set_ram r1 s))"
    using pr(3) r(1) by (intro process_map_to_value [of _ _ c]) simp_all
  moreover have "set_ram r (set_ram r1 s) = set_ram r s" by (simp add: set_ram_def)
  ultimately have map: "process_map_memory pr s = Some (0, set_ram r s)"
    using pr(1,2)
    by (simp add: process_map_memory_def process_map_binary_def PROCESS_FILETYPE_BINARY_def PROCESS_FILETYPE_ELF_def
        e [unfolded PROCESS_FILETYPE_BINARY_def])
  have d1: "open_directory r1 ?d" by (rule open_directory_kept [OF ok(2) r1(6)])
  have d2: "open_directory r ?d" by (rule open_directory_kept [OF d1]) (use r(6) in \<open>simp add: r1(3)\<close>)
  have v1: "user_view r1 ?d v = (if in_window 0x400000 ?n v then Some (program p + (v - 0x400000), True) else user_view ?m ?d v)" for v
    using user_view_window [OF va(1) prog(1) r1(5) flags_all(1) ok(2) r1(6)] by (simp add: flags_all)
  have v2: "user_view r ?d v = (if in_window 0x3FB000 4 v then Some (stack p + (v - 0x3FB000), True) else user_view r1 ?d v)" for v
    using user_view_window [OF va(2) stk(1) r(5) [unfolded r1(3)] flags_all(1) d1 r(6) [unfolded r1(3)]] by (simp add: flags_all)
  have "r a = ?m a" if "outside_tables ?m ?d a" for a
    using r1(7) [OF that] r(7) outside_tables_kept [OF that r1(6)] by (simp add: r1(3))
  then show thesis
    using r(2-4) r1(3,4) d2 by (intro that [OF map]) (simp_all add: v1 v2 binary_view_def)
qed

section \<open>Mapping in one address space and the others\<close>

lemma outside_page:
  assumes "page_aligned q" "q \<notin> pt m dir ` {..<1024}" "k < 1024" "b < 4"
  shows "outside_tables m dir (page_word q k + of_nat b)"
  unfolding outside_tables_def
proof (intro allI impI)
  fix i j :: nat assume "i < 1024" "j < 4096"
  moreover from this have "pt m dir i \<noteq> q" using assms(2) by auto
  ultimately show "page_word q k + of_nat b \<noteq> pt m dir i + of_nat j"
    using page_bytes_apart [OF pt_aligned assms(1) _ assms(3,4)] by blast
qed

lemma distinct_concat_disjoint:
  "distinct (concat (map f xs)) \<Longrightarrow> x \<in> set xs \<Longrightarrow> y \<in> set xs \<Longrightarrow> x \<noteq> y \<Longrightarrow> set (f x) \<inter> set (f y) = {}"
  by (induction xs) (auto simp: disjoint_iff)

lemma sched_ok_mapped:
  assumes ok: "sched_ok m0 s ps" and t0: "tasks s p0 = Some t0" "page_directory t0 = c"
    and r: "chunk_ok r c" "chunk_blocks r c = chunk_blocks (ram (mem s)) c"
    and out: "\<And>a. outside_tables (ram (mem s)) (load32 (ram (mem s)) c) a \<Longrightarrow> r a = ram (mem s) a"
  shows "sched_ok m0 (set_ram r s) ps"
proof -
  let ?m = "ram (mem s)"
  note S = ok [unfolded sched_ok_def]
  have p0: "p0 \<in> set ps" using t0(1) S by (auto simp: task_links_def)
  have kept: "chunk_blocks r (page_directory t) = chunk_blocks ?m (page_directory t) \<and> chunk_ok r (page_directory t)"
    if t: "tasks s q = Some t" for q t
  proof (cases "q = p0")
    case True
    with t t0 r show ?thesis by simp
  next
    case False
    let ?q = "page_directory t"
    have "q \<in> set ps" using t S by (auto simp: task_links_def)
    moreover have "distinct (concat (map (task_blocks s) ps))" using S by (simp add: grown_def)
    ultimately have "set (task_blocks s q) \<inter> set (task_blocks s p0) = {}"
      using p0 False by (intro distinct_concat_disjoint)
    then have d: "set (chunk_blocks ?m ?q) \<inter> set (chunk_blocks ?m c) = {}"
      using t t0 by (auto simp: task_blocks_def)
    then have ne: "?q \<notin> pt ?m (load32 ?m c) ` {..<1024}" "load32 ?m ?q \<notin> pt ?m (load32 ?m c) ` {..<1024}"
      by (auto simp: chunk_blocks_def atLeast0LessThan)
    have okq: "chunk_ok ?m ?q" using S t by blast
    then have al: "page_aligned ?q" "page_aligned (load32 ?m ?q)" by (simp_all add: chunk_ok_def pdir_ok_def)
    have w: "load32 r (page_word a k) = load32 ?m (page_word a k)"
      if "a \<in> {?q, load32 ?m ?q}" "k < 1024" for a k
    proof -
      have "page_aligned a" "a \<notin> pt ?m (load32 ?m c) ` {..<1024}" using that(1) ne al by (metis insertE singletonD)+
      then show ?thesis using that(2) by (intro load32_cong out outside_page)
    qed
    have "load32 r ?q = load32 ?m ?q" using w [of ?q 0] by (simp add: page_word_0)
    from chunk_same_words [OF this] w okq
    show ?thesis by simp
  qed
  have "task_blocks (set_ram r s) q = task_blocks s q" for q
    using kept by (auto simp: task_blocks_def split: option.splits)
  then have bl: "map (task_blocks (set_ram r s)) ps = map (task_blocks s) ps" by simp
  have "kgrown m0 (concat (map (task_blocks s) ps)) ((mem s)\<lparr>ram := r\<rparr>)"
    using S by (simp add: grown_def kheap_ok_def kowned_def kframe_def kroom_def)
  moreover have "task_links (set_ram r s) ps" using S by (simp add: task_links_def set_ram_def)
  ultimately show ?thesis using kept by (simp add: sched_ok_def bl)
qed

section \<open>Loading a binary\<close>

text \<open>
  What \<open>load_task\<close> (process.c, \<open>process_load_for_slot\<close>) needs: a process object with a binary in memory and a free slot.
\<close>

definition binary_loaded :: "kernel \<Rightarrow> u32 \<Rightarrow> process \<Rightarrow> bool" where
  "binary_loaded s pr p \<longleftrightarrow> procs s pr = Some p \<and> filetype p = PROCESS_FILETYPE_BINARY \<and>
     kowned (mem s) (program p) = Some (blocks_for (unat (program_size p))) \<and>
     allocations p = replicate 1024 no_allocation"

lemma fresh_view:
  assumes "open_directory m dir" "\<And>v. page_aligned v \<Longrightarrow> paging_get m dir v = v OR 5"
  shows "user_view m dir v = Some (v, False)"
  using user_view_entry [OF assms(1) assms(2) [OF lower_page(1)] lower_page(1) flags_all(5), of v]
  by (simp add: flags_all)

lemma load_task_ok:
  assumes sched: "sched_ok m0 s ps" and p: "binary_loaded s pr p"
    and room: "\<exists>i. free_at (tbl (kernel_heap (mem s))) i 4" "1031 \<le> kroom (mem s)"
    and name: "strncpy (filename p) 0 fname (int HARDIKHYPERIONOS_MAX_PATH) = Some name"
    and slot: "k < length (processes s)"
  obtains s' task c stk m1 where
    "load_task fname pr (int k) s = Some (0, Some pr, s')"
    "processes s' = (processes s)[k := pr]" "sched_ok m1 s' (ps @ [task])"
    "tasks s' task = Some (new_task c 0x400000 pr (if ps = [] then 0 else last ps))"
    "process_ok s' pr (p\<lparr>filename := name, stack := stk, pid := word_of_int (int k), task_of := task\<rparr>) c"
    "kowned (mem s) stk = None" "kowned (mem s') stk = Some 4" "kowned (mem s) \<subseteq>\<^sub>m kowned (mem s')"
    "\<And>v. user_view (ram (mem s')) (load32 (ram (mem s')) c) v =
       binary_view (program p) (blocks_for (unat (program_size p))) stk (\<lambda>v. Some (v, False)) v"
    "\<And>i. i < 4 * 4096 \<Longrightarrow> ram (mem s') (stk + of_nat i) = 0"
    "runs_kept (mem s) (ram (mem s'))" "open_directory (ram (mem s')) (load32 (ram (mem s')) c)"
    "kroom (mem s) = 1031 + kroom (mem s')"
    "set (chunk_blocks (ram (mem s')) c) \<inter> (insert stk (dom (kowned (mem s)))) = {}"
    "\<And>q. q \<notin> insert stk (set (task_blocks s' task)) \<Longrightarrow> kowned (mem s') q = kowned (mem s) q" "kowned (mem s) task = None" "task \<noteq> stk"
    "kframe (mem s') = kframe (mem s)" "map (task_blocks s') ps = map (task_blocks s) ps"
proof -
  let ?n = "blocks_for (unat (program_size p))"
  let ?sz = "HARDIKHYPERIONOS_USER_PROGRAM_STACK_SIZE"
  note B = p [unfolded binary_loaded_def]
  have okm: "kheap_ok (mem s)" using sched by (simp add: sched_ok_def grown_def)
  have sz: "unat ?sz = 16384" "blocks_for 16384 = 4"
    by (simp_all add: HARDIKHYPERIONOS_USER_PROGRAM_STACK_SIZE_def blocks_for_def)
  obtain stk m1 where m1: "kzalloc (mem s) ?sz = (stk, m1)" "stk \<noteq> 0" "kheap_ok m1" "kowned (mem s) stk = None"
    "kowned m1 = (kowned (mem s))(stk \<mapsto> 4)" "runs_kept (mem s) (ram m1)" "kroom (mem s) = 4 + kroom m1"
    "ram m1 = ram_memset (ram (mem s)) stk 0 16384" "kframe m1 = kframe (mem s)"
    by (rule kzalloc_run [OF okm, of ?sz]) (use room(1) in \<open>simp_all add: sz\<close>)
  have le1: "kowned (mem s) \<subseteq>\<^sub>m kowned m1" using m1(4,5) by (auto simp: map_le_def)
  define p1 where "p1 = p\<lparr>filename := name, stack := stk, pid := word_of_int (int k)\<rparr>"
  define s2 where "s2 = set_mem m1 (s\<lparr>procs := (procs s)(pr \<mapsto> p1)\<rparr>)"
  have "sched_ok (release_seq kfree (concat (map (task_blocks s) ps)) (mem s2)) s2 ps"
    by (rule sched_ok_rebase [OF sched]) (use runs_kept_pages [OF okm m1(6)] m1(3) le1 in \<open>simp_all add: s2_def\<close>)
  then obtain m2 where sched2: "sched_ok m2 s2 ps" by blast
  have ready: "process_ready s2 pr" using B by (simp add: process_ready_def s2_def p1_def PROCESS_FILETYPE_BINARY_def PROCESS_FILETYPE_ELF_def)
  have room2: "1027 \<le> kroom (mem s2)" using m1(7) room(2) by (simp add: s2_def)
  have entry: "process_entry s2 r pr = 0x400000" for r
    using B by (simp add: process_entry_def s2_def p1_def PROCESS_FILETYPE_BINARY_def PROCESS_FILETYPE_ELF_def
        HARDIKHYPERION_OS_VIRTUAL_ADDRESS_def)
  obtain task s3 c where t: "task_new pr s2 = Some (task, s3)" "sched_ok m2 s3 (ps @ [task])"
    "tasks s3 task = Some (new_task c 0x400000 pr (if ps = [] then 0 else last ps))"
    "\<And>v. page_aligned v \<Longrightarrow> paging_get (ram (mem s3)) (load32 (ram (mem s3)) c) v = v OR 5"
    "kroom (mem s2) = 1027 + kroom (mem s3)" "procs s3 = procs s2" "processes s3 = processes s2"
    "runs_kept (mem s2) (ram (mem s3))"
    "\<And>i. i < 1024 \<Longrightarrow> load32 (ram (mem s3)) (page_word (load32 (ram (mem s3)) c) i) =
       pt (ram (mem s3)) (load32 (ram (mem s3)) c) i OR 7"
    "kowned (mem s2) \<subseteq>\<^sub>m kowned (mem s3)" "set (chunk_blocks (ram (mem s3)) c) \<inter> dom (kowned (mem s2)) = {}"
    "kgrown (mem s2) (task # chunk_blocks (ram (mem s3)) c) (mem s3)"
    "\<And>q. q \<in> set ps \<Longrightarrow> map_option (\<lambda>t. t\<lparr>next_of := 0\<rparr>) (tasks s3 q) = map_option (\<lambda>t. t\<lparr>next_of := 0\<rparr>) (tasks s2 q)"
    by (rule task_new_ok [OF sched2 room2 ready, unfolded entry]) (rule that, assumption+)
  let ?d = "load32 (ram (mem s3)) c"
  note S3 = t(2) [unfolded sched_ok_def]
  have task0: "ERROR_I task \<noteq> 0" using S3 by (simp add: task_links_def ERROR_I_def signed_eq_0_iff)
  define p2 where "p2 = p1\<lparr>task_of := task\<rparr>"
  define s4 where "s4 = s3\<lparr>procs := (procs s3)(pr \<mapsto> p2)\<rparr>"
  have s4: "mem s4 = mem s3" "tasks s4 = tasks s3" "processes s4 = processes s" "procs s4 pr = Some p2"
    "process_chunk pr s4 = Some c"
    using t(3,7) by (simp_all add: s4_def s2_def process_chunk_def p2_def new_task_def)
  have ok3: "kheap_ok (mem s3)" using S3 by (simp add: grown_def)
  have "chunk_ok (ram (mem s3)) (page_directory (new_task c 0x400000 pr (if ps = [] then 0 else last ps)))"
    using S3 t(3) by blast
  then have okc: "chunk_ok (ram (mem s3)) c" by (simp add: new_task_def)
  have own3: "set (chunk_blocks (ram (mem s3)) c) \<subseteq> dom (kowned (mem s3))"
    using sched_ok_owned [OF t(2,3)] by (simp add: new_task_def)
  have dir3: "open_directory (ram (mem s3)) ?d" using t(9) by (simp add: open_directory_def)
  have le: "kowned (mem s) \<subseteq>\<^sub>m kowned (mem s3)" using le1 t(10) by (auto simp: s2_def intro: map_le_trans)
  have own: "kowned (mem s3) (program p) = Some ?n" "kowned (mem s3) stk = Some 4"
  proof -
    show "kowned (mem s3) (program p) = Some ?n" using B le by (metis domI map_le_def)
    have "kowned (mem s2) stk = Some 4" using m1(5) by (simp add: s2_def)
    then show "kowned (mem s3) stk = Some 4" using t(10) by (metis domI map_le_def)
  qed
  note ep = kowned_end [OF ok3 own(1)] and es = kowned_end [OF ok3 own(2)]
  obtain r where r: "process_map_memory pr s4 = Some (0, set_ram r s4)" "chunk_ok r c" "load32 r c = ?d"
    "chunk_blocks r c = chunk_blocks (ram (mem s3)) c"
    "\<And>v. user_view r ?d v = binary_view (program p) ?n stk (user_view (ram (mem s3)) ?d) v"
    "open_directory r ?d" "\<And>a. outside_tables (ram (mem s3)) ?d a \<Longrightarrow> r a = ram (mem s3) a"
    by (rule map_memory_binary [OF s4(4) _ s4(5), unfolded s4(1)])
      (use B okc dir3 ep es in \<open>simp_all add: p2_def p1_def\<close>)
  define s' where "s' = (set_ram r s4)\<lparr>processes := (processes s)[k := pr]\<rparr>"
  have load: "load_task fname pr (int k) s = Some (0, Some pr, s')"
  proof -
    have "put_process pr (\<lambda>p. p\<lparr>filename := name, stack := stk, pid := word_of_int (int k)\<rparr>) (set_mem m1 s) = Some s2"
      using B by (simp add: put_process_def s2_def p1_def)
    moreover have "put_process pr (\<lambda>p. p\<lparr>task_of := task\<rparr>) s3 = Some s4"
      using t(6) by (simp add: put_process_def s4_def p2_def s2_def)
    moreover have "arr_set (processes (set_ram r s4)) (int k) pr = Some ((processes s)[k := pr])"
      using slot by (simp add: arr_set_nat s4(3))
    ultimately show ?thesis
      using m1(1,2) B name t(1) task0 r(1) by (simp add: load_task_def s'_def)
  qed
  have mem': "mem s' = (mem s3)\<lparr>ram := r\<rparr>" by (simp add: s'_def s4(1))
  have k': "kowned (mem s') = kowned (mem s3)" "kheap_ok (mem s')" "kroom (mem s') = kroom (mem s3)"
    using ok3 by (simp_all add: mem' kowned_def kheap_ok_def kroom_def)
  have runs: "runs_kept_but (set (chunk_blocks (ram (mem s3)) c)) (mem s3) r"
    using ok3 own3 r(7) by (rule mapped_runs_kept)
  have old: "r (q + of_nat i) = ram m1 (q + of_nat i)" if q: "kowned m1 q = Some n" "i < 4096 * n" for q n i
  proof -
    have "kowned (mem s2) q = Some n" using q(1) by (simp add: s2_def)
    then have "kowned (mem s3) q = Some n" using t(10) by (metis domI map_le_def)
    moreover have "q \<notin> set (chunk_blocks (ram (mem s3)) c)" using t(11) q(1) by (auto simp: s2_def)
    ultimately have "r (q + of_nat i) = ram (mem s3) (q + of_nat i)"
      using runs q(2) unfolding runs_kept_but_def by blast
    then show ?thesis using t(8) q by (simp add: runs_kept_def s2_def)
  qed
  have kept: "runs_kept (mem s) r"
    using old m1(6) le1 unfolding runs_kept_def map_le_def by (metis domI)
  have zero: "r (stk + of_nat i) = 0" if "i < 4 * 4096" for i
  proof -
    have "r (stk + of_nat i) = ram m1 (stk + of_nat i)" using m1(5) that by (intro old [of stk 4]) simp_all
    then show ?thesis using that by (simp add: m1(8) ram_memset_in)
  qed
  have "sched_ok m2 s4 (ps @ [task])"
    by (rule sched_ok_core [OF t(2)]) (use S3 in \<open>simp_all add: s4_def task_links_def\<close>)
  then have "sched_ok m2 (set_ram r s4) (ps @ [task])"
    by (rule sched_ok_mapped [where ?p0.0 = task and c = c
          and ?t0.0 = "new_task c 0x400000 pr (if ps = [] then 0 else last ps)"])
      (use t(3) r(2,4,7) in \<open>simp_all add: s4 new_task_def\<close>)
  then have sched': "sched_ok m2 s' (ps @ [task])"
    by (rule sched_ok_core) (use S3 in \<open>simp_all add: s'_def s4_def set_ram_def task_links_def\<close>)
  have proc: "process_ok s' pr p2 c"
    using B s4(4,5) k' r(2,4) own3
    by (simp add: process_ok_def s'_def mem' p2_def p1_def process_chunk_def used_ptrs_def no_allocation_def)
  have tb: "task_blocks s' task = task # chunk_blocks (ram (mem s3)) c"
    using t(3) by (simp add: task_blocks_def mem' r(4) s'_def s4(2) new_task_def set_ram_def)
  note G = t(12) [unfolded grown_def]
  have old_blocks: "task_blocks s' q = task_blocks s q" if q: "q \<in> set ps" for q
  proof -
    have "q \<in> dom (tasks s)" using q sched by (simp add: sched_ok_def task_links_def)
    then obtain u where u: "tasks s q = Some u" by blast
    have tq: "tasks s' q = tasks s3 q" "tasks s2 q = tasks s q" by (simp_all add: s'_def s4(2) s2_def set_ram_def)
    have "map_option page_directory (tasks s' q) = map_option page_directory (tasks s q)"
      using arg_cong [OF t(13) [OF q], of "map_option page_directory"] by (simp add: tq map_option.compositionality comp_def)
    then obtain u' where u': "tasks s' q = Some u'" "page_directory u' = page_directory u" using u by auto
    have "chunk_blocks r (page_directory u) = chunk_blocks (ram (mem s)) (page_directory u)"
      by (rule kept_task_blocks(1) [OF runs_kept_pages [OF okm kept] sched u])
    then show ?thesis using u u' by (simp add: task_blocks_def mem')
  qed
  have own2: "kowned (mem s2) = (kowned (mem s))(stk \<mapsto> 4)" "kframe (mem s2) = kframe (mem s)" using m1(5,9) by (simp_all add: s2_def)
  show thesis
  proof (rule that [OF load])
    show "kowned (mem s') q = kowned (mem s) q" if "q \<notin> insert stk (set (task_blocks s' task))" for q
      using G that by (auto simp: tb k'(1) own2)
    show "kowned (mem s) task = None" "task \<noteq> stk" using G by (auto simp: own2 split: if_splits)
    show "map (task_blocks s') ps = map (task_blocks s) ps" using old_blocks by simp
    show "kframe (mem s') = kframe (mem s)" using G own2(2) by (simp add: mem' kframe_def)
    show "user_view (ram (mem s')) (load32 (ram (mem s')) c) v = binary_view (program p) ?n stk (\<lambda>v. Some (v, False)) v" for v
      using r(5) [of v] fresh_view [OF dir3 t(4)] by (simp add: mem' r(3) binary_view_def)
    show "kowned (mem s) \<subseteq>\<^sub>m kowned (mem s')" using le by (simp add: k'(1))
    show "set (chunk_blocks (ram (mem s')) c) \<inter> insert stk (dom (kowned (mem s))) = {}"
      using t(11) m1(5) by (auto simp: mem' r(4) s2_def)
    show "process_ok s' pr (p\<lparr>filename := name, stack := stk, pid := word_of_int (int k), task_of := task\<rparr>) c"
      using proc by (simp add: p2_def p1_def)
    show "kroom (mem s) = 1031 + kroom (mem s')" using m1(7) t(5) by (simp add: k'(3) s2_def)
  qed (use sched' t(3) m1(4) own zero kept r(3,6) k'(1) s4 in \<open>simp_all add: s'_def mem'\<close>)
qed

end
