(* ===== verification/UserMode.thy ===== *)
theory UserMode
  imports ProcessView
begin

text \<open>
  A user program in its address space: it stores bytes, allocates and frees. An invariant by rule induction
  shows that it writes nothing of what was allocated before it, but its program and its stack, as long as the heap serves
  its allocations.
\<close>

section \<open>Steps of a user program\<close>

text \<open>
  What a program does: a store through the protection of the processor, or the commands 4 and 5, \<open>process_malloc\<close> and
  \<open>process_free\<close> (process.c), of any size and of any pointer, NULL included. A run records each operation with the state it was
  done in.
\<close>

datatype user_op = UserStore u32 u8 | UserMalloc u32 | UserFree u32

inductive user_step :: "u32 \<Rightarrow> user_op \<Rightarrow> kernel \<Rightarrow> kernel \<Rightarrow> bool" for pr where
  Store: "process_chunk pr s = Some c \<Longrightarrow> user_store (ram (mem s)) (load32 (ram (mem s)) c) v b = Some r \<Longrightarrow>
    user_step pr (UserStore v b) s (set_ram r s)"
| Malloc: "process_malloc pr sz s = Some (ptr, s') \<Longrightarrow> user_step pr (UserMalloc sz) s s'"
| Free: "process_free pr ptr s = Some s' \<Longrightarrow> user_step pr (UserFree ptr) s s'"

inductive user_run :: "u32 \<Rightarrow> kernel \<Rightarrow> (kernel \<times> user_op) list \<Rightarrow> kernel \<Rightarrow> bool" for pr where
  Done: "user_run pr s [] s"
| Step: "user_step pr x s s' \<Longrightarrow> user_run pr s' tr s'' \<Longrightarrow> user_run pr s ((s, x) # tr) s''"

text \<open>
  What the kernel does not check is the size of an allocation against the heap. A heap serves a request if it has a long enough
  run of free blocks, or if its last block is taken: then a request it has no room for is refused. With the last block free,
  a request for more than the longest run is given memory it does not have, and 0 bytes or a size in
  the last page of the address space get a pointer and no block (both are shown in \<open>HeapProps\<close>).
\<close>

definition heap_serves :: "kmem \<Rightarrow> u32 \<Rightarrow> bool" where
  "heap_serves m sz \<longleftrightarrow> tbl (kernel_heap m) = [] \<or> last (tbl (kernel_heap m)) \<noteq> 0 \<or>
     0 < unat sz \<and> unat sz \<le> 2 ^ 32 - 4096 \<and> (\<exists>i. free_at (tbl (kernel_heap m)) i (blocks_for (unat sz)))"

fun served :: "kernel \<times> user_op \<Rightarrow> bool" where
  "served (s, UserMalloc sz) \<longleftrightarrow> heap_serves (mem s) sz"
| "served (s, x) \<longleftrightarrow> True"

text \<open>
  Why the others are left out: one command 4 of 0xFFFFFFFF bytes clears all memory but the byte before the pointer it returns.
\<close>

theorem malloc_last_page_clears_memory:
  assumes ok: "kheap_ok m" and room: "tbl (kernel_heap m) \<noteq> []" "last (tbl (kernel_heap m)) = 0"
  shows "\<exists>p m'. kzalloc m 0xFFFFFFFF = (p, m') \<and> p \<noteq> 0 \<and> kernel_heap m' = kernel_heap m \<and> (\<forall>a. a \<noteq> p - 1 \<longrightarrow> ram m' a = 0)"
proof -
  have "heap_ok (kernel_heap m)" using ok by (simp add: kheap_ok_def)
  then obtain p where p: "p \<noteq> 0" "heap_malloc_blocks (kernel_heap m) 0 = (p, kernel_heap m)"
    by (rule heap_malloc_blocks_zero [OF _ room])
  have "heap_align_value_to_upper 0xFFFFFFFF div HEAP_BLOCK_SIZE = 0" by (rule last_page_no_blocks) simp
  then have k: "kzalloc m 0xFFFFFFFF = (p, m\<lparr>ram := ram_memset (ram m) p 0 (2 ^ 32 - 1)\<rparr>)"
    using p by (simp add: kzalloc_def kmalloc_def heap_malloc_def)
  have "ram_memset (ram m) p 0 (2 ^ 32 - 1) a = 0" if "a \<noteq> p - 1" for a
  proof -
    have "a - p \<noteq> - 1" using that by (metis add_diff_cancel_left' diff_add_cancel uminus_add_conv_diff)
    moreover have "unat (- 1 :: u32) = 2 ^ 32 - 1" by (simp add: unsigned_minus_1_eq_mask mask_eq_exp_minus_1)
    ultimately have "unat (a - p) \<noteq> 2 ^ 32 - 1" by (metis unat_inj_iff)
    moreover have "unat (a - p) < 2 ^ 32" using unsigned_less [of "a - p"] by simp
    ultimately have "unat (a - p) < 2 ^ 32 - 1" by simp
    from ram_memset_in [OF this, of "ram m" p 0] show ?thesis by simp
  qed
  with k p(1) show ?thesis by simp
qed

theorem malloc_last_page_clears_memory_witness:
  "\<exists>p m'. kzalloc boot_kmem 0xFFFFFFFF = (p, m') \<and> p \<noteq> 0 \<and> (\<forall>a. a \<noteq> p - 1 \<longrightarrow> ram m' a = 0)"
proof -
  have "tbl (kernel_heap boot_kmem) = replicate 25600 0"
    using kheap_init_boot [of "\<lambda>_. 0" "sample_heap []"] by (simp add: boot_kmem_def)
  then show ?thesis using malloc_last_page_clears_memory [OF boot_kmem_facts(1)] by auto
qed

text \<open>The byte at \<open>a\<close> lies in the run that is allocated at \<open>q\<close>.\<close>

definition in_run :: "kmem \<Rightarrow> u32 \<Rightarrow> u32 \<Rightarrow> bool" where
  "in_run m q a \<longleftrightarrow> (\<exists>n i. kowned m q = Some n \<and> i < 4096 * n \<and> a = q + of_nat i)"

lemma in_run_window:
  assumes "kheap_ok m" "kowned m q = Some n"
  shows "in_run m q a \<longleftrightarrow> in_window q n a"
proof
  assume "in_run m q a"
  then obtain i where i: "i < 4096 * n" "a = q + of_nat i" using assms(2) by (auto simp: in_run_def)
  have "i < 2 ^ 32" using kowned_end(1) [OF assms] i(1) by linarith
  then show "in_window q n a" using i by (simp add: in_window_def unat_of_nat_u32)
next
  assume w: "in_window q n a"
  have "a = q + of_nat (unat (a - q))" by simp
  with w assms(2) show "in_run m q a" unfolding in_run_def in_window_def by blast
qed

lemma in_run_unique: "kheap_ok m \<Longrightarrow> in_run m p a \<Longrightarrow> in_run m q a \<Longrightarrow> p = q"
  using runs_apart unfolding in_run_def by metis

text \<open>
  \<open>confined s0 s pr p c prog stk\<close>: since \<open>s0\<close> the process has kept its address space in the same blocks, no allocation of
  \<open>s0\<close> is gone, only the blocks of the program, of the stack and of the address space have
  changed, and the user may write only the program, the stack and, at their own addresses, its allocations. Freeing NULL is
  harmless, as it was in the beginning.
\<close>

definition confined :: "kernel \<Rightarrow> kernel \<Rightarrow> u32 \<Rightarrow> process \<Rightarrow> u32 \<Rightarrow> u32 \<Rightarrow> u32 \<Rightarrow> bool" where
  "confined s0 s pr p c prog stk \<longleftrightarrow> process_ok s pr p c \<and> null_free_safe (mem s) \<and>
     open_directory (ram (mem s)) (load32 (ram (mem s)) c) \<and>
     kowned (mem s0) \<subseteq>\<^sub>m kowned (mem s) \<and> set (used_ptrs (allocations p)) \<inter> dom (kowned (mem s0)) = {} \<and>
     chunk_blocks (ram (mem s)) c = chunk_blocks (ram (mem s0)) c \<and>
     set (chunk_blocks (ram (mem s0)) c) \<subseteq> dom (kowned (mem s0)) \<and>
     {prog, stk} \<subseteq> dom (kowned (mem s0)) - set (chunk_blocks (ram (mem s0)) c) \<and>
     runs_kept_but ({prog, stk} \<union> set (chunk_blocks (ram (mem s0)) c)) (mem s0) (ram (mem s)) \<and>
     (\<forall>v a. user_view (ram (mem s)) (load32 (ram (mem s)) c) v = Some (a, True) \<longrightarrow>
        in_run (mem s) prog a \<or> in_run (mem s) stk a \<or>
        a = v \<and> (\<exists>q \<in> set (used_ptrs (allocations p)). in_run (mem s) q a))"

lemma user_store_view:
  assumes "user_store m dir v b = Some r"
  obtains a where "user_view m dir v = Some (a, True)" "r = m(a := b)"
  using assms by (auto simp: user_store_def split: option.splits bool.splits)

text \<open>A byte in a run that is not part of the address space is not part of its words.\<close>

lemma store_keeps_words:
  assumes ok: "kheap_ok m" and a: "in_run m q a" "q \<notin> S" "S \<subseteq> dom (kowned m)" and t: "t \<in> S" "k < 1024"
  shows "load32 ((ram m)(a := b)) (page_word t k) = load32 (ram m) (page_word t k)"
proof (rule load32_cong)
  fix j :: nat assume j: "j < 4"
  obtain n where n: "kowned m t = Some n" using a(3) t(1) by auto
  have "4 * k + j < 4096 * n" using t(2) j kowned_end(3) [OF ok n] by linarith
  moreover have "page_word t k + of_nat j = t + of_nat (4 * k + j)" by (simp add: page_word_def ac_simps)
  ultimately have "in_run m t (page_word t k + of_nat j)" unfolding in_run_def using n by blast
  then have "a \<noteq> page_word t k + of_nat j" using in_run_unique [OF ok a(1)] a(2) t(1) by metis
  then show "((ram m)(a := b)) (page_word t k + of_nat j) = ram m (page_word t k + of_nat j)" by simp
qed

lemma chunk_words_view:
  assumes "\<And>t k. t \<in> set (chunk_blocks m c) \<Longrightarrow> k < 1024 \<Longrightarrow> load32 r (page_word t k) = load32 m (page_word t k)"
  shows "load32 r c = load32 m c" "chunk_blocks r c = chunk_blocks m c" "chunk_ok m c \<Longrightarrow> chunk_ok r c"
    "\<And>i. i < 1024 \<Longrightarrow> load32 r (page_word (load32 m c) i) = load32 m (page_word (load32 m c) i)"
    "user_view r (load32 m c) v = user_view m (load32 m c) v"
proof -
  have "c \<in> set (chunk_blocks m c)" "load32 m c \<in> set (chunk_blocks m c)" by (simp_all add: chunk_blocks_def)
  then show l: "load32 r c = load32 m c" and d: "\<And>i. i < 1024 \<Longrightarrow> load32 r (page_word (load32 m c) i) = load32 m (page_word (load32 m c) i)"
    using assms [of c 0] assms by (simp_all add: page_word_0)
  show "chunk_blocks r c = chunk_blocks m c" "chunk_ok m c \<Longrightarrow> chunk_ok r c" using chunk_same_words [OF l d] by simp_all
  have pt: "pt r (load32 m c) i = pt m (load32 m c) i" if "i < 1024" for i using d [OF that] by (simp add: pt_def)
  have "pt m (load32 m c) i \<in> set (chunk_blocks m c)" if "i < 1024" for i using that by (simp add: chunk_blocks_def)
  then have "paging_get r (load32 m c) w = paging_get m (load32 m c) w" if "page_aligned w" for w
    using assms pt by (simp add: paging_get_slot [OF that] slot_def)
  then show "user_view r (load32 m c) v = user_view m (load32 m c) v"
    using d lower_page(1) by (intro user_view_cong) auto
qed

section \<open>The steps keep the invariant\<close>

lemma confined_target:
  assumes inv: "confined s0 s pr p c prog stk" and view: "user_view (ram (mem s)) (load32 (ram (mem s)) c) v = Some (a, True)"
  obtains q where "in_run (mem s) q a" "q \<in> {prog, stk} \<union> set (used_ptrs (allocations p))" "q \<notin> set (chunk_blocks (ram (mem s)) c)"
proof -
  note I = inv [unfolded confined_def]
  obtain q where q: "in_run (mem s) q a" "q \<in> {prog, stk} \<union> set (used_ptrs (allocations p))"
    using I view by blast
  have "q \<notin> set (chunk_blocks (ram (mem s)) c)"
  proof
    assume "q \<in> set (chunk_blocks (ram (mem s)) c)"
    then have "q \<in> set (chunk_blocks (ram (mem s0)) c)" "q \<in> dom (kowned (mem s0))" using I by auto
    then show False using q(2) I by blast
  qed
  with q that show thesis by blast
qed

lemma confined_store_words:
  assumes inv: "confined s0 s pr p c prog stk" and st: "user_store (ram (mem s)) (load32 (ram (mem s)) c) v b = Some r"
    and t: "t \<in> set (chunk_blocks (ram (mem s)) c)" "k < 1024"
  shows "load32 r (page_word t k) = load32 (ram (mem s)) (page_word t k)"
proof -
  have "process_ok s pr p c" using inv by (simp add: confined_def)
  then have ok: "kheap_ok (mem s)" and sub: "set (chunk_blocks (ram (mem s)) c) \<subseteq> dom (kowned (mem s))"
    by (simp_all add: process_ok_def)
  obtain a where a: "user_view (ram (mem s)) (load32 (ram (mem s)) c) v = Some (a, True)" and r: "r = (ram (mem s))(a := b)"
    by (rule user_store_view [OF st])
  from confined_target [OF inv a] obtain q where "in_run (mem s) q a" "q \<notin> set (chunk_blocks (ram (mem s)) c)" .
  from store_keeps_words [OF ok this sub t] show ?thesis by (simp add: r)
qed

lemma confined_store:
  assumes inv: "confined s0 s pr p c prog stk" and st: "user_store (ram (mem s)) (load32 (ram (mem s)) c) v b = Some r"
  shows "confined s0 (set_ram r s) pr p c prog stk"
proof -
  let ?m = "ram (mem s)" and ?d = "load32 (ram (mem s)) c"
  note I = inv [unfolded confined_def]
  have ok: "process_ok s pr p c" using I by blast
  note P = ok [unfolded process_ok_def]
  obtain a where a: "user_view ?m ?d v = Some (a, True)" and r: "r = ?m(a := b)" by (rule user_store_view [OF st])
  have okm: "kheap_ok (mem s)" using P by simp
  from confined_target [OF inv a] obtain q where q: "in_run (mem s) q a" "q \<in> {prog, stk} \<union> set (used_ptrs (allocations p))" .
  have w: "load32 r (page_word t k) = load32 ?m (page_word t k)" if "t \<in> set (chunk_blocks ?m c)" "k < 1024" for t k
    by (rule confined_store_words [OF inv st that])
  have W: "load32 r c = ?d" "chunk_blocks r c = chunk_blocks ?m c" "chunk_ok ?m c \<Longrightarrow> chunk_ok r c"
    "\<And>i. i < 1024 \<Longrightarrow> load32 r (page_word ?d i) = load32 ?m (page_word ?d i)" "\<And>v. user_view r ?d v = user_view ?m ?d v"
    by (rule chunk_words_view [of ?m c r]; use w in blast)+
  have k: "kowned ((mem s)\<lparr>ram := r\<rparr>) = kowned (mem s)" "kheap_ok ((mem s)\<lparr>ram := r\<rparr>) = kheap_ok (mem s)"
    "null_free_safe ((mem s)\<lparr>ram := r\<rparr>) = null_free_safe (mem s)"
    by (simp_all add: kowned_def kheap_ok_def null_free_safe_def)
  have kept: "runs_kept_but ({prog, stk} \<union> set (chunk_blocks (ram (mem s0)) c)) (mem s0) r"
    unfolding runs_kept_but_def
  proof (intro allI impI)
    fix x n i assume x: "kowned (mem s0) x = Some n" "x \<notin> {prog, stk} \<union> set (chunk_blocks (ram (mem s0)) c)" "i < 4096 * n"
    have "x \<noteq> q" using x(1,2) q(2) I by blast
    moreover have "in_run (mem s) x (x + of_nat i)" using I x(1,3) unfolding in_run_def map_le_def by (metis domI)
    ultimately have "x + of_nat i \<noteq> a" using in_run_unique [OF okm q(1)] by metis
    then have "r (x + of_nat i) = ?m (x + of_nat i)" by (simp add: r)
    also have "\<dots> = ram (mem s0) (x + of_nat i)" using I x unfolding runs_kept_but_def by blast
    finally show "r (x + of_nat i) = ram (mem s0) (x + of_nat i)" .
  qed
  have pok: "process_ok (set_ram r s) pr p c"
    using P W(2,3) by (simp add: process_ok_def k)
  have "open_directory ?m ?d" using I by blast
  from open_directory_kept [OF this W(4)] have od: "open_directory r ?d" .
  have run: "in_run ((mem s)\<lparr>ram := r\<rparr>) = in_run (mem s)" by (simp add: fun_eq_iff in_run_def k)
  have ram: "ram ((mem s)\<lparr>ram := r\<rparr>) = r" by simp
  show ?thesis
    unfolding confined_def set_ram_simps k run ram unfolding W(1,2,5) using I pok od kept by (elim conjE) (intro conjI; assumption)
qed

text \<open>A step that leaves the process, the allocations and all allocated bytes as they are.\<close>

lemma confined_same:
  assumes inv: "confined s0 s pr p c prog stk" and same: "procs s' = procs s" "process_chunk pr s' = process_chunk pr s"
    "kowned (mem s') = kowned (mem s)" "kheap_ok (mem s')" "null_free_safe (mem s')" "runs_kept (mem s) (ram (mem s'))"
  shows "confined s0 s' pr p c prog stk"
proof -
  let ?m = "ram (mem s)" and ?r = "ram (mem s')" and ?d = "load32 (ram (mem s)) c"
  note I = inv [unfolded confined_def]
  have ok: "process_ok s pr p c" using I by blast
  note P = ok [unfolded process_ok_def]
  have okm: "kheap_ok (mem s)" and sub: "set (chunk_blocks ?m c) \<subseteq> dom (kowned (mem s))" using P by simp_all
  have w: "load32 ?r (page_word t k) = load32 ?m (page_word t k)" if "t \<in> set (chunk_blocks ?m c)" "k < 1024" for t k
    using runs_kept_pages [OF okm same(6)] sub that unfolding pages_kept_def by blast
  have W: "load32 ?r c = ?d" "chunk_blocks ?r c = chunk_blocks ?m c" "chunk_ok ?m c \<Longrightarrow> chunk_ok ?r c"
    "\<And>i. i < 1024 \<Longrightarrow> load32 ?r (page_word ?d i) = load32 ?m (page_word ?d i)" "\<And>v. user_view ?r ?d v = user_view ?m ?d v"
    by (rule chunk_words_view [of ?m c ?r]; use w in blast)+
  have pok: "process_ok s' pr p c" using P W(2,3) by (simp add: process_ok_def same(1-4))
  have "open_directory ?m ?d" using I by blast
  from open_directory_kept [OF this W(4)] have od: "open_directory ?r ?d" .
  have run: "in_run (mem s') = in_run (mem s)" by (simp add: fun_eq_iff in_run_def same(3))
  have le: "kowned (mem s0) \<subseteq>\<^sub>m kowned (mem s)" using I by blast
  have kept: "runs_kept_but ({prog, stk} \<union> set (chunk_blocks (ram (mem s0)) c)) (mem s0) ?r"
  proof (rule runs_kept_but_trans [of _ _ "mem s"])
    show "kowned (mem s) q = Some n" if "kowned (mem s0) q = Some n" for q n using le that by (metis domI map_le_def)
  qed (use I runs_kept_but [OF same(6)] in blast)+
  show ?thesis
    unfolding confined_def same(3) run unfolding W(1,2,5) using I pok od kept same(5) by (elim conjE) (intro conjI; assumption)
qed

text \<open>A request the heap serves: it is given, or nothing is left of it.\<close>

lemma malloc_served:
  assumes ok: "process_ok s pr p c" and safe: "null_free_safe (mem s)"
    and call: "process_malloc pr sz s = Some (ptr, s')" "heap_serves (mem s) sz"
  obtains (given) "ptr \<noteq> 0" "\<exists>a \<in> set (allocations p). alloc_ptr a = 0" "0 < unat sz" "unat sz \<le> 2 ^ 32 - 4096"
      "\<exists>i. free_at (tbl (kernel_heap (mem s))) i (blocks_for (unat sz))"
    | (refused) "ptr = 0" "procs s' = procs s" "process_chunk pr s' = process_chunk pr s" "kowned (mem s') = kowned (mem s)"
      "kheap_ok (mem s')" "null_free_safe (mem s')" "runs_kept (mem s) (ram (mem s'))"
proof (cases "0 < unat sz \<and> unat sz \<le> 2 ^ 32 - 4096 \<and> (\<exists>i. free_at (tbl (kernel_heap (mem s))) i (blocks_for (unat sz)))")
  case fit: True
  note P = ok [unfolded process_ok_def]
  show thesis
  proof (cases "\<exists>a \<in> set (allocations p). alloc_ptr a = 0")
    case True
    obtain q t where "process_malloc pr sz s = Some (q, t)" "q \<noteq> 0"
      by (rule process_malloc_ok [OF ok _ _ _ True]) (use fit in auto)
    then show thesis using given True fit call(1) by simp
  next
    case False
    obtain q m1 where q: "kzalloc (mem s) sz = (q, m1)" "q \<noteq> 0" "kheap_ok m1" "kowned (mem s) q = None"
      "kowned m1 = (kowned (mem s))(q \<mapsto> blocks_for (unat sz))" "kframe m1 = kframe (mem s)" "runs_kept (mem s) (ram m1)"
      by (rule kzalloc_run [of "mem s" sz]) (use P fit in auto)
    have own: "kowned m1 q = Some (blocks_for (unat sz))" using q(5) by simp
    note l = kheap.release_law [OF q(3) own]
    have "process_find_free_allocation_index p = - ENOMEM"
      using free_allocation_loop_cases [of "allocations p" 0] False by (auto simp: process_find_free_allocation_index_def)
    then have s': "ptr = 0" "s' = on_mem (\<lambda>m. kfree m q) (set_mem m1 s)"
      using call(1) P q(1,2) by (simp_all add: process_malloc_def status_simps)
    then have m: "mem s' = kfree m1 q" "procs s' = procs s" "process_chunk pr s' = process_chunk pr s" by (simp_all add: on_mem_def)
    have "kowned (kfree m1 q) = kowned (mem s)" using l q(4,5) by auto
    moreover have "null_free_safe (kfree m1 q)" using null_free_safe_frame(1) [of "kfree m1 q" "mem s"] safe l q(6) by simp
    ultimately show thesis using l q(7) s'(1) m by (intro refused) simp_all
  qed
next
  case False
  then have full: "tbl (kernel_heap (mem s)) = [] \<or> last (tbl (kernel_heap (mem s))) \<noteq> 0" using call(2) by (auto simp: heap_serves_def)
  have okm: "kheap_ok (mem s)" using ok by (simp add: process_ok_def)
  then have "heap_malloc (kernel_heap (mem s)) sz = (0, kernel_heap (mem s))"
    using full False by (intro heap_malloc_refused) (auto simp: kheap_ok_def)
  then have "ptr = 0" "s' = s" using call(1) by (simp_all add: process_malloc_def kzalloc_def kmalloc_def)
  then show thesis using okm safe by (intro refused) (simp_all add: runs_kept_def)
qed

lemma confined_malloc:
  assumes inv: "confined s0 s pr p c prog stk" and call: "process_malloc pr sz s = Some (ptr, s')" "ptr \<noteq> 0"
    and sz: "0 < unat sz" "unat sz \<le> 2 ^ 32 - 4096"
    and fit: "\<exists>i. free_at (tbl (kernel_heap (mem s))) i (blocks_for (unat sz))" and slot: "\<exists>a \<in> set (allocations p). alloc_ptr a = 0"
  shows "\<exists>p'. confined s0 s' pr p' c prog stk"
proof -
  let ?m = "ram (mem s)" and ?d = "load32 (ram (mem s)) c" and ?n = "blocks_for (unat sz)"
  note I = inv [unfolded confined_def]
  have ok: "process_ok s pr p c" and dir: "open_directory ?m ?d" using I by simp_all
  obtain i where m: "i < 1024" "alloc_ptr (allocations p ! i) = 0"
    "process_ok s' pr (p\<lparr>allocations := (allocations p)[i := \<lparr>alloc_ptr = ptr, alloc_size = sz\<rparr>]\<rparr>) c"
    "kowned (mem s) ptr = None" "kowned (mem s') = (kowned (mem s))(ptr \<mapsto> ?n)"
    "load32 (ram (mem s')) c = ?d"
    "\<And>w. page_aligned w \<Longrightarrow> paging_get (ram (mem s')) ?d w =
       (if in_range ptr ?n w then w OR PAGE_FLAGS_ALL else paging_get ?m ?d w)"
    "chunk_blocks (ram (mem s')) c = chunk_blocks ?m c"
    "\<And>i. i < 1024 \<Longrightarrow> load32 (ram (mem s')) (page_word ?d i) = load32 ?m (page_word ?d i)"
    "runs_kept_but (set (chunk_blocks ?m c)) (mem s) (ram (mem s'))" "kframe (mem s') = kframe (mem s)"
    by (rule process_malloc_ok [OF ok sz fit slot]) (use call(1) in auto)
  let ?p = "p\<lparr>allocations := (allocations p)[i := \<lparr>alloc_ptr = ptr, alloc_size = sz\<rparr>]\<rparr>"
  have ok': "kheap_ok (mem s')" and own: "kowned (mem s') ptr = Some ?n" using m(3,5) by (simp_all add: process_ok_def)
  have al: "page_aligned ptr" by (rule kowned_end(2) [OF ok' own])
  have "length (allocations p) = 1024" using ok by (simp add: process_ok_def)
  then have used: "set (used_ptrs (allocations ?p)) = insert ptr (set (used_ptrs (allocations p)))"
    using used_ptrs_update [of i "allocations p" "\<lparr>alloc_ptr = ptr, alloc_size = sz\<rparr>"] m(1,2) call(2)
    by (metis (no_types, lifting) process.select_convs process.surjective process.update_convs
        process_allocation.select_convs(1) set_mset_add_mset_insert set_mset_mset union_mset_add_mset_right add.right_neutral)
  have runs: "in_run (mem s') q a" if "in_run (mem s) q a" for q a
  proof -
    have "q \<noteq> ptr" using that m(4) by (auto simp: in_run_def)
    then show ?thesis using that by (simp add: in_run_def m(5))
  qed
  have view: "user_view (ram (mem s')) ?d w = (if in_window ptr ?n w then Some (w, True) else user_view ?m ?d w)" for w
    using user_view_window [OF al al _ flags_all(1) dir m(9), of ?n w] m(7) by (simp add: flags_all)
  have "kowned (mem s0) \<subseteq>\<^sub>m kowned (mem s')"
    using I m(4) unfolding m(5) map_le_def by (metis domIff fun_upd_other option.distinct(1))
  moreover have "runs_kept_but ({prog, stk} \<union> set (chunk_blocks (ram (mem s0)) c)) (mem s0) (ram (mem s'))"
  proof (rule runs_kept_but_trans [of _ _ "mem s"])
    show "runs_kept_but ({prog, stk} \<union> set (chunk_blocks (ram (mem s0)) c)) (mem s) (ram (mem s'))"
      using m(10) I by (intro runs_kept_but_mono [OF m(10)]) auto
  qed (use I in \<open>auto simp: map_le_def dest: bspec\<close>)
  moreover have "ptr \<notin> dom (kowned (mem s0))" using I m(4) unfolding map_le_def by (metis domIff)
  moreover have "in_run (mem s') prog a \<or> in_run (mem s') stk a \<or>
      a = w \<and> (\<exists>q \<in> set (used_ptrs (allocations ?p)). in_run (mem s') q a)"
    if "user_view (ram (mem s')) ?d w = Some (a, True)" for w a
  proof (cases "in_window ptr ?n w")
    case True
    then show ?thesis using that in_run_window [OF ok' own] unfolding used view by auto
  next
    case False
    then have "user_view ?m ?d w = Some (a, True)" using that unfolding view by simp
    then have "in_run (mem s) prog a \<or> in_run (mem s) stk a \<or>
        a = w \<and> (\<exists>q \<in> set (used_ptrs (allocations p)). in_run (mem s) q a)" using I by blast
    then show ?thesis using runs unfolding used by blast
  qed
  ultimately have "confined s0 s' pr ?p c prog stk"
    unfolding confined_def used m(6,8) using I m(3) open_directory_kept [OF dir m(9)] null_free_safe_frame(1) [OF m(11)] by blast
  then show ?thesis by blast
qed

lemma confined_free:
  assumes inv: "confined s0 s pr p c prog stk" and call: "process_free pr ptr s = Some s'" "ptr \<noteq> 0"
  shows "\<exists>p'. confined s0 s' pr p' c prog stk"
proof (cases "ptr \<in> set (used_ptrs (allocations p))")
  case False
  have "procs s pr = Some p" using inv by (simp add: confined_def process_ok_def)
  moreover have "process_get_allocation_by_addr p ptr = None"
    using False call(2) by (auto simp: process_get_allocation_by_addr_def find_None_iff dest: in_used_ptrs)
  ultimately have "s' = s" using call(1) by (simp add: process_free_def)
  then show ?thesis using inv by blast
next
  case True
  let ?m = "ram (mem s)" and ?d = "load32 (ram (mem s)) c" and ?p = "process_allocation_unjoin ptr p"
  note I = inv [unfolded confined_def]
  have ok: "process_ok s pr p c" and dir: "open_directory ?m ?d" using I by blast+
  obtain n where m: "kowned (mem s) ptr = Some n" "process_ok s' pr ?p c"
    "kowned (mem s') = (kowned (mem s))(ptr := None)" "load32 (ram (mem s')) c = ?d"
    "\<And>w. page_aligned w \<Longrightarrow> paging_get (ram (mem s')) ?d w = (if in_range ptr n w then w else paging_get ?m ?d w)"
    "chunk_blocks (ram (mem s')) c = chunk_blocks ?m c"
    "\<And>i. i < 1024 \<Longrightarrow> load32 (ram (mem s')) (page_word ?d i) = load32 ?m (page_word ?d i)"
    "runs_kept_but (set (chunk_blocks ?m c)) (mem s) (ram (mem s'))" "kframe (mem s') = kframe (mem s)"
    by (rule process_free_ok [OF ok call(2) True]) (use call(1) in auto)
  have okm: "kheap_ok (mem s)" using ok by (simp add: process_ok_def)
  have new: "ptr \<notin> dom (kowned (mem s0))" using I True by blast
  have used: "set (used_ptrs (allocations ?p)) = set (used_ptrs (allocations p)) - {ptr}"
    using used_ptrs_unjoin [OF call(2)] by (auto simp: process_allocation_unjoin_def)
  have al: "page_aligned ptr" by (rule kowned_end(2) [OF okm m(1)])
  have view: "user_view (ram (mem s')) ?d w = (if in_window ptr n w then None else user_view ?m ?d w)" for w
    using user_view_window [OF al al _ _ dir m(7), of n 0 w] m(5) by simp
  have le: "kowned (mem s0) \<subseteq>\<^sub>m kowned (mem s)" using I by blast
  have runs: "in_run (mem s') q a" if "in_run (mem s) q a" "q \<noteq> ptr" for q a
    using that by (simp add: in_run_def m(3))
  have "kowned (mem s0) \<subseteq>\<^sub>m kowned (mem s')"
    using le new unfolding m(3) map_le_def by (metis fun_upd_other)
  moreover have "runs_kept_but ({prog, stk} \<union> set (chunk_blocks (ram (mem s0)) c)) (mem s0) (ram (mem s'))"
  proof (rule runs_kept_but_trans [of _ _ "mem s"])
    show "runs_kept_but ({prog, stk} \<union> set (chunk_blocks (ram (mem s0)) c)) (mem s) (ram (mem s'))"
      using I by (intro runs_kept_but_mono [OF m(8)]) auto
  qed (use I in \<open>auto simp: map_le_def dest: bspec\<close>)
  moreover have "in_run (mem s') prog a \<or> in_run (mem s') stk a \<or>
      a = w \<and> (\<exists>q \<in> set (used_ptrs (allocations ?p)). in_run (mem s') q a)"
    if v: "user_view (ram (mem s')) ?d w = Some (a, True)" for w a
  proof -
    have w: "\<not> in_window ptr n w" "user_view ?m ?d w = Some (a, True)" using v unfolding view by (auto split: if_splits)
    then consider q where "q \<in> {prog, stk}" "in_run (mem s) q a"
      | q where "a = w" "q \<in> set (used_ptrs (allocations p))" "in_run (mem s) q a" using I by blast
    then show ?thesis
    proof cases
      case 1
      have "q \<noteq> ptr" using 1(1) new I by blast
      then show ?thesis using 1 runs by blast
    next
      case 2
      have "q \<noteq> ptr" using 2 w(1) in_run_window [OF okm m(1)] by auto
      then show ?thesis using 2 runs unfolding used by blast
    qed
  qed
  moreover have "set (used_ptrs (allocations ?p)) \<inter> dom (kowned (mem s0)) = {}" using I unfolding used by blast
  ultimately have "confined s0 s' pr ?p c prog stk"
    unfolding confined_def m(4,6) using I m(2) open_directory_kept [OF dir m(7)] null_free_safe_frame(1) [OF m(9)] by blast
  then show ?thesis by blast
qed

text \<open>Freeing NULL: with no slot left nothing happens, otherwise one byte outside all tables is cleared.\<close>

lemma free_null_cases:
  assumes ok: "process_ok s pr p c" and safe: "null_free_safe (mem s)" and call: "process_free pr 0 s = Some s'"
  shows "process_ok s' pr p c" "kowned (mem s') = kowned (mem s)" "null_free_safe (mem s')" "ram (mem s') = ram (mem s)" "tasks s' = tasks s"
proof -
  have "process_ok s' pr p c \<and> kowned (mem s') = kowned (mem s) \<and> null_free_safe (mem s') \<and> ram (mem s') = ram (mem s) \<and> tasks s' = tasks s"
  proof (cases "\<exists>a \<in> set (allocations p). alloc_ptr a = 0")
    case True
    then show ?thesis using call by (metis process_free_null [OF ok safe] option.inject)
  next
    case False
    then have "process_get_allocation_by_addr p 0 = None" by (auto simp: process_get_allocation_by_addr_def find_None_iff)
    then have "s' = s" using call ok by (simp add: process_free_def process_ok_def)
    then show ?thesis using ok safe by simp
  qed
  then show "process_ok s' pr p c" "kowned (mem s') = kowned (mem s)" "null_free_safe (mem s')" "ram (mem s') = ram (mem s)" "tasks s' = tasks s"
    by blast+
qed

lemma confined_free_null:
  assumes inv: "confined s0 s pr p c prog stk" and call: "process_free pr 0 s = Some s'"
  shows "confined s0 s' pr p c prog stk"
proof -
  note I = inv [unfolded confined_def]
  have "process_ok s pr p c" "null_free_safe (mem s)" using I by simp_all
  note N = free_null_cases [OF this call]
  have run: "in_run (mem s') = in_run (mem s)" by (simp add: fun_eq_iff in_run_def N(2))
  show ?thesis unfolding confined_def N(2,4) run using I N(1,3) by blast
qed

lemma user_step_confined:
  assumes step: "user_step pr x s s'" and safe: "served (s, x)" and inv: "confined s0 s pr p c prog stk"
  shows "\<exists>p'. confined s0 s' pr p' c prog stk"
  using step
proof cases
  case (Store c' v b r)
  have "process_chunk pr s = Some c" using inv by (simp add: confined_def process_ok_def)
  then show ?thesis using Store confined_store [OF inv, of v b r] by auto
next
  case (Malloc sz ptr)
  have I: "process_ok s pr p c" "null_free_safe (mem s)" using inv by (simp_all add: confined_def)
  have srv: "heap_serves (mem s) sz" using safe Malloc(1) by simp
  show ?thesis
  proof (cases rule: malloc_served [OF I Malloc(2) srv, case_names given refused])
    case given
    then show ?thesis by (intro confined_malloc [OF inv Malloc(2)])
  next
    case refused
    then show ?thesis using confined_same [OF inv] by blast
  qed
next
  case (Free ptr)
  then show ?thesis using confined_free [OF inv Free(2)] confined_free_null [OF inv] by (cases "ptr = 0") auto
qed

lemma user_run_confined:
  "user_run pr s tr s' \<Longrightarrow> list_all served tr \<Longrightarrow> confined s0 s pr p c prog stk \<Longrightarrow> \<exists>p'. confined s0 s' pr p' c prog stk"
proof (induction arbitrary: p rule: user_run.induct)
  case (Step x s s' tr s'')
  then have "served (s, x)" by simp
  from user_step_confined [OF Step.hyps(1) this Step.prems(2)] obtain p' where "confined s0 s' pr p' c prog stk" ..
  then show ?case using Step.IH Step.prems(1) by simp
qed blast

section \<open>A kernel with a binary of 100 bytes in memory\<close>

lemma one_used_gap:
  assumes "length t \<le> Suc (free_count t)" "8 \<le> length t"
  shows "\<exists>i. free_at t i 4"
proof (rule ccontr)
  assume no: "\<not> ?thesis"
  then have "\<not> free_at t 0 4" "\<not> free_at t 4 4" by blast+
  then obtain a b where ab: "a < 4" "t ! a \<noteq> 0" "b < 4" "t ! (4 + b) \<noteq> 0" using assms(2) by (auto simp: free_at_def)
  have "{a, 4 + b} \<subseteq> {i. i < length t \<and> t ! i \<noteq> 0}" using ab assms(2) by auto
  from card_mono [OF _ this] have "2 \<le> card {i. i < length t \<and> t ! i \<noteq> 0}" using ab(1) by simp
  also have "\<dots> = length (filter (\<lambda>e. e \<noteq> 0) t)" by (simp add: length_filter_conv_card)
  finally show False using assms(1) sum_length_filter_compl [of "\<lambda>e. e = 0" t] by (simp add: free_count_def)
qed

lemma kroom_table: "kheap_ok m \<Longrightarrow> kframe m = kframe m' \<Longrightarrow> length (tbl (kernel_heap m)) = length (tbl (kernel_heap m'))"
  by (simp add: kframe_def heap_frame_def tbl_length)

definition binary_kernel :: "u32 \<Rightarrow> kmem \<Rightarrow> kernel" where
  "binary_kernel ptr m = set_mem m (sample_kernel\<lparr>procs := [0x3000 \<mapsto> sample_process\<lparr>program := ptr, program_size := 100\<rparr>]\<rparr>)"

lemma binary_kernel_ready:
  obtains ptr m p name where "sched_ok m (binary_kernel ptr m) []" "binary_loaded (binary_kernel ptr m) 0x3000 p"
    "\<exists>i. free_at (tbl (kernel_heap (mem (binary_kernel ptr m)))) i 4" "1031 \<le> kroom (mem (binary_kernel ptr m))"
    "strncpy (filename p) 0 (ascii ''0:/a'' @ [0]) (int HARDIKHYPERIONOS_MAX_PATH) = Some name"
    "1 < length (processes (binary_kernel ptr m))" "program p = ptr" "program_size p = 100" "kroom m = 25599"
    "null_free_safe (mem (binary_kernel ptr m))"
proof -
  obtain ptr m where m: "kzalloc boot_kmem 100 = (ptr, m)" "ptr \<noteq> 0" "kgrown boot_kmem [ptr] m"
    by (rule kheap.grown_alloc [OF boot_kmem_facts(1), of 100]) (auto simp: boot_kmem_facts)
  have ok: "kheap_ok m" "kroom m = 25599" "kowned m ptr = Some 1" "kframe m = kframe boot_kmem"
    using m(3) boot_kmem_facts by (auto simp: grown_def)
  have "length (tbl (kernel_heap m)) = 25600"
    using kroom_table [OF ok(1,4)] by (simp add: boot_kmem_def tbl_length kheap_init_def heap_create_def
        heap_validate_alignment_def heap_validate_table_def HEAP_ADDRESS_def HEAP_SIZE_BYTES_def heap_consts)
  then have fit: "\<exists>i. free_at (tbl (kernel_heap m)) i 4"
    using ok(2) by (intro one_used_gap) (simp_all add: kroom_def)
  let ?p = "sample_process\<lparr>program := ptr, program_size := 100\<rparr>"
  have "terminated (ascii ''0:/a'' @ [0])" by (simp add: terminated_def)
  then obtain name where name: "strncpy (filename ?p) 0 (ascii ''0:/a'' @ [0]) (int HARDIKHYPERIONOS_MAX_PATH) = Some name"
    using strncpy_loop_cstr [of "ascii ''0:/a'' @ [0]" "filename ?p" 0]
    by (auto simp: strncpy_def sample_process_def zero_process_def HARDIKHYPERIONOS_MAX_PATH_def ascii_def)
  show thesis
  proof (rule that [of m ptr ?p name])
    show "sched_ok m (binary_kernel ptr m) []"
      using kheap.grown_refl [OF ok(1)] by (simp add: sched_ok_def task_links_def binary_kernel_def sample_kernel_def)
    show "binary_loaded (binary_kernel ptr m) 0x3000 ?p"
      using ok(3) by (simp add: binary_loaded_def binary_kernel_def sample_process_def zero_process_def blocks_for_def
          HARDIKHYPERIONOS_MAX_PROGRAM_ALLOCATIONS_def)
    show "null_free_safe (mem (binary_kernel ptr m))"
      using null_free_safe_frame(1) [OF ok(4)] boot_null_free_safe by (simp add: binary_kernel_def)
  qed (use fit ok(2) name in \<open>simp_all add: binary_kernel_def sample_kernel_def\<close>)
qed

section \<open>A loaded binary\<close>

text \<open>
  C9. A binary in memory becomes a process: \<open>load_task\<close> (the second part of \<open>process_load_for_slot\<close>) creates its task and address
  space, enters it in the table and returns 0. Its registers are the entry \<open>0x400000\<close> and the top \<open>0x3FF000\<close> of the stack. In its
  address space the bytes of the program, unchanged, lie from \<open>0x400000\<close> on, a cleared stack of 16 KB lies below \<open>0x3FF000\<close>, both
  writeable; all other addresses are themselves, readable and not writeable. All memory that was allocated is as it was, the other tasks keep
  their links and address spaces, and 1031 blocks of the heap are used.
\<close>

theorem load_task_view:
  assumes "sched_ok m0 s ps" "binary_loaded s pr p"
    and "\<exists>i. free_at (tbl (kernel_heap (mem s))) i 4" "1031 \<le> kroom (mem s)"
    and "strncpy (filename p) 0 fname (int HARDIKHYPERIONOS_MAX_PATH) = Some name" "k < length (processes s)"
  shows "\<exists>s' task c stk. load_task fname pr (int k) s = Some (0, Some pr, s') \<and>
    processes s' = (processes s)[k := pr] \<and> (\<exists>m1. sched_ok m1 s' (ps @ [task])) \<and>
    process_ok s' pr (p\<lparr>filename := name, stack := stk, pid := word_of_int (int k), task_of := task\<rparr>) c \<and>
    map_option registers_of (tasks s' task) =
      Some (zero_registers\<lparr>ip := 0x400000, ss := USER_DATA_SEGMENT, cs := USER_CODE_SEGMENT, esp := 0x3FF000\<rparr>) \<and>
    (\<forall>v. user_view (ram (mem s')) (load32 (ram (mem s')) c) v = Some
       (if in_window 0x3FB000 4 v then (stk + (v - 0x3FB000), True)
        else if in_window 0x400000 (blocks_for (unat (program_size p))) v then (program p + (v - 0x400000), True)
        else (v, False))) \<and>
    (\<forall>i < 16384. ram (mem s') (stk + of_nat i) = 0) \<and> runs_kept (mem s) (ram (mem s')) \<and>
    kowned (mem s) stk = None \<and> kroom (mem s) = 1031 + kroom (mem s')"
proof -
  obtain s' task c stk m1 where L: "load_task fname pr (int k) s = Some (0, Some pr, s')"
    "processes s' = (processes s)[k := pr]" "sched_ok m1 s' (ps @ [task])"
    "tasks s' task = Some (new_task c 0x400000 pr (if ps = [] then 0 else last ps))"
    "process_ok s' pr (p\<lparr>filename := name, stack := stk, pid := word_of_int (int k), task_of := task\<rparr>) c"
    "kowned (mem s) stk = None"
    "\<And>v. user_view (ram (mem s')) (load32 (ram (mem s')) c) v =
       binary_view (program p) (blocks_for (unat (program_size p))) stk (\<lambda>v. Some (v, False)) v"
    "\<And>i. i < 4 * 4096 \<Longrightarrow> ram (mem s') (stk + of_nat i) = 0"
    "runs_kept (mem s) (ram (mem s'))" "kroom (mem s) = 1031 + kroom (mem s')"
    by (rule load_task_ok [OF assms]) (rule that, assumption+)
  moreover have "map_option registers_of (tasks s' task) =
      Some (zero_registers\<lparr>ip := 0x400000, ss := USER_DATA_SEGMENT, cs := USER_CODE_SEGMENT, esp := 0x3FF000\<rparr>)"
    by (simp add: L(4) new_task_def PROGRAM_VIRTUAL_STACK_ADDRESS_START_def)
  moreover have "\<forall>v. user_view (ram (mem s')) (load32 (ram (mem s')) c) v = Some
       (if in_window 0x3FB000 4 v then (stk + (v - 0x3FB000), True)
        else if in_window 0x400000 (blocks_for (unat (program_size p))) v then (program p + (v - 0x400000), True)
        else (v, False))" by (simp add: L(7) binary_view_def)
  moreover have "\<forall>i < 16384. ram (mem s') (stk + of_nat i) = 0" using L(8) by simp
  ultimately show ?thesis by blast
qed

theorem load_task_view_witness:
  "\<exists>s s' c r. load_task (ascii ''0:/a'' @ [0]) 0x3000 1 s = Some (0, Some 0x3000, s') \<and> process_chunk 0x3000 s' = Some c \<and>
     user_store (ram (mem s')) (load32 (ram (mem s')) c) 0x3FEFFC 7 = Some r \<and>
     user_store (ram (mem s')) (load32 (ram (mem s')) c) 0x1000000 7 = None"
proof -
  obtain ptr m p name where K: "sched_ok m (binary_kernel ptr m) []" "binary_loaded (binary_kernel ptr m) 0x3000 p"
    "\<exists>i. free_at (tbl (kernel_heap (mem (binary_kernel ptr m)))) i 4" "1031 \<le> kroom (mem (binary_kernel ptr m))"
    "strncpy (filename p) 0 (ascii ''0:/a'' @ [0]) (int HARDIKHYPERIONOS_MAX_PATH) = Some name"
    "1 < length (processes (binary_kernel ptr m))" "program p = ptr" "program_size p = 100"
    by (rule binary_kernel_ready)
  have n: "blocks_for (unat (program_size p)) = 1" by (simp add: K(8) blocks_for_def)
  from load_task_view [OF K(1-6)] obtain s' task c stk where
    "load_task (ascii ''0:/a'' @ [0]) 0x3000 1 (binary_kernel ptr m) = Some (0, Some 0x3000, s')"
    "process_ok s' 0x3000 (p\<lparr>filename := name, stack := stk, pid := word_of_int (int 1), task_of := task\<rparr>) c"
    "\<And>v. user_view (ram (mem s')) (load32 (ram (mem s')) c) v = Some
       (if in_window 0x3FB000 4 v then (stk + (v - 0x3FB000), True)
        else if in_window 0x400000 1 v then (program p + (v - 0x400000), True) else (v, False))"
    unfolding n by auto
  then show ?thesis
    by (intro exI [of _ "binary_kernel ptr m"] exI [of _ s'] exI [of _ c])
      (simp add: process_ok_def user_store_def in_window_def)
qed

text \<open>A binary that writes to its stack.\<close>

lemma sample_run:
  obtains ptr m p name s1 tr s2 where "sched_ok m (binary_kernel ptr m) []" "binary_loaded (binary_kernel ptr m) 0x3000 p"
    "\<exists>i. free_at (tbl (kernel_heap (mem (binary_kernel ptr m)))) i 4" "1031 \<le> kroom (mem (binary_kernel ptr m))"
    "strncpy (filename p) 0 (ascii ''0:/a'' @ [0]) (int HARDIKHYPERIONOS_MAX_PATH) = Some name"
    "1 < length (processes (binary_kernel ptr m))"
    "load_task (ascii ''0:/a'' @ [0]) 0x3000 (int 1) (binary_kernel ptr m) = Some (0, Some 0x3000, s1)" "user_run 0x3000 s1 tr s2"
    "mem s1 \<noteq> mem s2" "null_free_safe (mem (binary_kernel ptr m))" "list_all served tr"
proof -
  obtain ptr m p name where K: "sched_ok m (binary_kernel ptr m) []" "binary_loaded (binary_kernel ptr m) 0x3000 p"
    "\<exists>i. free_at (tbl (kernel_heap (mem (binary_kernel ptr m)))) i 4" "1031 \<le> kroom (mem (binary_kernel ptr m))"
    "strncpy (filename p) 0 (ascii ''0:/a'' @ [0]) (int HARDIKHYPERIONOS_MAX_PATH) = Some name"
    "1 < length (processes (binary_kernel ptr m))" "null_free_safe (mem (binary_kernel ptr m))"
    by (rule binary_kernel_ready)
  obtain s1 task c stk where L: "load_task (ascii ''0:/a'' @ [0]) 0x3000 (int 1) (binary_kernel ptr m) = Some (0, Some 0x3000, s1)"
    "process_ok s1 0x3000 (p\<lparr>filename := name, stack := stk, pid := word_of_int (int 1), task_of := task\<rparr>) c"
    "\<And>v. user_view (ram (mem s1)) (load32 (ram (mem s1)) c) v =
       binary_view (program p) (blocks_for (unat (program_size p))) stk (\<lambda>v. Some (v, False)) v"
    "\<And>i. i < 4 * 4096 \<Longrightarrow> ram (mem s1) (stk + of_nat i) = 0"
    by (rule load_task_ok [OF K(1-6)]) (rule that, assumption+)
  let ?r = "(ram (mem s1))(stk := 7)"
  have "user_view (ram (mem s1)) (load32 (ram (mem s1)) c) 0x3FB000 = Some (stk, True)"
    by (simp add: L(3) binary_view_def in_window_def)
  then have "user_store (ram (mem s1)) (load32 (ram (mem s1)) c) 0x3FB000 7 = Some ?r" by (simp add: user_store_def)
  moreover have "process_chunk 0x3000 s1 = Some c" using L(2) by (simp add: process_ok_def)
  ultimately have run: "user_run 0x3000 s1 [(s1, UserStore 0x3FB000 7)] (set_ram ?r s1)" by (meson user_run.intros user_step.Store)
  have "ram (mem s1) stk \<noteq> ram (mem (set_ram ?r s1)) stk" using L(4) [of 0] by simp
  then have "mem s1 \<noteq> mem (set_ram ?r s1)" by metis
  then show thesis by (rule that [OF K(1-6) L(1) run _ K(7)]) simp
qed

lemma load_task_confined:
  assumes "sched_ok m0 s ps" "binary_loaded s pr p"
    and "\<exists>i. free_at (tbl (kernel_heap (mem s))) i 4" "1031 \<le> kroom (mem s)"
    and "strncpy (filename p) 0 fname (int HARDIKHYPERIONOS_MAX_PATH) = Some name" "k < length (processes s)"
    and "load_task fname pr (int k) s = Some (res, out, s1)" "null_free_safe (mem s)"
  obtains p1 c where "confined s1 s1 pr p1 c (program p) (stack p1)" "process_chunk pr s1 = Some c"
    "procs s1 pr = Some p1"
proof -
  obtain s' task c stk where L: "load_task fname pr (int k) s = Some (0, Some pr, s')"
    "process_ok s' pr (p\<lparr>filename := name, stack := stk, pid := word_of_int (int k), task_of := task\<rparr>) c"
    "kowned (mem s') stk = Some 4" "kowned (mem s) \<subseteq>\<^sub>m kowned (mem s')"
    "\<And>v. user_view (ram (mem s')) (load32 (ram (mem s')) c) v =
       binary_view (program p) (blocks_for (unat (program_size p))) stk (\<lambda>v. Some (v, False)) v"
    "open_directory (ram (mem s')) (load32 (ram (mem s')) c)"
    "set (chunk_blocks (ram (mem s')) c) \<inter> (insert stk (dom (kowned (mem s)))) = {}" "kframe (mem s') = kframe (mem s)"
    by (rule load_task_ok [OF assms(1-6)]) (rule that, assumption+)
  let ?p = "p\<lparr>filename := name, stack := stk, pid := word_of_int (int k), task_of := task\<rparr>"
  let ?n = "blocks_for (unat (program_size p))"
  have s1: "s1 = s'" using assms(7) L(1) by simp
  note B = assms(2) [unfolded binary_loaded_def]
  have prog: "kowned (mem s') (program p) = Some ?n" using B L(4) by (metis domI map_le_def)
  have ok: "kheap_ok (mem s')" using L(2) by (simp add: process_ok_def)
  have win: "in_run (mem s') q (q + (v - b))" if "in_window b n v" "kowned (mem s') q = Some n" for q b n v
  proof -
    have "q + (v - b) = q + of_nat (unat (v - b))" by simp
    then show ?thesis using that unfolding in_run_def in_window_def by blast
  qed
  have "confined s' s' pr ?p c (program p) stk"
    unfolding confined_def
  proof (intro conjI allI impI)
    show "process_ok s' pr ?p c" "open_directory (ram (mem s')) (load32 (ram (mem s')) c)" by (fact L)+
    show "null_free_safe (mem s')" using null_free_safe_frame(1) [OF L(8)] assms(8) by simp
    show "set (used_ptrs (allocations ?p)) \<inter> dom (kowned (mem s')) = {}"
      using B by (simp add: used_ptrs_def no_allocation_def)
    show "set (chunk_blocks (ram (mem s')) c) \<subseteq> dom (kowned (mem s'))" using L(2) by (simp add: process_ok_def)
    show "{program p, stk} \<subseteq> dom (kowned (mem s')) - set (chunk_blocks (ram (mem s')) c)"
      using prog L(3,7) B by auto
    show "in_run (mem s') (program p) a \<or> in_run (mem s') stk a \<or>
        a = v \<and> (\<exists>q \<in> set (used_ptrs (allocations ?p)). in_run (mem s') q a)"
      if "user_view (ram (mem s')) (load32 (ram (mem s')) c) v = Some (a, True)" for v a
      using that win [OF _ prog] win [OF _ L(3)] by (auto simp: L(5) binary_view_def split: if_splits)
  qed (simp_all add: runs_kept_but_def)
  moreover have "process_chunk pr s' = Some c" "procs s' pr = Some ?p" using L(2) by (simp_all add: process_ok_def)
  ultimately show thesis using that [of ?p c] by (simp add: s1)
qed



end
