(* ===== verification/Arguments.thy ===== *)
theory Arguments
  imports UserMode
begin

text \<open>
  The arguments of a program: \<open>process_inject_arguments\<close> (process.c) copies a linked list of words into new
  allocations of the process, in the form \<open>main\<close> takes.
\<close>

section \<open>An address space with its allocations\<close>

text \<open>The process can read and write each of its allocations at its own address.\<close>

definition space_ok :: "kernel \<Rightarrow> u32 \<Rightarrow> process \<Rightarrow> u32 \<Rightarrow> bool" where
  "space_ok s pr p c \<longleftrightarrow> process_ok s pr p c \<and> open_directory (ram (mem s)) (load32 (ram (mem s)) c) \<and>
     (\<forall>q \<in> set (used_ptrs (allocations p)). \<forall>w. in_run (mem s) q w \<longrightarrow>
        user_view (ram (mem s)) (load32 (ram (mem s)) c) w = Some (w, True))"

abbreviation space_blocks :: "kernel \<Rightarrow> u32 \<Rightarrow> u32 set" where
  "space_blocks s c \<equiv> set (chunk_blocks (ram (mem s)) c)"

abbreviation free_slots :: "process \<Rightarrow> nat" where
  "free_slots p \<equiv> length (filter (\<lambda>a. alloc_ptr a = 0) (allocations p))"

lemma free_slots_update:
  "i < length as \<Longrightarrow> alloc_ptr (as ! i) = 0 \<Longrightarrow> alloc_ptr a \<noteq> 0 \<Longrightarrow>
   length (filter (\<lambda>a. alloc_ptr a = 0) as) = Suc (length (filter (\<lambda>a. alloc_ptr a = 0) (as[i := a])))"
  by (induction as arbitrary: i) (auto simp: nth_Cons split: nat.splits)

lemma used_ptrs_insert:
  assumes "i < length as" "alloc_ptr (as ! i) = 0" "alloc_ptr a \<noteq> 0"
  shows "set (used_ptrs (as[i := a])) = insert (alloc_ptr a) (set (used_ptrs as))"
  using arg_cong [OF used_ptrs_update [OF assms], of set_mset] by simp

lemma space_malloc:
  assumes ok: "space_ok s pr p c" and sz: "0 < unat sz" "unat sz \<le> 4096" and room: "0 < kroom (mem s)" "0 < free_slots p"
  obtains ptr s' as where "process_malloc pr sz s = Some (ptr, s')" "ptr \<noteq> 0" "space_ok s' pr (p\<lparr>allocations := as\<rparr>) c"
    "set (used_ptrs as) = insert ptr (set (used_ptrs (allocations p)))" "free_slots p = Suc (free_slots (p\<lparr>allocations := as\<rparr>))"
    "kowned (mem s) ptr = None" "kowned (mem s') = (kowned (mem s))(ptr \<mapsto> 1)" "kroom (mem s) = Suc (kroom (mem s'))"
    "load32 (ram (mem s')) c = load32 (ram (mem s)) c" "chunk_blocks (ram (mem s')) c = chunk_blocks (ram (mem s)) c"
    "runs_kept_but (space_blocks s c) (mem s) (ram (mem s'))"
proof -
  have ok': "process_ok s pr p c" and dir: "open_directory (ram (mem s)) (load32 (ram (mem s)) c)"
    using ok by (simp_all add: space_ok_def)
  have b: "blocks_for (unat sz) = 1" using sz by (rule blocks_for_one)
  have fit: "\<exists>i. free_at (tbl (kernel_heap (mem s))) i (blocks_for (unat sz))"
    using room(1) unfolding b kroom_def by (rule free_count_pos)
  have slot: "\<exists>a \<in> set (allocations p). alloc_ptr a = 0" using room(2) by (auto simp: filter_empty_conv)
  have le: "unat sz \<le> 2 ^ 32 - 4096" using sz(2) by simp
  obtain ptr s' i where m: "process_malloc pr sz s = Some (ptr, s')" "ptr \<noteq> 0" "i < 1024"
    "alloc_ptr (allocations p ! i) = 0"
    "process_ok s' pr (p\<lparr>allocations := (allocations p)[i := \<lparr>alloc_ptr = ptr, alloc_size = sz\<rparr>]\<rparr>) c"
    "kowned (mem s) ptr = None" "kowned (mem s') = (kowned (mem s))(ptr \<mapsto> 1)"
    "load32 (ram (mem s')) c = load32 (ram (mem s)) c"
    "\<And>w. page_aligned w \<Longrightarrow> paging_get (ram (mem s')) (load32 (ram (mem s)) c) w =
       (if in_range ptr 1 w then w OR PAGE_FLAGS_ALL else paging_get (ram (mem s)) (load32 (ram (mem s)) c) w)"
    "chunk_blocks (ram (mem s')) c = chunk_blocks (ram (mem s)) c"
    "\<And>i. i < 1024 \<Longrightarrow> load32 (ram (mem s')) (page_word (load32 (ram (mem s)) c) i) =
       load32 (ram (mem s)) (page_word (load32 (ram (mem s)) c) i)"
    "runs_kept_but (space_blocks s c) (mem s) (ram (mem s'))" "kroom (mem s) = 1 + kroom (mem s')"
    by (rule process_malloc_ok [OF ok' sz(1) le fit slot, unfolded b]) (rule that, assumption+)
  define as where "as = (allocations p)[i := \<lparr>alloc_ptr = ptr, alloc_size = sz\<rparr>]"
  have i: "i < length (allocations p)" using ok' m(3) by (simp add: process_ok_def)
  have used: "set (used_ptrs as) = insert ptr (set (used_ptrs (allocations p)))"
    using used_ptrs_insert [OF i m(4)] m(2) by (simp add: as_def)
  have okm: "kheap_ok (mem s')" and own: "kowned (mem s') ptr = Some 1" using m(5,7) by (simp_all add: process_ok_def)
  have al: "page_aligned ptr" by (rule kowned_end(2) [OF okm own])
  have view: "user_view (ram (mem s')) (load32 (ram (mem s)) c) w =
      (if in_window ptr 1 w then Some (w, True) else user_view (ram (mem s)) (load32 (ram (mem s)) c) w)" for w
    using user_view_window [OF al al _ flags_all(1) dir m(11), of 1 w] m(9) by (simp add: flags_all)
  have "space_ok s' pr (p\<lparr>allocations := as\<rparr>) c"
    unfolding space_ok_def m(8)
  proof (intro conjI ballI allI impI)
    show "process_ok s' pr (p\<lparr>allocations := as\<rparr>) c" using m(5) by (simp add: as_def)
    show "open_directory (ram (mem s')) (load32 (ram (mem s)) c)" by (rule open_directory_kept [OF dir m(11)])
    fix q w assume q: "q \<in> set (used_ptrs (allocations (p\<lparr>allocations := as\<rparr>)))" and w: "in_run (mem s') q w"
    show "user_view (ram (mem s')) (load32 (ram (mem s)) c) w = Some (w, True)"
    proof (cases "q = ptr")
      case True
      then show ?thesis using w in_run_window [OF okm own] by (simp add: view)
    next
      case False
      then have "in_run (mem s) q w" "q \<in> set (used_ptrs (allocations p))" using q w used by (auto simp: in_run_def m(7))
      then show ?thesis using ok by (simp add: view space_ok_def)
    qed
  qed
  moreover have "free_slots p = Suc (free_slots (p\<lparr>allocations := as\<rparr>))"
    using free_slots_update [OF i m(4)] m(2) by (simp add: as_def)
  ultimately show thesis
    using m used by (intro that [of ptr s' as]) simp_all
qed

text \<open>Writing inside of runs that are no part of the address space.\<close>

lemma space_write:
  assumes ok: "space_ok s pr p c" and out: "\<And>a. r a \<noteq> ram (mem s) a \<Longrightarrow> \<exists>q. in_run (mem s) q a \<and> q \<notin> space_blocks s c"
  shows "space_ok (set_ram r s) pr p c" "load32 r c = load32 (ram (mem s)) c"
    "chunk_blocks r c = chunk_blocks (ram (mem s)) c"
    "user_view r (load32 (ram (mem s)) c) v = user_view (ram (mem s)) (load32 (ram (mem s)) c) v"
proof -
  let ?m = "ram (mem s)" and ?d = "load32 (ram (mem s)) c"
  have P: "process_ok s pr p c" using ok by (simp add: space_ok_def)
  have okm: "kheap_ok (mem s)" and sub: "space_blocks s c \<subseteq> dom (kowned (mem s))" using P by (simp_all add: process_ok_def)
  have w: "load32 r (page_word t k) = load32 ?m (page_word t k)" if t: "t \<in> space_blocks s c" "k < 1024" for t k
  proof (rule load32_cong)
    fix j :: nat assume j: "j < 4"
    obtain n where n: "kowned (mem s) t = Some n" using sub t(1) by auto
    have "4 * k + j < 4096 * n" using t(2) j kowned_end(3) [OF okm n] by linarith
    moreover have "page_word t k + of_nat j = t + of_nat (4 * k + j)" by (simp add: page_word_def ac_simps)
    ultimately have "in_run (mem s) t (page_word t k + of_nat j)" unfolding in_run_def using n by blast
    then show "r (page_word t k + of_nat j) = ?m (page_word t k + of_nat j)"
      using out in_run_unique [OF okm] t(1) by metis
  qed
  have W: "load32 r c = ?d" "chunk_blocks r c = chunk_blocks ?m c" "chunk_ok ?m c \<Longrightarrow> chunk_ok r c"
    "\<And>i. i < 1024 \<Longrightarrow> load32 r (page_word ?d i) = load32 ?m (page_word ?d i)" "\<And>v. user_view r ?d v = user_view ?m ?d v"
    by (rule chunk_words_view [of ?m c r]; use w in blast)+
  then show "load32 r c = ?d" "chunk_blocks r c = chunk_blocks ?m c" "user_view r ?d v = user_view ?m ?d v" by blast+
  have k: "kowned ((mem s)\<lparr>ram := r\<rparr>) = kowned (mem s)" "kheap_ok ((mem s)\<lparr>ram := r\<rparr>) = kheap_ok (mem s)"
    by (simp_all add: kowned_def kheap_ok_def)
  have run: "in_run ((mem s)\<lparr>ram := r\<rparr>) = in_run (mem s)" by (simp add: fun_eq_iff in_run_def k)
  have "process_ok (set_ram r s) pr p c" using P W(2,3) by (simp add: process_ok_def k)
  moreover have "open_directory r ?d" using ok by (intro open_directory_kept [OF _ W(4)]) (simp add: space_ok_def)
  ultimately show "space_ok (set_ram r s) pr p c" using ok by (simp add: space_ok_def W(1,5) run)
qed

section \<open>Strings and lists of words in memory\<close>

definition string_at :: "ram \<Rightarrow> u32 \<Rightarrow> u8 list \<Rightarrow> bool" where
  "string_at m a x \<longleftrightarrow> 0 \<notin> set x \<and> (\<forall>i < length x. m (a + of_nat i) = x ! i) \<and> m (a + of_nat (length x)) = 0"

lemma string_at_Nil [simp]: "string_at m a [] \<longleftrightarrow> m a = 0"
  by (simp add: string_at_def)

lemma string_at_Cons [simp]: "string_at m a (c # x) \<longleftrightarrow> c \<noteq> 0 \<and> m a = c \<and> string_at m (a + 1) x"
  by (auto simp: string_at_def All_less_Suc2 add.assoc)

lemma string_at_cong:
  assumes "string_at m a x" "\<And>i. i \<le> length x \<Longrightarrow> r (a + of_nat i) = m (a + of_nat i)"
  shows "string_at r a x"
  using assms by (simp add: string_at_def)

lemma ram_strncpy_loop_copy:
  assumes "string_at m src x" "length x \<le> n" "length x < 4096"
    and "\<And>i j. i \<le> length x \<Longrightarrow> j \<le> length x \<Longrightarrow> dest + of_nat i \<noteq> src + of_nat j"
  shows "string_at (ram_strncpy_loop m dest src n) dest x \<and>
    (\<forall>a. (\<forall>i \<le> length x. a \<noteq> dest + of_nat i) \<longrightarrow> ram_strncpy_loop m dest src n a = m a)"
  using assms
proof (induction x arbitrary: m dest src n)
  case Nil
  then show ?case by (cases n) (auto dest: spec [of _ 0])
next
  case (Cons c x)
  from Cons.prems(2) obtain k where n: "n = Suc k" "length x \<le> k" by (cases n) auto
  define m1 where "m1 = m(dest := c)"
  have c: "c \<noteq> 0" "m src = c" "string_at m (src + 1) x" using Cons.prems(1) by simp_all
  have off: "dest + of_nat (Suc i) \<noteq> src + of_nat j" "dest \<noteq> src + of_nat j" if "i \<le> length x" "j \<le> Suc (length x)" for i j
    using Cons.prems(4) [of "Suc i" j] Cons.prems(4) [of 0 j] that by simp_all
  have "m1 (src + 1 + of_nat i) = m (src + 1 + of_nat i)" if "i \<le> length x" for i
    using off(2) [of 0 "Suc i"] that by (auto simp: m1_def add.assoc)
  then have "string_at m1 (src + 1) x" by (intro string_at_cong [OF c(3)])
  moreover have "dest + 1 + of_nat i \<noteq> src + 1 + of_nat j" if "i \<le> length x" "j \<le> length x" for i j
    using off(1) [of i "Suc j"] that by (simp add: ac_simps)
  ultimately have IH: "string_at (ram_strncpy_loop m1 (dest + 1) (src + 1) k) (dest + 1) x \<and>
      (\<forall>a. (\<forall>i \<le> length x. a \<noteq> dest + 1 + of_nat i) \<longrightarrow> ram_strncpy_loop m1 (dest + 1) (src + 1) k a = m1 a)"
    using n(2) Cons.prems(3) by (intro Cons.IH) simp_all
  have loop: "ram_strncpy_loop m dest src n = ram_strncpy_loop m1 (dest + 1) (src + 1) k"
    using c by (simp add: n(1) m1_def)
  have "dest \<noteq> dest + 1 + of_nat i" if "i \<le> length x" for i
    using u32_offset_inject [of 0 "Suc i" dest] that Cons.prems(3) by (simp add: add.assoc)
  then have "ram_strncpy_loop m dest src n dest = c" using IH unfolding loop by (simp add: m1_def)
  moreover have "ram_strncpy_loop m dest src n a = m a" if a: "\<forall>i \<le> Suc (length x). a \<noteq> dest + of_nat i" for a
  proof -
    have "a \<noteq> dest + 1 + of_nat i" if "i \<le> length x" for i
      using a [rule_format, of "Suc i"] that by (simp add: add.assoc)
    moreover have "a \<noteq> dest" using a [rule_format, of 0] by simp
    ultimately show ?thesis using IH unfolding loop by (simp add: m1_def)
  qed
  ultimately show ?case using IH c unfolding loop by simp
qed

text \<open>
  The words \<open>xs\<close> as a linked list of \<open>command_argument\<close> objects from \<open>a\<close> on, each in an allocation of the heap
  that is not in \<open>S\<close>.
\<close>

fun arg_list :: "kmem \<Rightarrow> u32 set \<Rightarrow> u32 \<Rightarrow> u8 list list \<Rightarrow> bool" where
  "arg_list m S a [] \<longleftrightarrow> a = 0"
| "arg_list m S a (x # xs) \<longleftrightarrow> a \<noteq> 0 \<and> a \<in> dom (kowned m) \<and> a \<notin> S \<and> length x < 512 \<and> string_at (ram m) a x \<and>
     arg_list m S (load32 (ram m) (a + 512)) xs"

lemma arg_list_kept:
  assumes "kheap_ok m" "runs_kept_but S m (ram m')" "kowned m \<subseteq>\<^sub>m kowned m'" "arg_list m S a xs"
  shows "arg_list m' S a xs"
  using assms(4)
proof (induction xs arbitrary: a)
  case (Cons x xs)
  then obtain n where n: "kowned m a = Some n" "a \<notin> S" by auto
  have "ram m' (a + of_nat i) = ram m (a + of_nat i)" if "i < 4096" for i
  proof -
    have "i < 4096 * n" using that kowned_end(3) [OF assms(1) n(1)] by linarith
    then show ?thesis using assms(2) n unfolding runs_kept_but_def by blast
  qed
  note same = this
  have off: "a + 512 + of_nat b = a + of_nat (512 + b)" for b by simp
  have "load32 (ram m') (a + 512) = load32 (ram m) (a + 512)"
    by (rule load32_cong, unfold off) (rule same, simp)
  moreover have "string_at (ram m') a x"
  proof (rule string_at_cong)
    show "string_at (ram m) a x" using Cons.prems by simp
    show "ram m' (a + of_nat i) = ram m (a + of_nat i)" if "i \<le> length x" for i
      using that Cons.prems by (intro same) simp
  qed
  moreover have "a \<in> dom (kowned m')" using n(1) assms(3) by (metis domI map_le_def)
  ultimately show ?case using Cons.prems Cons.IH by simp
qed simp

lemma arg_list_mono: "arg_list m S a xs \<Longrightarrow> T \<inter> dom (kowned m) \<subseteq> S \<Longrightarrow> arg_list m T a xs"
  by (induction xs arbitrary: a) auto

lemma count_arguments: "arg_list m S a xs \<Longrightarrow> count_command_arguments (ram m) a k = Some (k + int (length xs))"
proof (induction xs arbitrary: a k)
  case (Cons x xs)
  then have "count_command_arguments (ram m) (load32 (ram m) (a + 512)) (k + 1) = Some (k + 1 + int (length xs))" by simp
  then show ?case using Cons.prems by (subst count_command_arguments.simps) (simp add: sizeof_argument_def)
qed (simp add: count_command_arguments.simps)

section \<open>Injecting the arguments\<close>

text \<open>One word: its copy in a new allocation, and the entry of the array at \<open>args\<close>.\<close>

lemma inject_step:
  assumes ok: "space_ok s pr p c" and args: "kowned (mem s) args = Some 1" "args \<notin> space_blocks s c" and i: "i < 1024"
    and cur: "cur \<in> dom (kowned (mem s))" "cur \<notin> insert args (space_blocks s c)" "length x < 512" "string_at (ram (mem s)) cur x"
    and room: "0 < kroom (mem s)" "0 < free_slots p"
  obtains ptr s1 as r where "process_malloc pr 512 s = Some (ptr, s1)" "ptr \<noteq> 0"
    "r = store32 (ram_strncpy (ram (mem s1)) ptr cur 512) (args + of_nat i * 4) ptr"
    "space_ok (set_ram r s1) pr (p\<lparr>allocations := as\<rparr>) c"
    "set (used_ptrs as) = insert ptr (set (used_ptrs (allocations p)))" "free_slots p = Suc (free_slots (p\<lparr>allocations := as\<rparr>))"
    "kowned (mem s) ptr = None" "kowned (mem s1) = (kowned (mem s))(ptr \<mapsto> 1)" "kroom (mem s) = Suc (kroom (mem s1))"
    "chunk_blocks r c = chunk_blocks (ram (mem s)) c" "runs_kept_but (insert args (space_blocks s c)) (mem s) r"
    "string_at r ptr x"
    "\<And>j. j < 1024 \<Longrightarrow> load32 r (page_word args j) = (if j = i then ptr else load32 (ram (mem s)) (page_word args j))"
proof -
  obtain ptr s1 as where m: "process_malloc pr 512 s = Some (ptr, s1)" "ptr \<noteq> 0" "space_ok s1 pr (p\<lparr>allocations := as\<rparr>) c"
    "set (used_ptrs as) = insert ptr (set (used_ptrs (allocations p)))" "free_slots p = Suc (free_slots (p\<lparr>allocations := as\<rparr>))"
    "kowned (mem s) ptr = None" "kowned (mem s1) = (kowned (mem s))(ptr \<mapsto> 1)" "kroom (mem s) = Suc (kroom (mem s1))"
    "chunk_blocks (ram (mem s1)) c = chunk_blocks (ram (mem s)) c" "runs_kept_but (space_blocks s c) (mem s) (ram (mem s1))"
    by (rule space_malloc [OF ok _ _ room, of 512]) (simp, simp, rule that, assumption+)
  have P: "process_ok s pr p c" "process_ok s1 pr (p\<lparr>allocations := as\<rparr>) c" using ok m(3) by (simp_all add: space_ok_def)
  have okm: "kheap_ok (mem s)" "kheap_ok (mem s1)" and sub: "space_blocks s c \<subseteq> dom (kowned (mem s))"
    using P by (simp_all add: process_ok_def)
  obtain n where n: "kowned (mem s) cur = Some n" using cur(1) by auto
  have own: "kowned (mem s1) ptr = Some 1" "kowned (mem s1) args = Some 1" "kowned (mem s1) cur = Some n"
    "ptr \<noteq> args" "ptr \<noteq> cur" "args \<noteq> cur" using m(6,7) args(1) n cur(2) by auto
  define r2 where "r2 = ram_strncpy (ram (mem s1)) ptr cur 512"
  define r where "r = store32 r2 (args + of_nat i * 4) ptr"
  have n0: "0 < n" by (rule kowned_end(3) [OF okm(1) n])
  have same1: "ram (mem s1) (q + of_nat k) = ram (mem s) (q + of_nat k)"
    if "kowned (mem s) q = Some b" "q \<notin> space_blocks s c" "k < 4096 * b" for q b k
    using m(10) that unfolding runs_kept_but_def by blast
  have "ram (mem s1) (cur + of_nat k) = ram (mem s) (cur + of_nat k)" if "k \<le> length x" for k
    using that n0 cur(2,3) by (intro same1 [OF n]) auto
  from string_at_cong [OF cur(4) this] have src: "string_at (ram (mem s1)) cur x" .
  have "ptr + of_nat k \<noteq> cur + of_nat j" if "k \<le> length x" "j \<le> length x" for k j
    using that cur(3) n0 by (intro runs_apart [OF okm(2) own(1,3,5)]) simp_all
  from ram_strncpy_loop_copy [OF src _ _ this, of 511] cur(3)
  have copy: "string_at r2 ptr x" "\<And>a. (\<And>k. k \<le> length x \<Longrightarrow> a \<noteq> ptr + of_nat k) \<Longrightarrow> r2 a = ram (mem s1) a"
    by (auto simp: r2_def ram_strncpy_def)
  have r2: "r2 (q + of_nat k) = ram (mem s1) (q + of_nat k)" if "kowned (mem s1) q = Some b" "q \<noteq> ptr" "k < 4096 * b" for q b k
    using that cur(3) runs_apart [OF okm(2) that(1) own(1)] by (intro copy(2)) simp
  have slot: "args + of_nat i * 4 = page_word args i" by (simp add: page_word_def)
  have r3: "r a = r2 a" if "\<And>k. k < 4096 \<Longrightarrow> a \<noteq> args + of_nat k" for a
    unfolding r_def slot by (rule store_page_out) (use that i in auto)
  have other: "r (q + of_nat k) = ram (mem s1) (q + of_nat k)"
    if "kowned (mem s1) q = Some b" "q \<noteq> ptr" "q \<noteq> args" "k < 4096 * b" for q b k
  proof -
    have "r (q + of_nat k) = r2 (q + of_nat k)"
      using runs_apart [OF okm(2) that(1) own(2) that(3) that(4)] by (intro r3) simp
    then show ?thesis using r2 [OF that(1,2,4)] by simp
  qed
  have "ptr + of_nat k \<noteq> args + of_nat j" if "k \<le> length x" "j < 4096" for k j
    using that cur(3) by (intro runs_apart [OF okm(2) own(1,2,4)]) simp_all
  then have "r (ptr + of_nat k) = r2 (ptr + of_nat k)" if "k \<le> length x" for k using that by (intro r3) blast
  from string_at_cong [OF copy(1) this] have str: "string_at r ptr x" .
  have bl: "space_blocks s1 c = space_blocks s c" by (simp add: m(9))
  have ins: "\<exists>q. in_run (mem s1) q a \<and> q \<notin> space_blocks s1 c" if ne: "r a \<noteq> ram (mem s1) a" for a
  proof -
    consider k where "k < 4096" "a = args + of_nat k" | k where "k \<le> length x" "a = ptr + of_nat k"
      using ne r3 [of a] copy(2) [of a] by metis
    then have "in_run (mem s1) args a \<or> in_run (mem s1) ptr a"
    proof cases
      case 1
      then have "in_run (mem s1) args a" unfolding in_run_def by (intro exI [of _ 1] exI [of _ k]) (simp add: own(2))
      then show ?thesis ..
    next
      case 2
      then have "in_run (mem s1) ptr a" unfolding in_run_def
        by (intro exI [of _ 1] exI [of _ k]) (use cur(3) in \<open>simp add: own(1)\<close>)
      then show ?thesis ..
    qed
    moreover have "ptr \<notin> space_blocks s c" using sub m(6) by auto
    ultimately show ?thesis using args(2) unfolding bl by blast
  qed
  have W: "space_ok (set_ram r s1) pr (p\<lparr>allocations := as\<rparr>) c" "chunk_blocks r c = chunk_blocks (ram (mem s1)) c"
    using space_write [OF m(3), of r] ins by blast+
  have kept: "runs_kept_but (insert args (space_blocks s c)) (mem s) r"
    unfolding runs_kept_but_def
  proof (intro allI impI)
    fix q b k assume q: "kowned (mem s) q = Some b" "q \<notin> insert args (space_blocks s c)" "k < 4096 * b"
    have "kowned (mem s1) q = Some b" "q \<noteq> ptr" "q \<noteq> args" using q(1,2) m(6,7) by auto
    with q show "r (q + of_nat k) = ram (mem s) (q + of_nat k)" using other [of q b k] same1 [of q b k] by simp
  qed
  have al: "page_aligned args" by (rule kowned_end(2) [OF okm(1) args(1)])
  have words: "load32 r (page_word args j) = (if j = i then ptr else load32 (ram (mem s)) (page_word args j))" if j: "j < 1024" for j
  proof -
    have e: "page_word args j + of_nat b = args + of_nat (4 * j + b)" for b by (simp add: page_word_def ac_simps)
    have "load32 r2 (page_word args j) = load32 (ram (mem s)) (page_word args j)"
    proof (rule load32_cong, unfold e)
      fix b :: nat assume "b < 4"
      then have "4 * j + b < 4096 * 1" using j by simp
      then show "r2 (args + of_nat (4 * j + b)) = ram (mem s) (args + of_nat (4 * j + b))"
        using r2 [OF own(2) own(4) [symmetric]] same1 [OF args] by metis
    qed
    then show ?thesis using load_store_page [OF al al i j] by (auto simp: r_def slot)
  qed
  show thesis
  proof (rule that [of ptr s1 r as])
    show "r = store32 (ram_strncpy (ram (mem s1)) ptr cur 512) (args + of_nat i * 4) ptr" by (simp add: r_def r2_def)
    show "chunk_blocks r c = chunk_blocks (ram (mem s)) c" using W(2) m(9) by (rule trans)
  qed (fact m W(1) kept str words)+
qed

lemma inject_loop_ok:
  assumes "space_ok s pr p c" "args \<in> set (used_ptrs (allocations p))" "kowned (mem s) args = Some 1" "args \<notin> space_blocks s c"
    and "arg_list (mem s) (insert args (space_blocks s c)) cur xs"
    and "i + length xs \<le> 1024" "length xs \<le> kroom (mem s)" "length xs \<le> free_slots p"
  shows "\<exists>s' as ptrs. inject_loop pr args cur i s = Some (0, s') \<and> space_ok s' pr (p\<lparr>allocations := as\<rparr>) c \<and>
    length ptrs = length xs \<and> set (used_ptrs (allocations p)) \<union> set ptrs \<subseteq> set (used_ptrs as) \<and>
    (\<forall>j < length xs. load32 (ram (mem s')) (page_word args (i + j)) = ptrs ! j \<and> string_at (ram (mem s')) (ptrs ! j) (xs ! j)) \<and>
    (\<forall>j < i. load32 (ram (mem s')) (page_word args j) = load32 (ram (mem s)) (page_word args j)) \<and>
    kowned (mem s) \<subseteq>\<^sub>m kowned (mem s') \<and> chunk_blocks (ram (mem s')) c = chunk_blocks (ram (mem s)) c \<and>
    runs_kept_but (insert args (space_blocks s c)) (mem s) (ram (mem s'))"
  using assms
proof (induction xs arbitrary: s p cur i)
  case Nil
  then show ?case
    by (intro exI [of _ s] exI [of _ "allocations p"] exI [of _ "[]"])
      (simp add: inject_loop.simps runs_kept_but_def)
next
  case (Cons x xs)
  let ?S = "insert args (space_blocks s c)"
  have P: "process_ok s pr p c" using Cons.prems(1) by (simp add: space_ok_def)
  have okm: "kheap_ok (mem s)" and sub: "space_blocks s c \<subseteq> dom (kowned (mem s))" using P by (simp_all add: process_ok_def)
  have node: "cur \<noteq> 0" "cur \<in> dom (kowned (mem s))" "cur \<notin> ?S" "length x < 512" "string_at (ram (mem s)) cur x"
    "arg_list (mem s) ?S (load32 (ram (mem s)) (cur + 512)) xs" using Cons.prems(5) by simp_all
  have num: "i < 1024" "0 < kroom (mem s)" using Cons.prems(6,7) by simp_all
  have free: "0 < free_slots p" by (rule less_le_trans [OF _ Cons.prems(8)]) simp
  obtain ptr s1 as r where m: "process_malloc pr 512 s = Some (ptr, s1)" "ptr \<noteq> 0"
    "r = store32 (ram_strncpy (ram (mem s1)) ptr cur 512) (args + of_nat i * 4) ptr"
    "space_ok (set_ram r s1) pr (p\<lparr>allocations := as\<rparr>) c"
    "set (used_ptrs as) = insert ptr (set (used_ptrs (allocations p)))" "free_slots p = Suc (free_slots (p\<lparr>allocations := as\<rparr>))"
    "kowned (mem s) ptr = None" "kowned (mem s1) = (kowned (mem s))(ptr \<mapsto> 1)" "kroom (mem s) = Suc (kroom (mem s1))"
    "chunk_blocks r c = chunk_blocks (ram (mem s)) c" "runs_kept_but ?S (mem s) r" "string_at r ptr x"
    "\<And>j. j < 1024 \<Longrightarrow> load32 r (page_word args j) = (if j = i then ptr else load32 (ram (mem s)) (page_word args j))"
    by (rule inject_step [OF Cons.prems(1,3,4) num(1) node(2-5) num(2) free]) (rule that, assumption+)
  define s3 where "s3 = set_ram r s1"
  have mem3: "ram (mem s3) = r" "kowned (mem s3) = (kowned (mem s))(ptr \<mapsto> 1)" "kroom (mem s3) = kroom (mem s1)"
    using m(8) by (simp_all add: s3_def kowned_def kroom_def)
  have le3: "kowned (mem s) \<subseteq>\<^sub>m kowned (mem s3)" using m(7) by (auto simp: mem3(2) map_le_def)
  have next3: "load32 r (cur + 512) = load32 (ram (mem s)) (cur + 512)"
  proof (rule load32_cong)
    fix b :: nat assume b: "b < 4"
    obtain n where n: "kowned (mem s) cur = Some n" using node(2) by auto
    have "512 + b < 4096 * n" using b kowned_end(3) [OF okm n] by linarith
    then have "r (cur + of_nat (512 + b)) = ram (mem s) (cur + of_nat (512 + b))"
      using m(11) n node(3) unfolding runs_kept_but_def by blast
    then show "r (cur + 512 + of_nat b) = ram (mem s) (cur + 512 + of_nat b)" by (simp add: add.assoc)
  qed
  have S3: "insert args (space_blocks s3 c) = ?S" by (simp add: mem3(1) m(10))
  have list3: "arg_list (mem s3) (insert args (space_blocks s3 c)) (load32 r (cur + 512)) xs"
    unfolding S3 next3 by (rule arg_list_kept [OF okm _ le3 node(6)]) (simp add: mem3(1) m(11))
  have args3: "args \<in> set (used_ptrs (allocations (p\<lparr>allocations := as\<rparr>)))" "kowned (mem s3) args = Some 1" "args \<notin> space_blocks s3 c"
    using Cons.prems(2-4) m(5,7) by (auto simp: mem3 m(10))
  have num3: "Suc i + length xs \<le> 1024" "length xs \<le> kroom (mem s3)" "length xs \<le> free_slots (p\<lparr>allocations := as\<rparr>)"
    using Cons.prems(6-8) m(6,9) by (simp_all add: mem3(3))
  from Cons.IH [OF m(4) [folded s3_def] args3 list3 num3] obtain s' bs ptrs where I:
    "inject_loop pr args (load32 r (cur + 512)) (Suc i) s3 = Some (0, s')" "space_ok s' pr (p\<lparr>allocations := bs\<rparr>) c"
    "length ptrs = length xs" "set (used_ptrs as) \<union> set ptrs \<subseteq> set (used_ptrs bs)"
    "\<And>j. j < length xs \<Longrightarrow> load32 (ram (mem s')) (page_word args (Suc i + j)) = ptrs ! j \<and> string_at (ram (mem s')) (ptrs ! j) (xs ! j)"
    "\<And>j. j < Suc i \<Longrightarrow> load32 (ram (mem s')) (page_word args j) = load32 r (page_word args j)"
    "kowned (mem s3) \<subseteq>\<^sub>m kowned (mem s')" "chunk_blocks (ram (mem s')) c = chunk_blocks (ram (mem s)) c"
    "runs_kept_but ?S (mem s3) (ram (mem s'))"
    unfolding S3 by (auto simp: mem3(1) m(10))
  have loop: "inject_loop pr args cur i s = Some (0, s')"
    using m(1,2) node(1) I(1) by (subst inject_loop.simps) (simp add: sizeof_argument_def m(3) s3_def set_ram_def)
  have ptrS: "ptr \<notin> ?S" using m(7) sub Cons.prems(3) by auto
  have "string_at (ram (mem s')) ptr x"
  proof (rule string_at_cong [OF m(12)])
    fix k assume "k \<le> length x"
    then have "k < 4096 * 1" using node(4) by simp
    moreover have "kowned (mem s3) ptr = Some 1" by (simp add: mem3(2))
    ultimately show "ram (mem s') (ptr + of_nat k) = r (ptr + of_nat k)"
      using I(9) ptrS unfolding runs_kept_but_def mem3(1) by blast
  qed
  moreover have "load32 (ram (mem s')) (page_word args i) = ptr" using I(6) [of i] m(13) [OF num(1)] by simp
  ultimately have elems: "load32 (ram (mem s')) (page_word args (i + j)) = (ptr # ptrs) ! j \<and>
      string_at (ram (mem s')) ((ptr # ptrs) ! j) ((x # xs) ! j)" if "j < length (x # xs)" for j
    using that I(5) [of "j - 1"] by (cases j) simp_all
  have "load32 (ram (mem s')) (page_word args j) = load32 (ram (mem s)) (page_word args j)" if "j < i" for j
    using I(6) [of j] m(13) [of j] that num(1) by simp
  moreover have "kowned (mem s) \<subseteq>\<^sub>m kowned (mem s')" using le3 I(7) by (rule map_le_trans)
  moreover have "runs_kept_but ?S (mem s) (ram (mem s'))"
  proof (rule runs_kept_but_trans)
    show "runs_kept_but ?S (mem s) (ram (mem s3))" using m(11) by (simp add: mem3(1))
    show "kowned (mem s3) q = Some n" if "kowned (mem s) q = Some n" for q n using le3 that by (metis domI map_le_def)
  qed (fact I(9))
  moreover have "set (used_ptrs (allocations p)) \<union> set (ptr # ptrs) \<subseteq> set (used_ptrs bs)" using I(4) m(5) by auto
  moreover have "length (ptr # ptrs) = length (x # xs)" using I(3) by simp
  ultimately show ?case using loop I(2,8) elems by blast
qed

section \<open>What the program sees\<close>

definition user_load32 :: "ram \<Rightarrow> u32 \<Rightarrow> u32 \<Rightarrow> u32 option" where
  "user_load32 m dir v =
     do { b0 \<leftarrow> user_load m dir v; b1 \<leftarrow> user_load m dir (v + 1); b2 \<leftarrow> user_load m dir (v + 2); b3 \<leftarrow> user_load m dir (v + 3);
          Some (ucast b0 OR push_bit 8 (ucast b1) OR push_bit 16 (ucast b2) OR push_bit 24 (ucast b3)) }"

definition user_string :: "ram \<Rightarrow> u32 \<Rightarrow> u32 \<Rightarrow> u8 list \<Rightarrow> bool" where
  "user_string m dir v x \<longleftrightarrow> (\<forall>i < length x. user_load m dir (v + of_nat i) = Some (x ! i)) \<and>
     user_load m dir (v + of_nat (length x)) = Some 0"

lemma user_load32_identity:
  assumes "\<And>b. b < 4 \<Longrightarrow> user_view m dir (v + of_nat b) = Some (v + of_nat b, True)"
  shows "user_load32 m dir v = Some (load32 m v)"
  using assms [of 0] assms [of 1] assms [of 2] assms [of 3] by (simp add: user_load32_def user_load_def load32_def)

lemma user_string_identity:
  assumes "string_at m v x" "\<And>i. i \<le> length x \<Longrightarrow> user_view m dir (v + of_nat i) = Some (v + of_nat i, True)"
  shows "user_string m dir v x"
  using assms by (simp add: user_string_def user_load_def string_at_def)

lemma space_put:
  assumes "space_ok s pr p c"
  shows "space_ok (s\<lparr>procs := (procs s)(pr \<mapsto> p\<lparr>argc := n, argv := v\<rparr>)\<rparr>) pr (p\<lparr>argc := n, argv := v\<rparr>) c"
  using assms by (auto simp: space_ok_def process_ok_def process_chunk_def)

lemma inject_arguments_ok:
  assumes ok: "space_ok s pr p c" and list: "arg_list (mem s) (space_blocks s c) root xs" and ne: "xs \<noteq> []"
    and room: "length xs < kroom (mem s)" "length xs < free_slots p"
  obtains s' as args ptrs where "process_inject_arguments pr root s = Some (0, s')"
    "space_ok s' pr (p\<lparr>allocations := as, argc := of_nat (length xs), argv := args\<rparr>) c" "length ptrs = length xs"
    "insert args (set ptrs) \<subseteq> set (used_ptrs as)"
    "\<And>j. j < length xs \<Longrightarrow> load32 (ram (mem s')) (page_word args j) = ptrs ! j \<and> string_at (ram (mem s')) (ptrs ! j) (xs ! j)"
    "runs_kept_but (space_blocks s c) (mem s) (ram (mem s'))" "kowned (mem s) \<subseteq>\<^sub>m kowned (mem s')"
proof -
  have P: "process_ok s pr p c" using ok by (simp add: space_ok_def)
  have okm: "kheap_ok (mem s)" and sub: "space_blocks s c \<subseteq> dom (kowned (mem s))" and len: "length (allocations p) = 1024"
    using P by (simp_all add: process_ok_def)
  have n: "length xs < 1024" using room(2) length_filter_le [of "\<lambda>a. alloc_ptr a = 0" "allocations p"] len by linarith
  define sz :: u32 where "sz = 4 * word_of_int (int (length xs))"
  have "sz = of_nat (4 * length xs)" by (simp add: sz_def)
  then have sz: "unat sz = 4 * length xs" using n by (simp add: unat_of_nat_u32 del: of_nat_mult)
  have b: "0 < unat sz" "unat sz \<le> 4096" "0 < kroom (mem s)" using ne n room(1) sz by simp_all
  have f: "0 < free_slots p" by (rule less_le_trans [OF _ Suc_leI [OF room(2)]]) simp
  obtain args s1 as1 where m: "process_malloc pr sz s = Some (args, s1)" "args \<noteq> 0" "space_ok s1 pr (p\<lparr>allocations := as1\<rparr>) c"
    "set (used_ptrs as1) = insert args (set (used_ptrs (allocations p)))" "free_slots p = Suc (free_slots (p\<lparr>allocations := as1\<rparr>))"
    "kowned (mem s) args = None" "kowned (mem s1) = (kowned (mem s))(args \<mapsto> 1)" "kroom (mem s) = Suc (kroom (mem s1))"
    "chunk_blocks (ram (mem s1)) c = chunk_blocks (ram (mem s)) c" "runs_kept_but (space_blocks s c) (mem s) (ram (mem s1))"
    by (rule space_malloc [OF ok b f]) (rule that, assumption+)
  have le1: "kowned (mem s) \<subseteq>\<^sub>m kowned (mem s1)" using m(6) by (auto simp: m(7) map_le_def)
  have S: "insert args (space_blocks s1 c) = insert args (space_blocks s c)" by (simp add: m(9))
  have "arg_list (mem s) (insert args (space_blocks s c)) root xs"
    by (rule arg_list_mono [OF list]) (use m(6) in auto)
  from arg_list_kept [OF okm runs_kept_but_mono [OF m(10)] le1 this]
  have list1: "arg_list (mem s1) (insert args (space_blocks s1 c)) root xs" unfolding S by blast
  have args1: "args \<in> set (used_ptrs (allocations (p\<lparr>allocations := as1\<rparr>)))" "kowned (mem s1) args = Some 1" "args \<notin> space_blocks s1 c"
    using m(4,6,7,9) sub by auto
  have num1: "0 + length xs \<le> 1024" "length xs \<le> kroom (mem s1)" "length xs \<le> free_slots (p\<lparr>allocations := as1\<rparr>)"
    using n room m(5,8) by simp_all
  from inject_loop_ok [OF m(3) args1 list1 num1] obtain s2 as ptrs where I:
    "inject_loop pr args root 0 s1 = Some (0, s2)" "space_ok s2 pr (p\<lparr>allocations := as\<rparr>) c" "length ptrs = length xs"
    "set (used_ptrs as1) \<union> set ptrs \<subseteq> set (used_ptrs as)"
    "\<And>j. j < length xs \<Longrightarrow> load32 (ram (mem s2)) (page_word args j) = ptrs ! j \<and> string_at (ram (mem s2)) (ptrs ! j) (xs ! j)"
    "kowned (mem s1) \<subseteq>\<^sub>m kowned (mem s2)" "runs_kept_but (insert args (space_blocks s c)) (mem s1) (ram (mem s2))"
    unfolding S by auto
  define s' where "s' = s2\<lparr>procs := (procs s2)(pr \<mapsto> p\<lparr>allocations := as, argc := of_nat (length xs), argv := args\<rparr>)\<rparr>"
  have cnt: "process_count_command_arguments (ram (mem s)) root = Some (int (length xs))"
    using count_arguments [OF list, of 0] by (simp add: process_count_command_arguments_def)
  have "procs s2 pr = Some (p\<lparr>allocations := as\<rparr>)" using I(2) by (simp add: space_ok_def process_ok_def)
  then have inj: "process_inject_arguments pr root s = Some (0, s')"
    using cnt ne m(1,2) I(1) by (simp add: process_inject_arguments_def sz_def put_process_def s'_def)
  have "space_ok s' pr (p\<lparr>allocations := as, argc := of_nat (length xs), argv := args\<rparr>) c"
    using space_put [OF I(2)] by (simp add: s'_def)
  moreover have "insert args (set ptrs) \<subseteq> set (used_ptrs as)" using I(4) m(4) by auto
  moreover have "runs_kept_but (space_blocks s c) (mem s) (ram (mem s'))"
    unfolding runs_kept_but_def
  proof (intro allI impI)
    fix q k i assume q: "kowned (mem s) q = Some k" "q \<notin> space_blocks s c" "i < 4096 * k"
    have "kowned (mem s1) q = Some k" "q \<noteq> args" using q(1) m(6,7) by auto
    then show "ram (mem s') (q + of_nat i) = ram (mem s) (q + of_nat i)"
      using I(7) m(10) q unfolding runs_kept_but_def by (simp add: s'_def)
  qed
  moreover have "kowned (mem s) \<subseteq>\<^sub>m kowned (mem s')" using map_le_trans [OF le1 I(6)] by (simp add: s'_def)
  ultimately show thesis using I(3,5) by (intro that [OF inj]) (simp_all add: s'_def)
qed

text \<open>A process that \<open>load_task\<close> has just made, with a word in its own memory.\<close>

definition word_ram :: "u32 \<Rightarrow> ram \<Rightarrow> ram" where
  "word_ram ptr m a = (if in_window ptr 1 a then if a = ptr then 104 else if a = ptr + 1 then 105 else 0 else m a)"

lemma sample_word:
  obtains s p c root where "space_ok s 0x3000 p c" "arg_list (mem s) (space_blocks s c) root [[104, 105]]"
    "1 < kroom (mem s)" "1 < free_slots p"
proof -
  obtain ptr m p name where K: "sched_ok m (binary_kernel ptr m) []" "binary_loaded (binary_kernel ptr m) 0x3000 p"
    "\<exists>i. free_at (tbl (kernel_heap (mem (binary_kernel ptr m)))) i 4" "1031 \<le> kroom (mem (binary_kernel ptr m))"
    "strncpy (filename p) 0 (ascii ''0:/a'' @ [0]) (int HARDIKHYPERIONOS_MAX_PATH) = Some name"
    "1 < length (processes (binary_kernel ptr m))" "program p = ptr" "program_size p = 100" "kroom m = 25599"
    by (rule binary_kernel_ready)
  obtain s1 task c stk where L: "process_ok s1 0x3000 (p\<lparr>filename := name, stack := stk, pid := word_of_int (int 1), task_of := task\<rparr>) c"
    "kowned (mem (binary_kernel ptr m)) \<subseteq>\<^sub>m kowned (mem s1)" "open_directory (ram (mem s1)) (load32 (ram (mem s1)) c)"
    "kroom (mem (binary_kernel ptr m)) = 1031 + kroom (mem s1)"
    "set (chunk_blocks (ram (mem s1)) c) \<inter> insert stk (dom (kowned (mem (binary_kernel ptr m)))) = {}"
    by (rule load_task_ok [OF K(1-6)]) (rule that, assumption+)
  let ?p = "p\<lparr>filename := name, stack := stk, pid := word_of_int (int 1), task_of := task\<rparr>"
  have al: "allocations p = replicate 1024 no_allocation" using K(2) by (simp add: binary_loaded_def)
  then have "used_ptrs (allocations ?p) = []" by (simp add: used_ptrs_def no_allocation_def)
  then have sp: "space_ok s1 0x3000 ?p c" using L(1,3) by (simp add: space_ok_def)
  have own0: "kowned (mem (binary_kernel ptr m)) ptr = Some 1"
    using K(2,7,8) by (simp add: binary_loaded_def blocks_for_def)
  then have own: "kowned (mem s1) ptr = Some 1" using L(2) by (metis domI map_le_def)
  have ok: "kheap_ok (mem s1)" using L(1) by (simp add: process_ok_def)
  have nb: "ptr \<notin> space_blocks s1 c" using L(5) own0 by blast
  let ?r = "word_ram ptr (ram (mem s1))"
  have "\<exists>q. in_run (mem s1) q a \<and> q \<notin> space_blocks s1 c" if "?r a \<noteq> ram (mem s1) a" for a
    using that nb in_run_window [OF ok own] by (auto simp: word_ram_def split: if_splits)
  then have W: "space_ok (set_ram ?r s1) 0x3000 ?p c" "chunk_blocks ?r c = chunk_blocks (ram (mem s1)) c"
    using space_write [OF sp, of ?r] by blast+
  have off: "?r (ptr + of_nat i) = (if i = 0 then 104 else if i = 1 then 105 else 0)" if "i < 4096" for i
    using that u32_offset_inject [of i 0 ptr] u32_offset_inject [of i 1 ptr]
    by (auto simp: word_ram_def in_window_def unat_of_nat_u32)
  have "string_at ?r ptr [104, 105]"
    using off [of 0] off [of 1] off [of 2] by (simp add: add.assoc)
  moreover have "load32 ?r (ptr + 512) = 0"
    using off [of 512] off [of 513] off [of 514] off [of 515] by (simp add: load32_def add.assoc)
  moreover have "ptr \<noteq> 0" using kowned_nonzero [OF ok own] .
  ultimately have "arg_list (mem (set_ram ?r s1)) (space_blocks (set_ram ?r s1) c) ptr [[104, 105]]"
    using own nb W(2) by (auto simp: kowned_def)
  moreover have "1 < kroom (mem (set_ram ?r s1))" using L(4) K(9) by (simp add: kroom_def binary_kernel_def)
  moreover have "1 < free_slots ?p" by (simp add: al no_allocation_def)
  ultimately show thesis using W(1) that by blast
qed

text \<open>The program reads its allocations at their own addresses.\<close>

lemma space_view:
  assumes "space_ok s pr p c" "q \<in> set (used_ptrs (allocations p))" "i < 4096"
  shows "user_view (ram (mem s)) (load32 (ram (mem s)) c) (q + of_nat i) = Some (q + of_nat i, True)"
proof -
  have P: "process_ok s pr p c" using assms(1) by (simp add: space_ok_def)
  then have ok: "kheap_ok (mem s)" by (simp add: process_ok_def)
  obtain a where "a \<in> set (allocations p)" "alloc_ptr a = q" "q \<noteq> 0" using assms(2) by (auto simp: used_ptrs_def)
  then obtain n where n: "kowned (mem s) q = Some n" using P unfolding process_ok_def by fastforce
  have "i < 4096 * n" using assms(3) kowned_end(3) [OF ok n] by linarith
  then have "in_run (mem s) q (q + of_nat i)" unfolding in_run_def using n by blast
  then show ?thesis using assms(1,2) by (simp add: space_ok_def)
qed

lemma space_word:
  assumes "space_ok s pr p c" "q \<in> set (used_ptrs (allocations p))" "j < 1024"
  shows "user_load32 (ram (mem s)) (load32 (ram (mem s)) c) (page_word q j) = Some (load32 (ram (mem s)) (page_word q j))"
proof (rule user_load32_identity)
  fix b :: nat assume "b < 4"
  then have "4 * j + b < 4096" using assms(3) by simp
  moreover have "page_word q j + of_nat b = q + of_nat (4 * j + b)" by (simp add: page_word_def ac_simps)
  ultimately show "user_view (ram (mem s)) (load32 (ram (mem s)) c) (page_word q j + of_nat b) =
      Some (page_word q j + of_nat b, True)" using space_view [OF assms(1,2)] by metis
qed

lemma arg_list_short: "arg_list m S a xs \<Longrightarrow> \<forall>x \<in> set xs. length x < 512"
  by (induction xs arbitrary: a) auto

text \<open>
  C25. The arguments of a program. For a list of words in blocks of the heap, as the user program passes it to command 7, and while there
  is a block and a slot for each word and one for the array, \<open>process_inject_arguments\<close> (process.c) returns 0; then the process reads from its own address space
  \<open>argc\<close>, the number of words, and at \<open>argv\<close> an array of pointers to the words, in order, each with its terminator. Nothing that was
  allocated before changes but the page tables of the process. Without a word it returns \<open>-EIO\<close> and changes nothing.
\<close>

theorem process_inject_arguments_spec:
  assumes "space_ok s pr p c" "arg_list (mem s) (space_blocks s c) root xs"
    and "length xs < kroom (mem s)" "length xs < free_slots p"
  shows "if xs = [] then process_inject_arguments pr root s = Some (- EIO, s)
    else \<exists>s' p' ptrs. process_inject_arguments pr root s = Some (0, s') \<and> procs s' pr = Some p' \<and> space_ok s' pr p' c \<and>
      argc p' = of_nat (length xs) \<and> length ptrs = length xs \<and>
      (\<forall>j < length xs.
         user_load32 (ram (mem s')) (load32 (ram (mem s')) c) (argv p' + of_nat j * 4) = Some (ptrs ! j) \<and>
         user_string (ram (mem s')) (load32 (ram (mem s')) c) (ptrs ! j) (xs ! j)) \<and>
      runs_kept_but (space_blocks s c) (mem s) (ram (mem s'))"
proof (cases "xs = []")
  case True
  then show ?thesis
    using count_arguments [OF assms(2), of 0] by (simp add: process_inject_arguments_def process_count_command_arguments_def)
next
  case False
  obtain s' as args ptrs where I: "process_inject_arguments pr root s = Some (0, s')"
    "space_ok s' pr (p\<lparr>allocations := as, argc := of_nat (length xs), argv := args\<rparr>) c" "length ptrs = length xs"
    "insert args (set ptrs) \<subseteq> set (used_ptrs as)"
    "\<And>j. j < length xs \<Longrightarrow> load32 (ram (mem s')) (page_word args j) = ptrs ! j \<and> string_at (ram (mem s')) (ptrs ! j) (xs ! j)"
    "runs_kept_but (space_blocks s c) (mem s) (ram (mem s'))"
    by (rule inject_arguments_ok [OF assms(1,2) False assms(3,4)]) (rule that, assumption+)
  let ?p = "p\<lparr>allocations := as, argc := of_nat (length xs), argv := args\<rparr>"
  have pr: "procs s' pr = Some ?p" using I(2) by (simp add: space_ok_def process_ok_def)
  have "length (allocations p) = 1024" using assms(1) by (simp add: space_ok_def process_ok_def)
  then have n: "length xs < 1024"
    using length_filter_le [of "\<lambda>a. alloc_ptr a = 0" "allocations p"] assms(4) by linarith
  have used: "args \<in> set (used_ptrs (allocations ?p))" "set ptrs \<subseteq> set (used_ptrs (allocations ?p))" using I(4) by simp_all
  have "user_load32 (ram (mem s')) (load32 (ram (mem s')) c) (args + of_nat j * 4) = Some (ptrs ! j) \<and>
      user_string (ram (mem s')) (load32 (ram (mem s')) c) (ptrs ! j) (xs ! j)" if j: "j < length xs" for j
  proof
    show "user_load32 (ram (mem s')) (load32 (ram (mem s')) c) (args + of_nat j * 4) = Some (ptrs ! j)"
      using space_word [OF I(2) used(1), of j] I(5) [OF j] j n by (simp add: page_word_def)
    have "ptrs ! j \<in> set (used_ptrs (allocations ?p))" using used(2) j I(3) nth_mem [of j ptrs] by (auto simp del: nth_mem)
    moreover have "length (xs ! j) < 512" using arg_list_short [OF assms(2)] j by simp
    ultimately show "user_string (ram (mem s')) (load32 (ram (mem s')) c) (ptrs ! j) (xs ! j)"
      using I(5) [OF j] by (intro user_string_identity space_view [OF I(2)]) simp_all
  qed
  then show ?thesis using False I(1-3,6) pr by auto
qed

theorem process_inject_arguments_spec_witness:
  "\<exists>s s' p' root. process_inject_arguments 0x3000 root s = Some (0, s') \<and> procs s' 0x3000 = Some p' \<and> argc p' = 1"
proof -
  obtain s p c root where s: "space_ok s 0x3000 p c" "arg_list (mem s) (space_blocks s c) root [[104, 105]]"
    "1 < kroom (mem s)" "1 < free_slots p" by (rule sample_word)
  have "length [[104 :: u8, 105]] < kroom (mem s)" "length [[104 :: u8, 105]] < free_slots p" using s(3,4) by simp_all
  from process_inject_arguments_spec [OF s(1,2) this] show ?thesis by auto
qed

end
