(* ===== verification/Isr80h.thy ===== *)
theory Isr80h
  imports ProcessLoad
begin

text \<open>
  The commands of the interrupt 0x80, \<open>src/src/isr80h/misc.c\<close>, \<open>io.c\<close>, \<open>heap.c\<close> and \<open>process.c\<close>,
  with the functions of \<open>keyboard.c\<close> and \<open>classic.c\<close> on the state of the kernel. A command returns a
  value, or enters a task and does not return. \<open>ops\<close> are the file systems; \<open>uninit n\<close> are the \<open>n\<close> bytes an
  uninitialised local array starts with.
\<close>

section \<open>How a handler ends\<close>

text \<open>\<open>Entered regs s\<close>: \<open>task_return\<close> was called with these registers.\<close>

datatype outcome = Returned u32 kernel | Entered registers kernel

definition returned :: "u32 \<Rightarrow> kernel \<Rightarrow> outcome option" where
  "returned v s = Some (Returned v s)"

text \<open>\<open>task_next\<close> and \<open>task_return\<close> of the task of a process, from where nothing returns.\<close>

definition enter_next :: "kernel \<Rightarrow> outcome option" where
  "enter_next s = do { (regs, s') \<leftarrow> task_next s; Some (Entered regs s') }"

definition enter_process :: "u32 \<Rightarrow> kernel \<Rightarrow> outcome option" where
  "enter_process process s =
     do { p \<leftarrow> procs s process; s' \<leftarrow> task_switch (task_of p) s; t \<leftarrow> tasks s' (task_of p);
          Some (Entered (registers_of t) s') }"

text \<open>\<open>task_current()->process\<close>.\<close>

definition calling_process :: "kernel \<Rightarrow> u32 option" where
  "calling_process s = do { t \<leftarrow> tasks s (current_task s); Some (process_of t) }"

definition process_address :: "u32 option \<Rightarrow> u32" where
  "process_address process = (case process of None \<Rightarrow> 0 | Some p \<Rightarrow> p)"

section \<open>misc.c\<close>

definition isr80h_command0_sum :: "kernel \<Rightarrow> outcome option" where
  "isr80h_command0_sum s =
     do { (v2, s1) \<leftarrow> task_get_stack_item (current_task s) 1 s;
          (v1, s2) \<leftarrow> task_get_stack_item (current_task s1) 0 s1;
          returned (v1 + v2) s2 }"

section \<open>io.c\<close>

definition print_screen :: "u8 list \<Rightarrow> kernel \<Rightarrow> kernel option" where
  "print_screen str s = do { t \<leftarrow> print (screen s) str; Some (s\<lparr>screen := t\<rparr>) }"

definition isr80h_command1_print :: "(nat \<Rightarrow> u8 list) \<Rightarrow> kernel \<Rightarrow> outcome option" where
  "isr80h_command1_print uninit s =
     do { (user_space_msg_buffer, s1) \<leftarrow> task_get_stack_item (current_task s) 0 s;
          (_, buf, s2) \<leftarrow> copy_string_from_task (current_task s1) user_space_msg_buffer (uninit 1024) 1024 s1;
          s3 \<leftarrow> print_screen buf s2;
          returned 0 s3 }"

text \<open>\<open>keyboard_pop\<close> and \<open>keyboard_push\<close> with the process they use.\<close>

definition task_keyboard_pop :: "kernel \<Rightarrow> (u8 \<times> kernel) option" where
  "task_keyboard_pop s =
     (if current_task s = 0 then Some (0, s)
      else do { process \<leftarrow> calling_process s; p \<leftarrow> procs s process;
        let (c, k) = keyboard_pop (keys p);
        s' \<leftarrow> put_process process (\<lambda>p. p\<lparr>keys := k\<rparr>) s;
        Some (c, s') })"

definition isr80h_command2_getkey :: "kernel \<Rightarrow> outcome option" where
  "isr80h_command2_getkey s = do { (c, s') \<leftarrow> task_keyboard_pop s; returned (scast c) s' }"

definition isr80h_command3_putchar :: "kernel \<Rightarrow> outcome option" where
  "isr80h_command3_putchar s =
     do { (v, s1) \<leftarrow> task_get_stack_item (current_task s) 0 s;
          returned 0 (s1\<lparr>screen := terminal_writechar (screen s1) (ucast v) 15\<rparr>) }"

section \<open>heap.c\<close>

definition isr80h_command4_malloc :: "kernel \<Rightarrow> outcome option" where
  "isr80h_command4_malloc s =
     do { (sz, s1) \<leftarrow> task_get_stack_item (current_task s) 0 s;
          process \<leftarrow> calling_process s1;
          (ptr, s2) \<leftarrow> process_malloc process sz s1;
          returned ptr s2 }"

definition isr80h_command5_free :: "kernel \<Rightarrow> outcome option" where
  "isr80h_command5_free s =
     do { (ptr_to_free, s1) \<leftarrow> task_get_stack_item (current_task s) 0 s;
          process \<leftarrow> calling_process s1;
          s2 \<leftarrow> process_free process ptr_to_free s1;
          returned 0 s2 }"

section \<open>process.c\<close>

text \<open>\<open>strcpy(path, "0:/")\<close>.\<close>

definition drive_path :: "(nat \<Rightarrow> u8 list) \<Rightarrow> u8 list option" where
  "drive_path uninit = strcpy (uninit HARDIKHYPERIONOS_MAX_PATH) 0 (ascii ''0:/'' @ [0])"

definition isr80h_command6_process_load_start ::
    "(fs_ref \<Rightarrow> fs_ops) \<Rightarrow> (nat \<Rightarrow> u8 list) \<Rightarrow> kernel \<Rightarrow> outcome option" where
  "isr80h_command6_process_load_start ops uninit s =
     do { (filename_user_ptr, s1) \<leftarrow> task_get_stack_item (current_task s) 0 s;
          (res, fname, s2) \<leftarrow> copy_string_from_task (current_task s1) filename_user_ptr
            (uninit HARDIKHYPERIONOS_MAX_PATH) (int HARDIKHYPERIONOS_MAX_PATH) s1;
          if res < 0 then returned 0 s2
          else do {
            path0 \<leftarrow> drive_path uninit;
            path \<leftarrow> strcpy path0 3 fname;
            (res, process, s3) \<leftarrow> process_load_switch ops path s2;
            if res < 0 then returned 0 s3 else enter_process (process_address process) s3 } }"

text \<open>\<open>strlen\<close> in memory.\<close>

partial_function (option) ram_strlen_loop :: "ram \<Rightarrow> u32 \<Rightarrow> int \<Rightarrow> int option" where
  "ram_strlen_loop m ptr i = (if m ptr \<noteq> 0 then ram_strlen_loop m (ptr + 1) (i + 1) else Some i)"

definition ram_strlen :: "ram \<Rightarrow> u32 \<Rightarrow> int option" where
  "ram_strlen m ptr = ram_strlen_loop m ptr 0"

definition isr80h_command7_invoke_system_command ::
    "(fs_ref \<Rightarrow> fs_ops) \<Rightarrow> (nat \<Rightarrow> u8 list) \<Rightarrow> kernel \<Rightarrow> outcome option" where
  "isr80h_command7_invoke_system_command ops uninit s =
     do { (item, s1) \<leftarrow> task_get_stack_item (current_task s) 0 s;
          arguments \<leftarrow> task_virtual_address_to_physical (current_task s1) item s1;
          len \<leftarrow> (if arguments = 0 then Some 0 else ram_strlen (ram (mem s1)) arguments);
          if arguments = 0 \<or> len = 0 then returned (ERROR (- EINVARG)) s1
          else do {
            path0 \<leftarrow> drive_path uninit;
            path \<leftarrow> strncpy path0 3 (ram_bytes (ram (mem s1)) arguments HARDIKHYPERIONOS_MAX_PATH) (int HARDIKHYPERIONOS_MAX_PATH);
            (res, process, s2) \<leftarrow> process_load_switch ops path s1;
            if res < 0 then returned (ERROR res) s2
            else do { (res, s3) \<leftarrow> process_inject_arguments (process_address process) arguments s2;
              if res < 0 then returned (ERROR res) s3 else enter_process (process_address process) s3 } } }"

definition isr80h_command8_get_program_arguments :: "kernel \<Rightarrow> outcome option" where
  "isr80h_command8_get_program_arguments s =
     do { process \<leftarrow> calling_process s;
          (item, s1) \<leftarrow> task_get_stack_item (current_task s) 0 s;
          arguments \<leftarrow> task_virtual_address_to_physical (current_task s1) item s1;
          (n, v) \<leftarrow> process_get_arguments process s1;
          returned 0 (set_ram (store32 (store32 (ram (mem s1)) arguments n) (arguments + 4) v) s1) }"

definition isr80h_command9_exit :: "kernel \<Rightarrow> outcome option" where
  "isr80h_command9_exit s =
     do { process \<leftarrow> calling_process s; (_, s1) \<leftarrow> process_terminate process s; enter_next s1 }"

section \<open>Calling a command\<close>

fun run_isr80h_command ::
    "isr80h_command \<Rightarrow> (fs_ref \<Rightarrow> fs_ops) \<Rightarrow> (nat \<Rightarrow> u8 list) \<Rightarrow> kernel \<Rightarrow> outcome option" where
  "run_isr80h_command Command0_sum ops uninit s = isr80h_command0_sum s"
| "run_isr80h_command Command1_print ops uninit s = isr80h_command1_print uninit s"
| "run_isr80h_command Command2_getkey ops uninit s = isr80h_command2_getkey s"
| "run_isr80h_command Command3_putchar ops uninit s = isr80h_command3_putchar s"
| "run_isr80h_command Command4_malloc ops uninit s = isr80h_command4_malloc s"
| "run_isr80h_command Command5_free ops uninit s = isr80h_command5_free s"
| "run_isr80h_command Command6_process_load_start ops uninit s = isr80h_command6_process_load_start ops uninit s"
| "run_isr80h_command Command7_invoke_system_command ops uninit s = isr80h_command7_invoke_system_command ops uninit s"
| "run_isr80h_command Command8_get_program_arguments ops uninit s = isr80h_command8_get_program_arguments s"
| "run_isr80h_command Command9_exit ops uninit s = isr80h_command9_exit s"

end
