(* ===== verification/Gdt.thy ===== *)
theory Gdt
  imports Prelude
begin

text \<open>
  Segment descriptors, \<open>src/src/gdt/gdt.c\<close>: the encoding of the eight bytes of an entry, and
  what the processor reads from them. \<open>panic\<close> is the missing result.
\<close>

section \<open>gdt.c\<close>

record gdt_structured =
  base :: u32
  limit :: u32
  seg_type :: u8

text \<open>The bytes of the target are written in the order of the C function.\<close>

definition encodeGdtEntry :: "u8 list \<Rightarrow> gdt_structured \<Rightarrow> u8 list option" where
  "encodeGdtEntry target source =
     (if limit source > 65536 \<and> limit source AND 0xFFF \<noteq> 0xFFF then None
      else do {
        t0 \<leftarrow> arr_set target 6 0x40;
        let big = limit source > 65536;
        let lim = (if big then drop_bit 12 (limit source) else limit source);
        t1 \<leftarrow> (if big then arr_set t0 6 0xC0 else Some t0);
        t2 \<leftarrow> arr_set t1 0 (ucast (lim AND 0xFF));
        t3 \<leftarrow> arr_set t2 1 (ucast (drop_bit 8 lim AND 0xFF));
        b6 \<leftarrow> arr_get t3 6;
        t4 \<leftarrow> arr_set t3 6 (b6 OR ucast (drop_bit 16 lim AND 0x0F));
        t5 \<leftarrow> arr_set t4 2 (ucast (base source AND 0xFF));
        t6 \<leftarrow> arr_set t5 3 (ucast (drop_bit 8 (base source) AND 0xFF));
        t7 \<leftarrow> arr_set t6 4 (ucast (drop_bit 16 (base source) AND 0xFF));
        t8 \<leftarrow> arr_set t7 7 (ucast (drop_bit 24 (base source) AND 0xFF));
        arr_set t8 5 (seg_type source) })"

fun gdt_structured_to_gdt :: "u8 list list \<Rightarrow> gdt_structured list \<Rightarrow> nat \<Rightarrow> nat \<Rightarrow> u8 list list option" where
  "gdt_structured_to_gdt gdt s i 0 = Some gdt"
| "gdt_structured_to_gdt gdt s i (Suc n) =
     do { t \<leftarrow> arr_get gdt (int i); src \<leftarrow> arr_get s (int i);
          t' \<leftarrow> encodeGdtEntry t src;
          gdt' \<leftarrow> arr_set gdt (int i) t';
          gdt_structured_to_gdt gdt' s (i + 1) n }"

section \<open>What the processor reads\<close>

text \<open>Base, limit in bytes (scaled when the granularity bit is set), access byte and size flag.\<close>

definition descriptor_base :: "u8 list \<Rightarrow> u32" where
  "descriptor_base t = ucast (t ! 2) OR push_bit 8 (ucast (t ! 3)) OR push_bit 16 (ucast (t ! 4))
     OR push_bit 24 (ucast (t ! 7))"

definition descriptor_raw_limit :: "u8 list \<Rightarrow> u32" where
  "descriptor_raw_limit t = ucast (t ! 0) OR push_bit 8 (ucast (t ! 1)) OR push_bit 16 (ucast (t ! 6) AND 0x0F)"

definition descriptor_limit :: "u8 list \<Rightarrow> u32" where
  "descriptor_limit t = (if bit (t ! 6) 7 then push_bit 12 (descriptor_raw_limit t) OR 0xFFF
     else descriptor_raw_limit t)"

lemma bit_masks_int:
  "bit (0xFF :: int) k \<longleftrightarrow> k < 8" "bit (0x0F :: int) k \<longleftrightarrow> k < 4" "bit (0xFFF :: int) k \<longleftrightarrow> k < 12"
  "bit (0x40 :: int) k \<longleftrightarrow> k = 6" "bit (0xC0 :: int) k \<longleftrightarrow> k = 6 \<or> k = 7"
  "bit (0xF0000 :: int) k \<longleftrightarrow> 16 \<le> k \<and> k < 20"
proof -
  have "(0xFF :: int) = mask 8" "(0x0F :: int) = mask 4" "(0xFFF :: int) = mask 12"
    "(0x40 :: int) = push_bit 6 1" "(0xC0 :: int) = push_bit 6 (mask 2)" "(0xF0000 :: int) = push_bit 16 (mask 4)"
    by (simp_all add: mask_eq_exp_minus_1 push_bit_eq_mult)
  then show "bit (0xFF :: int) k \<longleftrightarrow> k < 8" "bit (0x0F :: int) k \<longleftrightarrow> k < 4" "bit (0xFFF :: int) k \<longleftrightarrow> k < 12"
    "bit (0x40 :: int) k \<longleftrightarrow> k = 6" "bit (0xC0 :: int) k \<longleftrightarrow> k = 6 \<or> k = 7"
    "bit (0xF0000 :: int) k \<longleftrightarrow> 16 \<le> k \<and> k < 20"
    by (simp_all only: bit_mask_iff bit_push_bit_iff possible_bit_int bit_1_iff) auto
qed

lemma encode_bytes:
  assumes "length target = 8" "\<not> (limit s > 65536 \<and> limit s AND 0xFFF \<noteq> 0xFFF)"
  defines "big \<equiv> limit s > 65536"
  defines "lim \<equiv> (if big then drop_bit 12 (limit s) else limit s)"
  shows "encodeGdtEntry target s =
    Some [ucast (lim AND 0xFF), ucast (drop_bit 8 lim AND 0xFF), ucast (base s AND 0xFF),
      ucast (drop_bit 8 (base s) AND 0xFF), ucast (drop_bit 16 (base s) AND 0xFF), seg_type s,
      (if big then 0xC0 else 0x40) OR ucast (drop_bit 16 lim AND 0x0F), ucast (drop_bit 24 (base s) AND 0xFF)]"
proof -
  obtain a b c d e f g h where "target = [a, b, c, d, e, f, g, h]"
    using assms(1) by (auto simp: numeral_eq_Suc length_Suc_conv)
  then show ?thesis
    using assms(2) by (simp add: encodeGdtEntry_def arr_set_def arr_get_def big_def lim_def Let_def del: not_less)
qed

lemma decode_base:
  "ucast (ucast (b AND 0xFF) :: u8) OR push_bit 8 (ucast (ucast (drop_bit 8 b AND 0xFF) :: u8)) OR
     push_bit 16 (ucast (ucast (drop_bit 16 b AND 0xFF) :: u8)) OR
     push_bit 24 (ucast (ucast (drop_bit 24 b AND 0xFF) :: u8)) = (b :: u32)"
proof (rule bit_word_eqI)
  fix k assume k: "k < LENGTH(32)"
  then consider "k < 8" | "8 \<le> k" "k < 16" | "16 \<le> k" "k < 24" | "24 \<le> k" by linarith
  then show "bit (ucast (ucast (b AND 0xFF) :: u8) OR push_bit 8 (ucast (ucast (drop_bit 8 b AND 0xFF) :: u8)) OR
     push_bit 16 (ucast (ucast (drop_bit 16 b AND 0xFF) :: u8)) OR
     push_bit 24 (ucast (ucast (drop_bit 24 b AND 0xFF) :: u8)) :: u32) k = bit b k"
    using k by cases (auto simp: bit_simps bit_masks_int)
qed

lemma decode_limit:
  assumes "\<And>k. 20 \<le> k \<Longrightarrow> \<not> bit l k"
  shows "ucast (ucast (l AND 0xFF) :: u8) OR push_bit 8 (ucast (ucast (drop_bit 8 l AND 0xFF) :: u8)) OR
     push_bit 16 (ucast ((f :: u8) OR ucast (drop_bit 16 l AND 0x0F)) AND 0x0F) =
     (l OR push_bit 16 (ucast f AND 0x0F) :: u32)"
proof (rule bit_word_eqI)
  fix k assume k: "k < LENGTH(32)"
  then consider "k < 8" | "8 \<le> k" "k < 16" | "16 \<le> k" "k < 20" | "20 \<le> k" by linarith
  then show "bit (ucast (ucast (l AND 0xFF) :: u8) OR push_bit 8 (ucast (ucast (drop_bit 8 l AND 0xFF) :: u8)) OR
     push_bit 16 (ucast (f OR ucast (drop_bit 16 l AND 0x0F)) AND 0x0F) :: u32) k =
     bit (l OR push_bit 16 (ucast f AND 0x0F)) k"
    using k assms [of k] by cases (auto simp: bit_simps bit_masks_int)
qed

lemma big_limit_bits:
  assumes "(l :: u32) AND 0xFFF = 0xFFF"
  shows "push_bit 12 (drop_bit 12 l) OR 0xFFF = l"
proof (rule bit_word_eqI)
  fix k assume k: "k < LENGTH(32)"
  have "bit (l AND 0xFFF) k = bit (0xFFF :: u32) k" using assms by simp
  then have "k < 12 \<longrightarrow> bit l k" using k by (auto simp: bit_simps bit_masks_int)
  then show "bit (push_bit 12 (drop_bit 12 l) OR 0xFFF) k = bit l k"
    using k by (auto simp: bit_simps bit_masks_int)
qed

lemma small_limit_bits:
  assumes "(l :: u32) \<le> 65536" "20 \<le> k"
  shows "\<not> bit l k"
proof -
  have "unat l \<le> 65536" using assms(1) by (simp add: word_le_nat_alt)
  then have "take_bit 20 l = l" by (simp add: take_bit_eq_mod unat_mod_distrib flip: unat_inj_iff)
  then show ?thesis using assms(2) by (metis bit_take_bit_iff not_le)
qed

lemma encode_decode:
  assumes "length target = 8"
  shows "if limit s > 65536 \<and> limit s AND 0xFFF \<noteq> 0xFFF then encodeGdtEntry target s = None
    else \<exists>t. encodeGdtEntry target s = Some t \<and> length t = 8 \<and> descriptor_base t = base s \<and>
      descriptor_limit t = limit s \<and> t ! 5 = seg_type s \<and> bit (t ! 6) 6 \<and> \<not> bit (t ! 6) 5"
proof (cases "limit s > 65536 \<and> limit s AND 0xFFF \<noteq> 0xFFF")
  case True
  then show ?thesis by (simp add: encodeGdtEntry_def)
next
  case ok: False
  show ?thesis
  proof (cases "limit s > 65536")
    case True
    let ?l = "drop_bit 12 (limit s)"
    have hi: "\<not> bit ?l k" if "20 \<le> k" for k
      using that by (auto simp: bit_simps dest: bit_imp_le_length)
    have "(ucast (0xC0 :: u8) AND 0x0F :: u32) = 0"
      by (rule bit_word_eqI) (auto simp: bit_simps bit_masks_int)
    then have raw: "ucast (ucast (?l AND 0xFF) :: u8) OR push_bit 8 (ucast (ucast (drop_bit 8 ?l AND 0xFF) :: u8)) OR
        push_bit 16 (ucast ((0xC0 :: u8) OR ucast (drop_bit 16 ?l AND 0x0F)) AND 0x0F) = ?l"
      using decode_limit [OF hi, of "0xC0"] by simp
    have big: "push_bit 12 ?l OR 0xFFF = limit s" using ok True by (intro big_limit_bits) auto
    have fl: "bit ((0xC0 :: u8) OR ucast (drop_bit 16 ?l AND 0x0F)) 7"
      "bit ((0xC0 :: u8) OR ucast (drop_bit 16 ?l AND 0x0F)) 6"
      "\<not> bit ((0xC0 :: u8) OR ucast (drop_bit 16 ?l AND 0x0F)) 5"
      by (auto simp: bit_simps bit_masks_int)
    show ?thesis
      using encode_bytes [OF assms ok] True ok decode_base [of "base s"] raw big fl
      by (simp add: descriptor_base_def descriptor_limit_def descriptor_raw_limit_def)
  next
    case False
    have hi: "\<not> bit (limit s) k" if "20 \<le> k" for k
      using small_limit_bits [OF _ that] False by (simp add: not_less)
    have "(ucast (0x40 :: u8) AND 0x0F :: u32) = 0"
      by (rule bit_word_eqI) (auto simp: bit_simps bit_masks_int)
    then have raw: "ucast (ucast (limit s AND 0xFF) :: u8) OR push_bit 8 (ucast (ucast (drop_bit 8 (limit s) AND 0xFF) :: u8)) OR
        push_bit 16 (ucast ((0x40 :: u8) OR ucast (drop_bit 16 (limit s) AND 0x0F)) AND 0x0F) = limit s"
      using decode_limit [OF hi, of "0x40"] by simp
    have fl: "\<not> bit ((0x40 :: u8) OR ucast (drop_bit 16 (limit s) AND 0x0F)) 7"
      "bit ((0x40 :: u8) OR ucast (drop_bit 16 (limit s) AND 0x0F)) 6"
      "\<not> bit ((0x40 :: u8) OR ucast (drop_bit 16 (limit s) AND 0x0F)) 5"
      by (auto simp: bit_simps bit_masks_int)
    show ?thesis
      using encode_bytes [OF assms ok] False decode_base [of "base s"] raw fl
      by (simp add: descriptor_base_def descriptor_limit_def descriptor_raw_limit_def)
  qed
qed

text \<open>
  C36. \<open>encodeGdtEntry\<close> (gdt.c) and the processor agree: an entry whose limit is at most
  65536, or ends in twelve ones, is encoded without panic, whatever the target held, and the
  processor decodes from its bytes the same base, the same limit, the access byte, and a
  32-bit segment. Any other limit ends in \<open>panic\<close>.
\<close>

theorem gdt_encode_decode:
  assumes "length target = 8"
  shows "if limit s > 65536 \<and> limit s AND 0xFFF \<noteq> 0xFFF then encodeGdtEntry target s = None
    else \<exists>t. encodeGdtEntry target s = Some t \<and> length t = 8 \<and> descriptor_base t = base s \<and>
      descriptor_limit t = limit s \<and> t ! 5 = seg_type s \<and> bit (t ! 6) 6 \<and> \<not> bit (t ! 6) 5"
  using assms by (rule encode_decode)

theorem gdt_encode_decode_witness:
  "(\<exists>t. encodeGdtEntry (replicate 8 0xEE) \<lparr>base = 0x12345678, limit = 0xFFFFFFFF, seg_type = 0x9A\<rparr> = Some t \<and>
      descriptor_base t = 0x12345678 \<and> descriptor_limit t = 0xFFFFFFFF) \<and>
   encodeGdtEntry (replicate 8 0xEE) \<lparr>base = 0, limit = 0x10001, seg_type = 0x9A\<rparr> = None"
  using gdt_encode_decode [of "replicate 8 0xEE" "\<lparr>base = 0x12345678, limit = 0xFFFFFFFF, seg_type = 0x9A\<rparr>"]
    gdt_encode_decode [of "replicate 8 0xEE" "\<lparr>base = 0, limit = 0x10001, seg_type = 0x9A\<rparr>"]
  by auto

end
