(* ===== verification/Idt.thy ===== *)
theory Idt
  imports Isr80h Gdt
begin

text \<open>
  Interrupts, \<open>src/src/idt/idt.c\<close> with the entry code of \<open>idt.asm\<close>, the start of the keyboard in \<open>classic.c\<close> and
  the registration of the commands in \<open>src/src/isr80h/isr80h.c\<close>. The addresses of the entry code are a
  parameter. Writing to the ports of the interrupt controller and loading the table are left out.
\<close>

definition HARDIKHYPERIONOS_TOTAL_INTERRUPTS :: nat where "HARDIKHYPERIONOS_TOTAL_INTERRUPTS = 512"
definition HARDIKHYPERIONOS_MAX_ISR80H_COMMANDS :: nat where "HARDIKHYPERIONOS_MAX_ISR80H_COMMANDS = 1024"
definition ISR_KEYBOARD_INTERRUPT :: int where "ISR_KEYBOARD_INTERRUPT = 0x21"

text \<open>The addresses of the entry code, \<open>int0\<close> to \<open>int511\<close>, of \<open>idt_zero\<close> and of \<open>isr80h_wrapper\<close>.\<close>

record entry_points =
  interrupt_pointer_table :: "u32 list"
  idt_zero_address :: u32
  isr80h_wrapper_address :: u32

section \<open>The table\<close>

definition idt_set :: "int \<Rightarrow> u32 \<Rightarrow> interrupt_state \<Rightarrow> interrupt_state option" where
  "idt_set interrupt_no address i =
     do { ds \<leftarrow> arr_set (idt_descriptors i) interrupt_no
            \<lparr>offset_1 = ucast (address AND 0x0000ffff), selector = ucast KERNEL_CODE_SELECTOR, zero = 0x00,
             type_attr = 0xEE, offset_2 = ucast (drop_bit 16 address)\<rparr>;
          Some (i\<lparr>idt_descriptors := ds\<rparr>) }"

definition idt_register_interrupt_callback :: "int \<Rightarrow> interrupt_callback \<Rightarrow> interrupt_state \<Rightarrow> (int \<times> interrupt_state) option" where
  "idt_register_interrupt_callback interrupt callback i =
     (if interrupt < 0 \<or> interrupt \<ge> int HARDIKHYPERIONOS_TOTAL_INTERRUPTS then Some (- EINVARG, i)
      else do { cs \<leftarrow> arr_set (interrupt_callbacks i) interrupt (Some callback);
                Some (0, i\<lparr>interrupt_callbacks := cs\<rparr>) })"

fun idt_set_loop :: "u32 list \<Rightarrow> nat \<Rightarrow> nat \<Rightarrow> interrupt_state \<Rightarrow> interrupt_state option" where
  "idt_set_loop pointers k 0 i = Some i"
| "idt_set_loop pointers k (Suc n) i =
     do { a \<leftarrow> arr_get pointers (int k); i1 \<leftarrow> idt_set (int k) a i; idt_set_loop pointers (Suc k) n i1 }"

fun register_exceptions_loop :: "nat \<Rightarrow> nat \<Rightarrow> interrupt_state \<Rightarrow> interrupt_state option" where
  "register_exceptions_loop k 0 i = Some i"
| "register_exceptions_loop k (Suc n) i =
     do { (_, i1) \<leftarrow> idt_register_interrupt_callback (int k) Idt_handle_exception i; register_exceptions_loop (Suc k) n i1 }"

definition zero_gate :: idt_desc where
  "zero_gate = \<lparr>offset_1 = 0, selector = 0, zero = 0, type_attr = 0, offset_2 = 0\<rparr>"

definition idt_init :: "entry_points \<Rightarrow> interrupt_state \<Rightarrow> interrupt_state option" where
  "idt_init e i =
     do { let i0 = i\<lparr>idt_descriptors := replicate HARDIKHYPERIONOS_TOTAL_INTERRUPTS zero_gate\<rparr>;
          i1 \<leftarrow> idt_set_loop (interrupt_pointer_table e) 0 HARDIKHYPERIONOS_TOTAL_INTERRUPTS i0;
          i2 \<leftarrow> idt_set 0 (idt_zero_address e) i1;
          i3 \<leftarrow> idt_set 0x80 (isr80h_wrapper_address e) i2;
          i4 \<leftarrow> register_exceptions_loop 0 0x20 i3;
          (_, i5) \<leftarrow> idt_register_interrupt_callback 0x20 Idt_clock i4;
          Some i5 }"

text \<open>The static variables at the start.\<close>

definition interrupt_statics :: interrupt_state where
  "interrupt_statics = \<lparr>idt_descriptors = replicate HARDIKHYPERIONOS_TOTAL_INTERRUPTS zero_gate,
     interrupt_callbacks = replicate HARDIKHYPERIONOS_TOTAL_INTERRUPTS None,
     isr80h_commands = replicate HARDIKHYPERIONOS_MAX_ISR80H_COMMANDS None\<rparr>"

section \<open>Commands\<close>

text \<open>Panics when the number is out of bounds or taken.\<close>

definition isr80h_register_command :: "int \<Rightarrow> isr80h_command \<Rightarrow> interrupt_state \<Rightarrow> interrupt_state option" where
  "isr80h_register_command command_id command i =
     (if command_id < 0 \<or> command_id \<ge> int HARDIKHYPERIONOS_MAX_ISR80H_COMMANDS then None
      else do { old \<leftarrow> arr_get (isr80h_commands i) command_id;
        if old \<noteq> None then None
        else do { cs \<leftarrow> arr_set (isr80h_commands i) command_id (Some command); Some (i\<lparr>isr80h_commands := cs\<rparr>) } })"

definition isr80h_register_commands :: "interrupt_state \<Rightarrow> interrupt_state option" where
  "isr80h_register_commands i0 =
     do { i1 \<leftarrow> isr80h_register_command 0 Command0_sum i0;
          i2 \<leftarrow> isr80h_register_command 1 Command1_print i1;
          i3 \<leftarrow> isr80h_register_command 2 Command2_getkey i2;
          i4 \<leftarrow> isr80h_register_command 3 Command3_putchar i3;
          i5 \<leftarrow> isr80h_register_command 4 Command4_malloc i4;
          i6 \<leftarrow> isr80h_register_command 5 Command5_free i5;
          i7 \<leftarrow> isr80h_register_command 6 Command6_process_load_start i6;
          i8 \<leftarrow> isr80h_register_command 7 Command7_invoke_system_command i7;
          i9 \<leftarrow> isr80h_register_command 8 Command8_get_program_arguments i8;
          isr80h_register_command 9 Command9_exit i9 }"

definition isr80h_handle_command ::
    "(fs_ref \<Rightarrow> fs_ops) \<Rightarrow> (nat \<Rightarrow> u8 list) \<Rightarrow> int \<Rightarrow> kernel \<Rightarrow> outcome option" where
  "isr80h_handle_command ops uninit command s =
     (if command < 0 \<or> command \<ge> int HARDIKHYPERIONOS_MAX_ISR80H_COMMANDS then returned 0 s
      else do { command_func \<leftarrow> arr_get (isr80h_commands (interrupts s)) command;
        case command_func of None \<Rightarrow> returned 0 s | Some f \<Rightarrow> run_isr80h_command f ops uninit s })"

text \<open>What follows a call that may not return.\<close>

definition and_then :: "outcome option \<Rightarrow> (u32 \<Rightarrow> kernel \<Rightarrow> outcome option) \<Rightarrow> outcome option" where
  "and_then r k =
     (case r of None \<Rightarrow> None | Some (Returned v s) \<Rightarrow> k v s | Some (Entered regs s) \<Rightarrow> Some (Entered regs s))"

definition isr80h_handler ::
    "(fs_ref \<Rightarrow> fs_ops) \<Rightarrow> (nat \<Rightarrow> u8 list) \<Rightarrow> int \<Rightarrow> interrupt_frame \<Rightarrow> kernel \<Rightarrow> outcome option" where
  "isr80h_handler ops uninit command frame s =
     do { s1 \<leftarrow> task_current_save_state frame (kernel_page s);
          and_then (isr80h_handle_command ops uninit command s1)
            (\<lambda>res s2. do { s3 \<leftarrow> task_page s2; returned res s3 }) }"

section \<open>Interrupts\<close>

definition keyboard_interrupt_init :: "kernel \<Rightarrow> kernel option" where
  "keyboard_interrupt_init s =
     do { (_, i) \<leftarrow> idt_register_interrupt_callback ISR_KEYBOARD_INTERRUPT Classic_keyboard_handle_interrupt (interrupts s);
          Some (s\<lparr>interrupts := i, keyboards := keyboard_init (keyboards s)\<rparr>) }"

text \<open>\<open>keyboard_push\<close> writes to the buffer of the current process. The keyboard is the one \<open>keyboard_init\<close> inserted.\<close>

definition keyboard_callback :: "u8 \<Rightarrow> kernel \<Rightarrow> outcome option" where
  "keyboard_callback scancode s0 =
     (let s = kernel_page s0 in
      do { k \<leftarrow> arr_get (keyboards s) 0;
           b \<leftarrow> (if current_process s = 0 then Some None
                 else do { p \<leftarrow> procs s (current_process s); Some (Some (keys p)) });
           (k', b') \<leftarrow> classic_keyboard_handle_interrupt scancode k b;
           ks \<leftarrow> arr_set (keyboards s) 0 k';
           let s1 = s\<lparr>keyboards := ks\<rparr>;
           s2 \<leftarrow> (case b' of None \<Rightarrow> Some s1 | Some q \<Rightarrow> put_process (current_process s) (\<lambda>p. p\<lparr>keys := q\<rparr>) s1);
           if scancode AND CLASSIC_KEYBOARD_KEY_RELEASED \<noteq> 0 then returned 0 s2
           else do { s3 \<leftarrow> task_page s2; returned 0 s3 } })"

definition idt_handle_exception :: "kernel \<Rightarrow> outcome option" where
  "idt_handle_exception s =
     do { process \<leftarrow> calling_process s; (_, s1) \<leftarrow> process_terminate process s; enter_next s1 }"

definition idt_clock :: "kernel \<Rightarrow> outcome option" where
  "idt_clock s = enter_next s"

fun run_interrupt_callback :: "interrupt_callback \<Rightarrow> u8 \<Rightarrow> kernel \<Rightarrow> outcome option" where
  "run_interrupt_callback Idt_handle_exception scancode s = idt_handle_exception s"
| "run_interrupt_callback Idt_clock scancode s = idt_clock s"
| "run_interrupt_callback Classic_keyboard_handle_interrupt scancode s = keyboard_callback scancode s"

definition interrupt_handler :: "u8 \<Rightarrow> int \<Rightarrow> interrupt_frame \<Rightarrow> kernel \<Rightarrow> outcome option" where
  "interrupt_handler scancode interrupt frame s0 =
     (let s = kernel_page s0 in
      do { callback \<leftarrow> arr_get (interrupt_callbacks (interrupts s)) interrupt;
           and_then
             (case callback of None \<Rightarrow> returned 0 s
              | Some f \<Rightarrow> do { s1 \<leftarrow> task_current_save_state frame s; run_interrupt_callback f scancode s1 })
             (\<lambda>_ s2. do { s3 \<leftarrow> task_page s2; returned 0 s3 }) })"

section \<open>Back to the user\<close>

text \<open>\<open>popad\<close> and \<open>iret\<close> load the registers from the frame.\<close>

definition frame_registers :: "interrupt_frame \<Rightarrow> registers" where
  "frame_registers f = \<lparr>edi = frame_edi f, esi = frame_esi f, ebp = frame_ebp f, ebx = frame_ebx f, edx = frame_edx f,
     ecx = frame_ecx f, eax = frame_eax f, ip = frame_ip f, cs = frame_cs f, eflags = frame_flags f,
     esp = frame_esp f, ss = frame_ss f\<rparr>"

text \<open>
  The registers user mode goes on with after an interrupt or a command, and the kernel then.
  \<open>kernel_ebp\<close> and \<open>kernel_flags\<close> are the kernel's when it calls \<open>task_return\<close>.
\<close>

definition interrupt_entry :: "u32 \<Rightarrow> u32 \<Rightarrow> u8 \<Rightarrow> int \<Rightarrow> interrupt_frame \<Rightarrow> kernel \<Rightarrow> (registers \<times> kernel) option" where
  "interrupt_entry kernel_ebp kernel_flags scancode interrupt frame s =
     (case interrupt_handler scancode interrupt frame s of None \<Rightarrow> None
      | Some (Returned _ s') \<Rightarrow> Some (frame_registers frame, s')
      | Some (Entered regs s') \<Rightarrow> Some (task_return kernel_ebp kernel_flags regs, s'\<lparr>data_selector := ss regs\<rparr>))"

definition isr80h_wrapper ::
    "u32 \<Rightarrow> u32 \<Rightarrow> (fs_ref \<Rightarrow> fs_ops) \<Rightarrow> (nat \<Rightarrow> u8 list) \<Rightarrow> interrupt_frame \<Rightarrow> kernel \<Rightarrow> (registers \<times> kernel) option" where
  "isr80h_wrapper kernel_ebp kernel_flags ops uninit frame s =
     (case isr80h_handler ops uninit (sint (frame_eax frame)) frame s of None \<Rightarrow> None
      | Some (Returned res s') \<Rightarrow> Some ((frame_registers frame)\<lparr>eax := res\<rparr>, s')
      | Some (Entered regs s') \<Rightarrow> Some (task_return kernel_ebp kernel_flags regs, s'\<lparr>data_selector := ss regs\<rparr>))"

text \<open>\<open>idt_zero\<close> is the entry of vector 0 itself.\<close>

definition idt_zero :: "kernel \<Rightarrow> kernel option" where
  "idt_zero s = print_screen (ascii ''Divide by zero error'' @ [10, 0]) s"

end
