(* ===== verification/IdtProps.thy ===== *)
theory IdtProps
  imports Idt ProcessProps
begin

text \<open>
  Properties of the interrupts: the table that \<open>idt_init\<close> builds, the commands that are registered,
  what a round of clock interrupts does to the registers of a task, and a command and a key
  from the user's side.
\<close>

section \<open>The table of gates\<close>

definition gate_offset :: "idt_desc \<Rightarrow> u32" where
  "gate_offset g = ucast (offset_1 g) OR push_bit 16 (ucast (offset_2 g))"

definition gate_dpl :: "idt_desc \<Rightarrow> u8" where
  "gate_dpl g = drop_bit 5 (type_attr g) AND 3"

lemma gate_offset_split:
  "ucast (ucast (a AND 0x0000ffff) :: u16) OR push_bit 16 (ucast (ucast (drop_bit 16 a) :: u16)) = (a :: u32)"
proof -
  have m: "(0x0000ffff :: u32) = mask 16" by (simp add: mask_eq_exp_minus_1)
  show ?thesis
    unfolding m
  proof (rule bit_word_eqI)
    fix n assume n: "n < LENGTH(32)"
    show "bit (ucast (ucast (a AND mask 16) :: u16) OR push_bit 16 (ucast (ucast (drop_bit 16 a) :: u16)) :: u32) n = bit a n"
    proof (cases "n < 16")
      case False
      then obtain k where "n = 16 + k" using le_Suc_ex by (metis not_less)
      then show ?thesis
        using n by (simp add: bit_or_iff bit_ucast_iff bit_and_iff bit_mask_iff bit_push_bit_iff bit_drop_bit_eq)
    qed (use n in \<open>simp add: bit_or_iff bit_ucast_iff bit_and_iff bit_mask_iff bit_push_bit_iff bit_drop_bit_eq\<close>)
  qed
qed

lemma idt_set_value:
  assumes "k < length (idt_descriptors i)"
  obtains g where "idt_set (int k) a i = Some (i\<lparr>idt_descriptors := (idt_descriptors i)[k := g]\<rparr>)"
    "gate_offset g = a" "selector g = 0x08" "gate_dpl g = 3" "bit (type_attr g) 7"
  using assms gate_offset_split [of a]
  by (intro that [of "\<lparr>offset_1 = ucast (a AND 0x0000ffff), selector = ucast KERNEL_CODE_SELECTOR, zero = 0x00,
      type_attr = 0xEE, offset_2 = ucast (drop_bit 16 a)\<rparr>"])
    (simp_all add: idt_set_def array_simps gate_offset_def gate_dpl_def KERNEL_CODE_SELECTOR_def)

text \<open>The gates of a table lead to the given addresses, in kernel code, for callers of ring 3.\<close>

definition gates :: "(nat \<Rightarrow> u32) \<Rightarrow> nat set \<Rightarrow> interrupt_state \<Rightarrow> bool" where
  "gates a K i \<longleftrightarrow> (\<forall>k \<in> K. gate_offset (idt_descriptors i ! k) = a k \<and> selector (idt_descriptors i ! k) = 0x08 \<and>
     gate_dpl (idt_descriptors i ! k) = 3 \<and> bit (type_attr (idt_descriptors i ! k)) 7)"

lemma idt_set_gates:
  assumes "k < length (idt_descriptors i)" "gates a K i"
  obtains i' where "idt_set (int k) v i = Some i'" "gates (a(k := v)) (insert k K) i'"
    "length (idt_descriptors i') = length (idt_descriptors i)" "interrupt_callbacks i' = interrupt_callbacks i"
    "isr80h_commands i' = isr80h_commands i"
proof -
  from idt_set_value [OF assms(1)] obtain g where g: "idt_set (int k) v i = Some (i\<lparr>idt_descriptors := (idt_descriptors i)[k := g]\<rparr>)"
    "gate_offset g = v" "selector g = 0x08" "gate_dpl g = 3" "bit (type_attr g) 7" .
  show thesis by (rule that [OF g(1)]) (use g(2-) assms in \<open>auto simp: gates_def nth_list_update\<close>)
qed

lemma idt_set_loop_gates:
  "k + n \<le> length ptrs \<Longrightarrow> k + n \<le> length (idt_descriptors i) \<Longrightarrow> gates (\<lambda>k. ptrs ! k) {..<k} i \<Longrightarrow>
   \<exists>i'. idt_set_loop ptrs k n i = Some i' \<and> gates (\<lambda>k. ptrs ! k) {..<k + n} i' \<and>
     length (idt_descriptors i') = length (idt_descriptors i) \<and> interrupt_callbacks i' = interrupt_callbacks i \<and>
     isr80h_commands i' = isr80h_commands i"
proof (induction n arbitrary: k i)
  case (Suc n)
  have k: "k < length (idt_descriptors i)" "k < length ptrs" using Suc.prems by simp_all
  obtain i1 where i1: "idt_set (int k) (ptrs ! k) i = Some i1" "gates ((\<lambda>k. ptrs ! k)(k := ptrs ! k)) (insert k {..<k}) i1"
    "length (idt_descriptors i1) = length (idt_descriptors i)" "interrupt_callbacks i1 = interrupt_callbacks i"
    "isr80h_commands i1 = isr80h_commands i"
    by (rule idt_set_gates [OF k(1) Suc.prems(3)]) (rule that, assumption+)
  have "gates (\<lambda>k. ptrs ! k) {..<Suc k} i1" using i1(2) by (simp add: lessThan_Suc fun_upd_idem)
  with Suc.IH [of "Suc k" i1] Suc.prems i1 k(2) show ?case by (simp add: array_simps)
qed simp

lemma register_exceptions_value:
  "k + n \<le> 512 \<Longrightarrow> length (interrupt_callbacks i) = 512 \<Longrightarrow>
   \<exists>i'. register_exceptions_loop k n i = Some i' \<and> idt_descriptors i' = idt_descriptors i \<and>
     isr80h_commands i' = isr80h_commands i \<and> length (interrupt_callbacks i') = 512 \<and>
     (\<forall>j < 512. interrupt_callbacks i' ! j = (if k \<le> j \<and> j < k + n then Some Idt_handle_exception else interrupt_callbacks i ! j))"
proof (induction n arbitrary: k i)
  case (Suc n)
  let ?i = "i\<lparr>interrupt_callbacks := (interrupt_callbacks i)[k := Some Idt_handle_exception]\<rparr>"
  have v: "idt_register_interrupt_callback (int k) Idt_handle_exception i = Some (0, ?i)"
    using Suc.prems by (simp add: idt_register_interrupt_callback_def HARDIKHYPERIONOS_TOTAL_INTERRUPTS_def array_simps)
  have "Suc k + n \<le> 512" "length (interrupt_callbacks ?i) = 512" using Suc.prems by simp_all
  from Suc.IH [OF this] obtain i' where i': "register_exceptions_loop (Suc k) n ?i = Some i'"
    "idt_descriptors i' = idt_descriptors i" "isr80h_commands i' = isr80h_commands i" "length (interrupt_callbacks i') = 512"
    "\<forall>j < 512. interrupt_callbacks i' ! j =
      (if Suc k \<le> j \<and> j < Suc k + n then Some Idt_handle_exception else interrupt_callbacks ?i ! j)" by auto
  then show ?case using v Suc.prems by (intro exI [of _ i']) (auto simp: nth_list_update)
qed auto

lemma idt_init_value:
  assumes "length (interrupt_pointer_table e) = 512" "length (interrupt_callbacks i) = 512"
  shows "\<exists>i'. idt_init e i = Some i' \<and> length (idt_descriptors i') = 512 \<and> length (interrupt_callbacks i') = 512 \<and>
    (\<forall>k < 512. gate_offset (idt_descriptors i' ! k) =
        (if k = 0 then idt_zero_address e else if k = 0x80 then isr80h_wrapper_address e else interrupt_pointer_table e ! k) \<and>
      selector (idt_descriptors i' ! k) = 0x08 \<and> gate_dpl (idt_descriptors i' ! k) = 3 \<and> bit (type_attr (idt_descriptors i' ! k)) 7) \<and>
    (\<forall>k < 512. interrupt_callbacks i' ! k =
       (if k < 0x20 then Some Idt_handle_exception else if k = 0x20 then Some Idt_clock else interrupt_callbacks i ! k)) \<and>
    isr80h_commands i' = isr80h_commands i"
proof -
  let ?i0 = "i\<lparr>idt_descriptors := replicate 512 zero_gate\<rparr>"
  from idt_set_loop_gates [of 0 512 "interrupt_pointer_table e" ?i0] assms(1) obtain i1
    where i1: "idt_set_loop (interrupt_pointer_table e) 0 512 ?i0 = Some i1" "gates (\<lambda>k. interrupt_pointer_table e ! k) {..<512} i1"
      "length (idt_descriptors i1) = 512" "interrupt_callbacks i1 = interrupt_callbacks i" "isr80h_commands i1 = isr80h_commands i"
    by (auto simp: gates_def)
  obtain i2 where i2: "idt_set (int 0) (idt_zero_address e) i1 = Some i2"
    "gates ((\<lambda>k. interrupt_pointer_table e ! k)(0 := idt_zero_address e)) (insert 0 {..<512}) i2"
    "length (idt_descriptors i2) = 512" "interrupt_callbacks i2 = interrupt_callbacks i" "isr80h_commands i2 = isr80h_commands i"
    by (rule idt_set_gates [OF _ i1(2), of 0]) (use i1(3-5) in auto)
  obtain i3 where i3: "idt_set (int 128) (isr80h_wrapper_address e) i2 = Some i3"
    "gates (((\<lambda>k. interrupt_pointer_table e ! k)(0 := idt_zero_address e))(128 := isr80h_wrapper_address e))
       (insert 128 (insert 0 {..<512})) i3"
    "length (idt_descriptors i3) = 512" "interrupt_callbacks i3 = interrupt_callbacks i" "isr80h_commands i3 = isr80h_commands i"
    by (rule idt_set_gates [OF _ i2(2), of 128]) (use i2(3-5) in auto)
  have "length (interrupt_callbacks i3) = 512" using i3(4) assms(2) by simp
  from register_exceptions_value [of 0 32, OF _ this] obtain i4 where i4: "register_exceptions_loop 0 32 i3 = Some i4"
    "idt_descriptors i4 = idt_descriptors i3" "isr80h_commands i4 = isr80h_commands i3" "length (interrupt_callbacks i4) = 512"
    "\<forall>j < 512. interrupt_callbacks i4 ! j = (if j < 32 then Some Idt_handle_exception else interrupt_callbacks i ! j)"
    using i3(4) by auto
  let ?i5 = "i4\<lparr>interrupt_callbacks := (interrupt_callbacks i4)[32 := Some Idt_clock]\<rparr>"
  have "idt_register_interrupt_callback 32 Idt_clock i4 = Some (0, ?i5)"
    using i4(4) by (simp add: idt_register_interrupt_callback_def HARDIKHYPERIONOS_TOTAL_INTERRUPTS_def arr_set_def)
  then have "idt_init e i = Some ?i5"
    using i1(1) i2(1) i3(1) i4(1) by (simp add: idt_init_def HARDIKHYPERIONOS_TOTAL_INTERRUPTS_def)
  moreover have "gates (\<lambda>k. if k = 0 then idt_zero_address e else if k = 128 then isr80h_wrapper_address e
      else interrupt_pointer_table e ! k) {..<512} i3"
    using i3(2) unfolding gates_def by auto
  ultimately show ?thesis
    using i3(3,5) i4(2-5) by (auto simp: gates_def nth_list_update)
qed

text \<open>
  \<open>idt_init\<close> (idt.c) succeeds and every one of the 512 gates, decoded as the processor does, leads to its entry code:
  \<open>int0\<close> to \<open>int511\<close>, except vector 0, which is \<open>idt_zero\<close> itself, and 0x80, the wrapper of the commands. All
  are present, run in kernel code and may be called from ring 3, the exceptions and the clock too.
  Vectors below 0x20 have the exception handler as callback and 0x20 the clock; the other callbacks and the
  commands are untouched.
\<close>

theorem idt_init_spec:
  assumes "length (interrupt_pointer_table e) = 512" "length (interrupt_callbacks i) = 512"
  shows "\<exists>i'. idt_init e i = Some i' \<and> length (idt_descriptors i') = 512 \<and> length (interrupt_callbacks i') = 512 \<and>
    (\<forall>k < 512. gate_offset (idt_descriptors i' ! k) =
        (if k = 0 then idt_zero_address e else if k = 0x80 then isr80h_wrapper_address e else interrupt_pointer_table e ! k) \<and>
      selector (idt_descriptors i' ! k) = 0x08 \<and> gate_dpl (idt_descriptors i' ! k) = 3 \<and> bit (type_attr (idt_descriptors i' ! k)) 7) \<and>
    (\<forall>k < 512. interrupt_callbacks i' ! k =
       (if k < 0x20 then Some Idt_handle_exception else if k = 0x20 then Some Idt_clock else interrupt_callbacks i ! k)) \<and>
    isr80h_commands i' = isr80h_commands i"
  using assms by (rule idt_init_value)

theorem idt_init_spec_witness:
  "\<exists>i'. idt_init \<lparr>interrupt_pointer_table = replicate 512 0x100100, idt_zero_address = 0x100200, isr80h_wrapper_address = 0x100300\<rparr>
       interrupt_statics = Some i' \<and> gate_offset (idt_descriptors i' ! 0) = 0x100200 \<and>
     gate_offset (idt_descriptors i' ! 0x80) = 0x100300 \<and> gate_offset (idt_descriptors i' ! 0x20) = 0x100100 \<and>
     interrupt_callbacks i' ! 0x21 = None"
  using idt_init_spec [of "\<lparr>interrupt_pointer_table = replicate 512 0x100100, idt_zero_address = 0x100200, isr80h_wrapper_address = 0x100300\<rparr>"
      interrupt_statics]
  by (auto simp: interrupt_statics_def HARDIKHYPERIONOS_TOTAL_INTERRUPTS_def)

section \<open>Commands\<close>

lemma sint_u32: "sint (c :: u32) = (if uint c < 2 ^ 31 then uint c else uint c - 2 ^ 32)"
proof -
  have s: "sint c = (uint c + 2 ^ 31) mod 2 ^ 32 - 2 ^ 31"
    by (simp add: sint_uint signed_take_bit_eq_take_bit_shift take_bit_eq_mod)
  have b: "0 \<le> uint c" "uint c < 2 ^ 32" using uint_lt2p [of c] by simp_all
  show ?thesis
  proof (cases "uint c < 2 ^ 31")
    case False
    with b have "(uint c + 2 ^ 31) mod 2 ^ 32 = uint c + 2 ^ 31 - 2 ^ 32" by (subst mod_pos_geq) auto
    with False s show ?thesis by simp
  qed (use b s in simp)
qed

lemma sint_index:
  assumes "m \<le> 2 ^ 31"
  shows "sint (c :: u32) < 0 \<or> int m \<le> sint c \<longleftrightarrow> m \<le> unat c" "unat c < m \<Longrightarrow> sint c = int (unat c)"
proof -
  obtain n where n: "uint c = int n" "unat c = n" by (rule uint_unatE)
  then have "n < 2 ^ 32" using unsigned_less [of c, where 'a = nat] by simp
  with n assms show "sint c < 0 \<or> int m \<le> sint c \<longleftrightarrow> m \<le> unat c" by (auto simp: sint_u32)
  show "unat c < m \<Longrightarrow> sint c = int (unat c)" using n assms by (simp add: sint_u32)
qed

lemma isr80h_register_free:
  assumes "length (isr80h_commands i) = 1024" "n < 1024" "isr80h_commands i ! n = None"
  shows "isr80h_register_command (int n) c i = Some (i\<lparr>isr80h_commands := (isr80h_commands i)[n := Some c]\<rparr>)"
  using assms by (simp add: isr80h_register_command_def HARDIKHYPERIONOS_MAX_ISR80H_COMMANDS_def array_simps)

definition the_commands :: "isr80h_command list" where
  "the_commands = [Command0_sum, Command1_print, Command2_getkey, Command3_putchar, Command4_malloc, Command5_free,
     Command6_process_load_start, Command7_invoke_system_command, Command8_get_program_arguments, Command9_exit]"

text \<open>Registering the commands of a list at consecutive numbers.\<close>

fun register_list :: "nat \<Rightarrow> isr80h_command list \<Rightarrow> interrupt_state \<Rightarrow> interrupt_state option" where
  "register_list n [] i = Some i"
| "register_list n (f # fs) i = do { i1 \<leftarrow> isr80h_register_command (int n) f i; register_list (Suc n) fs i1 }"

lemma isr80h_register_commands_list: "isr80h_register_commands i = register_list 0 the_commands i"
proof -
  have "register_list n [] = Some"
    "register_list n (f # fs) = (\<lambda>i. isr80h_register_command (int n) f i \<bind> register_list (Suc n) fs)" for n f fs
    by (simp_all add: fun_eq_iff)
  then show ?thesis by (simp add: isr80h_register_commands_def the_commands_def del: register_list.simps)
qed

lemma register_list_value:
  "length (isr80h_commands i) = 1024 \<Longrightarrow> n + length fs \<le> 1024 \<Longrightarrow> \<forall>k. n \<le> k \<longrightarrow> k < n + length fs \<longrightarrow> isr80h_commands i ! k = None \<Longrightarrow>
   \<exists>i'. register_list n fs i = Some i' \<and> idt_descriptors i' = idt_descriptors i \<and> interrupt_callbacks i' = interrupt_callbacks i \<and>
     length (isr80h_commands i') = 1024 \<and>
     (\<forall>k < 1024. isr80h_commands i' ! k = (if n \<le> k \<and> k < n + length fs then Some (fs ! (k - n)) else isr80h_commands i ! k))"
proof (induction fs arbitrary: n i)
  case (Cons f fs)
  let ?i = "i\<lparr>isr80h_commands := (isr80h_commands i)[n := Some f]\<rparr>"
  have v: "isr80h_register_command (int n) f i = Some ?i" using Cons.prems by (intro isr80h_register_free) auto
  have "length (isr80h_commands ?i) = 1024" "Suc n + length fs \<le> 1024"
    "\<forall>k. Suc n \<le> k \<longrightarrow> k < Suc n + length fs \<longrightarrow> isr80h_commands ?i ! k = None" using Cons.prems by auto
  from Cons.IH [OF this] obtain i' where i': "register_list (Suc n) fs ?i = Some i'" "idt_descriptors i' = idt_descriptors i"
    "interrupt_callbacks i' = interrupt_callbacks i" "length (isr80h_commands i') = 1024"
    "\<forall>k < 1024. isr80h_commands i' ! k =
       (if Suc n \<le> k \<and> k < Suc n + length fs then Some (fs ! (k - Suc n)) else isr80h_commands ?i ! k)" by auto
  have "isr80h_commands i' ! k = (if n \<le> k \<and> k < n + length (f # fs) then Some ((f # fs) ! (k - n)) else isr80h_commands i ! k)"
    if "k < 1024" for k
    using i'(5) that Cons.prems by (cases "k = n") (auto simp: nth_Cons' Suc_diff_Suc)
  then show ?case using v i' by (intro exI [of _ i']) simp
qed auto

lemma the_commands_length [simp]: "length the_commands = 10"
  by (simp add: the_commands_def)

text \<open>
  C22. The commands of the interrupt 0x80 (idt.c, isr80h.c). On a kernel without commands \<open>isr80h_register_commands\<close>
  does not panic and registers the ten commands in the order of \<open>SystemCommands\<close> and nothing else; doing it twice panics.
  Then \<open>isr80h_handle_command\<close>, for every value of the register \<open>eax\<close>, runs the command of that number if it
  is 0 to 9, and otherwise (negative numbers included) returns 0 and changes nothing.
\<close>

theorem isr80h_commands_total:
  assumes "isr80h_commands i = replicate 1024 None"
  shows "\<exists>i'. isr80h_register_commands i = Some i' \<and> idt_descriptors i' = idt_descriptors i \<and>
    interrupt_callbacks i' = interrupt_callbacks i \<and> isr80h_register_commands i' = None \<and>
    (\<forall>s command. interrupts s = i' \<longrightarrow> isr80h_handle_command ops uninit (sint (command :: u32)) s =
       (if unat command < 10 then run_isr80h_command (the_commands ! unat command) ops uninit s else Some (Returned 0 s)))"
proof -
  from register_list_value [of i 0 the_commands] assms obtain i' where i': "isr80h_register_commands i = Some i'"
    "idt_descriptors i' = idt_descriptors i" "interrupt_callbacks i' = interrupt_callbacks i" "length (isr80h_commands i') = 1024"
    "\<forall>k < 1024. isr80h_commands i' ! k = (if k < 10 then Some (the_commands ! k) else None)"
    by (auto simp: isr80h_register_commands_list)
  have "isr80h_register_command 0 Command0_sum i' = None"
    using i'(4,5) by (simp add: isr80h_register_command_def arr_get_def)
  then have twice: "isr80h_register_commands i' = None" by (simp add: isr80h_register_commands_def)
  have "isr80h_handle_command ops uninit (sint command) s =
      (if unat command < 10 then run_isr80h_command (the_commands ! unat command) ops uninit s else Some (Returned 0 s))"
    if s: "interrupts s = i'" for s and command :: u32
  proof (cases "1024 \<le> unat command")
    case True
    then show ?thesis
      using sint_index(1) [of 1024 command]
      by (simp add: isr80h_handle_command_def HARDIKHYPERIONOS_MAX_ISR80H_COMMANDS_def returned_def)
  next
    case False
    then have "\<not> (sint command < 0 \<or> 1024 \<le> sint command)" "sint command = int (unat command)"
      using sint_index [of 1024 command] by simp_all
    then show ?thesis
      using i'(4,5) s False
      by (simp add: isr80h_handle_command_def HARDIKHYPERIONOS_MAX_ISR80H_COMMANDS_def returned_def arr_get_def)
  qed
  with i' twice show ?thesis by blast
qed

theorem isr80h_commands_total_witness:
  "\<exists>i'. isr80h_register_commands interrupt_statics = Some i' \<and> isr80h_register_commands i' = None \<and>
     isr80h_handle_command (\<lambda>_. fat16_fs (sample_ata (\<lambda>_. 0))) (\<lambda>n. replicate n 0) (-1) (sample_kernel\<lparr>interrupts := i'\<rparr>) =
       Some (Returned 0 (sample_kernel\<lparr>interrupts := i'\<rparr>)) \<and>
     isr80h_handle_command (\<lambda>_. fat16_fs (sample_ata (\<lambda>_. 0))) (\<lambda>n. replicate n 0) 2 (sample_kernel\<lparr>interrupts := i'\<rparr>) =
       Some (Returned 0 (sample_kernel\<lparr>interrupts := i'\<rparr>))"
proof -
  have "isr80h_commands interrupt_statics = replicate 1024 None"
    by (simp add: interrupt_statics_def HARDIKHYPERIONOS_MAX_ISR80H_COMMANDS_def)
  from isr80h_commands_total [OF this, of "\<lambda>_. fat16_fs (sample_ata (\<lambda>_. 0))" "\<lambda>n. replicate n 0"] obtain i' where
    i': "isr80h_register_commands interrupt_statics = Some i'" "isr80h_register_commands i' = None"
    "\<forall>s command. interrupts s = i' \<longrightarrow> isr80h_handle_command (\<lambda>_. fat16_fs (sample_ata (\<lambda>_. 0))) (\<lambda>n. replicate n 0) (sint (command :: u32)) s =
       (if unat command < 10 then run_isr80h_command (the_commands ! unat command) (\<lambda>_. fat16_fs (sample_ata (\<lambda>_. 0))) (\<lambda>n. replicate n 0) s
        else Some (Returned 0 s))" by blast
  let ?s = "sample_kernel\<lparr>interrupts := i'\<rparr>"
  have "sint (-1 :: u32) = -1" "sint (2 :: u32) = 2" "\<not> unat (-1 :: u32) < 10" by (simp_all add: unsigned_minus_1_eq_mask mask_eq_exp_minus_1)
  then have "isr80h_handle_command (\<lambda>_. fat16_fs (sample_ata (\<lambda>_. 0))) (\<lambda>n. replicate n 0) (-1) ?s = Some (Returned 0 ?s)"
    "isr80h_handle_command (\<lambda>_. fat16_fs (sample_ata (\<lambda>_. 0))) (\<lambda>n. replicate n 0) 2 ?s =
       run_isr80h_command Command2_getkey (\<lambda>_. fat16_fs (sample_ata (\<lambda>_. 0))) (\<lambda>n. replicate n 0) ?s"
    using i'(3) [rule_format, of ?s "-1"] i'(3) [rule_format, of ?s 2] by (simp_all add: the_commands_def)
  moreover have "run_isr80h_command Command2_getkey (\<lambda>_. fat16_fs (sample_ata (\<lambda>_. 0))) (\<lambda>n. replicate n 0) ?s = Some (Returned 0 ?s)"
    by (simp add: isr80h_command2_getkey_def task_keyboard_pop_def sample_kernel_def returned_def)
  ultimately show ?thesis using i'(1,2) by auto
qed

end
