(* ===== verification/ContextSwitch.thy ===== *)
theory ContextSwitch
  imports IdtProps
begin

text \<open>
  What a task sees of the scheduler: clock interrupts hand the processor round, and when it comes back
  the task goes on with the registers it was stopped with.
\<close>

section \<open>The frame of the handlers\<close>

lemma kernel_page_fields [simp]:
  "mem (kernel_page s) = mem s" "tasks (kernel_page s) = tasks s" "current_task (kernel_page s) = current_task s"
  "task_head (kernel_page s) = task_head s" "task_tail (kernel_page s) = task_tail s" "procs (kernel_page s) = procs s"
  "processes (kernel_page s) = processes s" "current_process (kernel_page s) = current_process s"
  "interrupts (kernel_page s) = interrupts s" "keyboards (kernel_page s) = keyboards s" "screen (kernel_page s) = screen s"
  "elf_files (kernel_page s) = elf_files s" "kernel_chunk (kernel_page s) = kernel_chunk s" "file_layer (kernel_page s) = file_layer s"
  by (simp_all add: kernel_page_def switch_page_def kernel_registers_def mem_def)

lemma sched_ok_kernel_page: "sched_ok m0 (kernel_page s) ps = sched_ok m0 s ps"
proof -
  have "task_blocks (kernel_page s) = task_blocks s" by (rule ext) (simp add: task_blocks_def split: option.split)
  then show ?thesis by (simp add: sched_ok_def task_links_def)
qed

lemma task_next_frame:
  "task_next s = Some (regs, s') \<Longrightarrow> interrupts s' = interrupts s \<and> procs s' = procs s \<and> keyboards s' = keyboards s"
  by (auto simp: task_next_def task_switch_def switch_page_def Let_def split: bind_splits if_splits)

text \<open>Saving the registers of the current task.\<close>

lemma task_current_save_value:
  assumes "tasks s (current_task s) = Some t" "current_task s \<noteq> 0"
  shows "task_current_save_state f s =
    Some (s\<lparr>tasks := (tasks s)(current_task s \<mapsto> t\<lparr>registers_of := frame_registers f\<rparr>)\<rparr>)"
  using assms by (simp add: task_current_save_state_def task_save_state_def put_task_def frame_registers_def)

lemma sched_ok_current:
  assumes "sched_ok m0 s ps" "i < length ps" "current_task s = ps ! i"
  obtains t where "tasks s (ps ! i) = Some t" "ps ! i \<noteq> 0" "ps ! i \<in> set ps"
proof -
  have "ps ! i \<in> set ps" using assms(2) by simp
  moreover from this have "ps ! i \<in> dom (tasks s)" "ps ! i \<noteq> 0"
    using assms(1) by (auto simp: sched_ok_def task_links_def)
  ultimately show thesis using that by auto
qed

section \<open>A clock interrupt\<close>

lemma clock_interrupt:
  assumes ok: "sched_ok m0 s ps" and i: "i < length ps" "current_task s = ps ! i"
    and cb: "arr_get (interrupt_callbacks (interrupts s)) 0x20 = Some (Some Idt_clock)"
  obtains s' t u where "interrupt_entry kebp kfl sc 0x20 f s = Some (task_return kebp kfl (registers_of u), s')"
    "sched_ok m0 s' ps" "current_task s' = ps ! (Suc i mod length ps)" "tasks s (ps ! i) = Some t"
    "tasks s' = (tasks s)(ps ! i \<mapsto> t\<lparr>registers_of := frame_registers f\<rparr>)"
    "tasks s' (current_task s') = Some u" "interrupts s' = interrupts s" "mem s' = mem s" "procs s' = procs s"
    "cr3 (cpu s') = load32 (ram (mem s)) (page_directory u)" "data_selector s' = ss (registers_of u)"
proof -
  obtain t where t: "tasks s (ps ! i) = Some t" "ps ! i \<noteq> 0" by (rule sched_ok_current [OF ok i])
  define s1 where "s1 = (kernel_page s)\<lparr>tasks := (tasks s)(ps ! i \<mapsto> t\<lparr>registers_of := frame_registers f\<rparr>)\<rparr>"
  have save: "task_current_save_state f (kernel_page s) = Some s1"
    using task_current_save_value [of "kernel_page s" t f] t i(2) by (simp add: s1_def)
  have ok1: "sched_ok m0 s1 ps" using task_save_ok [OF _ save] ok by (simp add: sched_ok_kernel_page)
  have cur: "current_task s1 = ps ! i" by (simp add: s1_def i(2))
  obtain s2 u where n: "task_next s1 = Some (registers_of u, s2)" "sched_ok m0 s2 ps" "tasks s2 = tasks s1"
    "current_task s2 = ps ! (Suc i mod length ps)" "tasks s1 (current_task s2) = Some u" "mem s2 = mem s1"
    "cr3 (cpu s2) = load32 (ram (mem s1)) (page_directory u)"
    by (rule task_next_ok [OF ok1 i(1) cur]) (rule that, assumption+)
  let ?s = "s2\<lparr>data_selector := ss (registers_of u)\<rparr>"
  have "sched_ok m0 ?s ps"
    by (rule sched_ok_core [OF n(2)]) (use n(2) in \<open>auto simp: sched_ok_def task_links_def\<close>)
  moreover have "interrupt_handler sc 0x20 f s = Some (Entered (registers_of u) s2)"
    using cb save n(1) by (simp add: interrupt_handler_def idt_clock_def enter_next_def and_then_def)
  moreover have "interrupts s2 = interrupts s" "procs s2 = procs s" using task_next_frame [OF n(1)] by (simp_all add: s1_def)
  ultimately show thesis
    using t(1) n(3-7) by (intro that [of u ?s t]) (simp_all add: interrupt_entry_def s1_def)
qed

text \<open>Clock interrupts, each with the frame of the task it stops; the registers user mode goes on with.\<close>

fun clock_run :: "u32 \<Rightarrow> u32 \<Rightarrow> u8 \<Rightarrow> interrupt_frame list \<Rightarrow> registers \<Rightarrow> kernel \<Rightarrow> (registers \<times> kernel) option" where
  "clock_run kebp kfl sc [] regs s = Some (regs, s)"
| "clock_run kebp kfl sc (f # fs) regs s =
     do { (regs', s') \<leftarrow> interrupt_entry kebp kfl sc 0x20 f s; clock_run kebp kfl sc fs regs' s' }"

lemma clock_run_snoc:
  "clock_run kebp kfl sc (fs @ [f]) regs s =
     do { (regs1, s1) \<leftarrow> clock_run kebp kfl sc fs regs s; interrupt_entry kebp kfl sc 0x20 f s1 }"
  by (induction fs arbitrary: regs s) (auto split: bind_splits)

lemma clock_run_ok:
  assumes "sched_ok m0 s ps" "i < length ps" "current_task s = ps ! i"
    and "arr_get (interrupt_callbacks (interrupts s)) 0x20 = Some (Some Idt_clock)"
  shows "length fs \<le> length ps \<Longrightarrow> \<exists>regs' s'. clock_run kebp kfl sc fs regs s = Some (regs', s') \<and> sched_ok m0 s' ps \<and>
     current_task s' = ps ! ((i + length fs) mod length ps) \<and> interrupts s' = interrupts s \<and> mem s' = mem s \<and> procs s' = procs s \<and>
     (\<forall>q. map_option page_directory (tasks s' q) = map_option page_directory (tasks s q)) \<and>
     (\<forall>j < length fs. map_option registers_of (tasks s' (ps ! ((i + j) mod length ps))) = Some (frame_registers (fs ! j))) \<and>
     (fs \<noteq> [] \<longrightarrow> (\<exists>u. tasks s' (current_task s') = Some u \<and> regs' = task_return kebp kfl (registers_of u) \<and>
        cr3 (cpu s') = load32 (ram (mem s)) (page_directory u) \<and> data_selector s' = ss (registers_of u)))"
proof (induction fs rule: rev_induct)
  case Nil
  then show ?case using assms by simp
next
  case (snoc f fs)
  let ?L = "length ps" and ?i = "(i + length fs) mod length ps"
  obtain regs1 s1 where r: "clock_run kebp kfl sc fs regs s = Some (regs1, s1)" "sched_ok m0 s1 ps" "current_task s1 = ps ! ?i"
    "interrupts s1 = interrupts s" "mem s1 = mem s" "procs s1 = procs s"
    "\<And>q. map_option page_directory (tasks s1 q) = map_option page_directory (tasks s q)"
    "\<And>j. j < length fs \<Longrightarrow> map_option registers_of (tasks s1 (ps ! ((i + j) mod ?L))) = Some (frame_registers (fs ! j))"
    using snoc by auto
  have i1: "?i < ?L" using assms(2) by (intro mod_less_divisor) auto
  have cb: "arr_get (interrupt_callbacks (interrupts s1)) 0x20 = Some (Some Idt_clock)" using assms(4) r(4) by simp
  obtain s' t u where c: "interrupt_entry kebp kfl sc 0x20 f s1 = Some (task_return kebp kfl (registers_of u), s')"
    "sched_ok m0 s' ps" "current_task s' = ps ! (Suc ?i mod ?L)" "tasks s1 (ps ! ?i) = Some t"
    "tasks s' = (tasks s1)(ps ! ?i \<mapsto> t\<lparr>registers_of := frame_registers f\<rparr>)"
    "tasks s' (current_task s') = Some u" "interrupts s' = interrupts s1" "mem s' = mem s1" "procs s' = procs s1"
    "cr3 (cpu s') = load32 (ram (mem s1)) (page_directory u)" "data_selector s' = ss (registers_of u)"
    by (rule clock_interrupt [OF r(2) i1 r(3) cb, of kebp kfl sc f]) (rule that, assumption+)
  have dist: "distinct ps" using assms(1) by (simp add: sched_ok_def task_links_def)
  have ne: "ps ! ((i + j) mod ?L) \<noteq> ps ! ?i" if "j < length fs" for j
  proof
    assume "ps ! ((i + j) mod ?L) = ps ! ?i"
    moreover have "(i + j) mod ?L < ?L" using assms(2) by (intro mod_less_divisor) auto
    ultimately have "(i + j) mod ?L = ?i" using dist i1 by (simp add: nth_eq_iff_index_eq)
    then have "?L dvd length fs - j" using that
      by (metis add_diff_cancel_left less_imp_le mod_eq_dvd_iff_nat nat_add_left_cancel_le)
    moreover have "0 < length fs - j" "length fs - j < ?L" using that snoc.prems by auto
    ultimately show False by (auto dest: nat_dvd_not_less)
  qed
  have "map_option registers_of (tasks s' (ps ! ((i + j) mod ?L))) = Some (frame_registers ((fs @ [f]) ! j))"
    if "j < length (fs @ [f])" for j
    using that ne [of j] r(8) [of j] by (cases "j < length fs") (auto simp: c(5) nth_append less_Suc_eq)
  moreover have "map_option page_directory (tasks s' q) = map_option page_directory (tasks s q)" for q
    using r(7) [of q] c(4) by (auto simp: c(5))
  moreover have "Suc ?i mod ?L = (i + length (fs @ [f])) mod ?L" by (simp add: mod_Suc_eq)
  ultimately show ?case using c r(1,4-6) by (simp add: clock_run_snoc)
qed

text \<open>
  C11. Context switch (idt.c, task.c, task.asm). Take tasks in a well-formed list, the current one stopped by the clock with
  any registers in its frame, and then every other task stopped once, with any frames. The last interrupt
  enters the first task again, in its address space, with exactly the registers it was stopped with, except two:
  \<open>ebp\<close> is the kernel's, because \<open>restore_general_purpose_registers\<close> loads it and then pops the value it pushed on
  entry into it, and the flags are the kernel's with interrupts enabled. Memory and processes are untouched.
\<close>

theorem context_switch_round:
  assumes "sched_ok m0 s ps" "i < length ps" "current_task s = ps ! i"
    and "arr_get (interrupt_callbacks (interrupts s)) 0x20 = Some (Some Idt_clock)"
    and "length (f # fs) = length ps"
  shows "\<exists>s' t. clock_run kebp kfl sc (f # fs) regs s =
      Some ((frame_registers f)\<lparr>ebp := kebp, eflags := kfl OR 0x200\<rparr>, s') \<and>
    tasks s (current_task s) = Some t \<and> current_task s' = current_task s \<and>
    cr3 (cpu s') = load32 (ram (mem s)) (page_directory t) \<and> data_selector s' = frame_ss f \<and>
    mem s' = mem s \<and> procs s' = procs s \<and> sched_ok m0 s' ps"
proof -
  obtain t where t: "tasks s (ps ! i) = Some t" by (rule sched_ok_current [OF assms(1-3)])
  from clock_run_ok [OF assms(1-4), of "f # fs" kebp kfl sc regs] assms(5) obtain regs' s' u
    where r: "clock_run kebp kfl sc (f # fs) regs s = Some (regs', s')" "sched_ok m0 s' ps"
      "current_task s' = ps ! ((i + length (f # fs)) mod length ps)" "mem s' = mem s" "procs s' = procs s"
      "\<forall>q. map_option page_directory (tasks s' q) = map_option page_directory (tasks s q)"
      "\<forall>j < length (f # fs). map_option registers_of (tasks s' (ps ! ((i + j) mod length ps))) = Some (frame_registers ((f # fs) ! j))"
      "tasks s' (current_task s') = Some u" "regs' = task_return kebp kfl (registers_of u)"
      "cr3 (cpu s') = load32 (ram (mem s)) (page_directory u)" "data_selector s' = ss (registers_of u)" by auto
  have cur: "current_task s' = ps ! i" using r(3) assms(2) unfolding assms(5) by simp
  have "page_directory u = page_directory t" using r(6) [rule_format, of "ps ! i"] r(8) t cur by simp
  moreover have "registers_of u = frame_registers f"
    using r(7) [rule_format, of 0] r(8) assms(2) cur by simp
  ultimately show ?thesis
    using r t cur assms(3) by (auto simp: task_return_def frame_registers_def)
qed

text \<open>Two tasks; the first one comes back with its registers after both were stopped.\<close>

definition sample_frame :: "u32 \<Rightarrow> interrupt_frame" where
  "sample_frame v = \<lparr>frame_edi = v, frame_esi = v + 1, frame_ebp = 0x3FEF00, frame_reserved = 0, frame_ebx = v + 2,
     frame_edx = v + 3, frame_ecx = v + 4, frame_eax = v + 5, frame_ip = 0x400010, frame_cs = 0x1b, frame_flags = 0x202,
     frame_esp = 0x3FEE00, frame_ss = 0x23\<rparr>"

theorem context_switch_round_witness:
  "\<exists>p q s s' regs. p \<noteq> q \<and> sched_ok boot_kmem s [p, q] \<and> current_task s = p \<and> current_task s' = p \<and>
     clock_run 0x5FFF00 0x46 0 [sample_frame 10, sample_frame 20] zero_registers s = Some (regs, s') \<and>
     edi regs = 10 \<and> eax regs = 15 \<and> ip regs = 0x400010 \<and> ebp regs = 0x5FFF00"
proof -
  obtain p q s1 s2 where n: "sched_ok boot_kmem s2 [p, q]" "current_task s2 = p" by (rule sample_two_tasks)
  define s where "s = s2\<lparr>interrupts := interrupt_statics\<lparr>interrupt_callbacks := (replicate 512 None)[0x20 := Some Idt_clock]\<rparr>\<rparr>"
  have ok: "sched_ok boot_kmem s [p, q]"
    by (rule sched_ok_core [OF n(1)]) (use n in \<open>auto simp: s_def sched_ok_def task_links_def\<close>)
  have pq: "p \<noteq> q" using n(1) by (simp add: sched_ok_def task_links_def)
  have cb: "arr_get (interrupt_callbacks (interrupts s)) 0x20 = Some (Some Idt_clock)" by (simp add: s_def arr_get_def)
  have cur: "current_task s = [p, q] ! 0" using n(2) by (simp add: s_def)
  from context_switch_round [OF ok _ cur cb, of "sample_frame 10" "[sample_frame 20]" "0x5FFF00" "0x46" 0 zero_registers] obtain s'
    where "clock_run 0x5FFF00 0x46 0 [sample_frame 10, sample_frame 20] zero_registers s =
      Some ((frame_registers (sample_frame 10))\<lparr>ebp := 0x5FFF00, eflags := 0x46 OR 0x200\<rparr>, s')" "current_task s' = current_task s" by auto
  then show ?thesis
    using ok pq cur by (intro exI [of _ p] exI [of _ q] exI [of _ s] exI [of _ s'] exI conjI)
      (auto simp: frame_registers_def sample_frame_def)
qed

end
