(* ===== verification/KeyboardProps.thy ===== *)
theory KeyboardProps
  imports Keyboard
begin

text \<open>
  Properties of the keyboard: the ring buffer of a process is a first in, first out queue, and
  a sequence of key events leaves the expected characters in it.
\<close>

section \<open>The queue\<close>

lemma ring_ok_empty: "ring_ok empty_buffer"
  by (simp add: ring_ok_def empty_buffer_def pending_def HARDIKHYPERIONOS_KEYBOARD_BUFFER_SIZE_def)

lemma ring_waiting_empty: "ring_waiting empty_buffer = []"
  by (simp add: ring_waiting_def empty_buffer_def pending_def)

text \<open>
  C20. Along any history of insertions and removals that starts with a well-formed buffer and never
  inserts a null character or finds 1024 characters waiting, \<open>keyboard_pop\<close> returns exactly
  what a first in, first out list would (the null character when nothing waits), the buffer stays
  well formed and holds the characters of the list, although its two counters wrap around 2^32 and
  its positions are taken modulo 1024.
\<close>

theorem keyboard_fifo:
  assumes "ring_ok q" "within HARDIKHYPERIONOS_KEYBOARD_BUFFER_SIZE 0 (length (ring_waiting q)) es"
  shows "fst (run_queue keyboard_push keyboard_pop q es) = fst (run_list 0 (ring_waiting q) es) \<and>
    ring_waiting (snd (run_queue keyboard_push keyboard_pop q es)) = snd (run_list 0 (ring_waiting q) es) \<and>
    ring_ok (snd (run_queue keyboard_push keyboard_pop q es))"
  using assms ring.run_queue_law by (simp add: HARDIKHYPERIONOS_KEYBOARD_BUFFER_SIZE_def)

lemma keyboard_fifo_witness:
  "fst (run_queue keyboard_push keyboard_pop empty_buffer [None, Some 97, Some 98, None, Some 99, None]) = [0, 97, 98]"
  using keyboard_fifo [OF ring_ok_empty, of "[None, Some 97, Some 98, None, Some 99, None]"]
  by (simp add: ring_waiting_empty HARDIKHYPERIONOS_KEYBOARD_BUFFER_SIZE_def)

section \<open>Key events\<close>

lemma table_length: "length keyboard_scan_set_one = 82"
  by (simp add: keyboard_scan_set_one_def chr_def)

lemma upper_table:
  "\<forall>c \<in> set keyboard_scan_set_one. sint c = uint c"
  by (simp add: keyboard_scan_set_one_def chr_def sint_u8)

text \<open>The character of a key: letters are lower case while caps lock is off.\<close>

definition key_char :: "bool \<Rightarrow> u8 \<Rightarrow> u8" where
  "key_char caps sc =
     (let c = (if unat sc < 82 then keyboard_scan_set_one ! unat sc else 0)
      in if \<not> caps \<and> 65 \<le> uint c \<and> uint c \<le> 90 then c + 32 else c)"

lemma scancode_to_char:
  assumes "capslock_state k = (if caps then 1 else 0)" "sc \<noteq> 82"
  shows "classic_keyboard_scancode_to_char k sc = Some (key_char caps sc)"
proof (cases "unat sc < 82")
  case True
  then have "sint (keyboard_scan_set_one ! unat sc) = uint (keyboard_scan_set_one ! unat sc)"
    using upper_table by (simp add: table_length)
  moreover have "uint sc < 82" using True by (metis of_nat_less_iff of_nat_numeral uint_nat)
  ultimately show ?thesis using True assms
    by (simp add: classic_keyboard_scancode_to_char_def table_length arr_get_def key_char_def Let_def
        keyboard_get_capslock_def KEYBOARD_CAPS_LOCK_OFF_def)
next
  case False
  have "unat sc \<noteq> unat (82 :: u8)" using assms(2) by (metis unat_inj_iff)
  with False show ?thesis
    by (simp add: classic_keyboard_scancode_to_char_def table_length key_char_def)
qed

lemma scancode_82: "classic_keyboard_scancode_to_char k 82 = None"
  by (simp add: classic_keyboard_scancode_to_char_def table_length arr_get_def)

text \<open>The text a sequence of scan codes types, and the caps lock state after it.\<close>

fun keys_text :: "bool \<Rightarrow> u8 list \<Rightarrow> u8 list" where
  "keys_text caps [] = []"
| "keys_text caps (sc # scs) =
     (if sc AND 0x80 \<noteq> 0 then keys_text caps scs
      else if sc = 0x3A then keys_text (\<not> caps) scs
      else (if key_char caps sc \<noteq> 0 then [key_char caps sc] else []) @ keys_text caps scs)"

text \<open>A sequence of keyboard interrupts while one process is the current one.\<close>

fun key_events :: "keyboard \<Rightarrow> keyboard_buffer \<Rightarrow> u8 list \<Rightarrow> (keyboard \<times> keyboard_buffer) option" where
  "key_events k q [] = Some (k, q)"
| "key_events k q (sc # scs) =
     (case classic_keyboard_handle_interrupt sc k (Some q) of
        Some (k', Some q') \<Rightarrow> key_events k' q' scs | _ \<Rightarrow> None)"

lemma caps_char: "key_char c 0x3A = 0"
  by (simp add: key_char_def keyboard_scan_set_one_def chr_def Let_def)

lemma handle_key:
  assumes "capslock_state k = (if caps then 1 else 0)" "sc \<noteq> 82"
  shows "classic_keyboard_handle_interrupt sc k (Some q) =
    (if sc AND 0x80 \<noteq> 0 then Some (k, Some q)
     else if sc = 0x3A then Some (k\<lparr>capslock_state := (if caps then 0 else 1)\<rparr>, Some q)
     else Some (k, Some (if key_char caps sc \<noteq> 0 then keyboard_push q (key_char caps sc) else q)))"
proof (cases "sc = 0x3A")
  case True
  have "classic_keyboard_scancode_to_char (k\<lparr>capslock_state := (if caps then 0 else 1)\<rparr>) 0x3A = Some (key_char (\<not> caps) 0x3A)"
    by (rule scancode_to_char) auto
  with True assms(1) show ?thesis
    by (auto simp: classic_keyboard_handle_interrupt_def CLASSIC_KEYBOARD_KEY_RELEASED_def
        CLASSIC_KEYBOARD_CAPSLOCK_def keyboard_set_capslock_def keyboard_get_capslock_def
        KEYBOARD_CAPS_LOCK_ON_def KEYBOARD_CAPS_LOCK_OFF_def caps_char split: if_splits)
next
  case False
  then show ?thesis
    using scancode_to_char [OF assms]
    by (simp add: classic_keyboard_handle_interrupt_def CLASSIC_KEYBOARD_KEY_RELEASED_def
        CLASSIC_KEYBOARD_CAPSLOCK_def)
qed

lemma key_events_law:
  assumes "ring_ok q" "capslock_state k = (if caps then 1 else 0)" "82 \<notin> set scs"
    "length (ring_waiting q) + length (keys_text caps scs) \<le> 1024"
  shows "\<exists>k' q'. key_events k q scs = Some (k', q') \<and> ring_ok q' \<and>
    ring_waiting q' = ring_waiting q @ keys_text caps scs"
  using assms
proof (induction scs arbitrary: k q caps)
  case (Cons sc scs)
  note h = handle_key [OF Cons.prems(2), of sc q]
  have ne: "sc \<noteq> 82" using Cons.prems(3) by auto
  consider (released) "sc AND 0x80 \<noteq> 0" | (caps) "sc AND 0x80 = 0" "sc = 0x3A"
    | (none) "sc AND 0x80 = 0" "sc \<noteq> 0x3A" "key_char caps sc = 0"
    | (char) "sc AND 0x80 = 0" "sc \<noteq> 0x3A" "key_char caps sc \<noteq> 0" by blast
  then show ?case
  proof cases
    case released
    with Cons.IH [of q k caps] Cons.prems h ne show ?thesis by simp
  next
    case caps
    with Cons.IH [of q "k\<lparr>capslock_state := (if caps then 0 else 1)\<rparr>" "\<not> caps"] Cons.prems h ne
    show ?thesis by auto
  next
    case none
    with Cons.IH [of q k caps] Cons.prems h ne show ?thesis by simp
  next
    case char
    with Cons.prems have "ring_ok (keyboard_push q (key_char caps sc)) \<and>
        ring_waiting (keyboard_push q (key_char caps sc)) = ring_waiting q @ [key_char caps sc]"
      by (intro ring.put_law) auto
    with char Cons.IH [of "keyboard_push q (key_char caps sc)" k caps] Cons.prems h ne show ?thesis by simp
  qed
qed simp

text \<open>
  C34. A sequence of keyboard interrupts that fits in the buffer of the current process appends exactly
  the text it types: key releases type nothing, caps lock toggles the case of the letters after it,
  a code outside the table types nothing. The one exception is the code 82, the length of the
  table, which the check of the bound lets through: the table is read one past its end.
\<close>

theorem keyboard_types_text:
  assumes "ring_ok q" "capslock_state k = (if caps then KEYBOARD_CAPS_LOCK_ON else KEYBOARD_CAPS_LOCK_OFF)"
  shows "(82 \<notin> set scs \<and> length (ring_waiting q) + length (keys_text caps scs) \<le> 1024 \<longrightarrow>
     (\<exists>k' q'. key_events k q scs = Some (k', q') \<and> ring_ok q' \<and>
        ring_waiting q' = ring_waiting q @ keys_text caps scs)) \<and>
     classic_keyboard_handle_interrupt 82 k b = None"
proof
  show "82 \<notin> set scs \<and> length (ring_waiting q) + length (keys_text caps scs) \<le> 1024 \<longrightarrow>
     (\<exists>k' q'. key_events k q scs = Some (k', q') \<and> ring_ok q' \<and>
        ring_waiting q' = ring_waiting q @ keys_text caps scs)"
    using assms key_events_law by (simp add: KEYBOARD_CAPS_LOCK_ON_def KEYBOARD_CAPS_LOCK_OFF_def)
  show "classic_keyboard_handle_interrupt 82 k b = None"
    using scancode_82 by (simp add: classic_keyboard_handle_interrupt_def CLASSIC_KEYBOARD_KEY_RELEASED_def
        CLASSIC_KEYBOARD_CAPSLOCK_def)
qed

text \<open>The keys A, caps lock, A, and the release of A type \<open>aA\<close>.\<close>

lemma keyboard_types_text_witness:
  "(\<exists>k' q'. key_events classic_keyboard empty_buffer [0x1E, 0x3A, 0x1E, 0x9E] = Some (k', q') \<and>
     ring_ok q' \<and> ring_waiting q' = [97, 65])"
proof -
  have k: "keys_text False [0x1E, 0x3A, 0x1E, 0x9E] = [97, 65]"
    by (simp add: key_char_def keyboard_scan_set_one_def chr_def)
  show ?thesis
    using keyboard_types_text [of empty_buffer classic_keyboard False "[0x1E, 0x3A, 0x1E, 0x9E]" None]
    unfolding k by (simp add: ring_ok_empty ring_waiting_empty classic_keyboard_def)
qed

end
