(* ===== verification/SyscallProps.thy ===== *)
theory SyscallProps
  imports ContextSwitch KeyboardProps
begin

text \<open>
  Commands from the user's side: a computation on the stack of the task, a key from the keyboard to the process
  that asks for it, and the arguments of a program, which are written without looking at the page.
\<close>

section \<open>The wrapper\<close>

definition saved :: "interrupt_frame \<Rightarrow> task \<Rightarrow> kernel \<Rightarrow> kernel" where
  "saved f t s = (kernel_page s)\<lparr>tasks := (tasks s)(current_task s \<mapsto> t\<lparr>registers_of := frame_registers f\<rparr>)\<rparr>"

lemma saved_fields [simp]:
  "tasks (saved f t s) = (tasks s)(current_task s \<mapsto> t\<lparr>registers_of := frame_registers f\<rparr>)"
  "mem (saved f t s) = mem s" "current_task (saved f t s) = current_task s" "procs (saved f t s) = procs s"
  "interrupts (saved f t s) = interrupts s" "current_process (saved f t s) = current_process s"
  "keyboards (saved f t s) = keyboards s"
  by (simp_all add: saved_def)

lemma saved_state:
  "tasks s (current_task s) = Some t \<Longrightarrow> current_task s \<noteq> 0 \<Longrightarrow>
   task_current_save_state f (kernel_page s) = Some (saved f t s)"
  using task_current_save_value [of "kernel_page s" t f] by (simp add: saved_def)

text \<open>The state in which user mode goes on after a command that left the kernel in \<open>s\<close>.\<close>

definition user_page :: "u32 \<Rightarrow> kernel \<Rightarrow> kernel" where
  "user_page chunk s = switch_page chunk ((user_registers s)\<lparr>current_task := current_task s\<rparr>)"

lemma task_page_value: "tasks s (current_task s) = Some t \<Longrightarrow> task_page s = Some (user_page (page_directory t) s)"
  by (simp add: task_page_def task_switch_def user_page_def user_registers_def)

lemma user_page_fields [simp]:
  "tasks (user_page c s) = tasks s" "mem (user_page c s) = mem s" "current_task (user_page c s) = current_task s"
  "procs (user_page c s) = procs s" "interrupts (user_page c s) = interrupts s" "current_process (user_page c s) = current_process s"
  "keyboards (user_page c s) = keyboards s" "data_selector (user_page c s) = USER_DATA_SEGMENT"
  "cr3 (cpu (user_page c s)) = load32 (ram (mem s)) c"
  by (simp_all add: user_page_def switch_page_def user_registers_def mem_def paging_switch_def)

lemma isr80h_handler_command:
  assumes "tasks s (current_task s) = Some t" "current_task s \<noteq> 0" "unat (frame_eax f) < 1024"
    and "isr80h_commands (interrupts s) ! unat (frame_eax f) = Some c" "length (isr80h_commands (interrupts s)) = 1024"
    and "run_isr80h_command c ops uninit (saved f t s) = Some (Returned v s2)" "tasks s2 (current_task s2) = Some u"
  shows "isr80h_handler ops uninit (sint (frame_eax f)) f s = Some (Returned v (user_page (page_directory u) s2))"
proof -
  have "\<not> (sint (frame_eax f) < 0 \<or> 1024 \<le> sint (frame_eax f))" "sint (frame_eax f) = int (unat (frame_eax f))"
    using sint_index [of 1024 "frame_eax f"] assms(3) by simp_all
  then have "isr80h_handle_command ops uninit (sint (frame_eax f)) (saved f t s) = Some (Returned v s2)"
    using assms(3-6) by (simp add: isr80h_handle_command_def HARDIKHYPERIONOS_MAX_ISR80H_COMMANDS_def arr_get_def)
  then show ?thesis
    using saved_state [OF assms(1,2)] task_page_value [OF assms(7)]
    by (simp add: isr80h_handler_def and_then_def returned_def)
qed

lemma isr80h_wrapper_command:
  assumes "tasks s (current_task s) = Some t" "current_task s \<noteq> 0" "unat (frame_eax f) < 1024"
    and "isr80h_commands (interrupts s) ! unat (frame_eax f) = Some c" "length (isr80h_commands (interrupts s)) = 1024"
    and "run_isr80h_command c ops uninit (saved f t s) = Some (Returned v s2)" "tasks s2 (current_task s2) = Some u"
  shows "isr80h_wrapper kebp kfl ops uninit f s = Some ((frame_registers f)\<lparr>eax := v\<rparr>, user_page (page_directory u) s2)"
  using isr80h_handler_command [OF assms] by (simp add: isr80h_wrapper_def)

text \<open>Reading the user's stack from the kernel.\<close>

lemma task_get_stack_item_value:
  assumes "tasks s task = Some t" "vload32 (ram (mem s)) (load32 (ram (mem s)) (page_directory t)) (esp (registers_of t) + of_nat k * 4) = Some v"
  obtains s' where "task_get_stack_item task k s = Some (v, s')" "mem s' = mem s" "tasks s' = tasks s" "procs s' = procs s"
    "current_task s' = current_task s" "interrupts s' = interrupts s"
proof -
  let ?s = "switch_page (page_directory t) (user_registers s)"
  have m: "mem ?s = mem s" "cr3 (cpu ?s) = load32 (ram (mem s)) (page_directory t)" "tasks ?s = tasks s" "procs ?s = procs s"
    "current_task ?s = current_task s" "interrupts ?s = interrupts s"
    by (simp_all add: switch_page_def user_registers_def mem_def paging_switch_def)
  have "task_get_stack_item task k s = Some (v, kernel_page ?s)"
    using assms m(1,2) by (simp add: task_get_stack_item_def task_page_task_def)
  then show thesis by (rule that) (use m in simp_all)
qed

section \<open>A command of the user\<close>

text \<open>
  Command 0 (misc.c). A task that calls interrupt 0x80 with \<open>eax\<close> 0 and two numbers on its stack, at addresses its own
  page directory maps, goes on with their sum (modulo 2^32) in \<open>eax\<close> and every other register as it was, in its own address
  space; memory and processes are untouched and its task object holds the registers of the call.
\<close>

theorem isr80h_sum_spec:
  assumes "tasks s (current_task s) = Some t" "current_task s \<noteq> 0" "frame_eax f = 0"
    and "isr80h_commands (interrupts s) ! 0 = Some Command0_sum" "length (isr80h_commands (interrupts s)) = 1024"
    and "vload32 (ram (mem s)) (load32 (ram (mem s)) (page_directory t)) (frame_esp f) = Some v1"
    and "vload32 (ram (mem s)) (load32 (ram (mem s)) (page_directory t)) (frame_esp f + 4) = Some v2"
  shows "\<exists>s'. isr80h_wrapper kebp kfl ops uninit f s = Some ((frame_registers f)\<lparr>eax := v1 + v2\<rparr>, s') \<and>
    mem s' = mem s \<and> procs s' = procs s \<and> current_task s' = current_task s \<and> data_selector s' = 0x23 \<and>
    cr3 (cpu s') = load32 (ram (mem s)) (page_directory t) \<and>
    tasks s' = (tasks s)(current_task s \<mapsto> t\<lparr>registers_of := frame_registers f\<rparr>)"
proof -
  let ?t = "t\<lparr>registers_of := frame_registers f\<rparr>" and ?s = "saved f t s"
  have sp: "esp (registers_of ?t) = frame_esp f" by (simp add: frame_registers_def)
  obtain s1 where s1: "task_get_stack_item (current_task s) 1 ?s = Some (v2, s1)" "mem s1 = mem s" "tasks s1 = tasks ?s"
    "procs s1 = procs s" "current_task s1 = current_task s"
    by (rule task_get_stack_item_value [of ?s "current_task s" ?t 1 v2]) (use assms(7) sp in simp_all)
  obtain s2 where s2: "task_get_stack_item (current_task s) 0 s1 = Some (v1, s2)" "mem s2 = mem s" "tasks s2 = tasks ?s"
    "procs s2 = procs s" "current_task s2 = current_task s"
    by (rule task_get_stack_item_value [of s1 "current_task s" ?t 0 v1]) (use assms(6) sp s1 in simp_all)
  have run: "run_isr80h_command Command0_sum ops uninit ?s = Some (Returned (v1 + v2) s2)"
    using s1(1,5) s2(1) by (simp add: isr80h_command0_sum_def returned_def)
  have cur: "tasks s2 (current_task s2) = Some ?t" using s2(3,5) by simp
  have k: "unat (frame_eax f) < 1024" "isr80h_commands (interrupts s) ! unat (frame_eax f) = Some Command0_sum"
    using assms(3,4) by simp_all
  from isr80h_wrapper_command [OF assms(1,2) k assms(5) run cur] s2 show ?thesis
    by (auto simp: USER_DATA_SEGMENT_def)
qed

text \<open>
  A kernel whose memory is full of bytes 1: every page of the task is present, readable from the kernel only, and leads to
  the frame 0x01010000.
\<close>

definition ones_kernel :: kernel where
  "ones_kernel = (set_ram (\<lambda>_. 1) sample_kernel)\<lparr>tasks := [0x5000 \<mapsto> zero_task\<lparr>process_of := 0x3000\<rparr>], current_task := 0x5000,
     keyboards := [classic_keyboard],
     interrupts := interrupt_statics\<lparr>isr80h_commands := map Some the_commands @ replicate 1014 None,
       interrupt_callbacks := (replicate 512 None)[0x21 := Some Classic_keyboard_handle_interrupt]\<rparr>\<rparr>"

lemma ones_ram: "ram (mem ones_kernel) = (\<lambda>_. 1)"
  by (simp add: ones_kernel_def set_ram_def)

lemma ones_load: "load32 (\<lambda>_. 1) a = 0x01010101"
  by (simp add: load32_def)

lemma ones_vload: "vload32 (\<lambda>_. 1) d v = Some 0x01010101"
  by (simp add: vload32_def vload_def mapped_def ones_load paging_get_def Let_def)

lemma ones_fields:
  "tasks ones_kernel (current_task ones_kernel) = Some (zero_task\<lparr>process_of := 0x3000\<rparr>)" "current_task ones_kernel \<noteq> 0"
  "length (isr80h_commands (interrupts ones_kernel)) = 1024" "procs ones_kernel = [0x3000 \<mapsto> sample_process]"
  "current_process ones_kernel = 0x3000" "keyboards ones_kernel = [classic_keyboard]"
  "k < 10 \<Longrightarrow> isr80h_commands (interrupts ones_kernel) ! k = Some (the_commands ! k)"
  "arr_get (interrupt_callbacks (interrupts ones_kernel)) 0x21 = Some (Some Classic_keyboard_handle_interrupt)"
  by (simp_all add: ones_kernel_def sample_kernel_def nth_append arr_get_def set_ram_def)

theorem isr80h_sum_spec_witness:
  "\<exists>s'. isr80h_wrapper 0 0 (\<lambda>_. fat16_fs (sample_ata (\<lambda>_. 0))) (\<lambda>n. replicate n 0) ((sample_frame 7)\<lparr>frame_eax := 0\<rparr>) ones_kernel =
     Some ((frame_registers (sample_frame 7))\<lparr>eax := 0x02020202\<rparr>, s')"
proof -
  have "isr80h_commands (interrupts ones_kernel) ! 0 = Some Command0_sum"
    using ones_fields(7) [of 0] by (simp add: the_commands_def)
  from isr80h_sum_spec [OF ones_fields(1,2) _ this ones_fields(3), where f = "(sample_frame 7)\<lparr>frame_eax := 0\<rparr>", of
      "0x01010101" "0x01010101" 0 0 "\<lambda>_. fat16_fs (sample_ata (\<lambda>_. 0))" "\<lambda>n. replicate n 0"]
  show ?thesis by (auto simp: ones_ram ones_vload frame_registers_def)
qed

section \<open>The arguments of a program\<close>

lemma arguments_command:
  fixes f s t
  defines "d \<equiv> load32 (ram (mem s)) (page_directory t)"
  assumes "tasks s (current_task s) = Some t" "current_task s \<noteq> 0" "frame_eax f = 8"
    and "isr80h_commands (interrupts s) ! 8 = Some Command8_get_program_arguments" "length (isr80h_commands (interrupts s)) = 1024"
    and "vload32 (ram (mem s)) d (frame_esp f) = Some v" "procs s (process_of t) = Some p"
  obtains s' where "isr80h_wrapper kebp kfl ops uninit f s = Some ((frame_registers f)\<lparr>eax := 0\<rparr>, s')"
    "mem s' = (mem s)\<lparr>ram := store32 (store32 (ram (mem s)) (paging_get_physical_address (ram (mem s)) d v) (argc p))
      (paging_get_physical_address (ram (mem s)) d v + 4) (argv p)\<rparr>"
    "procs s' = procs s" "current_task s' = current_task s" "interrupts s' = interrupts s"
    "tasks s' = (tasks s)(current_task s \<mapsto> t\<lparr>registers_of := frame_registers f\<rparr>)"
    "cr3 (cpu s') = load32 (ram (mem s')) (page_directory t)"
    "isr80h_handler ops uninit (sint (frame_eax f)) f s = Some (Returned 0 s')"
proof -
  let ?t = "t\<lparr>registers_of := frame_registers f\<rparr>" and ?s = "saved f t s"
  have sp: "esp (registers_of ?t) = frame_esp f" by (simp add: frame_registers_def)
  obtain s1 where s1: "task_get_stack_item (current_task s) 0 ?s = Some (v, s1)" "mem s1 = mem s" "tasks s1 = tasks ?s"
    "procs s1 = procs s" "current_task s1 = current_task s" "interrupts s1 = interrupts s"
    by (rule task_get_stack_item_value [of ?s "current_task s" ?t 0 v]) (use assms(7) sp in \<open>simp_all add: d_def\<close>)
  define a where "a = paging_get_physical_address (ram (mem s)) d v"
  define s2 where "s2 = set_ram (store32 (store32 (ram (mem s1)) a (argc p)) (a + 4) (argv p)) s1"
  have "calling_process ?s = Some (process_of t)" by (simp add: calling_process_def)
  moreover have "task_virtual_address_to_physical (current_task s1) v s1 = Some a"
    using s1 by (simp add: task_virtual_address_to_physical_def a_def d_def)
  ultimately have run: "run_isr80h_command Command8_get_program_arguments ops uninit ?s = Some (Returned 0 s2)"
    using s1 assms(8) by (simp add: isr80h_command8_get_program_arguments_def process_get_arguments_def s2_def returned_def)
  have s2': "current_task s2 = current_task s" "tasks s2 = tasks ?s" "procs s2 = procs s" "interrupts s2 = interrupts s"
    "mem s2 = (mem s)\<lparr>ram := store32 (store32 (ram (mem s)) a (argc p)) (a + 4) (argv p)\<rparr>"
    using s1 by (simp_all add: s2_def set_ram_def)
  then have cur: "tasks s2 (current_task s2) = Some ?t" by simp
  have k: "unat (frame_eax f) < 1024" "isr80h_commands (interrupts s) ! unat (frame_eax f) = Some Command8_get_program_arguments"
    using assms(4,5) by simp_all
  show thesis
    by (rule that [OF isr80h_wrapper_command [OF assms(2,3) k assms(6) run cur] _ _ _ _ _ _ isr80h_handler_command [OF assms(2,3) k assms(6) run cur]])
      (use s2' in \<open>simp_all add: a_def\<close>)
qed

text \<open>
  C39. Command 8 (process.c) writes the number and address of the arguments of the calling process to the address on the
  stack of the task. It translates that address and writes there with no look at the flags of the page: a page
  that the user may only read, or may not reach at all, is written just the same.
\<close>

theorem isr80h_arguments_unchecked:
  fixes f s t
  defines "d \<equiv> load32 (ram (mem s)) (page_directory t)"
  assumes "tasks s (current_task s) = Some t" "current_task s \<noteq> 0" "frame_eax f = 8"
    and "isr80h_commands (interrupts s) ! 8 = Some Command8_get_program_arguments" "length (isr80h_commands (interrupts s)) = 1024"
    and "vload32 (ram (mem s)) d (frame_esp f) = Some v" "procs s (process_of t) = Some p"
  shows "\<exists>s'. isr80h_wrapper kebp kfl ops uninit f s = Some ((frame_registers f)\<lparr>eax := 0\<rparr>, s') \<and>
    mem s' = (mem s)\<lparr>ram := store32 (store32 (ram (mem s)) (paging_get_physical_address (ram (mem s)) d v) (argc p))
      (paging_get_physical_address (ram (mem s)) d v + 4) (argv p)\<rparr>"
proof -
  obtain s' where "isr80h_wrapper kebp kfl ops uninit f s = Some ((frame_registers f)\<lparr>eax := 0\<rparr>, s')"
    "mem s' = (mem s)\<lparr>ram := store32 (store32 (ram (mem s)) (paging_get_physical_address (ram (mem s)) d v) (argc p))
      (paging_get_physical_address (ram (mem s)) d v + 4) (argv p)\<rparr>"
    by (rule arguments_command [OF assms(2-6) assms(7) [unfolded d_def] assms(8), folded d_def]) (rule that, assumption+)
  then show ?thesis by blast
qed

text \<open>The page of address 0x01010101 is not writable, and the number of arguments is written to its frame.\<close>

theorem isr80h_arguments_unchecked_witness:
  "\<not> bit (paging_get (\<lambda>_. 1) 0x01010101 0x01010000) 1 \<and>
   (\<exists>s'. isr80h_wrapper 0 0 (\<lambda>_. fat16_fs (sample_ata (\<lambda>_. 0))) (\<lambda>n. replicate n 0) ((sample_frame 7)\<lparr>frame_eax := 8\<rparr>) ones_kernel =
     Some ((frame_registers (sample_frame 7))\<lparr>eax := 0\<rparr>, s') \<and> ram (mem s') 0x01010101 = 0)"
proof -
  have "isr80h_commands (interrupts ones_kernel) ! 8 = Some Command8_get_program_arguments"
    using ones_fields(7) [of 8] by (simp add: the_commands_def)
  from isr80h_arguments_unchecked [OF ones_fields(1,2) _ this ones_fields(3), where f = "(sample_frame 7)\<lparr>frame_eax := 8\<rparr>",
      where v = "0x01010101" and p = sample_process and kebp = 0 and kfl = 0 and
      ops = "\<lambda>_. fat16_fs (sample_ata (\<lambda>_. 0))" and uninit = "\<lambda>n. replicate n 0"]
  obtain s' where s': "isr80h_wrapper 0 0 (\<lambda>_. fat16_fs (sample_ata (\<lambda>_. 0))) (\<lambda>n. replicate n 0)
      ((sample_frame 7)\<lparr>frame_eax := 8\<rparr>) ones_kernel = Some ((frame_registers (sample_frame 7))\<lparr>eax := 0\<rparr>, s')"
    "mem s' = (mem ones_kernel)\<lparr>ram := store32 (store32 (\<lambda>_. 1) 0x01010101 0) 0x01010105 0\<rparr>"
    by (auto simp: ones_ram ones_vload ones_load ones_fields frame_registers_def zero_task_def paging_get_physical_address_def
        paging_align_to_lower_page_def PAGING_PAGE_SIZE_def paging_get_def sample_process_def zero_process_def)
  moreover have "store32 (store32 (\<lambda>_. 1) 0x01010101 0) 0x01010105 0 0x01010101 = 0" by (simp add: store32_def)
  ultimately show ?thesis by (auto simp: ones_load paging_get_def Let_def)
qed

section \<open>A key\<close>

lemma keyboard_callback_key:
  assumes "tasks s (current_task s) = Some t" "current_process s \<noteq> 0" "procs s (current_process s) = Some p"
    and "keyboards s = k # ks" "scancode AND 0x80 = 0" "scancode \<noteq> 0x3A"
    and "classic_keyboard_scancode_to_char k scancode = Some c" "c \<noteq> 0"
  obtains s' where "keyboard_callback scancode s = Some (Returned 0 s')" "tasks s' = tasks s" "current_task s' = current_task s"
    "procs s' = (procs s)(current_process s \<mapsto> p\<lparr>keys := keyboard_push (keys p) c\<rparr>)" "mem s' = mem s"
    "interrupts s' = interrupts s" "current_process s' = current_process s"
proof -
  define s1 where "s1 = (kernel_page s)\<lparr>keyboards := k # ks, procs := (procs s)(current_process s \<mapsto> p\<lparr>keys := keyboard_push (keys p) c\<rparr>)\<rparr>"
  have "classic_keyboard_handle_interrupt scancode k (Some (keys p)) = Some (k, Some (keyboard_push (keys p) c))"
    using assms(5-8) by (simp add: classic_keyboard_handle_interrupt_def CLASSIC_KEYBOARD_KEY_RELEASED_def CLASSIC_KEYBOARD_CAPSLOCK_def)
  moreover have "task_page s1 = Some (user_page (page_directory t) s1)"
    using assms(1) by (intro task_page_value) (simp add: s1_def)
  ultimately have "keyboard_callback scancode s = Some (Returned 0 (user_page (page_directory t) s1))"
    using assms(2-5) by (simp add: keyboard_callback_def arr_get_def arr_set_def put_process_def returned_def s1_def
        CLASSIC_KEYBOARD_KEY_RELEASED_def Let_def)
  then show thesis by (rule that) (simp_all add: s1_def)
qed

text \<open>
  C15. From the key to the program (idt.c, classic.c, keyboard.c, io.c). A key is pressed while a task of the current process runs:
  the interrupt 0x21 resumes the task with all its registers, and the next call of command 2 returns the oldest
  character that waits, the new one if none did; after it the others wait in order. All other registers
  and memory are untouched.
\<close>

theorem key_reaches_process:
  assumes "tasks s (current_task s) = Some t" "current_task s \<noteq> 0" "process_of t = current_process s" "current_process s \<noteq> 0"
    and "procs s (current_process s) = Some p" "keyboards s = k # ks" "frame_eax g = 2"
    and "arr_get (interrupt_callbacks (interrupts s)) 0x21 = Some (Some Classic_keyboard_handle_interrupt)"
    and "isr80h_commands (interrupts s) ! 2 = Some Command2_getkey" "length (isr80h_commands (interrupts s)) = 1024"
    and "ring_ok (keys p)" "length (ring_waiting (keys p)) < 1024"
    and "scancode AND 0x80 = 0" "scancode \<noteq> 0x3A" "classic_keyboard_scancode_to_char k scancode = Some c" "c \<noteq> 0"
  shows "\<exists>s1 s2 p2. interrupt_entry kebp kfl scancode 0x21 f s = Some (frame_registers f, s1) \<and>
    isr80h_wrapper kebp kfl ops uninit g s1 =
      Some ((frame_registers g)\<lparr>eax := scast (hd (ring_waiting (keys p) @ [c]))\<rparr>, s2) \<and>
    procs s2 (current_process s) = Some p2 \<and> ring_ok (keys p2) \<and>
    ring_waiting (keys p2) = tl (ring_waiting (keys p) @ [c]) \<and> mem s2 = mem s"
proof -
  let ?t = "t\<lparr>registers_of := frame_registers f\<rparr>" and ?s = "saved f t s" and ?q = "keyboard_push (keys p) c"
  let ?p = "p\<lparr>keys := ?q\<rparr>"
  have cur: "tasks ?s (current_task ?s) = Some ?t" by simp
  have pr: "current_process ?s \<noteq> 0" "procs ?s (current_process ?s) = Some p" "keyboards ?s = k # ks"
    using assms(4-6) by simp_all
  obtain s0 where s0: "keyboard_callback scancode ?s = Some (Returned 0 s0)" "tasks s0 = tasks ?s" "current_task s0 = current_task s"
    "procs s0 = (procs s)(current_process s \<mapsto> ?p)" "mem s0 = mem s"
    "interrupts s0 = interrupts s" "current_process s0 = current_process s"
    by (rule keyboard_callback_key [OF cur pr assms(13-16)]) auto
  define s1 where "s1 = user_page (page_directory t) s0"
  have page: "task_page s0 = Some s1" using task_page_value [of s0 ?t] s0(2,3) by (simp add: s1_def)
  have int: "interrupt_entry kebp kfl scancode 0x21 f s = Some (frame_registers f, s1)"
    using assms(8) saved_state [OF assms(1,2)] s0(1) page
    by (simp add: interrupt_entry_def interrupt_handler_def and_then_def returned_def)
  have r: "ring_ok ?q" "ring_waiting ?q = ring_waiting (keys p) @ [c]"
    using ring.put_law [OF assms(11,16,12)] by simp_all
  have "ring_waiting ?q \<noteq> []" by (simp add: r(2))
  then obtain x xs where w: "ring_waiting ?q = x # xs" by (meson neq_Nil_conv)
  obtain q' where q': "keyboard_pop ?q = (x, q')" "ring_ok q'" "ring_waiting q' = xs"
    using ring.get_law [OF r(1) w] by (metis prod.collapse)
  let ?t1 = "?t\<lparr>registers_of := frame_registers g\<rparr>" and ?s1 = "saved g ?t s1"
  define s2 where "s2 = ?s1\<lparr>procs := (procs s1)(current_process s \<mapsto> ?p\<lparr>keys := q'\<rparr>)\<rparr>"
  have c1: "tasks s1 (current_task s1) = Some ?t" "current_task s1 \<noteq> 0" using s0(2,3) assms(2) by (simp_all add: s1_def)
  have "task_keyboard_pop ?s1 = Some (x, s2)"
    using c1 assms(3) s0(4) q'(1) by (simp add: task_keyboard_pop_def calling_process_def put_process_def s2_def s1_def)
  then have run: "run_isr80h_command Command2_getkey ops uninit ?s1 = Some (Returned (scast x) s2)"
    by (simp add: isr80h_command2_getkey_def returned_def)
  have k: "unat (frame_eax g) < 1024" "isr80h_commands (interrupts s1) ! unat (frame_eax g) = Some Command2_getkey"
    "length (isr80h_commands (interrupts s1)) = 1024"
    using assms(7,9,10) s0(6) by (simp_all add: s1_def)
  have c2: "tasks s2 (current_task s2) = Some ?t1" by (simp add: s2_def)
  have wrap: "isr80h_wrapper kebp kfl ops uninit g s1 = Some ((frame_registers g)\<lparr>eax := scast x\<rparr>, user_page (page_directory ?t1) s2)"
    by (rule isr80h_wrapper_command [OF c1 k run c2])
  have "hd (ring_waiting (keys p) @ [c]) = x" "tl (ring_waiting (keys p) @ [c]) = xs"
    unfolding r(2) [symmetric] w by simp_all
  with int wrap q'(2,3) s0(5) show ?thesis
    by (intro exI [of _ s1] exI [of _ "user_page (page_directory ?t1) s2"] exI [of _ "?p\<lparr>keys := q'\<rparr>"])
      (simp add: s2_def s1_def)
qed

text \<open>The key A while nothing waits.\<close>

theorem key_reaches_process_witness:
  "\<exists>s1 s2. interrupt_entry 0 0 0x1E 0x21 (sample_frame 7) ones_kernel = Some (frame_registers (sample_frame 7), s1) \<and>
     isr80h_wrapper 0 0 (\<lambda>_. fat16_fs (sample_ata (\<lambda>_. 0))) (\<lambda>n. replicate n 0) ((sample_frame 7)\<lparr>frame_eax := 2\<rparr>) s1 =
       Some ((frame_registers (sample_frame 7))\<lparr>eax := 0x61\<rparr>, s2)"
proof -
  have cmd: "isr80h_commands (interrupts ones_kernel) ! 2 = Some Command2_getkey"
    using ones_fields(7) [of 2] by (simp add: the_commands_def)
  have p: "ring_ok (keys sample_process)" "ring_waiting (keys sample_process) = []"
    by (simp_all add: sample_process_def zero_process_def ring_ok_def ring_waiting_def pending_def empty_buffer_def
        HARDIKHYPERIONOS_KEYBOARD_BUFFER_SIZE_def)
  have c: "classic_keyboard_scancode_to_char classic_keyboard 0x1E = Some 0x61"
    by (simp add: classic_keyboard_scancode_to_char_def keyboard_scan_set_one_def arr_get_def chr_def classic_keyboard_def
        keyboard_get_capslock_def nth_append)
  have t: "process_of (zero_task\<lparr>process_of := 0x3000\<rparr>) = current_process ones_kernel"
    "procs ones_kernel (current_process ones_kernel) = Some sample_process" "current_process ones_kernel \<noteq> 0"
    by (simp_all add: ones_fields)
  have r: "(frame_registers ((sample_frame 7)\<lparr>frame_eax := 2\<rparr>))\<lparr>eax := v\<rparr> = (frame_registers (sample_frame 7))\<lparr>eax := v\<rparr>" for v
    by (simp add: frame_registers_def)
  from key_reaches_process [OF ones_fields(1,2) t(1,3,2) ones_fields(6) _ ones_fields(8) cmd ones_fields(3) p(1) _ _ _ c, of
      "(sample_frame 7)\<lparr>frame_eax := 2\<rparr>" 0 0 "sample_frame 7" "\<lambda>_. fat16_fs (sample_ata (\<lambda>_. 0))" "\<lambda>n. replicate n 0"] p(2)
  show ?thesis by (auto simp: r)
qed

end
