(* ===== verification/UserStart.thy ===== *)
theory UserStart
  imports Arguments SyscallProps
begin

text \<open>
  The start of a user program: the stubs of \<open>src/programs/stdlib/src/hardikhyperionos.asm\<close> on the registers and the stack
  of the program, \<open>start.asm\<close>, \<open>start.c\<close> and \<open>src/programs/blank/blank.c\<close>. The program runs in its own
  address space: it reads and writes memory through \<open>user_load\<close> and \<open>user_store\<close>, a page it may not reach gives
  no result. \<open>trap\<close> is the instruction \<open>int 0x80\<close>. A trap either comes back or enters another task; then the processor goes on with
  that task's instructions, and the run of this program ends here.
\<close>

section \<open>Instructions\<close>

type_synonym user_state = "registers \<times> kernel"

text \<open>The program goes on, or the processor has left it with these registers.\<close>

datatype user_outcome = Here user_state | Away user_state

type_synonym user_trap = "interrupt_frame \<Rightarrow> kernel \<Rightarrow> user_outcome option"
type_synonym user_code = "user_state \<Rightarrow> user_outcome option"

definition user_then :: "user_outcome option \<Rightarrow> user_code \<Rightarrow> user_outcome option" where
  "user_then out f = (case out of None \<Rightarrow> None | Some (Away u) \<Rightarrow> Some (Away u) | Some (Here u) \<Rightarrow> f u)"

definition user_here :: "user_state option \<Rightarrow> user_outcome option" where
  "user_here out = map_option Here out"

text \<open>The kernel's entry for interrupt 0x80: it comes back when the handler of the command returned.\<close>

definition isr80h_trap :: "u32 \<Rightarrow> u32 \<Rightarrow> (fs_ref \<Rightarrow> fs_ops) \<Rightarrow> (nat \<Rightarrow> u8 list) \<Rightarrow> user_trap" where
  "isr80h_trap kernel_ebp kernel_flags ops uninit frame s =
     do { u \<leftarrow> isr80h_wrapper kernel_ebp kernel_flags ops uninit frame s;
          out \<leftarrow> isr80h_handler ops uninit (sint (frame_eax frame)) frame s;
          Some (case out of Returned _ _ \<Rightarrow> Here u | Entered _ _ \<Rightarrow> Away u) }"

definition user_store32 :: "ram \<Rightarrow> u32 \<Rightarrow> u32 \<Rightarrow> u32 \<Rightarrow> ram option" where
  "user_store32 m dir v x =
     do { m1 \<leftarrow> user_store m dir v (ucast x); m2 \<leftarrow> user_store m1 dir (v + 1) (ucast (drop_bit 8 x));
          m3 \<leftarrow> user_store m2 dir (v + 2) (ucast (drop_bit 16 x)); user_store m3 dir (v + 3) (ucast (drop_bit 24 x)) }"

definition user_read :: "u32 \<Rightarrow> user_state \<Rightarrow> u32 option" where
  "user_read v u = user_load32 (ram (mem (snd u))) (cr3 (cpu (snd u))) v"

definition user_push :: "u32 \<Rightarrow> user_state \<Rightarrow> user_state option" where
  "user_push x u =
     (let (r, s) = u; top = esp r - 4
      in do { m \<leftarrow> user_store32 (ram (mem s)) (cr3 (cpu s)) top x; Some (r\<lparr>esp := top\<rparr>, set_ram m s) })"

definition user_pop :: "user_state \<Rightarrow> (u32 \<times> user_state) option" where
  "user_pop u = do { x \<leftarrow> user_read (esp (fst u)) u; Some (x, (fst u)\<lparr>esp := esp (fst u) + 4\<rparr>, snd u) }"

definition trap_frame :: "registers \<Rightarrow> interrupt_frame" where
  "trap_frame r = \<lparr>frame_edi = edi r, frame_esi = esi r, frame_ebp = ebp r, frame_reserved = 0, frame_ebx = ebx r,
     frame_edx = edx r, frame_ecx = ecx r, frame_eax = eax r, frame_ip = ip r, frame_cs = cs r, frame_flags = eflags r,
     frame_esp = esp r, frame_ss = ss r\<rparr>"

section \<open>hardikhyperionos.asm\<close>

text \<open>\<open>push ebp; mov ebp, esp\<close>, \<open>push dword [ebp+8]\<close>, \<open>mov eax, n\<close>, \<open>int 0x80\<close>, and the end of a stub.\<close>

definition stub_enter :: "user_state \<Rightarrow> user_state option" where
  "stub_enter u = do { (r, s) \<leftarrow> user_push (ebp (fst u)) u; Some (r\<lparr>ebp := esp r\<rparr>, s) }"

definition stub_argument :: "user_state \<Rightarrow> user_state option" where
  "stub_argument u = do { x \<leftarrow> user_read (ebp (fst u) + 8) u; user_push x u }"

definition stub_trap :: "user_trap \<Rightarrow> u32 \<Rightarrow> user_code" where
  "stub_trap trap n u = trap (trap_frame ((fst u)\<lparr>eax := n\<rparr>)) (snd u)"

definition stub_return :: "user_state \<Rightarrow> user_state option" where
  "stub_return u =
     do { (b, r, s) \<leftarrow> user_pop u;
          (a, r', s') \<leftarrow> user_pop (r\<lparr>ebp := b\<rparr>, s);
          Some (r'\<lparr>ip := a\<rparr>, s') }"

definition stub_with_argument :: "user_trap \<Rightarrow> u32 \<Rightarrow> user_code" where
  "stub_with_argument trap n u =
     do { u1 \<leftarrow> stub_enter u; u2 \<leftarrow> stub_argument u1;
          user_then (stub_trap trap n u2) (\<lambda>(r, s). user_here (stub_return (r\<lparr>esp := esp r + 4\<rparr>, s))) }"

definition stub_without_argument :: "user_trap \<Rightarrow> u32 \<Rightarrow> user_code" where
  "stub_without_argument trap n u =
     do { u1 \<leftarrow> stub_enter u; user_then (stub_trap trap n u1) (\<lambda>u2. user_here (stub_return u2)) }"

definition asm_print :: "user_trap \<Rightarrow> user_code" where
  "asm_print trap u = stub_with_argument trap 1 u"
definition asm_getkey :: "user_trap \<Rightarrow> user_code" where
  "asm_getkey trap u = stub_without_argument trap 2 u"
definition asm_putchar :: "user_trap \<Rightarrow> user_code" where
  "asm_putchar trap u = stub_with_argument trap 3 u"
definition asm_malloc :: "user_trap \<Rightarrow> user_code" where
  "asm_malloc trap u = stub_with_argument trap 4 u"
definition asm_free :: "user_trap \<Rightarrow> user_code" where
  "asm_free trap u = stub_with_argument trap 5 u"
definition asm_process_load_start :: "user_trap \<Rightarrow> user_code" where
  "asm_process_load_start trap u = stub_with_argument trap 6 u"
definition asm_process_get_arguments :: "user_trap \<Rightarrow> user_code" where
  "asm_process_get_arguments trap u = stub_with_argument trap 8 u"
definition asm_system :: "user_trap \<Rightarrow> user_code" where
  "asm_system trap u = stub_with_argument trap 7 u"
definition asm_exit :: "user_trap \<Rightarrow> user_code" where
  "asm_exit trap u = stub_without_argument trap 9 u"

section \<open>start.c, start.asm and blank.c\<close>

text \<open>A call of a stub from C: the argument and the return address are pushed, the caller removes the argument.\<close>

definition user_call :: "user_code \<Rightarrow> u32 \<Rightarrow> u32 \<Rightarrow> user_code" where
  "user_call f x ret u =
     do { u1 \<leftarrow> user_push x u; u2 \<leftarrow> user_push ret u1;
          user_then (f u2) (\<lambda>(r, s). Some (Here (r\<lparr>esp := esp r + 4\<rparr>, s))) }"

text \<open>\<open>arguments\<close> is the address of the local struct of \<open>c_start\<close>, \<open>ret\<close> the address behind the call; the program is its \<open>main\<close>.\<close>

definition c_start :: "user_trap \<Rightarrow> (u32 \<Rightarrow> u32 \<Rightarrow> user_code) \<Rightarrow> u32 \<Rightarrow> u32 \<Rightarrow> user_code" where
  "c_start trap main arguments ret u =
     user_then (user_call (asm_process_get_arguments trap) arguments ret u) (\<lambda>u1.
       do { n \<leftarrow> user_read arguments u1; v \<leftarrow> user_read (arguments + 4) u1; main n v u1 })"

text \<open>\<open>ret0\<close> and \<open>ret1\<close> are the addresses behind the two calls of \<open>_start\<close>.\<close>

definition user_start :: "user_trap \<Rightarrow> (u32 \<Rightarrow> u32 \<Rightarrow> user_code) \<Rightarrow> u32 \<Rightarrow> u32 \<Rightarrow> u32 \<Rightarrow> u32 \<Rightarrow> user_code" where
  "user_start trap main arguments ret ret0 ret1 u =
     do { u1 \<leftarrow> user_push ret0 u;
          user_then (c_start trap main arguments ret u1) (\<lambda>u2.
            do { (a, r, s) \<leftarrow> user_pop u2; u3 \<leftarrow> user_push ret1 (r\<lparr>ip := a\<rparr>, s);
                 user_then (asm_exit trap u3) (\<lambda>u4. do { (a, r, s) \<leftarrow> user_pop u4; Some (Here (r\<lparr>ip := a\<rparr>, s)) }) }) }"

text \<open>The loop of \<open>main\<close> in \<open>blank.c\<close> does not end; the inner loop only waits.\<close>

partial_function (option) blank_loop :: "user_trap \<Rightarrow> u32 \<Rightarrow> u32 \<Rightarrow> user_state \<Rightarrow> user_outcome option" where
  "blank_loop trap v ret u =
     Option.bind (user_read v u) (\<lambda>x. Option.bind (user_call (asm_print trap) x ret u) (\<lambda>out.
       case out of Away u1 \<Rightarrow> Some (Away u1) | Here u1 \<Rightarrow> blank_loop trap v ret u1))"

definition blank_main :: "user_trap \<Rightarrow> u32 \<Rightarrow> u32 \<Rightarrow> u32 \<Rightarrow> user_code" where
  "blank_main trap ret n v u = blank_loop trap v ret u"

text \<open>A program that exits does not go on: what \<open>_start\<close> has behind the call of \<open>exit\<close> is not run when the trap leaves the program.\<close>

lemma asm_exit_leaves:
  assumes "user_push (ebp (fst u)) u = Some (r, s)" "trap (trap_frame (r\<lparr>ebp := esp r, eax := 9\<rparr>)) s = Some (Away u')"
  shows "asm_exit trap u = Some (Away u')"
  using assms by (simp add: asm_exit_def stub_without_argument_def stub_enter_def stub_trap_def user_then_def)

section \<open>A program on its stack\<close>

text \<open>The word with index \<open>j\<close> of the stack, which starts at \<open>0x3FB000\<close>.\<close>

definition stack_word :: "nat \<Rightarrow> u32" where
  "stack_word j = 0x3FB000 + of_nat (4 * j)"

text \<open>
  The current task is the one of the process, in its address space, with a writeable stack of four pages that is
  no part of the address space; the commands are registered.
\<close>

definition program_ready :: "kernel \<Rightarrow> u32 \<Rightarrow> process \<Rightarrow> u32 \<Rightarrow> u32 \<Rightarrow> bool" where
  "program_ready s pr p c stk \<longleftrightarrow> space_ok s pr p c \<and> cr3 (cpu s) = load32 (ram (mem s)) c \<and>
     current_task s = task_of p \<and> task_of p \<noteq> 0 \<and> map_option process_of (tasks s (task_of p)) = Some pr \<and>
     kowned (mem s) stk = Some 4 \<and> stk \<notin> space_blocks s c \<and>
     (\<forall>k < 16384. user_view (ram (mem s)) (load32 (ram (mem s)) c) (0x3FB000 + of_nat k) = Some (stk + of_nat k, True)) \<and>
     length (isr80h_commands (interrupts s)) = 1024 \<and> (\<forall>i < 10. isr80h_commands (interrupts s) ! i = Some (the_commands ! i))"

lemma user_view_vload: "user_view m dir v = Some (a, w) \<Longrightarrow> vload m dir v = Some (m a)"
  by (auto simp: user_view_def vload_def mapped_def Let_def split: if_splits)

lemma stack_bytes: "j < 4096 \<Longrightarrow> b < 4 \<Longrightarrow> stack_word j + of_nat b = 0x3FB000 + of_nat (4 * j + b)"
  by (simp add: stack_word_def ac_simps)

text \<open>A change of memory inside of the stack.\<close>

definition on_stack :: "u32 \<Rightarrow> ram \<Rightarrow> ram \<Rightarrow> bool" where
  "on_stack stk m m' \<longleftrightarrow> (\<forall>a. m' a \<noteq> m a \<longrightarrow> (\<exists>k < 16384. a = stk + of_nat k))"

lemma on_stack_refl [simp]: "on_stack stk m m"
  by (simp add: on_stack_def)

lemma on_stack_trans: "on_stack stk m1 m2 \<Longrightarrow> on_stack stk m2 m3 \<Longrightarrow> on_stack stk m1 m3"
  unfolding on_stack_def by metis

lemma on_stack_store32:
  assumes "j < 4096"
  shows "on_stack stk m (store32 m (stk + of_nat (4 * j)) x)"
  unfolding on_stack_def
proof (intro allI impI)
  fix a assume "store32 m (stk + of_nat (4 * j)) x a \<noteq> m a"
  then obtain b where b: "b < 4" "a = stk + of_nat (4 * j) + of_nat b"
    using that [of 0] that [of 1] that [of 2] that [of 3] by (auto simp: store32_def split: if_splits)
  then have "a = stk + of_nat (4 * j + b)" by (simp only: of_nat_add add.assoc)
  moreover have "4 * j + b < 16384" using assms b(1) by simp
  ultimately show "\<exists>k < 16384. a = stk + of_nat k" by blast
qed

lemma ready_write:
  assumes ready: "program_ready s pr p c stk" and r: "on_stack stk (ram (mem s)) r"
  shows "program_ready (set_ram r s) pr p c stk"
proof -
  note R = ready [unfolded program_ready_def]
  have sp: "space_ok s pr p c" and own: "kowned (mem s) stk = Some 4" "stk \<notin> space_blocks s c" using R by simp_all
  have out: "\<exists>q. in_run (mem s) q a \<and> q \<notin> space_blocks s c" if a: "r a \<noteq> ram (mem s) a" for a
  proof -
    obtain k where "k < 16384" "a = stk + of_nat k" using r a by (auto simp: on_stack_def)
    then have "in_run (mem s) stk a" unfolding in_run_def using own(1) by (intro exI [of _ 4] exI [of _ k]) simp
    then show ?thesis using own(2) by blast
  qed
  have w: "space_ok (set_ram r s) pr p c" "load32 r c = load32 (ram (mem s)) c" "chunk_blocks r c = chunk_blocks (ram (mem s)) c"
    and v: "user_view r (load32 (ram (mem s)) c) v = user_view (ram (mem s)) (load32 (ram (mem s)) c) v" for v
    by (rule space_write [OF sp], rule out, assumption)+
  have f: "ram (mem (set_ram r s)) = r" "cpu (set_ram r s) = cpu s" "current_task (set_ram r s) = current_task s"
    "tasks (set_ram r s) = tasks s" "interrupts (set_ram r s) = interrupts s"
    "kowned (mem (set_ram r s)) = kowned (mem s)" by (simp_all add: kowned_def set_ram_def)
  show "program_ready (set_ram r s) pr p c stk"
    unfolding program_ready_def f w(2,3) v using R w(1) by (elim conjE) (intro conjI, assumption+)
qed

text \<open>The kernel has saved the registers of the task and gone back to its address space.\<close>

lemma ready_saved:
  assumes ready: "program_ready s pr p c stk" and t: "tasks s (task_of p) = Some t" "page_directory t' = page_directory t" "process_of t' = process_of t"
    and s': "mem s' = mem s" "procs s' = procs s" "current_task s' = current_task s" "interrupts s' = interrupts s"
      "tasks s' = (tasks s)(task_of p \<mapsto> t')" "cr3 (cpu s') = load32 (ram (mem s')) (page_directory t)"
  shows "program_ready s' pr p c stk"
proof -
  note R = ready [unfolded program_ready_def]
  have P: "process_ok s pr p c" using R by (simp add: space_ok_def)
  then have ch: "process_chunk pr s = Some c" and pr: "procs s pr = Some p" by (simp_all add: process_ok_def)
  then have c: "c = page_directory t" using t(1) by (simp add: process_chunk_def)
  have "process_chunk pr s' = Some c" using pr by (simp add: process_chunk_def s' t(2) c)
  then have "process_ok s' pr p c" using P by (simp add: process_ok_def s'(1,2))
  then have "space_ok s' pr p c" using R by (simp add: space_ok_def s'(1))
  then show ?thesis using R by (simp add: program_ready_def s'(1,3,4) s'(5) s'(6) [unfolded s'(1)] t c)
qed

text \<open>A word of the stack, in physical memory.\<close>

definition stack_at :: "ram \<Rightarrow> u32 \<Rightarrow> nat \<Rightarrow> u32" where
  "stack_at m stk j = load32 m (stk + of_nat (4 * j))"

lemma ready_read:
  assumes "program_ready s pr p c stk" "j < 4096"
  shows "user_read (stack_word j) (r, s) = Some (stack_at (ram (mem s)) stk j)"
    "vload32 (ram (mem s)) (cr3 (cpu s)) (stack_word j) = Some (stack_at (ram (mem s)) stk j)"
proof -
  have view: "user_view (ram (mem s)) (cr3 (cpu s)) (stack_word j + of_nat b) = Some (stk + of_nat (4 * j) + of_nat b, True)" if "b < 4" for b
  proof -
    have "4 * j + b < 16384" using assms(2) that by simp
    then have "user_view (ram (mem s)) (cr3 (cpu s)) (0x3FB000 + of_nat (4 * j + b)) = Some (stk + of_nat (4 * j + b), True)"
      using assms(1) unfolding program_ready_def by metis
    then show ?thesis unfolding stack_bytes [OF assms(2) that] by (simp add: add.assoc)
  qed
  note v = view [of 0] view [of 1] view [of 2] view [of 3]
  show "user_read (stack_word j) (r, s) = Some (stack_at (ram (mem s)) stk j)"
    using v by (simp add: user_read_def user_load32_def user_load_def stack_at_def load32_def)
  show "vload32 (ram (mem s)) (cr3 (cpu s)) (stack_word j) = Some (stack_at (ram (mem s)) stk j)"
    using v [THEN user_view_vload] by (simp add: vload32_def stack_at_def load32_def)
qed

lemma stack_at_store:
  assumes "page_aligned stk" "i < 4096" "j < 4096" "unat stk + 16384 < 2 ^ 32"
  shows "stack_at (store32 m (stk + of_nat (4 * i)) x) stk j = (if i = j then x else stack_at m stk j)"
proof -
  have u: "unat (stk + of_nat (4 * k)) = unat stk + 4 * k" if "k < 4096" for k
    using assms(4) that by (intro unat_add_small) simp
  have al: "word_aligned (stk + of_nat (4 * k))" if "k < 4096" for k
  proof -
    from assms(1) obtain a where "unat stk = 4096 * a" by (rule page_alignedE)
    then have "unat (stk + of_nat (4 * k)) = 4 * (1024 * a + k)" using u [OF that] by simp
    then show ?thesis by (simp only: word_aligned_def mod_mult_self1_is_0)
  qed
  have "stk + of_nat (4 * i) \<noteq> stk + of_nat (4 * j)" if "i \<noteq> j"
  proof
    assume "stk + of_nat (4 * i) = stk + of_nat (4 * j)"
    then have "unat (stk + of_nat (4 * i)) = unat (stk + of_nat (4 * j))" by (rule arg_cong)
    then have "unat stk + 4 * i = unat stk + 4 * j" unfolding u [OF assms(2)] u [OF assms(3)] .
    then show False using that by simp
  qed
  then show ?thesis
    using load32_store32_other [OF al [OF assms(2)] al [OF assms(3)]] by (auto simp: stack_at_def)
qed

lemma ready_stack:
  assumes "program_ready s pr p c stk"
  shows "page_aligned stk" "unat stk + 16384 < 2 ^ 32"
proof -
  have "kheap_ok (mem s)" "kowned (mem s) stk = Some 4"
    using assms by (simp_all add: program_ready_def space_ok_def process_ok_def)
  from kowned_end [OF this] show "page_aligned stk" "unat stk + 16384 < 2 ^ 32" by simp_all
qed

lemma ready_store_byte:
  assumes "program_ready s pr p c stk" "k < 16384"
  shows "user_store (ram (mem s)) (cr3 (cpu s)) (0x3FB000 + of_nat k) b = Some ((ram (mem s))(stk + of_nat k := b))"
    "program_ready (set_ram ((ram (mem s))(stk + of_nat k := b)) s) pr p c stk"
proof -
  show "user_store (ram (mem s)) (cr3 (cpu s)) (0x3FB000 + of_nat k) b = Some ((ram (mem s))(stk + of_nat k := b))"
    using assms by (simp add: user_store_def program_ready_def)
  show "program_ready (set_ram ((ram (mem s))(stk + of_nat k := b)) s) pr p c stk"
    by (rule ready_write [OF assms(1)]) (use assms(2) in \<open>auto simp: on_stack_def\<close>)
qed

lemma ready_store:
  assumes ready: "program_ready s pr p c stk" and j: "j < 4096"
  shows "user_store32 (ram (mem s)) (cr3 (cpu s)) (stack_word j) x = Some (store32 (ram (mem s)) (stk + of_nat (4 * j)) x)"
    "program_ready (set_ram (store32 (ram (mem s)) (stk + of_nat (4 * j)) x) s) pr p c stk"
proof -
  define m0 where "m0 = ram (mem s)"
  define m1 where "m1 = m0(stk + of_nat (4 * j + 0) := ucast x)"
  define m2 where "m2 = m1(stk + of_nat (4 * j + 1) := ucast (drop_bit 8 x))"
  define m3 where "m3 = m2(stk + of_nat (4 * j + 2) := ucast (drop_bit 16 x))"
  define m4 where "m4 = m3(stk + of_nat (4 * j + 3) := ucast (drop_bit 24 x))"
  have k: "4 * j + 0 < 16384" "4 * j + 1 < 16384" "4 * j + 2 < 16384" "4 * j + 3 < 16384" using j by simp_all
  have c: "ram (mem (set_ram m s)) = m" "cpu (set_ram m s) = cpu s" "set_ram m (set_ram m' s) = set_ram m s" for m m'
    by (simp_all add: set_ram_def)
  note b1 = ready_store_byte [OF ready k(1), of "ucast x", folded m0_def, folded m1_def]
  note b2 = ready_store_byte [OF b1(2) k(2), of "ucast (drop_bit 8 x)", unfolded c, folded m2_def]
  note b3 = ready_store_byte [OF b2(2) k(3), of "ucast (drop_bit 16 x)", unfolded c, folded m3_def]
  note b4 = ready_store_byte [OF b3(2) k(4), of "ucast (drop_bit 24 x)", unfolded c, folded m4_def]
  have st: "store32 m0 (stk + of_nat (4 * j)) x = m4"
    by (simp add: store32_def m4_def m3_def m2_def m1_def ac_simps)
  have a: "stack_word j = 0x3FB000 + of_nat (4 * j + 0)" "stack_word j + 1 = 0x3FB000 + of_nat (4 * j + 1)"
    "stack_word j + 2 = 0x3FB000 + of_nat (4 * j + 2)" "stack_word j + 3 = 0x3FB000 + of_nat (4 * j + 3)"
    using stack_bytes [OF j, of 0] stack_bytes [OF j, of 1] stack_bytes [OF j, of 2] stack_bytes [OF j, of 3] by simp_all
  show "user_store32 (ram (mem s)) (cr3 (cpu s)) (stack_word j) x = Some (store32 (ram (mem s)) (stk + of_nat (4 * j)) x)"
    unfolding user_store32_def a(2-4) unfolding a(1) m0_def [symmetric] st b1(1) b2(1) bind.bind_lunit b3(1) b4(1) ..
  show "program_ready (set_ram (store32 (ram (mem s)) (stk + of_nat (4 * j)) x) s) pr p c stk"
    by (rule ready_write [OF ready on_stack_store32 [OF j]])
qed

section \<open>The instructions on the stack\<close>

text \<open>What a part of the program did: memory changed on the stack only, where the word \<open>i\<close> is now \<open>f i\<close>.\<close>

definition stack_becomes :: "u32 \<Rightarrow> kernel \<Rightarrow> kernel \<Rightarrow> (nat \<Rightarrow> u32) \<Rightarrow> bool" where
  "stack_becomes stk s s' f \<longleftrightarrow> on_stack stk (ram (mem s)) (ram (mem s')) \<and> (\<forall>i < 4096. stack_at (ram (mem s')) stk i = f i)"

abbreviation stack_of :: "u32 \<Rightarrow> kernel \<Rightarrow> nat \<Rightarrow> u32" where
  "stack_of stk s \<equiv> stack_at (ram (mem s)) stk"

lemma stack_becomes_trans:
  assumes "stack_becomes stk s1 s2 f" "stack_becomes stk s2 s3 ((stack_of stk s2)(j := x))"
  shows "stack_becomes stk s1 s3 (f(j := x))"
  using assms on_stack_trans unfolding stack_becomes_def by (metis fun_upd_apply)

lemma stack_word_simps:
  "stack_word (Suc j) - 4 = stack_word j" "stack_word j + 4 = stack_word (Suc j)" "stack_word j + 8 = stack_word (j + 2)"
  by (simp_all add: stack_word_def)

lemma ready_push:
  assumes "program_ready s pr p c stk" "esp r = stack_word (Suc j)" "j < 4096"
  obtains s' where "user_push x (r, s) = Some (r\<lparr>esp := stack_word j\<rparr>, s')" "program_ready s' pr p c stk"
    "stack_becomes stk s s' ((stack_of stk s)(j := x))"
proof -
  let ?m = "store32 (ram (mem s)) (stk + of_nat (4 * j)) x"
  have "user_push x (r, s) = Some (r\<lparr>esp := stack_word j\<rparr>, set_ram ?m s)"
    using ready_store(1) [OF assms(1,3)] by (simp add: user_push_def assms(2) stack_word_simps)
  moreover have "stack_becomes stk s (set_ram ?m s) ((stack_of stk s)(j := x))"
    using stack_at_store [OF ready_stack(1) [OF assms(1)] assms(3) _ ready_stack(2) [OF assms(1)]] on_stack_store32 [OF assms(3)]
    by (auto simp: stack_becomes_def)
  ultimately show thesis using ready_store(2) [OF assms(1,3)] that by blast
qed

lemma ready_pop:
  assumes "program_ready s pr p c stk" "esp r = stack_word j" "j < 4096"
  shows "user_pop (r, s) = Some (stack_of stk s j, r\<lparr>esp := stack_word (Suc j)\<rparr>, s)"
  using ready_read(1) [OF assms(1,3)] by (simp add: user_pop_def assms(2) stack_word_simps)

text \<open>Command 8 with a pointer to the words \<open>l\<close> and \<open>l + 1\<close> of the stack.\<close>

lemma ready_arguments:
  assumes ready: "program_ready s pr p c stk" and r: "esp r = stack_word j" "j < 4096"
    and l: "stack_of stk s j = stack_word l" "l + 1 < 4096"
  obtains s' where "isr80h_trap kebp kfl ops uninit (trap_frame (r\<lparr>eax := 8\<rparr>)) s = Some (Here (r\<lparr>eax := 0\<rparr>, s'))"
    "program_ready s' pr p c stk" "stack_becomes stk s s' ((stack_of stk s)(l := argc p, l + 1 := argv p))"
proof -
  note R = ready [unfolded program_ready_def]
  let ?f = "trap_frame (r\<lparr>eax := 8\<rparr>)"
  have P: "process_ok s pr p c" using R by (simp add: space_ok_def)
  then have ch: "process_chunk pr s = Some c" and pr: "procs s pr = Some p" by (simp_all add: process_ok_def)
  obtain t where t: "tasks s (task_of p) = Some t" "process_of t = pr" using R by auto
  have c: "page_directory t = c" using ch pr t(1) by (simp add: process_chunk_def)
  have d: "cr3 (cpu s) = load32 (ram (mem s)) (page_directory t)" using R c by simp
  have phys: "paging_get_physical_address (ram (mem s)) (load32 (ram (mem s)) (page_directory t)) (stack_word l) = stk + of_nat (4 * l)"
  proof -
    have "4 * l < 16384" using l(2) by simp
    then have "user_view (ram (mem s)) (load32 (ram (mem s)) c) (stack_word l) = Some (stk + of_nat (4 * l), True)"
      using R unfolding stack_word_def by metis
    then show ?thesis by (simp add: user_view_def c Let_def split: if_splits)
  qed
  have w: "stk + of_nat (4 * l) + 4 = stk + of_nat (4 * (l + 1))" by (simp add: algebra_simps)
  let ?m1 = "store32 (ram (mem s)) (stk + of_nat (4 * l)) (argc p)"
  let ?m = "store32 ?m1 (stk + of_nat (4 * (l + 1))) (argv p)"
  have cur: "current_task s = task_of p" using R by simp
  have a: "tasks s (current_task s) = Some t" "current_task s \<noteq> 0" "frame_eax ?f = 8"
    "isr80h_commands (interrupts s) ! 8 = Some Command8_get_program_arguments" "length (isr80h_commands (interrupts s)) = 1024"
    "vload32 (ram (mem s)) (load32 (ram (mem s)) (page_directory t)) (frame_esp ?f) = Some (stack_word l)"
    "procs s (process_of t) = Some p"
    using R t pr ready_read(2) [OF ready r(2)] r(1) l(1)
    by (simp_all add: trap_frame_def the_commands_def flip: d)
  obtain s' where S: "isr80h_wrapper kebp kfl ops uninit ?f s = Some ((frame_registers ?f)\<lparr>eax := 0\<rparr>, s')"
    "mem s' = (mem s)\<lparr>ram := ?m\<rparr>"
    "procs s' = procs s" "current_task s' = current_task s" "interrupts s' = interrupts s"
    "tasks s' = (tasks s)(current_task s \<mapsto> t\<lparr>registers_of := frame_registers ?f\<rparr>)"
    "cr3 (cpu s') = load32 (ram (mem s')) (page_directory t)" "isr80h_handler ops uninit (sint (frame_eax ?f)) ?f s = Some (Returned 0 s')"
    by (rule arguments_command [OF a, unfolded phys w]) (rule that, assumption+)
  have on: "on_stack stk (ram (mem s)) ?m"
    using l(2) by (intro on_stack_trans [OF on_stack_store32 on_stack_store32]) simp_all
  have rs: "program_ready s' pr p c stk"
    by (rule ready_saved [OF ready_write [OF ready on], of t "t\<lparr>registers_of := frame_registers ?f\<rparr>"])
      (simp_all add: S cur set_ram_def t(1))
  have l': "l < 4096" using l(2) by simp
  have "stack_at ?m stk i = ((stack_of stk s)(l := argc p, l + 1 := argv p)) i" if "i < 4096" for i
    unfolding stack_at_store [OF ready_stack(1) [OF ready] l(2) that ready_stack(2) [OF ready]]
      stack_at_store [OF ready_stack(1) [OF ready] l' that ready_stack(2) [OF ready]] by simp
  then have "stack_becomes stk s s' ((stack_of stk s)(l := argc p, l + 1 := argv p))"
    using on unfolding stack_becomes_def S(2) by simp
  moreover have "(frame_registers ?f)\<lparr>eax := 0\<rparr> = r\<lparr>eax := 0\<rparr>" by (simp add: frame_registers_def trap_frame_def)
  ultimately show thesis using S(1,8) rs that by (simp add: isr80h_trap_def)
qed

section \<open>c_start\<close>

text \<open>The call of the stub for command 8: two words of the frame, the saved \<open>ebp\<close> and the argument again.\<close>

lemma call_get_arguments:
  fixes ret :: u32 and kebp kfl ops uninit
  defines "trap \<equiv> isr80h_trap kebp kfl ops uninit"
  assumes ready: "program_ready s pr p c stk" and r: "esp r = stack_word (Suc (Suc (Suc (Suc i))))"
    and l: "i + 4 \<le> l" "l + 1 < 4096"
  obtains s' where "user_call (asm_process_get_arguments trap) (stack_word l) ret (r, s) = Some (Here (r\<lparr>eax := 0, ip := ret\<rparr>, s'))"
    "program_ready s' pr p c stk" "on_stack stk (ram (mem s)) (ram (mem s'))"
    "\<And>k. i + 4 \<le> k \<Longrightarrow> k < 4096 \<Longrightarrow> stack_of stk s' k = ((stack_of stk s)(l := argc p, l + 1 := argv p)) k"
proof -
  let ?f = "(stack_of stk s)(Suc (Suc (Suc i)) := stack_word l, Suc (Suc i) := ret, Suc i := ebp r, i := stack_word l)"
  have i: "Suc (Suc (Suc i)) < 4096" using l by simp
  obtain s1 where s1: "user_push (stack_word l) (r, s) = Some (r\<lparr>esp := stack_word (Suc (Suc (Suc i)))\<rparr>, s1)"
    "program_ready s1 pr p c stk" "stack_becomes stk s s1 ((stack_of stk s)(Suc (Suc (Suc i)) := stack_word l))"
    by (rule ready_push [OF ready r i])
  define r1 where "r1 = r\<lparr>esp := stack_word (Suc (Suc (Suc i)))\<rparr>"
  have e1: "esp r1 = stack_word (Suc (Suc (Suc i)))" by (simp add: r1_def)
  obtain s2 where s2: "user_push ret (r1, s1) = Some (r1\<lparr>esp := stack_word (Suc (Suc i))\<rparr>, s2)"
    "program_ready s2 pr p c stk" "stack_becomes stk s1 s2 ((stack_of stk s1)(Suc (Suc i) := ret))"
    by (rule ready_push [OF s1(2) e1]) (use i in simp_all)
  define r2 where "r2 = r1\<lparr>esp := stack_word (Suc (Suc i))\<rparr>"
  have e2: "esp r2 = stack_word (Suc (Suc i))" by (simp add: r2_def)
  obtain s3 where s3: "user_push (ebp r2) (r2, s2) = Some (r2\<lparr>esp := stack_word (Suc i)\<rparr>, s3)"
    "program_ready s3 pr p c stk" "stack_becomes stk s2 s3 ((stack_of stk s2)(Suc i := ebp r2))"
    by (rule ready_push [OF s2(2) e2]) (use i in simp_all)
  define r3 where "r3 = r2\<lparr>esp := stack_word (Suc i), ebp := stack_word (Suc i)\<rparr>"
  have e3: "esp r3 = stack_word (Suc i)" "ebp r3 = stack_word (Suc i)" by (simp_all add: r3_def)
  obtain s4 where s4: "user_push (stack_word l) (r3, s3) = Some (r3\<lparr>esp := stack_word i\<rparr>, s4)"
    "program_ready s4 pr p c stk" "stack_becomes stk s3 s4 ((stack_of stk s3)(i := stack_word l))"
    by (rule ready_push [OF s3(2) e3(1)]) (use i in simp_all)
  define r4 where "r4 = r3\<lparr>esp := stack_word i\<rparr>"
  have e4: "esp r4 = stack_word i" by (simp add: r4_def)
  have eb: "ebp r2 = ebp r" by (simp add: r2_def r1_def)
  have f3: "stack_becomes stk s s3 ((stack_of stk s)(Suc (Suc (Suc i)) := stack_word l, Suc (Suc i) := ret, Suc i := ebp r))"
    by (rule stack_becomes_trans [OF stack_becomes_trans [OF s1(3) s2(3)] s3(3) [unfolded eb]])
  have f4: "stack_becomes stk s s4 ?f" by (rule stack_becomes_trans [OF f3 s4(3)])
  then have v4: "stack_of stk s4 k = ?f k" if "k < 4096" for k using that unfolding stack_becomes_def by blast
  have arg: "user_read (ebp r3 + 8) (r3, s3) = Some (stack_word l)"
  proof -
    have "stack_of stk s3 (Suc (Suc (Suc i))) = stack_word l" using f3 i unfolding stack_becomes_def by simp
    moreover have "Suc i + 2 = Suc (Suc (Suc i))" by simp
    ultimately show ?thesis using ready_read(1) [OF s3(2) i, of r3] by (simp only: e3 stack_word_simps)
  qed
  have four: "stack_of stk s4 i = stack_word l" using v4 [of i] i by simp
  obtain s5 where s5: "trap (trap_frame (r4\<lparr>eax := 8\<rparr>)) s4 = Some (Here (r4\<lparr>eax := 0\<rparr>, s5))" "program_ready s5 pr p c stk"
    "stack_becomes stk s4 s5 ((stack_of stk s4)(l := argc p, l + 1 := argv p))"
    unfolding trap_def by (rule ready_arguments [OF s4(2) e4 _ four l(2)]) (use i in simp_all)
  have v5: "stack_of stk s5 k = (?f(l := argc p, l + 1 := argv p)) k" if "k < 4096" for k
    using s5(3) v4 that unfolding stack_becomes_def by simp
  define r5 where "r5 = r4\<lparr>eax := 0, esp := stack_word (Suc i)\<rparr>"
  have e5: "esp r5 = stack_word (Suc i)" by (simp add: r5_def)
  have p1: "user_pop (r5, s5) = Some (ebp r, r5\<lparr>esp := stack_word (Suc (Suc i))\<rparr>, s5)"
    using ready_pop [OF s5(2) e5] v5 [of "Suc i"] i l(1) by simp
  define r6 where "r6 = r5\<lparr>esp := stack_word (Suc (Suc i)), ebp := ebp r\<rparr>"
  have e6: "esp r6 = stack_word (Suc (Suc i))" by (simp add: r6_def)
  have p2: "user_pop (r6, s5) = Some (ret, r6\<lparr>esp := stack_word (Suc (Suc (Suc i)))\<rparr>, s5)"
    using ready_pop [OF s5(2) e6] v5 [of "Suc (Suc i)"] i l(1) by simp
  have enter: "stub_enter (r2, s2) = Some (r3, s3)" by (simp add: stub_enter_def s3(1) r3_def)
  have push: "stub_argument (r3, s3) = Some (r4, s4)" by (simp add: stub_argument_def arg s4(1) r4_def)
  have int: "stub_trap trap 8 (r4, s4) = Some (Here (r4\<lparr>eax := 0\<rparr>, s5))" by (simp add: stub_trap_def s5(1))
  have "stub_return (r5, s5) = Some (r6\<lparr>esp := stack_word (Suc (Suc (Suc i))), ip := ret\<rparr>, s5)"
    using p1 p2 by (simp add: stub_return_def r6_def)
  then have "asm_process_get_arguments trap (r2, s2) = Some (Here (r6\<lparr>esp := stack_word (Suc (Suc (Suc i))), ip := ret\<rparr>, s5))"
    by (simp add: asm_process_get_arguments_def stub_with_argument_def enter push int e4 stack_word_simps r5_def user_then_def user_here_def)
  then have "user_call (asm_process_get_arguments trap) (stack_word l) ret (r, s) =
      Some (Here (r6\<lparr>ip := ret, esp := stack_word (Suc (Suc (Suc (Suc i))))\<rparr>, s5))"
    using s1(1) s2(1) by (simp add: user_call_def user_then_def r1_def [symmetric] r2_def [symmetric] stack_word_simps)
  moreover have "r6\<lparr>ip := ret, esp := stack_word (Suc (Suc (Suc (Suc i))))\<rparr> = r\<lparr>eax := 0, ip := ret\<rparr>"
    using r by (simp add: r6_def r5_def r4_def r3_def r2_def r1_def)
  moreover have "on_stack stk (ram (mem s)) (ram (mem s5))"
    using f4 s5(3) on_stack_trans unfolding stack_becomes_def by blast
  ultimately show thesis using s5(2) v5 by (intro that [of s5]) simp_all
qed

text \<open>A loaded binary, once the scheduler has switched to it.\<close>

lemma load_task_ready:
  assumes load: "sched_ok m0 s ps" "binary_loaded s pr p"
    "\<exists>i. free_at (tbl (kernel_heap (mem s))) i 4" "1031 \<le> kroom (mem s)"
    "strncpy (filename p) 0 fname (int HARDIKHYPERIONOS_MAX_PATH) = Some name" "k < length (processes s)"
    and cmds: "length (isr80h_commands n) = 1024" "\<forall>i < 10. isr80h_commands n ! i = Some (the_commands ! i)"
  obtains s' p' c stk d where "load_task fname pr (int k) s = Some (0, Some pr, s')"
    "program_ready (s'\<lparr>current_task := task_of p', interrupts := n, cpu := (cpu s')\<lparr>cr3 := d\<rparr>\<rparr>) pr p' c stk"
proof -
  obtain s' task c stk m1 where L: "load_task fname pr (int k) s = Some (0, Some pr, s')" "sched_ok m1 s' (ps @ [task])"
    "tasks s' task = Some (new_task c 0x400000 pr (if ps = [] then 0 else last ps))"
    "process_ok s' pr (p\<lparr>filename := name, stack := stk, pid := word_of_int (int k), task_of := task\<rparr>) c"
    "kowned (mem s') stk = Some 4"
    "\<And>v. user_view (ram (mem s')) (load32 (ram (mem s')) c) v =
       binary_view (program p) (blocks_for (unat (program_size p))) stk (\<lambda>v. Some (v, False)) v"
    "open_directory (ram (mem s')) (load32 (ram (mem s')) c)"
    "set (chunk_blocks (ram (mem s')) c) \<inter> (insert stk (dom (kowned (mem s)))) = {}"
    by (rule load_task_ok [OF load]) (rule that, assumption+)
  let ?p = "p\<lparr>filename := name, stack := stk, pid := word_of_int (int k), task_of := task\<rparr>"
  let ?s = "s'\<lparr>current_task := task, interrupts := n, cpu := (cpu s')\<lparr>cr3 := load32 (ram (mem s')) c\<rparr>\<rparr>"
  have al: "used_ptrs (allocations ?p) = []"
    using load(2) by (simp add: binary_loaded_def used_ptrs_def no_allocation_def)
  have "process_ok ?s pr ?p c" using L(4) by (simp add: process_ok_def process_chunk_def L(3) new_task_def)
  then have sp: "space_ok ?s pr ?p c" using L(7) al by (simp add: space_ok_def)
  have t0: "task \<noteq> 0" using L(2) by (auto simp: sched_ok_def task_links_def)
  have view: "user_view (ram (mem s')) (load32 (ram (mem s')) c) (0x3FB000 + of_nat i) = Some (stk + of_nat i, True)" if "i < 16384" for i
  proof -
    have "in_window 0x3FB000 4 (0x3FB000 + of_nat i :: u32)" using that by (simp add: in_window_def unat_of_nat_u32)
    then show ?thesis unfolding L(6) binary_view_def by simp
  qed
  have "map_option process_of (tasks s' task) = Some pr" by (simp add: L(3) new_task_def)
  then have "program_ready (s'\<lparr>current_task := task_of ?p, interrupts := n, cpu := (cpu s')\<lparr>cr3 := load32 (ram (mem s')) c\<rparr>\<rparr>) pr ?p c stk"
    using sp t0 view L(5,8) cmds by (simp add: program_ready_def)
  then show thesis by (rule that [OF L(1)])
qed

text \<open>
  C26. The start of a program, from the stack to the kernel and back. A program whose stack is mapped calls \<open>c_start\<close>
  (start.c) with at least four words free under its local struct \<open>arguments\<close>. The stub
  \<open>hardikhyperionos_process_get_arguments\<close> pushes its frame and traps, command 8 finds the address on the stack
  and writes the struct there, and \<open>main\<close> is called with \<open>argc\<close> and \<open>argv\<close> of the process, with all registers as they were
  but \<open>eax\<close> and the instruction pointer. Memory changes on the stack of the program only; of its words above the stack pointer
  only the two of the struct do.
\<close>

theorem c_start_arguments:
  assumes "program_ready s pr p c stk" "esp r = stack_word j" "4 \<le> j" "j \<le> l" "l + 1 < 4096"
  shows "\<exists>s'. c_start (isr80h_trap kebp kfl ops uninit) main (stack_word l) ret (r, s) =
      main (argc p) (argv p) (r\<lparr>eax := 0, ip := ret\<rparr>, s') \<and>
    program_ready s' pr p c stk \<and> on_stack stk (ram (mem s)) (ram (mem s')) \<and>
    (\<forall>k. j \<le> k \<and> k < 4096 \<longrightarrow> stack_of stk s' k = (if k = l then argc p else if k = l + 1 then argv p else stack_of stk s k))"
proof -
  have "Suc (Suc (Suc (Suc (j - 4)))) = j" "j - 4 + 4 = j" using assms(3) by simp_all
  note j = this
  obtain s' where S: "user_call (asm_process_get_arguments (isr80h_trap kebp kfl ops uninit)) (stack_word l) ret (r, s) =
      Some (Here (r\<lparr>eax := 0, ip := ret\<rparr>, s'))"
    "program_ready s' pr p c stk" "on_stack stk (ram (mem s)) (ram (mem s'))"
    "\<And>k. j \<le> k \<Longrightarrow> k < 4096 \<Longrightarrow> stack_of stk s' k = ((stack_of stk s)(l := argc p, l + 1 := argv p)) k"
    by (rule call_get_arguments [OF assms(1), of r "j - 4" l, unfolded j, OF assms(2,4,5)]) (rule that, assumption+)
  have n: "user_read (stack_word l) (r', s') = Some (argc p)" "user_read (stack_word l + 4) (r', s') = Some (argv p)" for r'
    using ready_read(1) [OF S(2), of l r'] ready_read(1) [OF S(2), of "l + 1" r'] S(4) [of l] S(4) [of "l + 1"] assms(4,5)
    by (simp_all add: stack_word_simps)
  show ?thesis using S n by (intro exI [of _ s']) (auto simp: c_start_def user_then_def)
qed

theorem c_start_arguments_witness:
  "\<exists>s s' pr p c stk. program_ready s pr p c stk \<and> stack_of stk s' 4092 = argc p \<and>
     c_start (isr80h_trap 0 0 (\<lambda>_. fat16_fs (sample_ata (\<lambda>_. 0))) (\<lambda>n. replicate n 0)) (\<lambda>n v u. if n = argc p then Some (Here u) else None)
       0x3FEFF0 0x400005 (zero_registers\<lparr>esp := 0x3FEFE0\<rparr>, s) = Some (Here (zero_registers\<lparr>esp := 0x3FEFE0, eax := 0, ip := 0x400005\<rparr>, s'))"
proof -
  obtain ptr m p name where K: "sched_ok m (binary_kernel ptr m) []" "binary_loaded (binary_kernel ptr m) 0x3000 p"
    "\<exists>i. free_at (tbl (kernel_heap (mem (binary_kernel ptr m)))) i 4" "1031 \<le> kroom (mem (binary_kernel ptr m))"
    "strncpy (filename p) 0 (ascii ''0:/a'' @ [0]) (int HARDIKHYPERIONOS_MAX_PATH) = Some name"
    "1 < length (processes (binary_kernel ptr m))"
    by (rule binary_kernel_ready)
  let ?n = "(interrupts sample_kernel)\<lparr>isr80h_commands := map Some the_commands @ replicate 1014 None\<rparr>"
  have n: "length (isr80h_commands ?n) = 1024" "\<forall>i < 10. isr80h_commands ?n ! i = Some (the_commands ! i)"
    using the_commands_length by (simp_all add: nth_append)
  obtain s1 p' c stk d where L: "program_ready (s1\<lparr>current_task := task_of p', interrupts := ?n, cpu := (cpu s1)\<lparr>cr3 := d\<rparr>\<rparr>) 0x3000 p' c stk"
    by (rule load_task_ready [OF K n])
  let ?r = "zero_registers\<lparr>esp := 0x3FEFE0\<rparr>"
  have w: "esp ?r = stack_word 4088" "stack_word 4092 = 0x3FEFF0" by (simp_all add: stack_word_def)
  have num: "4 \<le> (4088 :: nat)" "4088 \<le> (4092 :: nat)" "4092 + 1 < (4096 :: nat)" by simp_all
  from c_start_arguments [OF L w(1) num, unfolded w(2), where kebp = 0 and kfl = 0 and ops = "\<lambda>_. fat16_fs (sample_ata (\<lambda>_. 0))" and
      uninit = "\<lambda>n. replicate n 0" and main = "\<lambda>n v u. if n = argc p' then Some (Here u) else None" and ret = "0x400005"]
  obtain s' where "c_start (isr80h_trap 0 0 (\<lambda>_. fat16_fs (sample_ata (\<lambda>_. 0))) (\<lambda>n. replicate n 0)) (\<lambda>n v u. if n = argc p' then Some (Here u) else None)
       0x3FEFF0 0x400005 (?r, s1\<lparr>current_task := task_of p', interrupts := ?n, cpu := (cpu s1)\<lparr>cr3 := d\<rparr>\<rparr>) =
       Some (Here (zero_registers\<lparr>esp := 0x3FEFE0, eax := 0, ip := 0x400005\<rparr>, s'))" "stack_of stk s' 4092 = argc p'" by auto
  with L show ?thesis by blast
qed

text \<open>The program \<open>blank\<close> never ends: it has no result of its own, unless the processor leaves it.\<close>

lemma blank_main_runs: "blank_main trap ret n v u \<noteq> Some (Here u')"
proof -
  have "\<exists>w. y = Away w" if "blank_loop trap v ret u = Some y" for y u
    by (rule blank_loop.raw_induct [OF _ that]) (auto split: bind_splits user_outcome.splits)
  then show ?thesis unfolding blank_main_def by blast
qed

end
