(* ===== verification/FatMount.thy ===== *)
theory FatMount
  imports FatRead
begin

text \<open>
  Mounting: \<open>fat16_resolve\<close> on a drive that holds an image reads the boot sector, counts
  the items of the root directory and loads it, or rejects a disk without the FAT16
  signature.
\<close>

section \<open>Counting the items of a directory\<close>

text \<open>Item \<open>i\<close> of the directory at byte \<open>k\<close> of the image; the first free one ends it.\<close>

definition first_free :: "(nat \<Rightarrow> u8) \<Rightarrow> nat \<Rightarrow> nat \<Rightarrow> bool" where
  "first_free img k n \<longleftrightarrow> img (k + 32 * n) = 0 \<and> (\<forall>i < n. img (k + 32 * i) \<noteq> 0)"

definition live_items :: "(nat \<Rightarrow> u8) \<Rightarrow> nat \<Rightarrow> nat \<Rightarrow> nat" where
  "live_items img k n = length (filter (\<lambda>i. img (k + 32 * i) \<noteq> 0xE5) [0..<n])"

lemma first_free_Suc:
  "first_free img k (Suc n) \<longleftrightarrow> img k \<noteq> 0 \<and> first_free img (k + 32) n"
proof -
  have "(\<forall>i < Suc n. img (k + 32 * i) \<noteq> 0) \<longleftrightarrow> img k \<noteq> 0 \<and> (\<forall>i < n. img (k + 32 + 32 * i) \<noteq> 0)"
    by (simp only: All_less_Suc2) (simp add: add.assoc)
  then show ?thesis by (auto simp: first_free_def add.assoc)
qed

lemma live_items_Suc:
  "live_items img k (Suc n) = (if img k \<noteq> 0xE5 then 1 else 0) + live_items img (k + 32) n"
proof -
  have "[0..<Suc n] = 0 # map Suc [0..<n]" by (simp add: upt_conv_Cons map_Suc_upt)
  then show ?thesis by (simp add: live_items_def filter_map comp_def add.assoc)
qed

lemma count_items_image:
  assumes "ata_serves a img"
  shows "first_free img k n \<Longrightarrow> stream_disk st = DiskStatic \<Longrightarrow> pos st = int k \<Longrightarrow> k + 32 * n + 32 < 2 ^ 31 \<Longrightarrow>
    fat16_count_items a (Some (p, st)) i =
      Some (i + int (live_items img k n), Some (p, st\<lparr>pos := int (k + 32 * n + 32)\<rparr>))"
proof (induction n arbitrary: k st i)
  case 0
  have r: "stream_read a (Some (p, st)) (replicate 32 0) 0 (int 32) =
      Some (0, Some (p, st\<lparr>pos := int (k + 32)\<rparr>), overwrite (replicate 32 0) 0 (image_bytes img k 32))"
    by (rule stream_read_good [OF assms 0(2,3)]) (use 0 in auto)
  have "img k = 0" using 0(1) by (simp add: first_free_def)
  then show ?case
    using r by (subst fat16_count_items.simps)
      (simp add: sizeof_fat_directory_item_def ALL_OK_def get8_def array_simps overwrite_def image_bytes_nth live_items_def arr_get_def)
next
  case (Suc n)
  have r: "stream_read a (Some (p, st)) (replicate 32 0) 0 (int 32) =
      Some (0, Some (p, st\<lparr>pos := int (k + 32)\<rparr>), overwrite (replicate 32 0) 0 (image_bytes img k 32))"
    by (rule stream_read_good [OF assms Suc.prems(2,3)]) (use Suc.prems in auto)
  have c: "img k \<noteq> 0" "first_free img (k + 32) n" using Suc.prems(1) by (auto simp: first_free_Suc)
  let ?st = "st\<lparr>pos := int (k + 32)\<rparr>"
  have ih: "fat16_count_items a (Some (p, ?st)) j =
      Some (j + int (live_items img (k + 32) n), Some (p, ?st\<lparr>pos := int (k + 32 + 32 * n + 32)\<rparr>))" for j
    by (rule Suc.IH) (use Suc.prems c in auto)
  show ?case
    using r c(1) ih
    by (subst fat16_count_items.simps)
      (simp add: sizeof_fat_directory_item_def ALL_OK_def get8_def array_simps overwrite_def image_bytes_nth live_items_Suc arr_get_def)
qed

section \<open>Loading the root directory\<close>

definition root_sector :: "fat_h \<Rightarrow> nat" where
  "root_sector h = unat (fat_copies (primary_header h)) * unat (sectors_per_fat (primary_header h)) +
     unat (reserved_sectors (primary_header h))"

definition root_bytes :: "fat_h \<Rightarrow> nat" where
  "root_bytes h = unat (root_dir_entries (primary_header h)) * 32"

text \<open>The directory structure after mounting, at heap address \<open>p\<close>, with \<open>n\<close> items in use.\<close>

definition loaded_root :: "(nat \<Rightarrow> u8) \<Rightarrow> fat_h \<Rightarrow> u32 \<Rightarrow> nat \<Rightarrow> fat_directory" where
  "loaded_root img h p n = \<lparr>dir_item_ptr = p, dir_item = image_bytes img (root_sector h * 512) (root_bytes h),
     dir_total = int (live_items img (root_sector h * 512) n), sector_pos = int (root_sector h),
     ending_sector_pos = int (root_sector h + (root_bytes h + 511) div 512)\<rparr>"

lemma sectors_round_up:
  "(if int x smod 512 \<noteq> 0 then int x sdiv 512 + 1 else int x sdiv 512) = int ((x + 511) div 512)"
proof -
  define q r where "q = x div 512" and "r = x mod 512"
  have x: "x = q * 512 + r" "r < 512" by (simp_all add: q_def r_def)
  have s: "int x sdiv 512 = int q" "int x smod 512 = int r"
    by (simp_all add: sdiv_nonneg smod_nonneg q_def r_def zdiv_int zmod_int)
  have "(x + 511) div 512 = (if r = 0 then q else q + 1)"
    using x by (auto intro!: div_nat_eqI)
  then show ?thesis by (simp add: s)
qed

lemma root_bytes_le: "root_bytes h \<le> 65535 * 32"
  using unsigned_less [of "root_dir_entries (primary_header h)", where 'a = nat] by (simp add: root_bytes_def)

text \<open>
  The root directory is loaded when it has a free item, inside or behind it, no part lies behind
  the first 2 GB, and there is memory for it.
\<close>

definition root_readable :: "(nat \<Rightarrow> u8) \<Rightarrow> fat_h \<Rightarrow> nat \<Rightarrow> bool" where
  "root_readable img h n \<longleftrightarrow> 0 < root_bytes h \<and> first_free img (root_sector h * 512) n \<and>
     root_sector h * 512 + 32 * n + 32 < 2 ^ 31 \<and> root_sector h * 512 + root_bytes h < 2 ^ 31"

lemma get_root_directory_image:
  assumes a: "ata_serves a img" and dsk: "sector_size dsk = 512" and good: "good_stream (directory_stream pr)"
    and root: "root_readable img (header pr) n"
    and p: "kzalloc m (of_nat (root_bytes (header pr))) = (p, m')" "p \<noteq> 0"
  obtains s where "good_stream s"
    "fat16_get_root_directory a dsk pr m =
       Some (0, pr\<lparr>directory_stream := s, root_directory := loaded_root img (header pr) p n\<rparr>, m')"
proof -
  let ?ph = "primary_header (header pr)"
  obtain fc where fc: "uint (fat_copies ?ph) = int fc" "unat (fat_copies ?ph) = fc" by (rule uint_unatE)
  obtain sf where sf: "uint (sectors_per_fat ?ph) = int sf" "unat (sectors_per_fat ?ph) = sf" by (rule uint_unatE)
  obtain rs where rs: "uint (reserved_sectors ?ph) = int rs" "unat (reserved_sectors ?ph) = rs" by (rule uint_unatE)
  obtain en where en: "uint (root_dir_entries ?ph) = int en" "unat (root_dir_entries ?ph) = en" by (rule uint_unatE)
  define R where "R = root_sector (header pr)"
  define B where "B = root_bytes (header pr)"
  have R: "uint (fat_copies ?ph) * uint (sectors_per_fat ?ph) + uint (reserved_sectors ?ph) = int R"
    by (simp add: R_def root_sector_def fc sf rs)
  have B: "uint (root_dir_entries ?ph) * int sizeof_fat_directory_item = int B"
    by (simp add: B_def root_bytes_def en sizeof_fat_directory_item_def)
  have b: "R * 512 + 32 * n + 32 < 2 ^ 31" "R * 512 + B < 2 ^ 31" "0 < B"
    and free: "first_free img (R * 512) n"
    using root by (simp_all add: root_readable_def R_def B_def)
  have start: "sint (word_of_int (int R) * word_of_int (sector_size dsk) :: u32) = int (R * 512)"
  proof -
    have "(word_of_int (int R) * word_of_int (sector_size dsk) :: u32) = word_of_int (int (R * 512))"
      by (simp add: dsk)
    moreover have "sint (word_of_int (int (R * 512)) :: u32) = int (R * 512)"
      using b by (intro sint_word_of_int_u32) auto
    ultimately show ?thesis by simp
  qed
  obtain q st where s1: "stream_seek (directory_stream pr) (int (R * 512)) = Some (0, Some (q, st))"
    "stream_disk st = DiskStatic" "pos st = int (R * 512)"
    using stream_seek_good [OF good] .
  define pr1 where "pr1 = pr\<lparr>directory_stream := Some (q, st\<lparr>pos := int (R * 512 + 32 * n + 32)\<rparr>)\<rparr>"
  have cnt: "fat16_count_items a (Some (q, st)) 0 =
      Some (0 + int (live_items img (R * 512) n), Some (q, st\<lparr>pos := int (R * 512 + 32 * n + 32)\<rparr>))"
    by (rule count_items_image [OF a _ s1(2,3)]) (use free b in \<open>auto simp: R_def\<close>)
  have tot: "fat16_get_total_items_for_directory a dsk pr (word_of_int (int R)) =
      Some (int (live_items img (R * 512) n), pr1)"
    using s1(1) cnt start by (simp add: fat16_get_total_items_for_directory_def ALL_OK_def pr1_def)
  have p': "kzalloc m (word_of_int (int B)) = (p, m')" using p(1) by (simp add: B_def)
  have "good_stream (directory_stream pr1)" using s1(2) by (simp add: pr1_def good_stream_def)
  then obtain q' st' where s2: "stream_seek (directory_stream pr1) (int (R * 512)) = Some (0, Some (q', st'))"
    "stream_disk st' = DiskStatic" "pos st' = int (R * 512)"
    using stream_seek_good by metis
  have rd: "stream_read a (Some (q', st')) (replicate B 0) 0 (int B) =
      Some (0, Some (q', st'\<lparr>pos := int (R * 512 + B)\<rparr>), overwrite (replicate B 0) 0 (image_bytes img (R * 512) B))"
    by (rule stream_read_good [OF a s2(2,3)]) (use b in auto)
  have ab: "fat16_sector_to_absolute dsk (int R) = int (R * 512)"
    using b by (simp add: fat16_sector_to_absolute_def dsk)
  have ts: "(if int B smod 512 \<noteq> 0 then int B sdiv 512 + 1 else int B sdiv 512) = int ((B + 511) div 512)"
    by (rule sectors_round_up)
  have "fat16_get_root_directory a dsk pr m =
      Some (0, pr1\<lparr>directory_stream := Some (q', st'\<lparr>pos := int (R * 512 + B)\<rparr>),
        root_directory := \<lparr>dir_item_ptr = p, dir_item = image_bytes img (R * 512) B,
          dir_total = int (live_items img (R * 512) n), sector_pos = int R,
          ending_sector_pos = int R + int ((B + 511) div 512)\<rparr>\<rparr>, m')"
    unfolding fat16_get_root_directory_def Let_def R B dsk ts
    using tot p' p(2) s2(1) rd ab by (simp add: ALL_OK_def overwrite_def Let_def)
  then show thesis
    using s2(2)
    by (intro that [of "Some (q', st'\<lparr>pos := int (R * 512 + B)\<rparr>)"])
      (simp_all add: loaded_root_def R_def B_def pr1_def good_stream_def)
qed

section \<open>fat16_resolve\<close>

lemma diskstreamer_new_ok:
  assumes "kheap_ok m" "0 < kroom m" "i = 0"
  obtains p m' where "diskstreamer_new m i = Some (Some (p, \<lparr>pos = 0, stream_disk = DiskStatic\<rparr>), m')"
    "kgrew m [p] m'"
proof -
  obtain p m' where "kzalloc m 8 = (p, m')" "p \<noteq> 0" "kgrew m [p] m'"
    by (rule kgrew_alloc [OF assms(1), of 8]) (use assms(2) in auto)
  then show thesis using assms(3) by (intro that [of p m']) (simp_all add: diskstreamer_new_def disk_get_def)
qed

lemma read_fat_h_some: "62 \<le> length bs \<Longrightarrow> \<exists>h. read_fat_h bs = Some h \<and> signature h = bs ! 38"
  by (simp add: read_fat_h_def get8_def get16_def arr_get_def)

text \<open>The header that the boot sector of an image decodes to.\<close>

definition boot_header :: "(nat \<Rightarrow> u8) \<Rightarrow> fat_h" where
  "boot_header img = the (read_fat_h (image_bytes img 0 62))"

lemma boot_header_read: "read_fat_h (image_bytes img 0 62) = Some (boot_header img)"
  "signature (boot_header img) = img 38"
  using read_fat_h_some [of "image_bytes img 0 62"] by (auto simp: boot_header_def image_bytes_nth)

lemma release_one:
  assumes "kgrown m ps m'" "mset ps = add_mset p (mset qs)"
  shows "kgrown m qs (kfree m' p)"
  using kheap.grown_release_seq [OF assms(1), of "[p]" qs] assms(2) by simp

text \<open>\<open>fat16_resolve\<close> up to the test of the signature: five objects are allocated and the boot sector is read.\<close>

lemma fat16_resolve_boot:
  assumes a: "ata_serves a img" and dsk: "sector_size dsk = 512" "disk_id dsk = 0"
    and ok: "kheap_ok m" "5 \<le> kroom m"
  obtains ad p1 p2 p3 p4 m4 pr st where "kgrew m [ad, p1, p2, p3, p4] m4" "header pr = boot_header img"
    "good_stream (cluster_read_stream pr)" "good_stream (fat_read_stream pr)" "good_stream (directory_stream pr)"
    "fat16_resolve a dsk m =
      (if img 38 \<noteq> FAT16_SIGNATURE then Some (fat16_resolve_out m4 dsk (Some (p4, st)) (- EFSNOTUS) ad pr)
       else do { (res', pr2, m5) \<leftarrow> fat16_get_root_directory a dsk pr m4;
         if res' \<noteq> ALL_OK then Some (fat16_resolve_out m5 dsk (Some (p4, st)) (- EIO) ad pr2)
         else Some (fat16_resolve_out m5 dsk (Some (p4, st)) 0 ad pr2) })"
proof -
  let ?st = "\<lparr>pos = 0, stream_disk = DiskStatic\<rparr>"
  obtain ad m0 where 0: "kzalloc m 92 = (ad, m0)" "ad \<noteq> 0" "kgrew m [ad] m0"
    by (rule kgrew_alloc [OF ok(1), of 92]) (use ok(2) in auto)
  obtain p1 m1 where 1: "diskstreamer_new m0 (disk_id dsk) = Some (Some (p1, ?st), m1)" "kgrew m0 [p1] m1"
    by (rule diskstreamer_new_ok [of m0 "disk_id dsk"]) (use 0 ok dsk in \<open>auto simp: kgrew_def grown_def\<close>)
  have g1: "kgrew m [ad, p1] m1" using kgrew_trans [OF 0(3) 1(2)] by simp
  obtain p2 m2 where 2: "diskstreamer_new m1 (disk_id dsk) = Some (Some (p2, ?st), m2)" "kgrew m1 [p2] m2"
    by (rule diskstreamer_new_ok [of m1 "disk_id dsk"]) (use g1 ok dsk in \<open>auto simp: kgrew_def grown_def\<close>)
  have g2: "kgrew m [ad, p1, p2] m2" using kgrew_trans [OF g1 2(2)] by simp
  obtain p3 m3 where 3: "diskstreamer_new m2 (disk_id dsk) = Some (Some (p3, ?st), m3)" "kgrew m2 [p3] m3"
    by (rule diskstreamer_new_ok [of m2 "disk_id dsk"]) (use g2 ok dsk in \<open>auto simp: kgrew_def grown_def\<close>)
  have g3: "kgrew m [ad, p1, p2, p3] m3" using kgrew_trans [OF g2 3(2)] by simp
  obtain p4 m4 where 4: "diskstreamer_new m3 (disk_id dsk) = Some (Some (p4, ?st), m4)" "kgrew m3 [p4] m4"
    by (rule diskstreamer_new_ok [of m3 "disk_id dsk"]) (use g3 ok dsk in \<open>auto simp: kgrew_def grown_def\<close>)
  have g4: "kgrew m [ad, p1, p2, p3, p4] m4" using kgrew_trans [OF g3 4(2)] by simp
  obtain h0 where h0: "read_fat_h (replicate sizeof_fat_h 0) = Some h0"
    using read_fat_h_some [of "replicate 62 0"] by (auto simp: sizeof_fat_h_def)
  let ?pr0 = "\<lparr>header = boot_header img, root_directory = empty_directory, cluster_read_stream = Some (p1, ?st),
    fat_read_stream = Some (p2, ?st), directory_stream = Some (p3, ?st)\<rparr>"
  have rd: "stream_read a (Some (p4, ?st)) (replicate sizeof_fat_h 0) 0 (int sizeof_fat_h) =
      Some (0, Some (p4, ?st\<lparr>pos := int (0 + 62)\<rparr>), image_bytes img 0 62)"
    using stream_read_good [OF a, of ?st 0 62 0 "replicate 62 0" p4] by (simp add: sizeof_fat_h_def overwrite_def)
  have res: "fat16_resolve a dsk m =
      (if img 38 \<noteq> FAT16_SIGNATURE
       then Some (fat16_resolve_out m4 dsk (Some (p4, ?st\<lparr>pos := int (0 + 62)\<rparr>)) (- EFSNOTUS) ad ?pr0)
       else do { (res', pr2, m5) \<leftarrow> fat16_get_root_directory a dsk ?pr0 m4;
         if res' \<noteq> ALL_OK then Some (fat16_resolve_out m5 dsk (Some (p4, ?st\<lparr>pos := int (0 + 62)\<rparr>)) (- EIO) ad pr2)
         else Some (fat16_resolve_out m5 dsk (Some (p4, ?st\<lparr>pos := int (0 + 62)\<rparr>)) 0 ad pr2) })"
    unfolding fat16_resolve_def fat16_init_private_def
    using 0 1 2 3 4 h0 rd boot_header_read [of img]
    by (simp add: Let_def ALL_OK_def cong: if_cong)
  show thesis by (rule that [OF g4 _ _ _ _ res]) (simp_all add: good_stream_def)
qed

text \<open>A disk without the signature.\<close>

lemma fat16_resolve_other:
  assumes "ata_serves a img" "sector_size dsk = 512" "disk_id dsk = 0" "kheap_ok m" "5 \<le> kroom m" "img 38 \<noteq> FAT16_SIGNATURE"
  shows "\<exists>ps m'. length ps = 3 \<and> kgrown m ps m' \<and>
    fat16_resolve a dsk m = Some (- EFSNOTUS, dsk\<lparr>disk_filesystem := Some Fat16Fs, fs_private := None\<rparr>, m')"
proof (rule fat16_resolve_boot [OF assms(1-5)])
  fix ad p1 p2 p3 p4 m4 pr st
  assume g: "kgrew m [ad, p1, p2, p3, p4] m4" and res: "fat16_resolve a dsk m =
      (if img 38 \<noteq> FAT16_SIGNATURE then Some (fat16_resolve_out m4 dsk (Some (p4, st)) (- EFSNOTUS) ad pr)
       else do { (res', pr2, m5) \<leftarrow> fat16_get_root_directory a dsk pr m4;
         if res' \<noteq> ALL_OK then Some (fat16_resolve_out m5 dsk (Some (p4, st)) (- EIO) ad pr2)
         else Some (fat16_resolve_out m5 dsk (Some (p4, st)) 0 ad pr2) })"
  have "kgrown m [ad, p1, p2, p3] (kfree m4 p4)" by (rule release_one [OF kgrewD [OF g]]) simp
  then have "kgrown m [p1, p2, p3] (kfree (kfree m4 p4) ad)" by (rule release_one) simp
  then show ?thesis
    using assms(6) res
    by (intro exI [of _ "[p1, p2, p3]"] exI [of _ "kfree (kfree m4 p4) ad"])
      (simp add: fat16_resolve_out_def diskstreamer_close_def EFSNOTUS_def)
qed

text \<open>A disk with the signature and a root directory of any size, when the heap has a long free run.\<close>

definition root_loaded :: "(nat \<Rightarrow> u8) \<Rightarrow> ata \<Rightarrow> disk \<Rightarrow> kmem \<Rightarrow> nat \<Rightarrow> u32 \<Rightarrow> u32 \<Rightarrow> kmem \<Rightarrow> bool" where
  "root_loaded img a dsk m n ad p m' \<longleftrightarrow>
     (\<exists>pr. fat16_resolve a dsk m = Some (0, dsk\<lparr>disk_filesystem := Some Fat16Fs, fs_private := Some (ad, pr)\<rparr>, m') \<and>
        header pr = boot_header img \<and> root_directory pr = loaded_root img (boot_header img) p n \<and>
        good_stream (cluster_read_stream pr) \<and> good_stream (fat_read_stream pr) \<and> good_stream (directory_stream pr))"

lemma fat16_resolve_root:
  assumes "ata_serves a img" "sector_size dsk = 512" "disk_id dsk = 0" "kheap_ok m" "5 \<le> kroom m" "img 38 = FAT16_SIGNATURE"
    and root: "root_readable img (boot_header img) n"
    and alloc: "\<And>ps m4. length ps = 5 \<Longrightarrow> kgrew m ps m4 \<Longrightarrow> fst (kzalloc m4 (of_nat (root_bytes (boot_header img)))) \<noteq> 0"
  obtains ad p1 p2 p3 p4 m4 p m5 where "kgrew m [ad, p1, p2, p3, p4] m4" 
    "kzalloc m4 (of_nat (root_bytes (boot_header img))) = (p, m5)" "root_loaded img a dsk m n ad p (kfree m5 p4)"
proof (rule fat16_resolve_boot [OF assms(1-5)])
  fix ad p1 p2 p3 p4 m4 pr st
  assume g: "kgrew m [ad, p1, p2, p3, p4] m4"
    and pr: "header pr = boot_header img" "good_stream (cluster_read_stream pr)" "good_stream (fat_read_stream pr)"
      "good_stream (directory_stream pr)"
    and res: "fat16_resolve a dsk m =
      (if img 38 \<noteq> FAT16_SIGNATURE then Some (fat16_resolve_out m4 dsk (Some (p4, st)) (- EFSNOTUS) ad pr)
       else do { (res', pr2, m5) \<leftarrow> fat16_get_root_directory a dsk pr m4;
         if res' \<noteq> ALL_OK then Some (fat16_resolve_out m5 dsk (Some (p4, st)) (- EIO) ad pr2)
         else Some (fat16_resolve_out m5 dsk (Some (p4, st)) 0 ad pr2) })"
  obtain p m5 where p: "kzalloc m4 (of_nat (root_bytes (boot_header img))) = (p, m5)" by fastforce
  with alloc [OF _ g] have "p \<noteq> 0" by simp
  with p obtain s where 5: "good_stream s" "fat16_get_root_directory a dsk pr m4 =
       Some (0, pr\<lparr>directory_stream := s, root_directory := loaded_root img (boot_header img) p n\<rparr>, m5)"
    using get_root_directory_image [OF assms(1,2) pr(4), of n m4 p m5] root unfolding pr(1) by metis
  have "fat16_resolve a dsk m = Some (0, dsk\<lparr>disk_filesystem := Some Fat16Fs, fs_private :=
      Some (ad, pr\<lparr>directory_stream := s, root_directory := loaded_root img (boot_header img) p n\<rparr>)\<rparr>, kfree m5 p4)"
    using assms(6) res 5(2) by (simp add: fat16_resolve_out_def diskstreamer_close_def ALL_OK_def)
  with pr 5(1) have "root_loaded img a dsk m n ad p (kfree m5 p4)"
    unfolding root_loaded_def
    by (intro exI [of _ "pr\<lparr>directory_stream := s, root_directory := loaded_root img (boot_header img) p n\<rparr>"]) simp
  then show thesis by (rule that [OF g p])
qed

text \<open>A root directory of one block, with room for six blocks anywhere.\<close>

lemma fat16_resolve_page:
  assumes "ata_serves a img" "sector_size dsk = 512" "disk_id dsk = 0" "kheap_ok m" "6 \<le> kroom m" "img 38 = FAT16_SIGNATURE"
    and root: "root_readable img (boot_header img) n" "root_bytes (boot_header img) \<le> 4096"
  shows "\<exists>ps m' ad p. length ps = 5 \<and> kgrown m ps m' \<and> root_loaded img a dsk m n ad p m'"
proof -
  let ?sz = "of_nat (root_bytes (boot_header img)) :: u32"
  have sz: "0 < unat ?sz" "unat ?sz \<le> 4096"
    using root by (simp_all add: root_readable_def unsigned_of_nat take_bit_nat_eq_self)
  have alloc: "\<exists>p m5. kzalloc m4 ?sz = (p, m5) \<and> p \<noteq> 0 \<and> kgrown m4 [p] m5" if "length ps = 5" "kgrew m ps m4" for ps m4
  proof -
    have "kheap_ok m4" "0 < kroom m4" using that assms(5) by (auto simp: kgrew_def grown_def)
    from kheap.grown_alloc [OF this(1) sz this(2)] show ?thesis by metis
  qed
  have five: "5 \<le> kroom m" using assms(5) by simp
  obtain ad p1 p2 p3 p4 m4 p m5 where r: "kgrew m [ad, p1, p2, p3, p4] m4" "kzalloc m4 ?sz = (p, m5)"
      "root_loaded img a dsk m n ad p (kfree m5 p4)"
  proof (rule fat16_resolve_root [OF assms(1-4) five assms(6) root(1)])
    show "fst (kzalloc m4 ?sz) \<noteq> 0" if "length ps = 5" "kgrew m ps m4" for ps m4
      using alloc [OF that] by auto
  qed
  from alloc [OF _ r(1)] r(2) have "kgrown m4 [p] m5" by auto
  then have "kgrown m [ad, p1, p2, p3, p4, p] m5" using kheap.grown_trans [OF kgrewD [OF r(1)]] by fastforce
  then have "kgrown m [ad, p1, p2, p3, p] (kfree m5 p4)" by (rule release_one) simp
  with r(3) show ?thesis by (intro exI [of _ "[ad, p1, p2, p3, p]"]) auto
qed

text \<open>A root directory of any size: six free runs of its size, one behind the other, are enough.\<close>

lemma fat16_resolve_run:
  assumes "ata_serves a img" "sector_size dsk = 512" "disk_id dsk = 0" "kheap_ok m" "img 38 = FAT16_SIGNATURE"
    and root: "root_readable img (boot_header img) n"
    and free: "free_at (tbl (kernel_heap m)) i (6 * blocks_for (root_bytes (boot_header img)))" "5 \<le> kroom m"
  shows "\<exists>m' ad p. heap_after m (4 + blocks_for (root_bytes (boot_header img))) m' \<and> root_loaded img a dsk m n ad p m'"
proof -
  let ?B = "root_bytes (boot_header img)"
  have u: "unat (of_nat ?B :: u32) = ?B"
    using root_bytes_le [of "boot_header img"] by (intro unat_of_nat_u32) simp
  have sz: "0 < unat (of_nat ?B :: u32)" "unat (of_nat ?B :: u32) \<le> 2 ^ 32 - 4096"
    using root root_bytes_le [of "boot_header img"] by (simp_all add: root_readable_def u del: unat_of_nat)
  have pos: "0 < blocks_for ?B" using root by (auto simp: root_readable_def blocks_for_def div_greater_zero_iff)
  have alloc: "\<exists>p m5. kzalloc m4 (of_nat ?B) = (p, m5) \<and> p \<noteq> 0 \<and> heap_after m4 (blocks_for ?B) m5"
    if "length ps = 5" "kgrew m ps m4" for ps m4
  proof -
    have a: "heap_after m 5 m4" using kgrew_after [OF that(2)] that(1) by simp
    have "\<exists>i. free_at (tbl (kernel_heap m4)) i (blocks_for (unat (of_nat ?B :: u32)))"
      using heap_after_fits [OF assms(4) a free(1) _ pos] unfolding u by simp
    from kzalloc_blocks_after [OF heap_afterD(1) [OF a] sz this] show ?thesis unfolding u by metis
  qed
  obtain ad p1 p2 p3 p4 m4 p m5 where r: "kgrew m [ad, p1, p2, p3, p4] m4" "kzalloc m4 (of_nat ?B) = (p, m5)"
      "root_loaded img a dsk m n ad p (kfree m5 p4)"
  proof (rule fat16_resolve_root [OF assms(1-4) free(2) assms(5) root])
    show "fst (kzalloc m4 (of_nat ?B)) \<noteq> 0" if "length ps = 5" "kgrew m ps m4" for ps m4
      using alloc [OF that] by auto
  qed
  from alloc [OF _ r(1)] r(2) have a: "heap_after m4 (blocks_for ?B) m5" by auto
  have b: "heap_after m (length [p4] + (4 + blocks_for ?B)) m5"
    using heap_after_trans [OF kgrew_after [OF r(1)] a] by (simp add: eval_nat_numeral)
  have "kowned m p4 = None" "kowned m4 p4 = Some 1" using r(1) by (auto simp: kgrew_def grown_def)
  then have "heap_after m (4 + blocks_for ?B) (release_seq kfree [p4] m5)"
    by (intro heap_after_release [OF b]) (simp_all add: heap_afterD(5) [OF a])
  then show ?thesis using r(3) by auto
qed

end
