(* ===== verification/FatProps.thy ===== *)
theory FatProps
  imports FatOpen FatMount HeapProps
begin

text \<open>
  The properties of the FAT16 file operations: what reading delivers, seeking on every
  branch, and the names of directory entries.
\<close>

section \<open>A sample volume\<close>

definition sample_header :: fat_h where
  "sample_header = \<lparr>primary_header = \<lparr>bytes_per_sector = 512, sectors_per_cluster = 2, reserved_sectors = 1,
     fat_copies = 2, root_dir_entries = 16, number_of_sectors = 0, sectors_per_fat = 1\<rparr>, signature = 0x29\<rparr>"

definition sample_stream :: stream_ptr where
  "sample_stream = Some (0x1000000, \<lparr>pos = 0, stream_disk = DiskStatic\<rparr>)"

definition sample_private :: fat_private where
  "sample_private = \<lparr>header = sample_header,
     root_directory = empty_directory\<lparr>sector_pos := 3, ending_sector_pos := 4\<rparr>,
     cluster_read_stream = sample_stream, fat_read_stream = sample_stream, directory_stream = sample_stream\<rparr>"

text \<open>A file of 3000 bytes whose first cluster is 3.\<close>

definition sample_item :: "u8 list" where
  "sample_item = ascii ''HELLO   TXT'' @ [0x20, 0, 0, 0, 0, 0, 0, 0, 0, 0, 0, 0, 0, 0, 0, 3, 0, 0xB8, 0x0B, 0, 0]"

definition sample_fat_state :: fat_state where
  "sample_fat_state = \<lparr>km = boot_kmem,
     the_disk = \<lparr>disk_type = 0, sector_size = 512, disk_id = 0, disk_filesystem = Some Fat16Fs,
       fs_private = Some (0x1002000, sample_private)\<rparr>,
     fat_descriptors = [0x1005000 \<mapsto> \<lparr>fd_item = \<lparr>fi_addr = 0x1003000, fi_union = UItem 0x1004000 sample_item,
       fi_type = FAT_ITEM_TYPE_FILE\<rparr>, fd_pos = 100\<rparr>]\<rparr>"

lemma sample_item_fields:
  "read_item sample_item = Some \<lparr>attributes = 0x20, high_16_bits_first_cluster = 0,
     low_16_bits_first_cluster = 3, filesize = 3000\<rparr>"
  by (simp add: sample_item_def ascii_def read_item_def get8_def get16_def get32_def arr_get_def)

lemma sample_volume:
  "volume (the_disk sample_fat_state) sample_private" "cluster_fits sample_private 3"
  "cluster_pos sample_private 3 = 3072"
  by (simp_all add: sample_fat_state_def volume_def sample_private_def sample_header_def good_stream_def
      sample_stream_def cluster_fits_def cluster_pos_def empty_directory_def)

section \<open>Reading\<close>

text \<open>An open file of the mounted volume.\<close>

definition open_file :: "fat_state \<Rightarrow> u32 \<Rightarrow> fat_file_descriptor \<Rightarrow> fat_directory_item \<Rightarrow> fat_private \<Rightarrow> bool" where
  "open_file s p fd item pr \<longleftrightarrow> fat_descriptors s p = Some fd \<and> descriptor_item fd = Some item \<and>
     disk_private s = Some pr \<and> volume (the_disk s) pr \<and>
     cluster_fits pr (unat (fat16_get_first_cluster item))"

lemma fat16_read_law:
  assumes "ata_serves a img" "open_file s p fd item pr"
    and "0 < unat sz" "unat sz \<le> spc pr * 512" "d + unat nmemb * unat sz \<le> length out"
    and "unat (fd_pos fd) + unat nmemb * unat sz < 2 ^ 31" "unat nmemb < 2 ^ 31"
  defines "k \<equiv> unat (fd_pos fd)"
  shows "\<exists>s' out'. fat16_read a s p sz nmemb out d =
      Some (if nmemb = 0 \<or> k + (unat nmemb - 1) * unat sz < spc pr * 512 then int (unat nmemb) else - EIO, s', out') \<and>
    (nmemb = 0 \<or> k + (unat nmemb - 1) * unat sz < spc pr * 512 \<longrightarrow>
       out' = overwrite out d
         (image_bytes img (cluster_pos pr (unat (fat16_get_first_cluster item)) + k) (unat nmemb * unat sz))) \<and>
    km s' = km s \<and> fat_descriptors s' = fat_descriptors s \<and>
    (\<exists>pr'. s' = put_private pr' s \<and> volume (the_disk s) pr' \<and> same_volume pr pr')"
proof -
  note O = assms(2) [unfolded open_file_def]
  have v: "volume (the_disk s) pr" "cluster_fits pr (unat (fat16_get_first_cluster item))" using O by simp_all
  obtain K where K: "uint (fd_pos fd) = int K" "unat (fd_pos fd) = K" by (rule uint_unatE)
  obtain N where N: "uint nmemb = int N" "unat nmemb = N" by (rule uint_unatE)
  have n0: "nmemb = 0 \<longleftrightarrow> N = 0" using N by (metis unat_eq_zero)
  have "unat (fd_pos fd) < 2 ^ 31" using assms(6) by (rule add_lessD1)
  then have si: "sint (fd_pos fd) = int K" "sint nmemb = int N"
    using K(1) N(1) assms(7) by (simp_all add: sint_u32_small)
  obtain pr' out' where V: "volume (the_disk s) pr'" "same_volume pr pr'"
    and L: "fat16_read_loop a (the_disk s) pr item sz (int K) N out d =
      Some (if N = 0 \<or> K + (N - 1) * unat sz < spc pr * 512 then 0 else - EIO, pr', out')"
    "N = 0 \<or> K + (N - 1) * unat sz < spc pr * 512 \<Longrightarrow> out' = overwrite out d
       (image_bytes img (cluster_pos pr (unat (fat16_get_first_cluster item)) + K) (N * unat sz))"
    using read_loop_law [OF assms(1) v assms(3,4), of d N out K] assms(5,6) K(2) N(2) by metis
  have "fat16_read a s p sz nmemb out d =
      Some (if N = 0 \<or> K + (N - 1) * unat sz < spc pr * 512 then int N else - EIO, put_private pr' s, out')"
    using O L(1) si N by (simp add: fat16_read_def IS_ERR_def EIO_def)
  moreover have "km (put_private pr' s) = km s" "fat_descriptors (put_private pr' s) = fat_descriptors s"
    by (simp_all add: put_private_def)
  ultimately show ?thesis unfolding k_def K(2) N(2) n0 using L(2) V by blast
qed

text \<open>
  C12. \<open>fat16_read\<close> (fat16.c) of \<open>nmemb\<close> blocks of \<open>size\<close> bytes, no block longer than a
  cluster, from an open file of a mounted volume. If every block starts within the first
  cluster of the file, the result is \<open>nmemb\<close> and the caller's object receives exactly the
  bytes of the disk from the file's first cluster plus the file position; otherwise the
  result is \<open>-EIO\<close>. In both cases the read returns, and the heap, the open files and
  the file position are unchanged.
\<close>

theorem fat16_read_spec:
  assumes "ata_serves a img" "open_file s p fd item pr"
    and "0 < unat sz" "unat sz \<le> spc pr * 512" "d + unat nmemb * unat sz \<le> length out"
    and "unat (fd_pos fd) + unat nmemb * unat sz < 2 ^ 31" "unat nmemb < 2 ^ 31"
  defines "k \<equiv> unat (fd_pos fd)"
  shows "\<exists>s' out'. fat16_read a s p sz nmemb out d =
      Some (if nmemb = 0 \<or> k + (unat nmemb - 1) * unat sz < spc pr * 512 then int (unat nmemb) else - EIO, s', out') \<and>
    (nmemb = 0 \<or> k + (unat nmemb - 1) * unat sz < spc pr * 512 \<longrightarrow>
       out' = overwrite out d
         (image_bytes img (cluster_pos pr (unat (fat16_get_first_cluster item)) + k) (unat nmemb * unat sz))) \<and>
    km s' = km s \<and> fat_descriptors s' = fat_descriptors s"
  unfolding k_def using fat16_read_law [OF assms(1-7)] by blast

theorem fat16_read_spec_witness:
  "(\<exists>s'. fat16_read (sample_ata (\<lambda>k. of_nat (k div 16))) sample_fat_state 0x1005000 4 2 (replicate 8 0xFF) 0 =
       Some (2, s', [198, 198, 198, 198, 198, 198, 198, 198])) \<and>
   (\<exists>s' out'. fat16_read (sample_ata (\<lambda>k. of_nat (k div 16))) sample_fat_state 0x1005000 1000 2 (replicate 2000 0xFF) 0 =
       Some (- EIO, s', out'))"
proof -
  let ?fd = "\<lparr>fd_item = \<lparr>fi_addr = 0x1003000, fi_union = UItem 0x1004000 sample_item,
       fi_type = FAT_ITEM_TYPE_FILE\<rparr>, fd_pos = 100\<rparr>"
  let ?it = "\<lparr>attributes = 0x20, high_16_bits_first_cluster = 0, low_16_bits_first_cluster = 3, filesize = 3000\<rparr>"
  have c: "unat (fat16_get_first_cluster ?it) = 3" by (simp add: fat16_get_first_cluster_def)
  have o: "open_file sample_fat_state 0x1005000 ?fd ?it sample_private"
    using sample_volume sample_item_fields c
    by (simp add: open_file_def descriptor_item_def disk_private_def sample_fat_state_def)
  have s: "spc sample_private = 2" by (simp add: sample_private_def sample_header_def)
  show ?thesis
    using fat16_read_spec [OF sample_ata_serves o, of 4 0 2 "replicate 8 0xFF" "\<lambda>k. of_nat (k div 16)"]
      fat16_read_spec [OF sample_ata_serves o, of 1000 0 2 "replicate 2000 0xFF" "\<lambda>k. of_nat (k div 16)"]
      sample_volume(3) c
    by (auto simp: s overwrite_def image_bytes_def upt_rec)
qed

text \<open>
  \<open>fat16_seek\<close> with \<open>SEEK_SET\<close> or \<open>SEEK_CUR\<close> followed by \<open>fat16_read\<close> (fat16.c): for an
  offset below the file size the seek succeeds and moves the position of this descriptor
  only, to the offset or by the offset (on 32 bits), and a block read that starts within the
  first cluster then delivers the bytes from the new position on. An offset at or past
  the size is \<open>-EIO\<close> and changes nothing.
\<close>

theorem fat16_seek_then_read:
  fixes off :: u32
  assumes "ata_serves a img" "open_file s p fd item pr" "fi_type (fd_item fd) = FAT_ITEM_TYPE_FILE"
    and "mode = SEEK_SET \<or> mode = SEEK_CUR"
  defines "q \<equiv> (if mode = SEEK_SET then off else fd_pos fd + off)"
  shows "if off < filesize item
    then \<exists>s1. fat16_seek s p off mode = Some (0, s1) \<and> km s1 = km s \<and>
      (\<forall>p'. p' \<noteq> p \<longrightarrow> fat_descriptors s1 p' = fat_descriptors s p') \<and>
      (\<forall>sz out d. 0 < unat sz \<longrightarrow> unat sz \<le> spc pr * 512 \<longrightarrow> d + unat sz \<le> length out \<longrightarrow>
         unat q < spc pr * 512 \<longrightarrow>
         (\<exists>s2. fat16_read a s1 p sz 1 out d = Some (1, s2, overwrite out d
           (image_bytes img (cluster_pos pr (unat (fat16_get_first_cluster item)) + unat q) (unat sz)))))
    else fat16_seek s p off mode = Some (- EIO, s)"
proof (cases "off < filesize item")
  case True
  note O = assms(2) [unfolded open_file_def]
  let ?fd = "fd\<lparr>fd_pos := q\<rparr>"
  let ?s1 = "s\<lparr>fat_descriptors := (fat_descriptors s)(p \<mapsto> ?fd)\<rparr>"
  have seek: "fat16_seek s p off mode = Some (0, ?s1)"
    using O assms(3,4) True
    by (auto simp: fat16_seek_def q_def SEEK_SET_def SEEK_CUR_def SEEK_END_def not_le)
  have o1: "open_file ?s1 p ?fd item pr"
    using O by (simp add: open_file_def descriptor_item_def disk_private_def)
  have "\<exists>s2. fat16_read a ?s1 p sz 1 out d = Some (1, s2, overwrite out d
        (image_bytes img (cluster_pos pr (unat (fat16_get_first_cluster item)) + unat q) (unat sz)))"
    if "0 < unat sz" "unat sz \<le> spc pr * 512" "d + unat sz \<le> length out" "unat q < spc pr * 512" for sz out d
  proof -
    have "spc pr < 256" using O spc_bounds by blast
    then have b: "unat (fd_pos ?fd) + unat (1 :: u32) * unat sz < 2 ^ 31" "unat (1 :: u32) < 2 ^ 31"
      "d + unat (1 :: u32) * unat sz \<le> length out" using that by simp_all
    from fat16_read_law [OF assms(1) o1 that(1,2) b(3,1,2)] that(4)
    show ?thesis by auto
  qed
  then show ?thesis using seek True by auto
next
  case False
  then show ?thesis using assms(2,3) by (auto simp: fat16_seek_def open_file_def not_less)
qed

definition sample_fd :: fat_file_descriptor where
  "sample_fd = \<lparr>fd_item = \<lparr>fi_addr = 0x1003000, fi_union = UItem 0x1004000 sample_item,
     fi_type = FAT_ITEM_TYPE_FILE\<rparr>, fd_pos = 100\<rparr>"

lemma sample_open_file:
  "open_file sample_fat_state 0x1005000 sample_fd \<lparr>attributes = 0x20, high_16_bits_first_cluster = 0,
     low_16_bits_first_cluster = 3, filesize = 3000\<rparr> sample_private"
  using sample_volume sample_item_fields
  by (simp add: open_file_def descriptor_item_def disk_private_def sample_fat_state_def sample_fd_def
      fat16_get_first_cluster_def)

theorem fat16_seek_then_read_witness:
  "(\<exists>s1. fat16_seek sample_fat_state 0x1005000 60 SEEK_CUR = Some (0, s1) \<and>
      (\<exists>s2. fat16_read (sample_ata (\<lambda>k. of_nat (k div 16))) s1 0x1005000 2 1 [0, 0] 0 = Some (1, s2, [202, 202]))) \<and>
   fat16_seek sample_fat_state 0x1005000 3000 SEEK_SET = Some (- EIO, sample_fat_state)"
proof -
  let ?img = "\<lambda>k. of_nat (k div 16) :: u8"
  have s: "spc sample_private = 2" by (simp add: sample_private_def sample_header_def)
  have t: "fi_type (fd_item sample_fd) = FAT_ITEM_TYPE_FILE" "fd_pos sample_fd = 100" by (simp_all add: sample_fd_def)
  from fat16_seek_then_read [OF sample_ata_serves sample_open_file t(1), where off = 60 and mode = SEEK_CUR and img = ?img]
  obtain s1 where s1: "fat16_seek sample_fat_state 0x1005000 60 SEEK_CUR = Some (0, s1)"
    "\<forall>sz out d. 0 < unat sz \<longrightarrow> unat sz \<le> spc sample_private * 512 \<longrightarrow> d + unat sz \<le> length out \<longrightarrow>
       unat (160 :: u32) < spc sample_private * 512 \<longrightarrow>
       (\<exists>s2. fat16_read (sample_ata ?img) s1 0x1005000 sz 1 out d = Some (1, s2, overwrite out d
         (image_bytes ?img (cluster_pos sample_private 3 + 160) (unat sz))))"
    by (auto simp: SEEK_SET_def SEEK_CUR_def t(2) fat16_get_first_cluster_def)
  have "\<exists>s2. fat16_read (sample_ata ?img) s1 0x1005000 2 1 [0, 0] 0 = Some (1, s2, [202, 202])"
    using s1(2) [rule_format, of 2 0 "[0, 0]"] sample_volume(3) s
    by (simp add: overwrite_def image_bytes_def upt_rec)
  with s1(1) show ?thesis
    using fat16_seek_then_read [OF sample_ata_serves sample_open_file t(1), where off = 3000 and mode = SEEK_SET and img = ?img]
    by auto
qed

section \<open>Names, opening and closing\<close>

text \<open>
  \<open>fat16_get_full_relative_filename\<close> (fat16.c) on a directory item with a proper 8.3
  name: it stays within the 108-byte buffer, whatever this held before, and leaves the name
  without its padding, followed by a dot and the extension if there is one.
\<close>

theorem fat16_name_of_item:
  assumes "proper_name item" "length out = 108"
  shows "\<exists>out'. fat16_get_full_relative_filename item out 108 = Some out' \<and> length out' = 108 \<and>
    terminated out' \<and> cstr out' = item_name item"
  by (rule full_relative_filename [OF assms])

theorem fat16_name_of_item_witness:
  "\<exists>out'. fat16_get_full_relative_filename sample_item (replicate 108 0x41) 108 = Some out' \<and>
     cstr out' = ascii ''HELLO.TXT''"
proof -
  have "proper_name sample_item" "item_name sample_item = ascii ''HELLO.TXT''"
    by (simp_all add: sample_item_def ascii_def proper_name_def item_name_def word_of_def name_char_def)
  with fat16_name_of_item [of sample_item "replicate 108 0x41"] show ?thesis by auto
qed

text \<open>
  C32. \<open>fat16_open\<close> and \<open>fat16_close\<close> (fat16.c) for a name in the root directory that
  exactly one item carries, ignoring case: opening gives a new descriptor at position 0
  holding a copy of that item, and closing it returns 0, removes the descriptor and brings
  the kernel heap and the open files back to what they were.
\<close>

theorem fat16_open_close:
  assumes ok: "lookup_ok s pr p" and one: "root_matches pr p = [i]"
  shows "\<exists>d s1 it. fat16_open a s [p] FILE_MODE_READ = Some (d, s1) \<and> d \<noteq> 0 \<and>
    fat_descriptors s1 = (fat_descriptors s)(d \<mapsto> \<lparr>fd_item = it, fd_pos = 0\<rparr>) \<and>
    uitem_bytes (fi_union it) = take 32 (nth_item (root_items pr) i) \<and>
    (\<exists>s2. fat16_close s1 d = Some (0, s2) \<and> kernel_heap (km s2) = kernel_heap (km s) \<and>
      fat_descriptors s2 = (fat_descriptors s)(d := None))"
proof -
  obtain d s1 bs where D: "fat16_open a s [p] FILE_MODE_READ = Some (if root_matches pr p = [] \<or> [] \<noteq> ([] :: path_part list) then ERROR (- EIO) else d, s1)"
    "d \<noteq> 0" "kgrew (km s) (d # bs) (km s1)" "length bs = 2 * length (root_matches pr p)"
    "if root_matches pr p = [] \<or> [] \<noteq> ([] :: path_part list) then fat_descriptors s1 = fat_descriptors s
     else \<exists>ad q qs. fat_descriptors s1 = (fat_descriptors s)
         (d \<mapsto> \<lparr>fd_item = file_item ad q (root_items pr) (last (root_matches pr p)), fd_pos = 0\<rparr>) \<and> bs = qs @ [ad, q]"
    by (rule fat16_open_law [OF ok, of a "[]"]) blast
  then obtain ad q where B: "fat_descriptors s1 = (fat_descriptors s)
      (d \<mapsto> \<lparr>fd_item = file_item ad q (root_items pr) i, fd_pos = 0\<rparr>)" "bs = [ad, q]"
    using one by auto
  have cl: "fat16_close s1 d = Some (0, s1\<lparr>km := release_seq kfree [q, ad, d] (km s1),
      fat_descriptors := (fat_descriptors s1)(d := None)\<rparr>)"
    by (rule fat16_close_law) (simp add: B(1))
  have "kgrew (km s) [] (release_seq kfree [q, ad, d] (km s1))"
    by (rule kgrew_release_seq [OF D(3)]) (simp add: B(2))
  then have "kernel_heap (release_seq kfree [q, ad, d] (km s1)) = kernel_heap (km s)"
    using ok by (intro kgrew_core) (auto simp: lookup_ok_def)
  then show ?thesis
    using D(1,2) one B(1) cl by (auto simp: file_item_def)
qed

definition sample_part :: path_part where
  "sample_part = \<lparr>part_addr = 0x1007000, part_ptr = 0x1006000, part = ascii ''hello.txt'' @ replicate 99 0\<rparr>"

definition sample_root_state :: fat_state where
  "sample_root_state = sample_fat_state\<lparr>the_disk := (the_disk sample_fat_state)\<lparr>fs_private :=
     Some (0x1002000, sample_private\<lparr>root_directory := \<lparr>dir_item_ptr = 0x1008000, dir_item = sample_item @ replicate 32 0,
       dir_total = 1, sector_pos = 3, ending_sector_pos = 4\<rparr>\<rparr>)\<rparr>\<rparr>"

definition sample_root_private :: fat_private where
  "sample_root_private = the (disk_private sample_root_state)"

lemma sample_root_facts:
  "root_items sample_root_private = sample_item @ replicate 32 0" "root_total sample_root_private = 1"
  "disk_private sample_root_state = Some sample_root_private" "km sample_root_state = boot_kmem"
  by (simp_all add: sample_root_private_def sample_root_state_def sample_fat_state_def disk_private_def
      root_items_def root_total_def)

lemma sample_part_facts: "length (part sample_part) = 108" "terminated (part sample_part)"
  "cstr (part sample_part) = ascii ''hello.txt''"
  by (simp_all add: sample_part_def ascii_def terminated_def cstr_def takeWhile_append2 takeWhile_replicate)

lemma sample_lookup:
  "lookup_ok sample_root_state sample_root_private sample_part" "root_matches sample_root_private sample_part = [0]"
proof -
  have i: "item_name (nth_item (sample_item @ replicate 32 0) 0) = ascii ''HELLO.TXT''"
    by (simp add: nth_item_def sample_item_def ascii_def item_name_def word_of_def name_char_def)
  have m: "name_matches (sample_item @ replicate 32 0) (part sample_part) 0"
    unfolding name_matches_def i sample_part_facts(3) by (simp add: ascii_def tolower_unat)
  then show r: "root_matches sample_root_private sample_part = [0]"
    by (simp add: root_matches_def sample_root_facts matches_def)
  have "searchable (sample_item @ replicate 32 0) (part sample_part) 0"
    by (simp add: searchable_def nth_item_def sample_item_def ascii_def proper_name_def word_of_def name_char_def
        FAT_FILE_SUBDIRECTORY_def)
  with r show "lookup_ok sample_root_state sample_root_private sample_part"
    using sample_root_facts sample_part_facts by (simp add: lookup_ok_def boot_kmem_facts)
qed

theorem fat16_open_close_witness:
  "\<exists>d s1 s2. fat16_open (sample_ata (\<lambda>_. 0)) sample_root_state [sample_part] FILE_MODE_READ = Some (d, s1) \<and>
     fat16_close s1 d = Some (0, s2) \<and> kernel_heap (km s2) = kernel_heap boot_kmem"
  using fat16_open_close [OF sample_lookup, of "sample_ata (\<lambda>_. 0)"] sample_root_facts(4) by auto

section \<open>Mounting\<close>

text \<open>
  C31. \<open>fat16_resolve\<close> (fat16.c) on a drive that holds an image. Without the FAT16
  signature it returns \<open>-EFSNOTUS\<close>, the disk has no private data, and the three streams
  of the private structure stay allocated. With the signature, a root directory of at most
  one heap block and a free item in it, it returns 0 and the private data hold the decoded
  boot sector, the bytes of the root directory, the number of items in use, and the first
  sector after the directory; five blocks are allocated.
\<close>

theorem fat16_resolve_spec:
  assumes "ata_serves a img" "sector_size dsk = 512" "disk_id dsk = 0" "kheap_ok m" "6 \<le> kroom m"
    and "img 38 = FAT16_SIGNATURE \<Longrightarrow> 0 < root_bytes (boot_header img) \<and> root_bytes (boot_header img) \<le> 4096 \<and>
      first_free img (root_sector (boot_header img) * 512) n \<and>
      root_sector (boot_header img) * 512 + 32 * n + 4096 < 2 ^ 31"
  shows "if img 38 = FAT16_SIGNATURE
    then \<exists>ps m' ad pr p. length ps = 5 \<and> kgrown m ps m' \<and>
        fat16_resolve a dsk m = Some (0, dsk\<lparr>disk_filesystem := Some Fat16Fs, fs_private := Some (ad, pr)\<rparr>, m') \<and>
        header pr = boot_header img \<and> root_directory pr = loaded_root img (boot_header img) p n
    else \<exists>ps m'. length ps = 3 \<and> kgrown m ps m' \<and>
      fat16_resolve a dsk m = Some (- EFSNOTUS, dsk\<lparr>disk_filesystem := Some Fat16Fs, fs_private := None\<rparr>, m')"
proof (cases "img 38 = FAT16_SIGNATURE")
  case True
  with assms(6) have "root_readable img (boot_header img) n" "root_bytes (boot_header img) \<le> 4096"
    by (simp_all add: root_readable_def)
  from fat16_resolve_page [OF assms(1-5) True this] show ?thesis
    unfolding root_loaded_def if_P [OF True] by (elim exE conjE) (intro exI conjI, assumption+)
next
  case False
  with assms(5) fat16_resolve_other [OF assms(1-4) _ False] show ?thesis by simp
qed

text \<open>A boot sector with one reserved sector, two tables of one sector and 16 root entries.\<close>

definition sample_image :: "nat \<Rightarrow> u8" where
  "sample_image k = (if k = 13 then 2 else if k = 14 then 1 else if k = 16 then 2 else if k = 17 then 16
     else if k = 22 then 1 else if k = 38 then 0x29
     else if 1536 \<le> k \<and> k < 1568 then sample_item ! (k - 1536) else 0)"

definition sample_disk :: disk where
  "sample_disk = \<lparr>disk_type = 0, sector_size = 512, disk_id = 0, disk_filesystem = None, fs_private = None\<rparr>"

lemma sample_image_header:
  "root_sector (boot_header sample_image) = 3" "root_bytes (boot_header sample_image) = 512"
proof -
  have h: "read_fat_h (image_bytes sample_image 0 62) = Some (boot_header sample_image)"
    by (rule boot_header_read)
  have "get8 (image_bytes sample_image 0 62) k = Some (sample_image k)" if "k < 62" for k
    using that by (simp add: get8_def array_simps image_bytes_nth)
  then have "boot_header sample_image = \<lparr>primary_header = \<lparr>bytes_per_sector = 0, sectors_per_cluster = 2,
      reserved_sectors = 1, fat_copies = 2, root_dir_entries = 16, number_of_sectors = 0, sectors_per_fat = 1\<rparr>,
      signature = 0x29\<rparr>"
    using h by (simp add: read_fat_h_def get16_def sample_image_def)
  then show "root_sector (boot_header sample_image) = 3" "root_bytes (boot_header sample_image) = 512"
    by (simp_all add: root_sector_def root_bytes_def)
qed

lemma sample_image_free: "first_free sample_image 1536 1"
  by (simp add: first_free_def sample_image_def sample_item_def ascii_def)

theorem fat16_resolve_spec_witness:
  "(\<exists>m' ad pr. fat16_resolve (sample_ata sample_image) sample_disk boot_kmem =
       Some (0, sample_disk\<lparr>disk_filesystem := Some Fat16Fs, fs_private := Some (ad, pr)\<rparr>, m') \<and>
     ending_sector_pos (root_directory pr) = 4 \<and> dir_total (root_directory pr) = 1) \<and>
   (\<exists>m'. fat16_resolve (sample_ata (\<lambda>_. 0)) sample_disk boot_kmem =
       Some (- EFSNOTUS, sample_disk\<lparr>disk_filesystem := Some Fat16Fs, fs_private := None\<rparr>, m'))"
proof -
  have s: "sample_image 38 = FAT16_SIGNATURE" by (simp add: sample_image_def FAT16_SIGNATURE_def)
  have l: "live_items sample_image 1536 1 = 1"
    by (simp add: live_items_def sample_image_def sample_item_def ascii_def)
  have d: "sector_size sample_disk = 512" "disk_id sample_disk = 0" by (simp_all add: sample_disk_def)
  have "6 \<le> kroom boot_kmem" by (simp add: boot_kmem_facts)
  note R = fat16_resolve_spec [OF sample_ata_serves d boot_kmem_facts(1) this, where n = 1]
  obtain m' ad pr p where
    1: "fat16_resolve (sample_ata sample_image) sample_disk boot_kmem =
          Some (0, sample_disk\<lparr>disk_filesystem := Some Fat16Fs, fs_private := Some (ad, pr)\<rparr>, m')"
      "root_directory pr = loaded_root sample_image (boot_header sample_image) p 1"
    using R [of sample_image] s sample_image_header sample_image_free by auto
  have "\<exists>ps m'. length ps = 3 \<and> kgrown boot_kmem ps m' \<and>
      fat16_resolve (sample_ata (\<lambda>_. 0)) sample_disk boot_kmem =
        Some (- EFSNOTUS, sample_disk\<lparr>disk_filesystem := Some Fat16Fs, fs_private := None\<rparr>, m')"
    using R [of "\<lambda>_. 0"] by (simp add: FAT16_SIGNATURE_def)
  then have "\<exists>m'. fat16_resolve (sample_ata (\<lambda>_. 0)) sample_disk boot_kmem =
      Some (- EFSNOTUS, sample_disk\<lparr>disk_filesystem := Some Fat16Fs, fs_private := None\<rparr>, m')" by blast
  moreover have "ending_sector_pos (root_directory pr) = 4 \<and> dir_total (root_directory pr) = 1"
    using 1(2) sample_image_header l by (simp add: loaded_root_def)
  ultimately show ?thesis using 1(1) by blast
qed

end
