(* ===== verification/PathProps.thy ===== *)
theory PathProps
  imports PathParser HeapProps
begin

text \<open>
  The properties of the path parser: it accepts exactly the well-formed absolute paths
  of at most 108 characters, never writes outside a name buffer, gives the names in order,
  and \<open>pathparser_free\<close> gives all its memory back.
\<close>

text \<open>
  C21. \<open>pathparser_parse\<close> (pparser.c) on a terminated string. If the string is a digit
  followed by \<open>:/\<close> and has at most 108 characters, and the heap has room for the parts,
  the result is a root with that drive number whose part list holds the names between
  slashes up to the first empty one, each name terminated within its 108-byte buffer; the
  blocks of these objects are all that was allocated, and no byte of older memory has changed;
  otherwise the result is null and no memory has been allocated.
\<close>

theorem pathparser_parse_spec:
  assumes "kheap_ok m" "terminated path"
    and "2 * length (path_names (drop 3 (cstr path))) + 3 \<le> kroom m"
  shows "if path_ok path
    then \<exists>r m'. pathparser_parse m path = Some (Some r, m') \<and>
      drive_no r = uint (path ! 0) - 48 \<and> map part_name (first r) = path_names (drop 3 (cstr path)) \<and>
      (\<forall>p \<in> set (first r). length (part p) = 108 \<and> terminated (part p)) \<and> kgrew m (root_blocks r) m'
    else pathparser_parse m path = Some (None, m)"
proof (cases "path_ok path")
  case True
  from pathparser_parse_ok [OF assms(1,2) True assms(3)] True show ?thesis by auto
qed (use assms pathparser_parse_bad in auto)

definition sample_path :: "u8 list" where
  "sample_path = ascii ''0:/docs/a.txt'' @ [0]"

theorem pathparser_parse_spec_witness:
  "\<exists>r m'. pathparser_parse boot_kmem sample_path = Some (Some r, m') \<and> drive_no r = 0 \<and>
     map part_name (first r) = [ascii ''docs'', ascii ''a.txt'']"
proof -
  have t: "terminated sample_path" "path_ok sample_path"
    by (simp_all add: sample_path_def ascii_def path_ok_def isdigit_unat)
  have n: "path_names (drop 3 (cstr sample_path)) = [ascii ''docs'', ascii ''a.txt'']"
    by (simp add: sample_path_def ascii_def path_names_def)
  show ?thesis
    using pathparser_parse_spec [of boot_kmem sample_path] t n
    by (auto simp: boot_kmem_facts sample_path_def ascii_def)
qed

text \<open>
  No leak: for an accepted path, \<open>pathparser_free\<close> (pparser.c) of the parsed root
  brings the kernel heap back to exactly the state before \<open>pathparser_parse\<close>.
\<close>

theorem pathparser_free_restores:
  assumes "kheap_ok m" "terminated path" "path_ok path"
    and "2 * length (path_names (drop 3 (cstr path))) + 3 \<le> kroom m"
  shows "\<exists>r m'. pathparser_parse m path = Some (Some r, m') \<and>
    kernel_heap (pathparser_free m' r) = kernel_heap m"
  using pathparser_parse_ok [OF assms] pathparser_free_law [OF assms(1)] by blast

theorem pathparser_free_restores_witness:
  "\<exists>r m'. pathparser_parse boot_kmem sample_path = Some (Some r, m') \<and>
     kernel_heap (pathparser_free m' r) = kernel_heap boot_kmem"
  by (rule pathparser_free_restores)
    (simp_all add: sample_path_def ascii_def path_ok_def isdigit_unat path_names_def boot_kmem_facts)

end
