(* ===== verification/FileProps.thy ===== *)
theory FileProps
  imports FileLayer FatProps PathProps
begin

text \<open>The properties of the virtual file system with FAT16 behind it.\<close>

lemma mode_r: "file_get_mode_by_string (of_char CHR ''r'' # s) = Some FILE_MODE_READ"
  by (simp add: file_get_mode_by_string_def strncmp_def ascii_def)

text \<open>A path with one name that exactly one item of the root directory carries, parsed and ready to be opened.\<close>

lemma parse_root_file:
  assumes "kheap_ok (km (fsys s))" "kheap_low (km (fsys s))" "9 \<le> kroom (km (fsys s))"
    and "terminated filename" "path_ok filename" "filename ! 0 = of_char CHR ''0''"
    and "path_names (drop 3 (cstr filename)) = [nm]"
    and "disk_private (fsys s) = Some pr" "unique_root_file pr nm j"
  obtains r m1 p where "pathparser_parse (km (fsys s)) filename = Some (Some r, m1)" "kgrew (km (fsys s)) (root_blocks r) m1"
    "first r = [p]" "first r \<noteq> []" "drive_no r = 0" "fat16_pre ((fsys s)\<lparr>km := m1\<rparr>) (first r)" "length (root_blocks r) = 3"
    "length (part p) = 108" "terminated (part p)" "cstr (part p) = nm" "6 \<le> kroom m1" "kheap_ok m1"
proof -
  let ?m = "km (fsys s)"
  have "2 * length (path_names (drop 3 (cstr filename))) + 3 \<le> kroom ?m" using assms(3,7) by simp
  from pathparser_parse_ok [OF assms(1,4,5) this] obtain r m1 where r:
    "pathparser_parse ?m filename = Some (Some r, m1)" "drive_no r = uint (filename ! 0) - 48"
    "map part_name (first r) = [nm]" "\<forall>p \<in> set (first r). length (part p) = 108 \<and> terminated (part p)"
    "kgrew ?m (root_blocks r) m1" using assms(7) by auto
  obtain p where p: "first r = [p]" "part_name p = nm" using r(3) by auto
  have len: "length (root_blocks r) = 3" by (simp add: root_blocks_def part_blocks_def p(1))
  have low: "kheap_low m1"
    using r(5) assms(2) by (simp add: kgrew_def grown_def kframe_def heap_frame_def kheap_low_def tbl_length)
  have room: "6 \<le> kroom m1" "kheap_ok m1" using r(5) assms(3) len by (auto simp: kgrew_def grown_def)
  have "fat16_pre ((fsys s)\<lparr>km := m1\<rparr>) (first r)"
    unfolding fat16_pre_def using p r(4) low assms(8,9) room
    by (intro exI [of _ p] exI [of _ pr] exI [of _ j]) (auto simp: disk_private_def part_name_def)
  then show thesis using p r len room assms(6) by (intro that [of r m1 p]) (simp_all add: part_name_def)
qed

lemma mode_string: "file_get_mode_by_string (ascii ''r'' @ [0]) = Some FILE_MODE_READ"
  using mode_r by (simp add: ascii_def)

text \<open>
  C13. \<open>fopen\<close> and \<open>fclose\<close> (file.c) on FAT16, for a path with one name that exactly one
  item of the root directory carries. \<open>fopen\<close> returns the number of the first free
  descriptor; \<open>fclose\<close> of it returns 0 and gives the descriptor table back as it was, but
  the heap has grown by the parsed path, which \<open>fopen\<close> never frees: three blocks. No byte
  of older memory has changed.
\<close>

theorem fopen_fclose_leaks_path:
  assumes "kheap_ok (km (fsys s))" "kheap_low (km (fsys s))" "9 \<le> kroom (km (fsys s))"
    and "terminated filename" "path_ok filename" "filename ! 0 = of_char CHR ''0''"
    and "path_names (drop 3 (cstr filename)) = [nm]"
    and "disk_private (fsys s) = Some pr" "unique_root_file pr nm j"
    and "disk_filesystem (the_disk (fsys s)) = Some Fat16Fs" "tab Fat16Fs = fat16_fs a"
    and "length (file_descriptors s) = 512" "first_null (file_descriptors s) = Some i"
  shows "\<exists>s1 s2 leak. fopen tab s filename (ascii ''r'' @ [0]) = Some (int i + 1, s1) \<and>
    fclose tab s1 (int i + 1) = Some (0, s2) \<and> file_descriptors s2 = file_descriptors s \<and>
    length leak = 3 \<and> kgrew (km (fsys s)) leak (km (fsys s2))"
proof -
  obtain r m1 p where r: "pathparser_parse (km (fsys s)) filename = Some (Some r, m1)" "kgrew (km (fsys s)) (root_blocks r) m1"
    "first r \<noteq> []" "drive_no r = 0" "fat16_pre ((fsys s)\<lparr>km := m1\<rparr>) (first r)" "length (root_blocks r) = 3"
    by (rule parse_root_file [OF assms(1-9)]) (rule that, assumption+)
  obtain s1 s2 where "fopen tab s filename (ascii ''r'' @ [0]) = Some (int i + 1, s1)"
    "fclose tab s1 (int i + 1) = Some (0, s2)" "file_descriptors s2 = file_descriptors s"
    "kgrew (km (fsys s)) (root_blocks r) (km (fsys s2))"
    by (rule fat16.fopen_fclose [where tab = tab and f = Fat16Fs, OF assms(1) r(1-5) assms(10,11) mode_string assms(12,13)])
  with r(6) show ?thesis by blast
qed

definition sample_file_state :: file_state where
  "sample_file_state = \<lparr>fsys = sample_root_state, filesystems = Some Fat16Fs # replicate 11 None,
     file_descriptors = replicate 512 None\<rparr>"

definition sample_tab :: "fs_ref \<Rightarrow> fs_ops" where
  "sample_tab f = fat16_fs (sample_ata (\<lambda>_. 0))"

definition hello_path :: "u8 list" where
  "hello_path = ascii ''0:/hello.txt'' @ [0]"

lemma boot_kmem_low: "kheap_low boot_kmem"
  using kheap_init_boot [of "\<lambda>_. 0" "sample_heap []"]
  by (simp add: kheap_low_def boot_kmem_def HEAP_ADDRESS_def)

lemma sample_unique: "unique_root_file sample_root_private (ascii ''hello.txt'') 0"
proof -
  have m: "root_matches sample_root_private sample_part = [0]"
    "\<forall>j < root_total sample_root_private. searchable (root_items sample_root_private) (part sample_part) j"
    using sample_lookup by (auto simp: lookup_ok_def)
  have nm: "name_matches items b = name_matches items (part sample_part)" if "cstr b = ascii ''hello.txt''" for items b
    using that sample_part_facts(3) by (simp add: name_matches_def fun_eq_iff)
  then show ?thesis
    using m by (simp add: unique_root_file_def root_matches_def matches_def searchable_def)
qed

theorem fopen_fclose_leaks_path_witness:
  "\<exists>s1 s2 leak. fopen sample_tab sample_file_state hello_path (ascii ''r'' @ [0]) = Some (1, s1) \<and>
     fclose sample_tab s1 1 = Some (0, s2) \<and> length leak = 3 \<and> kgrew boot_kmem leak (km (fsys s2))"
proof -
  have h: "terminated hello_path" "path_ok hello_path" "hello_path ! 0 = of_char CHR ''0''"
    "path_names (drop 3 (cstr hello_path)) = [ascii ''hello.txt'']"
    by (simp_all add: hello_path_def ascii_def path_ok_def isdigit_unat path_names_def)
  have f: "first_null (file_descriptors sample_file_state) = Some 0"
  proof -
    have "replicate 512 None = (None :: file_descriptor option) # replicate 511 None"
      by (simp flip: replicate_Suc)
    then show ?thesis by (simp add: sample_file_state_def)
  qed
  have k: "km (fsys sample_file_state) = boot_kmem" "disk_private (fsys sample_file_state) = Some sample_root_private"
    "disk_filesystem (the_disk (fsys sample_file_state)) = Some Fat16Fs"
    using sample_root_facts by (simp_all add: sample_file_state_def sample_root_state_def sample_fat_state_def)
  have l: "length (file_descriptors sample_file_state) = 512" by (simp add: sample_file_state_def)
  from fopen_fclose_leaks_path [OF _ _ _ h k(2) sample_unique k(3) _ _ f, of sample_tab "sample_ata (\<lambda>_. 0)"]
  have "\<exists>s1 s2 leak. fopen sample_tab sample_file_state hello_path (ascii ''r'' @ [0]) = Some (int 0 + 1, s1) \<and>
      fclose sample_tab s1 (int 0 + 1) = Some (0, s2) \<and> file_descriptors s2 = file_descriptors sample_file_state \<and>
      length leak = 3 \<and> kgrew (km (fsys sample_file_state)) leak (km (fsys s2))"
    using boot_kmem_facts boot_kmem_low by (simp add: k(1) sample_tab_def l)
  then show ?thesis unfolding k(1) by auto
qed

text \<open>
  C33. \<open>fopen\<close> (file.c) of a path that is not absolute, or longer than 108 characters,
  returns 0 and changes nothing. The comment above the function promises a negative error
  code; every error becomes 0, and no descriptor has the number 0.
\<close>

theorem fopen_bad_path:
  assumes "terminated filename" "\<not> path_ok filename"
  shows "fopen tab s filename mode_str = Some (0, s) \<and> file_get_descriptor s 0 = None"
  using pathparser_parse_bad [OF assms]
  by (simp add: fopen_def fopen_res_def Let_def EINVARG_def file_get_descriptor_def)

theorem fopen_bad_path_witness:
  "fopen sample_tab sample_file_state (ascii ''hello.txt'' @ [0]) (ascii ''r'' @ [0]) = Some (0, sample_file_state)"
  using fopen_bad_path [of "ascii ''hello.txt'' @ [0]" sample_tab sample_file_state "ascii ''r'' @ [0]"]
  by (simp add: ascii_def path_ok_def isdigit_unat)

end
