(* ===== verification/ElfProps.thy ===== *)
theory ElfProps
  imports ElfFormat
begin

text \<open>
  Properties of the loader of executables: which images it accepts, and the bounds of the
  loadable segments it computes. The instance is an image with two loadable segments.
\<close>

lemma memcmp_loop_equal:
  "length xs = n \<Longrightarrow> length ys = n \<Longrightarrow> memcmp_loop xs ys n = Some 0 \<longleftrightarrow> xs = ys"
  by (induction xs ys n rule: memcmp_loop.induct) (auto simp: length_Suc_conv split: if_splits)

lemma elf_valid_signature_iff: "elf_valid_signature m p \<longleftrightarrow> ram_bytes m p 4 = elf_signature"
  by (simp add: elf_valid_signature_def memcmp_def memcmp_loop_equal ram_bytes_def elf_signature_def ascii_def)

text \<open>The image starts with the signature, is 32 bit or of no class, little endian or of no encoding, and has program headers.\<close>

definition elf_accepted :: "ram \<Rightarrow> u32 \<Rightarrow> bool" where
  "elf_accepted m p \<longleftrightarrow> ram_bytes m p 4 = [0x7F, 0x45, 0x4C, 0x46] \<and> m (p + 4) \<in> {0, 1} \<and>
     m (p + 5) \<in> {0, 1} \<and> load32 m (p + 28) \<noteq> 0"

lemma elf_validate_iff: "elf_validate_loaded m p = (if elf_accepted m p then 0 else - EINFORMAT)"
  by (auto simp: elf_validate_loaded_def Let_def elf_valid_signature_iff elf_accepted_def elf_valid_class_def
      elf_valid_encoding_def elf_has_program_header_def read_elf_header_def ram_bytes_def EI_NIDENT_def
      EI_CLASS_def EI_DATA_def ELFCLASSNONE_def ELFCLASS32_def ELFDATANONE_def ELFDATA2LSB_def
      elf_signature_def ascii_def status_simps)

text \<open>
  C18. \<open>elf_process_loaded\<close> (elfloader.c) on an image at address \<open>p\<close>: an image that is not accepted
  gives \<open>-EINFORMAT\<close> and leaves the object alone. For an accepted one, the single pass over the
  program headers computes what a search over all loadable segments would: the virtual base is
  the lowest segment address, the virtual end the highest segment end, and the physical base and
  end are those of a segment with this address and this end. The segments must not start or end
  at 0, because the pass takes 0 for "not set yet".
\<close>

theorem elf_process_loaded_spec:
  assumes "\<forall>h \<in> set (loaded (phdrs m p)). p_vaddr h \<noteq> 0 \<and> seg_end h \<noteq> 0"
  shows "if elf_accepted m p
    then \<exists>f. elf_process_loaded m (zero_elf_file\<lparr>elf_memory := p\<rparr>) = (0, f) \<and> elf_memory f = p \<and>
      (if loaded (phdrs m p) = [] then virtual_base_address f = 0 \<and> virtual_end_address f = 0
       else virtual_base_address f = Min (p_vaddr ` set (loaded (phdrs m p))) \<and>
         virtual_end_address f = Max (seg_end ` set (loaded (phdrs m p))) \<and>
         (\<exists>h \<in> set (loaded (phdrs m p)). p_vaddr h = virtual_base_address f \<and>
            physical_base_address f = p + p_offset h) \<and>
         (\<exists>h \<in> set (loaded (phdrs m p)). seg_end h = virtual_end_address f \<and>
            physical_end_address f = p + p_offset h + p_filesz h))
    else elf_process_loaded m (zero_elf_file\<lparr>elf_memory := p\<rparr>) = (- EINFORMAT, zero_elf_file\<lparr>elf_memory := p\<rparr>)"
proof (cases "elf_accepted m p")
  case True
  let ?f = "zero_elf_file\<lparr>elf_memory := p\<rparr>"
  have "bounds_of p [] ?f" by (simp add: bounds_of_def zero_elf_file_def)
  from bounds_of_fold [OF this, of "phdrs m p"] assms obtain g
    where g: "g = fold (\<lambda>h f. snd (elf_process_pheader f h)) (phdrs m p) ?f" "bounds_of p (loaded (phdrs m p)) g"
    by auto
  have "elf_process_loaded m ?f = (0, g)"
    using True by (simp add: elf_process_loaded_def elf_header_of_def elf_validate_iff elf_process_pheaders_fold g(1))
  with g(2) show ?thesis unfolding if_P [OF True] bounds_of_def by blast
next
  case False
  then show ?thesis
    by (simp add: elf_process_loaded_def elf_header_of_def elf_validate_iff status_simps)
qed

text \<open>An image with a code segment at 0x400000 and a data segment at 0x402000.\<close>

definition le32 :: "u32 \<Rightarrow> u8 list" where
  "le32 v = [ucast v, ucast (drop_bit 8 v), ucast (drop_bit 16 v), ucast (drop_bit 24 v)]"

definition sample_image :: "u8 list" where
  "sample_image = [0x7F, 0x45, 0x4C, 0x46, 1, 1, 1, 0, 0, 0, 0, 0, 0, 0, 0, 0, 2, 0, 3, 0, 1, 0, 0, 0,
     0, 0, 0x40, 0, 52, 0, 0, 0, 0, 0, 0, 0, 0, 0, 0, 0, 52, 0, 32, 0, 2, 0, 0, 0, 0, 0, 0, 0,
     1, 0, 0, 0, 0, 16, 0, 0, 0, 0, 0x40, 0, 0, 0, 0x40, 0, 0, 2, 0, 0, 0, 2, 0, 0, 5, 0, 0, 0, 0, 16, 0, 0,
     1, 0, 0, 0, 0, 32, 0, 0, 0, 32, 0x40, 0, 0, 32, 0x40, 0, 4, 0, 0, 0, 8, 0, 0, 0, 6, 0, 0, 0, 0, 16, 0, 0]"

definition sample_ram :: ram where
  "sample_ram a = (if unat a < 116 then sample_image ! unat a else 0)"

lemma sample_phdrs:
  "phdrs sample_ram 0 =
     [\<lparr>p_type = 1, p_offset = 0x1000, p_vaddr = 0x400000, p_paddr = 0x400000, p_filesz = 0x200, p_memsz = 0x200,
       p_flags = 5, p_align = 0x1000\<rparr>,
      \<lparr>p_type = 1, p_offset = 0x2000, p_vaddr = 0x402000, p_paddr = 0x402000, p_filesz = 4, p_memsz = 8,
       p_flags = 6, p_align = 0x1000\<rparr>]"
  by code_simp

lemma sample_accepted: "elf_accepted sample_ram 0"
  by code_simp

theorem elf_process_loaded_spec_witness:
  "\<exists>f. elf_process_loaded sample_ram (zero_elf_file\<lparr>elf_memory := 0\<rparr>) = (0, f) \<and>
     virtual_base_address f = 0x400000 \<and> virtual_end_address f = 0x402004 \<and>
     physical_base_address f = 0x1000 \<and> physical_end_address f = 0x2004"
proof -
  have l: "loaded (phdrs sample_ram 0) = phdrs sample_ram 0"
    by (simp add: loaded_def sample_phdrs PT_LOAD_def)
  have "\<forall>h \<in> set (loaded (phdrs sample_ram 0)). p_vaddr h \<noteq> 0 \<and> seg_end h \<noteq> 0"
    unfolding l by (simp add: sample_phdrs seg_end_def)
  from elf_process_loaded_spec [OF this] sample_accepted show ?thesis
    unfolding l by (auto simp: sample_phdrs seg_end_def)
qed

end
