(* ===== verification/DiskLoad.thy ===== *)
theory DiskLoad
  imports UserMode FileProps ElfProps
begin

text \<open>
  From the disk to a running program: \<open>process_load_for_slot\<close> (process.c) on a plain binary of the
  FAT16 volume. The file is opened twice through the virtual file system, first by the
  loader of executables, which rejects it, then as a binary; both times it is read into new blocks of the heap.
\<close>

section \<open>A file on the disk\<close>

text \<open>
  The path names exactly one file of the root directory of the mounted volume; its \<open>sz\<close> bytes, at most a cluster, are at \<open>off\<close> of
  the image \<open>img\<close> on the drive, and a file descriptor is free.
\<close>

definition disk_file :: "(fs_ref \<Rightarrow> fs_ops) \<Rightarrow> ata \<Rightarrow> (nat \<Rightarrow> u8) \<Rightarrow> file_state \<Rightarrow> u8 list \<Rightarrow> nat \<Rightarrow> u32 \<Rightarrow> bool" where
  "disk_file ops a img f fname off sz \<longleftrightarrow>
     terminated fname \<and> path_ok fname \<and> fname ! 0 = of_char CHR ''0'' \<and> ops Fat16Fs = fat16_fs a \<and> ata_serves a img \<and>
     disk_filesystem (the_disk (fsys f)) = Some Fat16Fs \<and> length (file_descriptors f) = 512 \<and> None \<in> set (file_descriptors f) \<and>
     (\<exists>pr nm j item. disk_private (fsys f) = Some pr \<and> path_names (drop 3 (cstr fname)) = [nm] \<and> unique_root_file pr nm j \<and>
        volume (the_disk (fsys f)) pr \<and> read_item (take 32 (nth_item (root_items pr) j)) = Some item \<and>
        cluster_fits pr (unat (fat16_get_first_cluster item)) \<and> off = cluster_pos pr (unat (fat16_get_first_cluster item)) \<and>
        filesize item = sz \<and> 0 < unat sz \<and> unat sz \<le> spc pr * 512)"

text \<open>The open file: the descriptor \<open>fd\<close>, and the four blocks that \<open>fclose\<close> gives back.\<close>

definition opened_file :: "(fs_ref \<Rightarrow> fs_ops) \<Rightarrow> ata \<Rightarrow> (nat \<Rightarrow> u8) \<Rightarrow> u8 list \<Rightarrow> nat \<Rightarrow> u32 \<Rightarrow> file_state \<Rightarrow> int \<Rightarrow> u32 list \<Rightarrow> bool" where
  "opened_file ops a img fname off sz f fd bs \<longleftrightarrow>
     (\<exists>d it item pr ad q items j. file_get_descriptor f fd = Some d \<and> index d = fd \<and> ops (desc_filesystem d) = fat16_fs a \<and>
        ata_serves a img \<and> length (file_descriptors f) = 512 \<and> bs = [q, ad, desc_private d, desc_addr d] \<and>
        it = \<lparr>fd_item = file_item ad q items j, fd_pos = 0\<rparr> \<and> open_file (fsys f) (desc_private d) it item pr \<and>
        off = cluster_pos pr (unat (fat16_get_first_cluster item)) \<and> filesize item = sz \<and> 0 < unat sz \<and> unat sz \<le> spc pr * 512) \<and>
     disk_file ops a img (f\<lparr>file_descriptors := (file_descriptors f)[nat (fd - 1) := None]\<rparr>) fname off sz"

lemma disk_file_km [simp]:
  "disk_file ops a img (f\<lparr>fsys := (fsys f)\<lparr>km := m\<rparr>\<rparr>) fname off sz = disk_file ops a img f fname off sz"
  by (simp add: disk_file_def disk_private_def)

lemma opened_file_km [simp]:
  "opened_file ops a img fname off sz (f\<lparr>fsys := (fsys f)\<lparr>km := m\<rparr>\<rparr>) fd bs = opened_file ops a img fname off sz f fd bs"
  by (simp add: opened_file_def disk_file_def disk_private_def open_file_def file_get_descriptor_def)

lemma first_null_some: "None \<in> set xs \<Longrightarrow> \<exists>i. first_null xs = Some i"
  using first_null_none by fastforce

lemma disk_file_open:
  assumes D: "disk_file ops a img f fname off sz"
    and heap: "kheap_ok (km (fsys f))" "kheap_low (km (fsys f))" "9 \<le> kroom (km (fsys f))"
  obtains fd f1 leak bs where "fopen ops f fname (ascii ''r'' @ [0]) = Some (fd, f1)" "0 < fd"
    "kgrew (km (fsys f)) (leak @ bs) (km (fsys f1))" "length leak = 3" "length bs = 4"
    "opened_file ops a img fname off sz f1 fd bs"
proof -
  from D obtain pr nm j item where F: "disk_private (fsys f) = Some pr" "path_names (drop 3 (cstr fname)) = [nm]"
    "unique_root_file pr nm j" "volume (the_disk (fsys f)) pr" "read_item (take 32 (nth_item (root_items pr) j)) = Some item"
    "cluster_fits pr (unat (fat16_get_first_cluster item))" "off = cluster_pos pr (unat (fat16_get_first_cluster item))"
    "filesize item = sz" "0 < unat sz" "unat sz \<le> spc pr * 512"
    and P: "terminated fname" "path_ok fname" "fname ! 0 = of_char CHR ''0''"
    and O: "ops Fat16Fs = fat16_fs a" "ata_serves a img" "disk_filesystem (the_disk (fsys f)) = Some Fat16Fs"
      "length (file_descriptors f) = 512" "None \<in> set (file_descriptors f)"
    unfolding disk_file_def by blast
  from first_null_some [OF O(5)] obtain i where i: "first_null (file_descriptors f) = Some i" by blast
  obtain r m1 p where r: "pathparser_parse (km (fsys f)) fname = Some (Some r, m1)" "kgrew (km (fsys f)) (root_blocks r) m1"
    and p: "first r = [p]" "first r \<noteq> []" "drive_no r = 0" "fat16_pre ((fsys f)\<lparr>km := m1\<rparr>) (first r)" "length (root_blocks r) = 3"
      "length (part p) = 108" "terminated (part p)" "cstr (part p) = nm" "6 \<le> kroom m1" "kheap_ok m1"
    by (rule parse_root_file [OF heap P F(2,1,3)]) (rule that, assumption+)
  let ?s1 = "(fsys f)\<lparr>km := m1\<rparr>"
  obtain h fs2 b3 q m3 d f1 where o: "op_open (fat16_fs a) ?s1 (first r) FILE_MODE_READ = Some (h, fs2)"
    "fat16_blocks (fs2\<lparr>km := m3\<rparr>) h = Some b3" "kgrew (km (fsys f)) (root_blocks r @ b3 @ [q]) m3"
    and d: "d = \<lparr>desc_addr = q, index = int i + 1, desc_filesystem = Fat16Fs, desc_private = h\<rparr>"
    and f1: "f1 = f\<lparr>fsys := fs2\<lparr>km := m3\<rparr>, file_descriptors := (file_descriptors f)[i := Some d]\<rparr>"
    and op: "fopen ops f fname (ascii ''r'' @ [0]) = Some (int i + 1, f1)" and get: "file_get_descriptor f1 (int i + 1) = Some d"
    by (rule fat16.fopen_opened [where tab = ops and f = Fat16Fs, OF heap(1) r p(2-4) O(3,1) mode_string O(4) i])
      (rule that, assumption+)
  have one: "root_matches pr p = [j]" "\<forall>k < root_total pr. searchable (root_items pr) (part p) k"
    using F(3) p(6-8) by (auto simp: unique_root_file_def root_matches_def)
  then have ok: "lookup_ok ?s1 pr p" using p F(1) by (simp add: lookup_ok_def disk_private_def)
  obtain h' s' cs where D: "fat16_open a ?s1 (p # []) FILE_MODE_READ = Some (if root_matches pr p = [] \<or> [] \<noteq> ([] :: path_part list)
      then ERROR (- EIO) else h', s')" "the_disk s' = the_disk ?s1"
    "if root_matches pr p = [] \<or> [] \<noteq> ([] :: path_part list) then fat_descriptors s' = fat_descriptors ?s1
     else \<exists>ad q qs. fat_descriptors s' = (fat_descriptors ?s1)
         (h' \<mapsto> \<lparr>fd_item = file_item ad q (root_items pr) (last (root_matches pr p)), fd_pos = 0\<rparr>) \<and> cs = qs @ [ad, q]"
    by (rule fat16_open_law [OF ok, of a "[]"]) (rule that, assumption+)
  have h: "h' = h" "s' = fs2" using o(1) D(1) one(1) p(1) by (simp_all add: fat16_fs_def)
  obtain ad q' where it: "fat_descriptors fs2 h = Some \<lparr>fd_item = file_item ad q' (root_items pr) j, fd_pos = 0\<rparr>"
    using D(3) one(1) by (auto simp: h)
  have b3: "b3 = [h, ad, q']" using o(2) it by (simp add: fat16_blocks_def file_item_def)
  have dsk: "the_disk fs2 = the_disk (fsys f)" using D(2) by (simp add: h)
  have open1: "open_file (fs2\<lparr>km := m3\<rparr>) h \<lparr>fd_item = file_item ad q' (root_items pr) j, fd_pos = 0\<rparr> item pr"
    using it F(1,4,5,6) dsk by (simp add: open_file_def descriptor_item_def file_item_def disk_private_def)
  have il: "i < 512" "file_descriptors f ! i = None" using first_null_law [OF i] O(4) by auto
  have "(file_descriptors f)[i := Some d, i := None] = file_descriptors f"
    using il(2) by simp (metis list_update_id)
  then have "disk_file ops a img (f1\<lparr>file_descriptors := (file_descriptors f1)[nat (int i + 1 - 1) := None]\<rparr>) fname off sz"
    using assms(1) dsk by (simp add: f1 disk_file_def disk_private_def)
  then have "opened_file ops a img fname off sz f1 (int i + 1) [q', ad, h, q]"
    using get open1 O F(7-10) unfolding opened_file_def by (auto simp: d f1)
  moreover have "kgrew (km (fsys f)) (root_blocks r @ [q', ad, h, q]) (km (fsys f1))"
    by (rule kgrew_perm [where ps = "root_blocks r @ b3 @ [q]"]) (use o(3) in \<open>simp_all add: f1 b3\<close>)
  ultimately show thesis using op p(5) by (intro that [of "int i + 1" f1 "root_blocks r" "[q', ad, h, q]"]) simp_all
qed

section \<open>Reading the file\<close>

lemma opened_stat:
  assumes "opened_file ops a img fname off sz f fd bs"
  obtains fl where "fstat ops f fd \<lparr>st_flags = 0, st_filesize = 0\<rparr> = Some (0, \<lparr>st_flags = fl, st_filesize = sz\<rparr>)"
proof -
  from assms obtain d it item pr ad q items j where O: "file_get_descriptor f fd = Some d" "ops (desc_filesystem d) = fat16_fs a"
    "it = \<lparr>fd_item = file_item ad q items j, fd_pos = 0\<rparr>" "open_file (fsys f) (desc_private d) it item pr" "filesize item = sz"
    unfolding opened_file_def by blast
  have "fi_type (fd_item it) = FAT_ITEM_TYPE_FILE" by (simp add: O(3) file_item_def)
  then show thesis
    using O that by (cases "attributes item AND FAT_FILE_READ_ONLY = 0")
      (auto simp: fstat_def fat16_fs_def fat16_stat_def open_file_def)
qed

lemma overwrite_all: "length bs = length out \<Longrightarrow> overwrite out 0 bs = bs"
  by (simp add: overwrite_def)

lemma disk_file_private:
  assumes "disk_file ops a img f fname off sz" "disk_private (fsys f) = Some pr" "volume (the_disk (fsys f)) pr'" "same_volume pr pr'"
  shows "disk_file ops a img (f\<lparr>fsys := put_private pr' (fsys f)\<rparr>) fname off sz"
proof -
  have h: "header pr' = header pr" "root_directory pr' = root_directory pr" using assms(4) by (simp_all add: same_volume_def)
  have dp: "disk_private (put_private pr' (fsys f)) = Some pr'" "the_disk (put_private pr' (fsys f)) = (the_disk (fsys f))
      \<lparr>fs_private := map_option (\<lambda>(p, _). (p, pr')) (fs_private (the_disk (fsys f)))\<rparr>"
    using assms(2) by (auto simp: disk_private_def put_private_def)
  show ?thesis
    using assms(1-3) unfolding disk_file_def
    by (auto simp: dp volume_def h cluster_fits_def cluster_pos_def root_items_def unique_root_file_def root_total_def)
qed

lemma opened_read:
  assumes O: "opened_file ops a img fname off sz f fd bs" and out: "length out = unat sz" "unat sz < 2 ^ 31"
  obtains f' where "fread ops f out 0 sz 1 fd = Some (1, f', image_bytes img off (unat sz))"
    "km (fsys f') = km (fsys f)" "opened_file ops a img fname off sz f' fd bs"
proof -
  from O obtain d it item pr ad q items j where F: "file_get_descriptor f fd = Some d" "index d = fd"
    "ops (desc_filesystem d) = fat16_fs a" "ata_serves a img" "length (file_descriptors f) = 512" "bs = [q, ad, desc_private d, desc_addr d]"
    "it = \<lparr>fd_item = file_item ad q items j, fd_pos = 0\<rparr>" "open_file (fsys f) (desc_private d) it item pr"
    "off = cluster_pos pr (unat (fat16_get_first_cluster item))" "filesize item = sz" "0 < unat sz" "unat sz \<le> spc pr * 512"
    and D: "disk_file ops a img (f\<lparr>file_descriptors := (file_descriptors f)[nat (fd - 1) := None]\<rparr>) fname off sz"
    unfolding opened_file_def by blast
  have "0 < spc pr * 512" using F(11,12) by linarith
  then obtain s' where R: "fat16_read a (fsys f) (desc_private d) sz 1 out 0 = Some (1, s', overwrite out 0 (image_bytes img off (unat sz)))"
    "km s' = km (fsys f)" "fat_descriptors s' = fat_descriptors (fsys f)"
    and P: "\<exists>pr'. s' = put_private pr' (fsys f) \<and> volume (the_disk (fsys f)) pr' \<and> same_volume pr pr'"
    using fat16_read_law [OF F(4,8,11,12), of 0 1 out] out F(7,9) by auto
  from P obtain pr' where pr': "s' = put_private pr' (fsys f)" "volume (the_disk (fsys f)) pr'" "same_volume pr pr'" by blast
  have fd: "fd \<noteq> 0" "\<not> fd < 1" using F(1) by (auto simp: file_get_descriptor_def split: if_splits)
  let ?f = "f\<lparr>fsys := s'\<rparr>"
  have rd: "fread ops f out 0 sz 1 fd = Some (1, ?f, image_bytes img off (unat sz))"
    using R(1) F(1,3,11) fd out(1) by (auto simp: fread_def fat16_fs_def overwrite_all image_bytes_def)
  have dp: "disk_private (fsys f) = Some pr" using F(8) by (simp add: open_file_def)
  have "disk_file ops a img (f\<lparr>fsys := s', file_descriptors := (file_descriptors f)[nat (fd - 1) := None]\<rparr>) fname off sz"
    using disk_file_private [OF D] dp pr' by (simp add: disk_file_def)
  moreover have "open_file s' (desc_private d) it item pr'"
    using F(8) R(3) pr' dp unfolding open_file_def
    by (auto simp: put_private_def disk_private_def same_volume_def cluster_fits_def cluster_pos_def volume_def)
  moreover have "file_get_descriptor ?f fd = Some d" using F(1) by (simp add: file_get_descriptor_def split: if_splits)
  moreover have "header pr' = header pr" "root_directory pr' = root_directory pr" using pr'(3) by (simp_all add: same_volume_def)
  ultimately have "opened_file ops a img fname off sz ?f fd bs"
    using F unfolding opened_file_def
    by - (intro conjI, rule exI [of _ d], rule exI [of _ it], rule exI [of _ item], rule exI [of _ pr'],
      auto simp: cluster_pos_def)
  with rd show thesis using R(2) by (intro that [of ?f]) simp_all
qed

lemma opened_close:
  assumes "opened_file ops a img fname off sz f fd bs"
  obtains f' where "fclose ops f fd = Some (0, f')" "km (fsys f') = release_seq kfree bs (km (fsys f))"
    "disk_file ops a img f' fname off sz"
proof -
  from assms obtain d it item pr ad q items j where F: "file_get_descriptor f fd = Some d" "index d = fd"
    "ops (desc_filesystem d) = fat16_fs a" "length (file_descriptors f) = 512" "bs = [q, ad, desc_private d, desc_addr d]"
    "it = \<lparr>fd_item = file_item ad q items j, fd_pos = 0\<rparr>" "open_file (fsys f) (desc_private d) it item pr"
    and D: "disk_file ops a img (f\<lparr>file_descriptors := (file_descriptors f)[nat (fd - 1) := None]\<rparr>) fname off sz"
    unfolding opened_file_def by blast
  have "fat_descriptors (fsys f) (desc_private d) = Some \<lparr>fd_item = file_item ad q items j, fd_pos = 0\<rparr>"
    using F(6,7) by (simp add: open_file_def)
  from fclose_fat16 [where tab = ops, OF F(1,2,3,4) this] show thesis
    by (rule that) (use D in \<open>simp_all add: F(5) disk_file_def disk_private_def\<close>)
qed

section \<open>The file in a block of the heap\<close>

lemma ram_write_out: "(\<And>i. i < length bs \<Longrightarrow> a \<noteq> p + of_nat i) \<Longrightarrow> ram_write m p bs a = m a"
proof (induction bs arbitrary: m p)
  case (Cons b bs)
  have "a \<noteq> p + 1 + of_nat i" if "i < length bs" for i using Cons.prems [of "Suc i"] that by (simp add: add.assoc)
  then have "ram_write (m(p := b)) (p + 1) bs a = (m(p := b)) a" by (rule Cons.IH)
  then show ?case using Cons.prems [of 0] by simp
qed simp

lemma ram_write_in: "i < length bs \<Longrightarrow> length bs \<le> 2 ^ 32 \<Longrightarrow> ram_write m p bs (p + of_nat i) = bs ! i"
proof (induction bs arbitrary: m p i)
  case (Cons b bs)
  show ?case
  proof (cases i)
    case 0
    have "p \<noteq> p + 1 + of_nat j" if "j < length bs" for j
      using u32_offset_inject [of 0 "Suc j" p] that Cons.prems(2) by (simp add: add.assoc)
    then show ?thesis using 0 ram_write_out [of bs p "p + 1" "m(p := b)"] by simp
  next
    case (Suc j)
    have "ram_write (m(p := b)) (p + 1) bs (p + 1 + of_nat j) = bs ! j" by (rule Cons.IH) (use Suc Cons.prems in auto)
    then show ?thesis using Suc by (simp add: add.assoc)
  qed
qed simp

lemma disk_block:
  assumes g: "kgrew m (leak @ bs) (km (fsys f1))" "length leak = 3" "length bs = 4"
    and O: "opened_file ops a img fname off sz f1 fd bs" and sz: "unat sz < 2 ^ 31" "n = blocks_for (unat sz)"
    and fit: "\<exists>j. free_at (tbl (kernel_heap (km (fsys f1)))) j n"
  obtains q m2 f3 f4 where "kzalloc (km (fsys f1)) sz = (q, m2)" "q \<noteq> 0"
    "\<And>s :: kernel. file_layer s = f1\<lparr>fsys := (fsys f1)\<lparr>km := m2\<rparr>\<rparr> \<Longrightarrow> fread_block ops q sz fd s = Some (1, s\<lparr>file_layer := f3\<rparr>)"
    "fclose ops f3 fd = Some (0, f4)" "disk_file ops a img f4 fname off sz" "ram (km (fsys f4)) = ram (km (fsys f3))"
    "heap_after m (3 + n) (km (fsys f4))" "kowned (km (fsys f4)) q = Some n" "kowned m q = None"
    "\<And>i. i < unat sz \<Longrightarrow> ram (km (fsys f4)) (q + of_nat i) = img (off + i)"
proof -
  let ?m1 = "km (fsys f1)" and ?bytes = "image_bytes img off (unat sz)"
  have pos: "0 < unat sz" using O by (auto simp: opened_file_def)
  note G = kgrewD [OF g(1), unfolded grown_def]
  have a1: "heap_after m 7 ?m1" using kgrew_after [OF g(1)] g(2,3) by simp
  obtain q m2 where q: "kzalloc ?m1 sz = (q, m2)" "q \<noteq> 0" "kheap_ok m2" "kowned ?m1 q = None" "kowned m2 = (kowned ?m1)(q \<mapsto> n)"
    "kframe m2 = kframe ?m1" "runs_kept ?m1 (ram m2)" "kroom ?m1 = n + kroom m2"
    by (rule kzalloc_run [OF heap_afterD(1) [OF a1] pos]) (use sz fit in auto)
  have "heap_after ?m1 n m2" using q by (auto simp: heap_after_def map_le_def)
  from heap_after_trans [OF a1 this] have a2: "heap_after m (7 + n) m2" .
  have qm: "kowned m q = None" by (rule heap_afterD(6) [OF a1 q(4)])
  let ?f2 = "f1\<lparr>fsys := (fsys f1)\<lparr>km := m2\<rparr>\<rparr>" and ?r = "ram_write (ram m2) q ?bytes"
  have "opened_file ops a img fname off sz ?f2 fd bs" using O by simp
  then obtain f' where f': "fread ops ?f2 (ram_bytes (ram m2) q (unat sz)) 0 sz 1 fd = Some (1, f', ?bytes)"
    "km (fsys f') = m2" "opened_file ops a img fname off sz f' fd bs"
    by (rule opened_read [of _ _ _ _ _ _ _ _ _ "ram_bytes (ram m2) q (unat sz)"]) (use sz in \<open>simp_all add: ram_bytes_def\<close>)
  let ?m3 = "m2\<lparr>ram := ?r\<rparr>"
  let ?f3 = "f'\<lparr>fsys := (fsys f')\<lparr>km := ?m3\<rparr>\<rparr>"
  have rd: "fread_block ops q sz fd s = Some (1, s\<lparr>file_layer := ?f3\<rparr>)" if "file_layer s = ?f2" for s :: kernel
    using that f'(1,2) q(2) by (simp add: fread_block_def on_files_def mem_def set_ram_def set_mem_def)
  have "opened_file ops a img fname off sz ?f3 fd bs" using f'(3) by simp
  then obtain f4 where f4: "fclose ops ?f3 fd = Some (0, f4)" "km (fsys f4) = release_seq kfree bs ?m3" "disk_file ops a img f4 fname off sz"
    by (rule opened_close) simp
  have q2: "kowned m2 q = Some n" using q(5) by simp
  have len: "length ?bytes \<le> 4096 * n" using blocks_for_room sz(2) by simp
  have a3: "heap_after m (7 + n) ?m3"
  proof (rule heap_after_write [OF a2 q2 qm])
    fix c assume "\<And>i. i < 4096 * n \<Longrightarrow> c \<noteq> q + of_nat i"
    then show "?r c = ram m2 c" using len by (intro ram_write_out) simp
  qed
  have k3: "kowned ?m3 = kowned m2" "kheap_ok ?m3" using q(3) by (simp_all add: kowned_def kheap_ok_def)
  have d: "distinct bs" "q \<notin> set bs" using G q(4) by auto
  have bs: "kowned m b = None \<and> kowned ?m3 b = Some 1" if "b \<in> set bs" for b
    using G that d(2) by (auto simp: k3(1) q(5))
  have a4: "heap_after m (3 + n) (km (fsys f4))"
    unfolding f4(2) by (rule heap_after_release) (use a3 g(3) d(1) bs in auto)
  have "kowned (km (fsys f4)) q = Some n"
  proof -
    have "set bs \<subseteq> dom (kowned ?m3)" using bs by blast
    from kheap.release_seq_law [OF k3(2) d(1) this] d(2) q2 show ?thesis by (simp add: f4(2) k3(1))
  qed
  moreover have "ram (km (fsys f4)) (q + of_nat i) = img (off + i)" if "i < unat sz" for i
    using ram_write_in [of i ?bytes "ram m2" q] that sz(1) by (simp add: f4(2) image_bytes_nth)
  ultimately show thesis using f4 a4 qm by (intro that [OF q(1,2) rd f4(1)]) simp_all
qed

section \<open>The loader of executables rejects it\<close>

lemma kheap_low_after: "heap_after m k m' \<Longrightarrow> kheap_low m \<Longrightarrow> kheap_low m'"
  by (simp add: heap_after_def kframe_def heap_frame_def kheap_low_def tbl_length)

lemma not_elf:
  assumes "elf_memory e = q" "\<And>i. i < 4 \<Longrightarrow> m (q + of_nat i) = img (off + i)" "image_bytes img off 4 \<noteq> [0x7F, 0x45, 0x4C, 0x46]"
  shows "elf_process_loaded m e = (- EINFORMAT, e)"
proof -
  have "ram_bytes m q 4 = image_bytes img off 4" using assms(2) by (intro nth_equalityI) (simp_all add: ram_bytes_def image_bytes_nth)
  then have "\<not> elf_accepted m q" using assms(3) by (simp add: elf_accepted_def)
  then show ?thesis using assms(1) by (simp add: elf_process_loaded_def elf_header_of_def elf_validate_iff status_simps)
qed

lemma elf_load_rejects:
  fixes s :: kernel
  assumes D: "disk_file ops a img (file_layer s) fname off sz"
    and heap: "kheap_ok (mem s)" "kheap_low (mem s)" "10 \<le> kroom (mem s)"
    and sz: "unat sz < 2 ^ 31" "n = blocks_for (unat sz)"
    and fit: "\<And>m'. heap_after (mem s) 8 m' \<Longrightarrow> \<exists>j. free_at (tbl (kernel_heap m')) j n"
    and sig: "4 \<le> unat sz" "image_bytes img off 4 \<noteq> [0x7F, 0x45, 0x4C, 0x46]"
  obtains f es where "elf_load ops fname s = Some (- EINFORMAT, None, s\<lparr>file_layer := f, elf_files := es\<rparr>)"
    "heap_after (mem s) (4 + n) (km (fsys f))" "disk_file ops a img f fname off sz"
proof -
  obtain ef m1 where e: "kzalloc (mem s) sizeof_elf_file = (ef, m1)" "ef \<noteq> 0" "kgrew (mem s) [ef] m1"
    by (rule kgrew_alloc [OF heap(1), of sizeof_elf_file]) (use heap(3) in \<open>simp_all add: sizeof_elf_file_def\<close>)
  have a1: "heap_after (mem s) 1 m1" using kgrew_after [OF e(3)] by simp
  define s1 where "s1 = set_mem m1 (s\<lparr>elf_files := (elf_files s)(ef \<mapsto> zero_elf_file)\<rparr>)"
  have l1: "file_layer s1 = (file_layer s)\<lparr>fsys := (fsys (file_layer s))\<lparr>km := m1\<rparr>\<rparr>" by (simp add: s1_def set_mem_def)
  have D1: "disk_file ops a img (file_layer s1) fname off sz" using D by (simp add: l1)
  have k1: "km (fsys (file_layer s1)) = m1" by (simp add: l1)
  obtain fd f1 leak bs where o: "fopen ops (file_layer s1) fname (ascii ''r'' @ [0]) = Some (fd, f1)" "0 < fd"
    "kgrew m1 (leak @ bs) (km (fsys f1))" "length leak = 3" "length bs = 4" "opened_file ops a img fname off sz f1 fd bs"
    by (rule disk_file_open [OF D1, unfolded k1]) (use heap_afterD [OF a1] kheap_low_after [OF a1 heap(2)] heap(3) in auto)
  have "heap_after m1 7 (km (fsys f1))" using kgrew_after [OF o(3)] o(4,5) by simp
  from heap_after_trans [OF a1 this] have a2: "heap_after (mem s) 8 (km (fsys f1))" by simp
  obtain q m2 f3 f4 where b: "kzalloc (km (fsys f1)) sz = (q, m2)" "q \<noteq> 0"
    "\<And>s :: kernel. file_layer s = f1\<lparr>fsys := (fsys f1)\<lparr>km := m2\<rparr>\<rparr> \<Longrightarrow> fread_block ops q sz fd s = Some (1, s\<lparr>file_layer := f3\<rparr>)"
    "fclose ops f3 fd = Some (0, f4)" "disk_file ops a img f4 fname off sz" "ram (km (fsys f4)) = ram (km (fsys f3))"
    "heap_after m1 (3 + n) (km (fsys f4))" "\<And>i. i < unat sz \<Longrightarrow> ram (km (fsys f4)) (q + of_nat i) = img (off + i)"
    by (rule disk_block [OF o(3-6) sz fit [OF a2]]) (rule that, assumption+)
  obtain fl where st: "fstat ops f1 fd \<lparr>st_flags = 0, st_filesize = 0\<rparr> = Some (0, \<lparr>st_flags = fl, st_filesize = sz\<rparr>)"
    by (rule opened_stat [OF o(6)])
  define s2 where "s2 = s1\<lparr>file_layer := f1\<rparr>"
  let ?e = "zero_elf_file\<lparr>elf_memory := q\<rparr>"
  define s3 where "s3 = (set_mem m2 s2)\<lparr>elf_files := (elf_files s2)(ef \<mapsto> ?e)\<rparr>"
  have rd: "fread_block ops q sz fd s3 = Some (1, s3\<lparr>file_layer := f3\<rparr>)" by (rule b(3)) (simp add: s3_def s2_def set_mem_def)
  have ne: "elf_process_loaded (ram (km (fsys f3))) ?e = (- EINFORMAT, ?e)"
    by (rule not_elf [where q = q and img = img and off = off]) (use b(6,8) sig in auto)
  have ef2: "elf_files s2 ef = Some zero_elf_file" "elf_files s3 ef = Some ?e" "file_layer s2 = f1" "mem s2 = km (fsys f1)"
    by (simp_all add: s2_def s1_def s3_def mem_def)
  have put: "put_elf_file ef (\<lambda>e. e\<lparr>elf_memory := q\<rparr>) (set_mem m2 s2) = Some s3" by (simp add: put_elf_file_def s3_def ef2)
  have "put_elf_file ef (\<lambda>_. ?e) (s3\<lparr>file_layer := f3\<rparr>) = Some (s3\<lparr>file_layer := f3\<rparr>)"
    using ef2(2) by (cases s3) (simp add: put_elf_file_def fun_upd_idem)
  then have load: "elf_load_file ops ef fd s2 = Some (- EINFORMAT, None, s3\<lparr>file_layer := f3\<rparr>)"
    using st b(1) rd ne ef2 put by (simp add: elf_load_file_def mem_def EINFORMAT_def)
  have "on_files (\<lambda>f. fopen ops f fname (ascii ''r'' @ [0])) s1 = Some (fd, s2)" using o(1) by (simp add: on_files_def s2_def)
  moreover have "on_files (\<lambda>f. fclose ops f fd) (s3\<lparr>file_layer := f3\<rparr>) = Some (0, s3\<lparr>file_layer := f4\<rparr>)"
    using b(4) by (simp add: on_files_def)
  ultimately have "elf_load ops fname s = Some (- EINFORMAT, None, s3\<lparr>file_layer := f4\<rparr>)"
    using e(1,2) o(2) load by (simp add: elf_load_def s1_def [symmetric])
  moreover have "s3\<lparr>file_layer := f4\<rparr> = s\<lparr>file_layer := f4, elf_files := elf_files s3\<rparr>"
    by (simp add: s3_def s2_def s1_def set_mem_def)
  moreover have "heap_after (mem s) (4 + n) (km (fsys f4))" using heap_after_trans [OF a1 b(7)] by simp
  ultimately show thesis using that b(5) by metis
qed

section \<open>The program is loaded\<close>

lemma load_binary_reads:
  fixes s :: kernel
  assumes D: "disk_file ops a img (file_layer s) fname off sz" and pr: "procs s pr = Some p"
    and heap: "kheap_ok (mem s)" "kheap_low (mem s)" "9 \<le> kroom (mem s)"
    and sz: "unat sz < 2 ^ 31" "n = blocks_for (unat sz)"
    and fit: "\<And>m'. heap_after (mem s) 7 m' \<Longrightarrow> \<exists>j. free_at (tbl (kernel_heap m')) j n"
  obtains f q where "process_load_binary ops fname pr s = Some (0, s\<lparr>file_layer := f,
      procs := (procs s)(pr \<mapsto> p\<lparr>filetype := PROCESS_FILETYPE_BINARY, program := q, program_size := sz\<rparr>)\<rparr>)"
    "heap_after (mem s) (3 + n) (km (fsys f))" "kowned (km (fsys f)) q = Some n" "kowned (mem s) q = None"
    "\<And>i. i < unat sz \<Longrightarrow> ram (km (fsys f)) (q + of_nat i) = img (off + i)"
proof -
  have k: "km (fsys (file_layer s)) = mem s" by (simp add: mem_def)
  obtain fd f1 leak bs where o: "fopen ops (file_layer s) fname (ascii ''r'' @ [0]) = Some (fd, f1)" "0 < fd"
    "kgrew (mem s) (leak @ bs) (km (fsys f1))" "length leak = 3" "length bs = 4" "opened_file ops a img fname off sz f1 fd bs"
    by (rule disk_file_open [OF D, unfolded k]) (use heap in auto)
  have a1: "heap_after (mem s) 7 (km (fsys f1))" using kgrew_after [OF o(3)] o(4,5) by simp
  obtain q m2 f3 f4 where b: "kzalloc (km (fsys f1)) sz = (q, m2)" "q \<noteq> 0"
    "\<And>s :: kernel. file_layer s = f1\<lparr>fsys := (fsys f1)\<lparr>km := m2\<rparr>\<rparr> \<Longrightarrow> fread_block ops q sz fd s = Some (1, s\<lparr>file_layer := f3\<rparr>)"
    "fclose ops f3 fd = Some (0, f4)" "heap_after (mem s) (3 + n) (km (fsys f4))" "kowned (km (fsys f4)) q = Some n" "kowned (mem s) q = None"
    "\<And>i. i < unat sz \<Longrightarrow> ram (km (fsys f4)) (q + of_nat i) = img (off + i)"
    by (rule disk_block [OF o(3-6) sz fit [OF a1]]) (rule that, assumption+)
  obtain fl where st: "fstat ops f1 fd \<lparr>st_flags = 0, st_filesize = 0\<rparr> = Some (0, \<lparr>st_flags = fl, st_filesize = sz\<rparr>)"
    by (rule opened_stat [OF o(6)])
  define s2 where "s2 = s\<lparr>file_layer := f1\<rparr>"
  have s2: "file_layer s2 = f1" "mem s2 = km (fsys f1)" by (simp_all add: s2_def mem_def)
  have rd: "fread_block ops q sz fd (set_mem m2 s2) = Some (1, (set_mem m2 s2)\<lparr>file_layer := f3\<rparr>)"
    by (rule b(3)) (simp add: s2 set_mem_def)
  let ?p = "p\<lparr>filetype := PROCESS_FILETYPE_BINARY, program := q, program_size := sz\<rparr>"
  let ?s3 = "s\<lparr>file_layer := f3, procs := (procs s)(pr \<mapsto> ?p)\<rparr>"
  have "load_binary_file ops pr fd s2 = Some (0, ?s3)"
    using st b(1,2) rd pr s2
    by (simp add: load_binary_file_def ALL_OK_def put_process_def) (simp add: s2_def set_mem_def)
  moreover have "on_files (\<lambda>f. fopen ops f fname (ascii ''r'' @ [0])) s = Some (fd, s2)" using o(1) by (simp add: on_files_def s2_def)
  moreover have "on_files (\<lambda>f. fclose ops f fd) ?s3 = Some (0, s\<lparr>file_layer := f4, procs := (procs s)(pr \<mapsto> ?p)\<rparr>)"
    using b(4) by (simp add: on_files_def)
  ultimately have "process_load_binary ops fname pr s = Some (0, s\<lparr>file_layer := f4, procs := (procs s)(pr \<mapsto> ?p)\<rparr>)"
    using o(2) by (simp add: process_load_binary_def)
  then show thesis using b(5-8) that by blast
qed

text \<open>The two attempts together, as \<open>process_load_data\<close> makes them: the first leaves \<open>n + 4\<close> blocks behind, the second three and the program.\<close>

lemma load_data_reads:
  fixes s :: kernel
  assumes D: "disk_file ops a img (file_layer s) fname off sz" and pr: "procs s pr = Some p"
    and heap: "kheap_ok (mem s)" "kheap_low (mem s)" "13 + n \<le> kroom (mem s)"
    and sz: "unat sz < 2 ^ 31" "n = blocks_for (unat sz)"
    and fit: "\<And>k m'. heap_after (mem s) k m' \<Longrightarrow> k \<le> 11 + n \<Longrightarrow> \<exists>j. free_at (tbl (kernel_heap m')) j n"
    and sig: "4 \<le> unat sz" "image_bytes img off 4 \<noteq> [0x7F, 0x45, 0x4C, 0x46]"
  obtains f es q where "process_load_data ops fname pr s = Some (0, s\<lparr>file_layer := f, elf_files := es,
      procs := (procs s)(pr \<mapsto> p\<lparr>filetype := PROCESS_FILETYPE_BINARY, program := q, program_size := sz\<rparr>)\<rparr>)"
    "heap_after (mem s) (7 + 2 * n) (km (fsys f))" "kowned (km (fsys f)) q = Some n" "kowned (mem s) q = None"
    "\<And>i. i < unat sz \<Longrightarrow> ram (km (fsys f)) (q + of_nat i) = img (off + i)"
proof -
  obtain f es where e: "elf_load ops fname s = Some (- EINFORMAT, None, s\<lparr>file_layer := f, elf_files := es\<rparr>)"
    "heap_after (mem s) (4 + n) (km (fsys f))" "disk_file ops a img f fname off sz"
    by (rule elf_load_rejects [OF D heap(1,2) _ sz fit sig]) (use heap(3) in auto)
  let ?s1 = "s\<lparr>file_layer := f, elf_files := es\<rparr>"
  have m1: "mem ?s1 = km (fsys f)" by (simp add: mem_def)
  have D1: "disk_file ops a img (file_layer ?s1) fname off sz" "procs ?s1 pr = Some p" using e(3) pr by simp_all
  have fit1: "\<exists>j. free_at (tbl (kernel_heap m')) j n" if "heap_after (km (fsys f)) 7 m'" for m'
    using fit [OF heap_after_trans [OF e(2) that]] by simp
  have room: "9 \<le> kroom (km (fsys f))" using heap(3) heap_afterD(3) [OF e(2)] by simp
  obtain f2 q where b: "process_load_binary ops fname pr ?s1 = Some (0, ?s1\<lparr>file_layer := f2,
      procs := (procs ?s1)(pr \<mapsto> p\<lparr>filetype := PROCESS_FILETYPE_BINARY, program := q, program_size := sz\<rparr>)\<rparr>)"
    "heap_after (km (fsys f)) (3 + n) (km (fsys f2))" "kowned (km (fsys f2)) q = Some n" "kowned (km (fsys f)) q = None"
    "\<And>i. i < unat sz \<Longrightarrow> ram (km (fsys f2)) (q + of_nat i) = img (off + i)"
    by (rule load_binary_reads [OF D1 _ _ _ sz, unfolded m1])
      (rule heap_afterD(1) [OF e(2)], rule kheap_low_after [OF e(2) heap(2)], rule room, erule fit1, rule that, assumption+)
  have "process_load_data ops fname pr s = Some (0, s\<lparr>file_layer := f2, elf_files := es,
      procs := (procs s)(pr \<mapsto> p\<lparr>filetype := PROCESS_FILETYPE_BINARY, program := q, program_size := sz\<rparr>)\<rparr>)"
    using e(1) b(1) by (simp add: process_load_data_def process_load_elf_def IS_ERR_def EINFORMAT_def)
  moreover have "heap_after (mem s) (7 + 2 * n) (km (fsys f2))"
  proof -
    have k: "4 + n + (3 + n) = 7 + 2 * n" by simp
    show ?thesis using heap_after_trans [OF e(2) b(2)] unfolding k .
  qed
  moreover have "kowned (mem s) q = None" by (rule heap_afterD(6) [OF e(2) b(4)])
  ultimately show thesis using that b(3,5) by blast
qed

text \<open>A plain binary in the heap, with enough room left for its task, for the new process \<open>pr\<close>.\<close>

lemma process_data_loaded:
  fixes s :: kernel
  assumes D: "disk_file ops a img (file_layer s) fname off sz" and low: "kheap_low (mem s)"
    and sched: "sched_ok m0 s ps"
    and sz: "unat sz < 2 ^ 31" "n = blocks_for (unat sz)"
    and free: "free_at (tbl (kernel_heap (mem s))) i ((n + 8) * (n + 8))" "1041 + 2 * n \<le> kroom (mem s)"
    and sig: "4 \<le> unat sz" "image_bytes img off 4 \<noteq> [0x7F, 0x45, 0x4C, 0x46]"
  obtains pr m1 s3 p m3 where "kzalloc (mem s) sizeof_process = (pr, m1)" "pr \<noteq> 0"
    "process_load_data ops fname pr ((set_mem m1 s)\<lparr>procs := (procs s)(pr \<mapsto> zero_process)\<rparr>) = Some (0, s3)"
    "sched_ok m3 s3 ps" "binary_loaded s3 pr p" "filename p = replicate 108 0" "program_size p = sz"
    "processes s3 = processes s" "heap_after (mem s) (10 + 2 * n) (mem s3)"
    "\<And>i. i < unat sz \<Longrightarrow> ram (mem s3) (program p + of_nat i) = img (off + i)"
    "kowned (mem s) (program p) = None" "map (task_blocks s3) ps = map (task_blocks s) ps"
proof -
  have ok: "kheap_ok (mem s)" using sched by (simp add: sched_ok_def grown_def)
  have npos: "0 < n" using sig(1) sz(2) blocks_for_pos by simp
  have sp: "unat sizeof_process = 9364" "blocks_for 9364 = 3" by (simp_all add: sizeof_process_def blocks_for_def)
  have small: "(k + 1) * w \<le> (n + 8) * (n + 8)" if "k \<le> 14 + n \<and> w = n \<or> k \<le> 10 + 2 * n \<and> w \<le> 4" for k w
    using that
  proof
    assume a: "k \<le> 14 + n \<and> w = n"
    then have "(k + 1) * w \<le> (15 + n) * n" by (intro mult_le_mono) auto
    then show ?thesis by (simp add: algebra_simps)
  next
    assume a: "k \<le> 10 + 2 * n \<and> w \<le> 4"
    then have "(k + 1) * w \<le> (11 + 2 * n) * 4" by (intro mult_le_mono) auto
    then show ?thesis by (simp add: algebra_simps)
  qed
  have fits: "\<exists>j. free_at (tbl (kernel_heap m')) j w"
    if "heap_after (mem s) k m'" "k \<le> 14 + n \<and> w = n \<or> k \<le> 10 + 2 * n \<and> w \<le> 4" "0 < w" for k w m'
    by (rule heap_after_fits [OF ok that(1) free(1) small [OF that(2)] that(3)])
  obtain pr m1 where p: "kzalloc (mem s) sizeof_process = (pr, m1)" "pr \<noteq> 0" "kheap_ok m1" "kowned (mem s) pr = None"
    "kowned m1 = (kowned (mem s))(pr \<mapsto> 3)" "kframe m1 = kframe (mem s)" "runs_kept (mem s) (ram m1)" "kroom (mem s) = 3 + kroom m1"
    by (rule kzalloc_run [OF ok, of sizeof_process]) (use fits [OF heap_after_refl [OF ok], of 3] in \<open>simp_all add: sp\<close>)
  have a1: "heap_after (mem s) 3 m1" using p by (auto simp: heap_after_def map_le_def)
  define s2 where "s2 = (set_mem m1 s)\<lparr>procs := (procs s)(pr \<mapsto> zero_process)\<rparr>"
  have m2: "mem s2 = m1" by (simp add: s2_def)
  have D2: "disk_file ops a img (file_layer s2) fname off sz" "procs s2 pr = Some zero_process"
    using D by (simp_all add: s2_def set_mem_def)
  have fit2: "\<exists>j. free_at (tbl (kernel_heap m')) j n" if "heap_after m1 k m'" "k \<le> 11 + n" for k m'
    using fits [OF heap_after_trans [OF a1 that(1)], of n] that(2) npos by simp
  have room2: "13 + n \<le> kroom m1" using free(2) p(8) by simp
  obtain f es q where L: "process_load_data ops fname pr s2 = Some (0, s2\<lparr>file_layer := f, elf_files := es,
      procs := (procs s2)(pr \<mapsto> zero_process\<lparr>filetype := PROCESS_FILETYPE_BINARY, program := q, program_size := sz\<rparr>)\<rparr>)"
    "heap_after m1 (7 + 2 * n) (km (fsys f))" "kowned (km (fsys f)) q = Some n" "kowned m1 q = None"
    "\<And>i. i < unat sz \<Longrightarrow> ram (km (fsys f)) (q + of_nat i) = img (off + i)"
    by (rule load_data_reads [OF D2 _ _ _ sz _ sig, unfolded m2])
      (rule p(3), rule kheap_low_after [OF a1 low], rule room2, erule (1) fit2, rule that, assumption+)
  let ?p = "zero_process\<lparr>filetype := PROCESS_FILETYPE_BINARY, program := q, program_size := sz\<rparr>"
  define s3 where "s3 = s2\<lparr>file_layer := f, elf_files := es, procs := (procs s2)(pr \<mapsto> ?p)\<rparr>"
  have m3: "mem s3 = km (fsys f)" by (simp add: s3_def mem_def)
  have a3: "heap_after (mem s) (10 + 2 * n) (mem s3)" using heap_after_trans [OF a1 L(2)] by (simp add: m3 add.assoc [symmetric])
  have same: "tasks s3 = tasks s" "task_head s3 = task_head s" "task_tail s3 = task_tail s" "current_task s3 = current_task s"
    "processes s3 = processes s" by (simp_all add: s3_def s2_def)
  have "pages_kept (mem s) (ram (mem s3))" by (rule runs_kept_pages [OF ok heap_afterD(4) [OF a3]])
  then have "task_blocks s3 q = task_blocks s q" for q
    using kept_task_blocks(1) [OF _ sched] by (auto simp: task_blocks_def same split: option.splits)
  then have tb: "map (task_blocks s3) ps = map (task_blocks s) ps" by simp
  have "kowned (mem s) q = None" by (rule heap_afterD(6) [OF a1 L(4)])
  note new = this
  have "sched_ok (release_seq kfree (concat (map (task_blocks s) ps)) (mem s3)) s3 ps"
    using a3 by (intro sched_ok_rebase [OF sched] runs_kept_pages [OF ok] same) (auto simp: heap_after_def)
  moreover have "kowned (mem s3) q = Some n" "procs s3 pr = Some ?p" using L(3) by (simp_all add: m3) (simp add: s3_def)
  then have "binary_loaded s3 pr ?p"
    by (simp add: binary_loaded_def sz(2) zero_process_def HARDIKHYPERIONOS_MAX_PROGRAM_ALLOCATIONS_def)
  moreover have "process_load_data ops fname pr ((set_mem m1 s)\<lparr>procs := (procs s)(pr \<mapsto> zero_process)\<rparr>) = Some (0, s3)"
    using L(1) unfolding s3_def s2_def .
  moreover have "filename ?p = replicate 108 0" by (simp add: zero_process_def HARDIKHYPERIONOS_MAX_PATH_def)
  ultimately show thesis using L(5) a3 same(5) new tb by (intro that [OF p(1,2), of s3 _ ?p]) (simp_all add: m3)
qed

section \<open>A program from the disk\<close>

lemma window_offset: "j < 4096 * w \<Longrightarrow> j < 2 ^ 32 \<Longrightarrow> in_window v w (v + of_nat j)"
  by (simp add: in_window_def unat_of_nat_u32)

lemma program_above_stack:
  assumes "j < 2 ^ 31"
  shows "\<not> in_window 0x3FB000 4 (0x400000 + of_nat j)"
proof -
  have "unat (0x5000 + of_nat j :: u32) = 0x5000 + j"
    using assms by (simp add: unat_word_ariths(1) unat_of_nat_u32)
  then show ?thesis by (simp add: in_window_def)
qed

text \<open>What is left to do when the file is in the heap is \<open>load_task\<close>, and there is room for it.\<close>

lemma load_for_slot_ready:
  assumes "sched_ok m0 s ps" "disk_file ops a img (file_layer s) fname off sz" "kheap_low (mem s)"
    and "4 \<le> unat sz" "unat sz < 2 ^ 31" "image_bytes img off 4 \<noteq> [0x7F, 0x45, 0x4C, 0x46]" "n = blocks_for (unat sz)"
    and "free_at (tbl (kernel_heap (mem s))) i ((n + 8) * (n + 8))" "1041 + 2 * n \<le> kroom (mem s)"
    and "k < length (processes s)" "processes s ! k = 0"
  obtains pr s3 p m3 name where "\<exists>s'. load_task fname pr (int k) s3 = Some (0, Some pr, s') \<and>
      process_load_for_slot ops fname (int k) s = Some (0, Some pr, s')"
    "sched_ok m3 s3 ps" "binary_loaded s3 pr p" "\<exists>j. free_at (tbl (kernel_heap (mem s3))) j 4" "1031 \<le> kroom (mem s3)"
    "strncpy (filename p) 0 fname (int HARDIKHYPERIONOS_MAX_PATH) = Some name" "k < length (processes s3)"
    "program_size p = sz" "processes s3 = processes s" "heap_after (mem s) (10 + 2 * n) (mem s3)"
    "\<And>i. i < unat sz \<Longrightarrow> ram (mem s3) (program p + of_nat i) = img (off + i)"
    "kowned (mem s) (program p) = None" "map (task_blocks s3) ps = map (task_blocks s) ps"
proof -
  obtain pr m1 s3 p m3 where P: "kzalloc (mem s) sizeof_process = (pr, m1)" "pr \<noteq> 0"
    "process_load_data ops fname pr ((set_mem m1 s)\<lparr>procs := (procs s)(pr \<mapsto> zero_process)\<rparr>) = Some (0, s3)"
    "sched_ok m3 s3 ps" "binary_loaded s3 pr p" "filename p = replicate 108 0" "program_size p = sz"
    "processes s3 = processes s" "heap_after (mem s) (10 + 2 * n) (mem s3)"
    "\<And>i. i < unat sz \<Longrightarrow> ram (mem s3) (program p + of_nat i) = img (off + i)"
    "kowned (mem s) (program p) = None" "map (task_blocks s3) ps = map (task_blocks s) ps"
    by (rule process_data_loaded [OF assms(2,3,1,5,7,8,9,4,6)]) (rule that, assumption+)
  have ok: "kheap_ok (mem s)" using assms(1) by (simp add: sched_ok_def grown_def)
  have "(10 + 2 * n + 1) * 4 \<le> (n + 8) * (n + 8)" by (simp add: algebra_simps)
  then have fit: "\<exists>j. free_at (tbl (kernel_heap (mem s3))) j 4" by (rule heap_after_fits [OF ok P(9) assms(8)]) simp
  have room: "1031 \<le> kroom (mem s3)" using assms(9) heap_afterD(3) [OF P(9)] by simp
  have "terminated fname" using assms(2) by (simp add: disk_file_def)
  from strncpy_loop_cstr [OF this, of "filename p" 0] obtain name
    where name: "strncpy (filename p) 0 fname (int HARDIKHYPERIONOS_MAX_PATH) = Some name"
    by (auto simp: strncpy_def P(6) HARDIKHYPERIONOS_MAX_PATH_def min_less_iff_disj)
  have slot: "k < length (processes s3)" using assms(10) P(8) by simp
  obtain s' where L: "load_task fname pr (int k) s3 = Some (0, Some pr, s')"
    by (rule load_task_ok [OF P(4,5) fit room name slot])
  have "process_get (int k) s = 0" using assms(11) by (simp add: process_get_def)
  then have "process_load_for_slot ops fname (int k) s = Some (0, Some pr, s')"
    using P(1,2,3) L by (simp add: process_load_for_slot_def Let_def IS_ERR_def)
  with L have "\<exists>s'. load_task fname pr (int k) s3 = Some (0, Some pr, s') \<and>
      process_load_for_slot ops fname (int k) s = Some (0, Some pr, s')" by blast
  from that [OF this P(4,5) fit room name slot P(7-12)] show thesis .
qed

lemma load_for_slot_disk:
  assumes "sched_ok m0 s ps" "disk_file ops a img (file_layer s) fname off sz" "kheap_low (mem s)"
    and "4 \<le> unat sz" "unat sz < 2 ^ 31" "image_bytes img off 4 \<noteq> [0x7F, 0x45, 0x4C, 0x46]" "n = blocks_for (unat sz)"
    and "free_at (tbl (kernel_heap (mem s))) i ((n + 8) * (n + 8))" "1041 + 2 * n \<le> kroom (mem s)"
    and "k < length (processes s)" "processes s ! k = 0"
  obtains pr s' task c stk prog m1 where "process_load_for_slot ops fname (int k) s = Some (0, Some pr, s')"
    "process_chunk pr s' = Some c" "processes s' = (processes s)[k := pr]" "sched_ok m1 s' (ps @ [task])"
    "tasks s' task = Some (new_task c 0x400000 pr (if ps = [] then 0 else last ps))"
    "\<And>v. user_view (ram (mem s')) (load32 (ram (mem s')) c) v = binary_view prog n stk (\<lambda>v. Some (v, False)) v"
    "\<And>i. i < 4 * 4096 \<Longrightarrow> ram (mem s') (stk + of_nat i) = 0"
    "\<And>j. j < unat sz \<Longrightarrow> ram (mem s') (prog + of_nat j) = img (off + j)"
    "runs_kept (mem s) (ram (mem s'))" "kroom (mem s) = 1041 + 2 * n + kroom (mem s')"
proof -
  obtain pr s3 p m3 name where P: "\<exists>s'. load_task fname pr (int k) s3 = Some (0, Some pr, s') \<and>
      process_load_for_slot ops fname (int k) s = Some (0, Some pr, s')"
    "sched_ok m3 s3 ps" "binary_loaded s3 pr p" "\<exists>j. free_at (tbl (kernel_heap (mem s3))) j 4" "1031 \<le> kroom (mem s3)"
    "strncpy (filename p) 0 fname (int HARDIKHYPERIONOS_MAX_PATH) = Some name" "k < length (processes s3)"
    "program_size p = sz" "processes s3 = processes s" "heap_after (mem s) (10 + 2 * n) (mem s3)"
    "\<And>i. i < unat sz \<Longrightarrow> ram (mem s3) (program p + of_nat i) = img (off + i)"
    by (rule load_for_slot_ready [OF assms]) (rule that, assumption+)
  obtain s' task c stk m1' where L: "load_task fname pr (int k) s3 = Some (0, Some pr, s')"
    "processes s' = (processes s3)[k := pr]" "sched_ok m1' s' (ps @ [task])"
    "tasks s' task = Some (new_task c 0x400000 pr (if ps = [] then 0 else last ps))"
    "process_ok s' pr (p\<lparr>filename := name, stack := stk, pid := word_of_int (int k), task_of := task\<rparr>) c"
    "\<And>v. user_view (ram (mem s')) (load32 (ram (mem s')) c) v =
       binary_view (program p) (blocks_for (unat (program_size p))) stk (\<lambda>v. Some (v, False)) v"
    "\<And>i. i < 4 * 4096 \<Longrightarrow> ram (mem s') (stk + of_nat i) = 0"
    "runs_kept (mem s3) (ram (mem s'))" "kroom (mem s3) = 1031 + kroom (mem s')"
    by (rule load_task_ok [OF P(2-7)]) (rule that, assumption+)
  have load: "process_load_for_slot ops fname (int k) s = Some (0, Some pr, s')" using P(1) L(1) by auto
  have view: "user_view (ram (mem s')) (load32 (ram (mem s')) c) v = binary_view (program p) n stk (\<lambda>v. Some (v, False)) v" for v
    using L(6) by (simp add: P(8) assms(7))
  have bytes: "ram (mem s') (program p + of_nat j) = img (off + j)" if j: "j < unat sz" for j
  proof -
    have "j < 4096 * n" using j blocks_for_room [of "unat sz"] assms(7) by simp
    moreover have "kowned (mem s3) (program p) = Some n" using P(3,8) assms(7) by (simp add: binary_loaded_def)
    ultimately show ?thesis using L(8) P(11) [OF j] by (simp add: runs_kept_def)
  qed
  have kept: "runs_kept (mem s) (ram (mem s'))"
    by (rule runs_kept_trans [OF heap_afterD(4) [OF P(10)] L(8)]) (rule heap_afterD(5) [OF P(10)])
  have count: "kroom (mem s) = 1041 + 2 * n + kroom (mem s')" using heap_afterD(3) [OF P(10)] L(9) by simp
  have "process_chunk pr s' = Some c" "processes s' = (processes s)[k := pr]" using L(2,5) P(9) by (simp_all add: process_ok_def)
  from that [OF load this L(3,4) view L(7) bytes kept count] show thesis .
qed


text \<open>A file of 100 bytes, the only one of the root directory, on a drive whose sectors count up; no task yet.\<close>

definition short_item :: "u8 list" where
  "short_item = ascii ''HELLO   TXT'' @ [0x20, 0, 0, 0, 0, 0, 0, 0, 0, 0, 0, 0, 0, 0, 0, 3, 0, 100, 0, 0, 0]"

definition short_private :: fat_private where
  "short_private = sample_private\<lparr>root_directory := \<lparr>dir_item_ptr = 0x1008000, dir_item = short_item @ replicate 32 0,
     dir_total = 1, sector_pos = 3, ending_sector_pos = 4\<rparr>\<rparr>"

definition disk_kernel :: kernel where
  "disk_kernel = sample_kernel\<lparr>file_layer := \<lparr>fsys = \<lparr>km = boot_kmem,
     the_disk = \<lparr>disk_type = 0, sector_size = 512, disk_id = 0, disk_filesystem = Some Fat16Fs,
       fs_private = Some (0x1002000, short_private)\<rparr>, fat_descriptors = Map.empty\<rparr>,
     filesystems = Some Fat16Fs # replicate 11 None, file_descriptors = replicate 512 None\<rparr>\<rparr>"

definition counting_image :: "nat \<Rightarrow> u8" where
  "counting_image k = of_nat (k div 16)"

definition counting_tab :: "fs_ref \<Rightarrow> fs_ops" where
  "counting_tab f = fat16_fs (sample_ata counting_image)"

lemma short_unique: "unique_root_file short_private (ascii ''hello.txt'') 0"
proof -
  have r: "root_items short_private = short_item @ replicate 32 0" "root_total short_private = 1"
    by (simp_all add: short_private_def root_items_def root_total_def)
  have i: "item_name (nth_item (short_item @ replicate 32 0) 0) = ascii ''HELLO.TXT''"
    by (simp add: nth_item_def short_item_def ascii_def item_name_def word_of_def name_char_def)
  have "name_matches (short_item @ replicate 32 0) b 0" if "cstr b = ascii ''hello.txt''" for b
    unfolding name_matches_def i that by (simp add: ascii_def tolower_unat)
  moreover have "searchable (short_item @ replicate 32 0) b 0" for b
    by (simp add: searchable_def nth_item_def short_item_def ascii_def proper_name_def word_of_def name_char_def
        FAT_FILE_SUBDIRECTORY_def)
  ultimately show ?thesis by (simp add: unique_root_file_def r matches_def)
qed

lemma disk_kernel_file:
  "disk_file counting_tab (sample_ata counting_image) counting_image (file_layer disk_kernel) hello_path 3072 100"
proof -
  have h: "terminated hello_path" "path_ok hello_path" "hello_path ! 0 = of_char CHR ''0''"
    "path_names (drop 3 (cstr hello_path)) = [ascii ''hello.txt'']"
    by (simp_all add: hello_path_def ascii_def path_ok_def isdigit_unat path_names_def)
  let ?it = "\<lparr>attributes = 0x20, high_16_bits_first_cluster = 0, low_16_bits_first_cluster = 3, filesize = 100\<rparr>"
  have it: "read_item (take 32 (nth_item (root_items short_private) 0)) = Some ?it"
    by (simp add: short_private_def root_items_def nth_item_def short_item_def ascii_def read_item_def get8_def get16_def
        get32_def arr_get_def)
  have c: "unat (fat16_get_first_cluster ?it) = 3" by (simp add: fat16_get_first_cluster_def)
  have v: "volume (the_disk (fsys (file_layer disk_kernel))) short_private" "cluster_fits short_private 3"
    "cluster_pos short_private 3 = 3072" "spc short_private = 2"
    by (simp_all add: disk_kernel_def volume_def short_private_def sample_private_def sample_header_def good_stream_def
        sample_stream_def cluster_fits_def cluster_pos_def)
  have d: "disk_private (fsys (file_layer disk_kernel)) = Some short_private"
    "disk_filesystem (the_disk (fsys (file_layer disk_kernel))) = Some Fat16Fs"
    "file_descriptors (file_layer disk_kernel) = replicate 512 None"
    by (simp_all add: disk_kernel_def disk_private_def)
  show ?thesis
    unfolding disk_file_def using h it c v d short_unique sample_ata_serves
    by (intro conjI exI [of _ short_private] exI [of _ "ascii ''hello.txt''"] exI [of _ 0] exI [of _ ?it])
      (simp_all add: counting_tab_def)
qed

lemma disk_kernel_ready:
  "sched_ok boot_kmem disk_kernel []" "kheap_low (mem disk_kernel)" "1 = blocks_for (unat (100 :: u32))"
  "free_at (tbl (kernel_heap (mem disk_kernel))) 0 ((1 + 8) * (1 + 8))" "1041 + 2 * 1 \<le> kroom (mem disk_kernel)"
  "1 < length (processes disk_kernel)" "processes disk_kernel ! 1 = 0"
  "image_bytes counting_image 3072 4 \<noteq> [0x7F, 0x45, 0x4C, 0x46]" "null_free_safe (mem disk_kernel)"
proof -
  have m: "mem disk_kernel = boot_kmem" by (simp add: disk_kernel_def mem_def)
  have "task_links disk_kernel []" by (simp add: task_links_def disk_kernel_def sample_kernel_def)
  then show "sched_ok boot_kmem disk_kernel []"
    using kheap.grown_refl [OF boot_kmem_facts(1)] by (simp add: sched_ok_def m) (simp add: disk_kernel_def sample_kernel_def)
  have "tbl (kernel_heap boot_kmem) = replicate 25600 0"
    using kheap_init_boot [of "\<lambda>_. 0" "sample_heap []"] by (simp add: boot_kmem_def)
  then show "free_at (tbl (kernel_heap (mem disk_kernel))) 0 ((1 + 8) * (1 + 8))" by (simp add: m free_at_def)
  show "kheap_low (mem disk_kernel)" "null_free_safe (mem disk_kernel)" by (simp_all add: m boot_kmem_low boot_null_free_safe)
  show "1041 + 2 * 1 \<le> kroom (mem disk_kernel)" by (simp add: m boot_kmem_facts)
  show "1 = blocks_for (unat (100 :: u32))" by (simp add: blocks_for_def)
  show "1 < length (processes disk_kernel)" "processes disk_kernel ! 1 = 0" by (simp_all add: disk_kernel_def sample_kernel_def)
  show "image_bytes counting_image 3072 4 \<noteq> [0x7F, 0x45, 0x4C, 0x46]"
    by (simp add: image_bytes_def counting_image_def upt_rec)
qed


end
