(* ===== verification/ProcessEnd.thy ===== *)
theory ProcessEnd
  imports UserMode
begin

text \<open>
  The end of a process: \<open>process_terminate\<close> (process.c) gives back its allocations, its program, its stack, its task and its
  address space, and takes it out of the table. What a program has taken from the heap by allocations that the heap
  serves is in its table (\<open>accounted\<close>), so its end gives it back.
\<close>

section \<open>Address spaces of other tasks\<close>

lemma runs_kept_but_words:
  assumes "kheap_ok m" "runs_kept_but S m r" "t \<in> dom (kowned m)" "t \<notin> S" "k < 1024"
  shows "load32 r (page_word t k) = load32 (ram m) (page_word t k)"
proof (rule load32_cong)
  fix j :: nat assume j: "j < 4"
  obtain n where n: "kowned m t = Some n" using assms(3) by auto
  have "4 * k + j < 4096 * n" using assms(5) j kowned_end(3) [OF assms(1) n] by linarith
  moreover have "page_word t k + of_nat j = t + of_nat (4 * k + j)" by (simp add: page_word_def ac_simps)
  ultimately show "r (page_word t k + of_nat j) = ram m (page_word t k + of_nat j)"
    using assms(2,4) n unfolding runs_kept_but_def by metis
qed

text \<open>
  Whatever is allocated, released and written, the list of tasks stays well-formed while the blocks of the tasks stay
  allocated and only one address space, which stays well-formed itself, is written to.
\<close>

lemma sched_ok_kept:
  assumes ok: "sched_ok m0 s ps" and t0: "tasks s p0 = Some t0" "page_directory t0 = c"
    and c: "chunk_ok (ram (mem s')) c" "chunk_blocks (ram (mem s')) c = chunk_blocks (ram (mem s)) c"
    and kept: "\<And>q i. q \<in> set (concat (map (task_blocks s) ps)) \<Longrightarrow> q \<notin> set (chunk_blocks (ram (mem s)) c) \<Longrightarrow> i < 4096 \<Longrightarrow>
      ram (mem s') (q + of_nat i) = ram (mem s) (q + of_nat i)"
    and own: "\<And>q. q \<in> set (concat (map (task_blocks s) ps)) \<Longrightarrow> kowned (mem s') q = kowned (mem s) q" "kheap_ok (mem s')"
    and same: "tasks s' = tasks s" "task_head s' = task_head s" "task_tail s' = task_tail s" "current_task s' = current_task s"
  shows "sched_ok (release_seq kfree (concat (map (task_blocks s) ps)) (mem s')) s' ps"
    "map (task_blocks s') ps = map (task_blocks s) ps"
proof -
  let ?m = "ram (mem s)" and ?bs = "concat (map (task_blocks s) ps)"
  note S = ok [unfolded sched_ok_def]
  have p0: "p0 \<in> set ps" using t0(1) S by (auto simp: task_links_def)
  have G: "distinct ?bs" "0 \<notin> set ?bs" "\<And>p. p \<in> set ?bs \<Longrightarrow> kowned (mem s) p = Some 1" using S unfolding grown_def by auto
  have chunk: "chunk_blocks (ram (mem s')) (page_directory t) = chunk_blocks ?m (page_directory t) \<and> chunk_ok (ram (mem s')) (page_directory t)"
    if t: "tasks s q = Some t" for q t
  proof (cases "q = p0")
    case True
    with t t0 c show ?thesis by simp
  next
    case False
    let ?q = "page_directory t"
    have q: "q \<in> set ps" using t S by (auto simp: task_links_def)
    then have "set (task_blocks s q) \<inter> set (task_blocks s p0) = {}" using p0 False by (intro distinct_concat_disjoint [OF G(1)])
    then have d: "set (chunk_blocks ?m ?q) \<inter> set (chunk_blocks ?m c) = {}" using t t0 by (auto simp: task_blocks_def)
    have w: "load32 (ram (mem s')) (page_word a k) = load32 ?m (page_word a k)" if a: "a \<in> {?q, load32 ?m ?q}" "k < 1024" for a k
    proof (rule load32_cong)
      fix j :: nat assume j: "j < 4"
      have "a \<in> set (chunk_blocks ?m ?q)" using a(1) by (auto simp: chunk_blocks_def)
      then have "a \<in> set ?bs" "a \<notin> set (chunk_blocks ?m c)" using q t d by (auto simp: task_blocks_def)
      moreover have "page_word a k + of_nat j = a + of_nat (4 * k + j)" by (simp add: page_word_def ac_simps)
      moreover have "4 * k + j < 4096" using a(2) j by simp
      ultimately show "ram (mem s') (page_word a k + of_nat j) = ?m (page_word a k + of_nat j)" using kept by metis
    qed
    have "load32 (ram (mem s')) ?q = load32 ?m ?q" using w [of ?q 0] by (simp add: page_word_0)
    from chunk_same_words [OF this] w S t show ?thesis by simp
  qed
  then have "task_blocks s' q = task_blocks s q" for q by (auto simp: task_blocks_def same split: option.splits)
  then show bl: "map (task_blocks s') ps = map (task_blocks s) ps" by simp
  have "kgrown (release_seq kfree ?bs (mem s')) ?bs (mem s')"
    by (rule kheap.grown_base [OF own(2) G(1,2)]) (simp add: own(1) G(3))
  moreover have "task_links s' ps" using S by (simp add: task_links_def same)
  ultimately show "sched_ok (release_seq kfree ?bs (mem s')) s' ps" using chunk by (simp add: sched_ok_def bl same)
qed

section \<open>What an operation of a process leaves alone\<close>

text \<open>The scheduler, the tables, and of the processes everything but the allocations.\<close>

definition run_frame :: "kernel \<Rightarrow> kernel \<Rightarrow> bool" where
  "run_frame s s' \<longleftrightarrow> tasks s' = tasks s \<and> task_head s' = task_head s \<and> task_tail s' = task_tail s \<and> current_task s' = current_task s \<and>
     processes s' = processes s \<and> current_process s' = current_process s \<and>
     (\<forall>q. map_option (allocations_update (\<lambda>_. [])) (procs s' q) = map_option (allocations_update (\<lambda>_. [])) (procs s q))"

lemma run_frame_refl [simp]: "run_frame s s"
  by (simp add: run_frame_def)

lemma run_frame_trans: "run_frame s s1 \<Longrightarrow> run_frame s1 s2 \<Longrightarrow> run_frame s s2"
  by (simp add: run_frame_def)

lemma run_frame_ram [simp]: "run_frame s (set_ram r s)" "run_frame s (set_mem m s)" "run_frame s (on_mem f s)"
  by (simp_all add: run_frame_def set_ram_def set_mem_def on_mem_def)

lemma run_frame_put:
  "put_process pr (\<lambda>p. p\<lparr>allocations := f p\<rparr>) s = Some s' \<Longrightarrow> run_frame s s'"
  by (auto simp: put_process_def run_frame_def split: bind_splits option.splits)

lemma run_frame_map: "process_map_to pr v p e f s = Some (res, s') \<Longrightarrow> run_frame s s'"
  by (auto simp: process_map_to_def Let_def split: bind_splits prod.splits)

lemma process_malloc_frame:
  assumes "process_malloc pr sz s = Some (ptr, s')"
  shows "run_frame s s'"
proof -
  have undo: "run_frame s (on_mem f (set_mem m s))" for m f by (rule run_frame_trans [OF run_frame_ram(2,3)])
  have map: "run_frame s s1" if "process_map_to pr v q e fl (set_mem m s) = Some (res, s1)" for m v q e fl res s1
    by (rule run_frame_trans [OF run_frame_ram(2) run_frame_map [OF that]])
  show ?thesis
    using assms by (auto simp: process_malloc_def Let_def split: prod.splits bind_splits if_splits
        intro: undo map run_frame_trans [OF map run_frame_ram(3)] run_frame_trans [OF map run_frame_put])
qed

lemma process_free_frame: "process_free pr ptr s = Some s' \<Longrightarrow> run_frame s s'"
  unfolding process_allocation_unjoin_def [abs_def] process_free_def
  by (auto split: bind_splits option.splits prod.splits if_splits
      intro: run_frame_map run_frame_trans [OF run_frame_trans [OF run_frame_map run_frame_put] run_frame_ram(3)])

lemma terminate_loop_frame: "terminate_allocations_loop pr i n s = Some s' \<Longrightarrow> run_frame s s'"
  by (induction n arbitrary: i s) (auto split: bind_splits intro: run_frame_trans [OF process_free_frame])

lemma run_frame_core:
  assumes "run_frame s s'" "procs s pr = Some p" "procs s' pr = Some p'"
  shows "p' = p\<lparr>allocations := allocations p'\<rparr>"
proof -
  have "map_option (allocations_update (\<lambda>_. [])) (procs s' pr) = map_option (allocations_update (\<lambda>_. [])) (procs s pr)"
    using assms(1) by (simp add: run_frame_def)
  then have "p'\<lparr>allocations := []\<rparr> = p\<lparr>allocations := []\<rparr>" using assms(2,3) by simp
  then show ?thesis by (cases p; cases p') simp
qed

lemma task_list_remove_frame:
  assumes "task_list_remove t s = Some s'"
  shows "procs s' = procs s \<and> processes s' = processes s \<and> current_process s' = current_process s"
  using assms by (auto simp: task_list_remove_def put_task_def Let_def split: bind_splits if_splits)

lemma task_free_frame:
  assumes "task_free t s = Some s'"
  shows "procs s' = procs s" "processes s' = processes s" "current_process s' = current_process s"
  using assms by (auto simp: task_free_def on_mem_def set_mem_def split: bind_splits dest!: task_list_remove_frame)

lemma task_free_pages:
  assumes "task_free t s = Some s'" "q \<noteq> t"
  shows "map_option page_directory (tasks s' q) = map_option page_directory (tasks s q)"
proof -
  have rem: "map_option page_directory (tasks s2 q) = map_option page_directory (tasks s1 q)"
    if "task_list_remove t s1 = Some s2" for s1 s2
    using that by (auto simp: task_list_remove_def put_task_def Let_def split: bind_splits if_splits)
  show ?thesis
    using assms by (auto simp: task_free_def on_mem_def set_mem_def split: bind_splits dest!: rem)
qed

section \<open>process_terminate\<close>

text \<open>Freeing a task gives back its object and the blocks of its address space, nothing else.\<close>

lemma task_free_owned:
  assumes ok: "sched_ok m0 s (xs @ p # ys)" and prev: "prev_right s (xs @ p # ys) p"
  obtains s' where "task_free p s = Some s'" "sched_ok m0 s' (xs @ ys)" "ram (mem s') = ram (mem s)"
    "\<And>q. kowned (mem s') q = (if q \<in> set (task_blocks s p) then None else kowned (mem s) q)"
    "procs s' = procs s" "processes s' = processes s" "current_process s' = current_process s"
proof -
  obtain s' where f: "task_free p s = Some s'" "sched_ok m0 s' (xs @ ys)" "ram (mem s') = ram (mem s)"
    by (rule task_free_ok [OF ok prev])
  let ?old = "concat (map (task_blocks s) (xs @ p # ys))" and ?new = "concat (map (task_blocks s) (xs @ ys))"
  have "p \<notin> set (xs @ ys)" using ok by (auto simp: sched_ok_def task_links_def)
  then have "task_blocks s' q = task_blocks s q" if "q \<in> set (xs @ ys)" for q
    using that by (intro task_blocks_same task_free_pages [OF f(1)] f(3)) auto
  then have bl: "map (task_blocks s') (xs @ ys) = map (task_blocks s) (xs @ ys)" by auto
  have G: "kgrown m0 ?old (mem s)" and G': "kgrown m0 ?new (mem s')"
    using ok f(2) unfolding sched_ok_def bl by simp_all
  have d: "set (task_blocks s p) \<inter> set ?new = {}" using G by (auto simp: grown_def)
  have "kowned (mem s') q = (if q \<in> set (task_blocks s p) then None else kowned (mem s) q)" for q
    using G G' d by (auto simp: grown_def)
  then show thesis using f task_free_frame [OF f(1)] that by blast
qed

text \<open>What can be given back: the program and the stack are blocks of their own, apart from the allocations and from all tasks.\<close>

definition owns_memory :: "kernel \<Rightarrow> process \<Rightarrow> u32 list \<Rightarrow> bool" where
  "owns_memory s p ps \<longleftrightarrow> {program p, stack p} \<subseteq> dom (kowned (mem s)) \<and> program p \<noteq> stack p \<and>
     {program p, stack p} \<inter> set (used_ptrs (allocations p)) = {} \<and>
     ({program p, stack p} \<union> set (used_ptrs (allocations p))) \<inter> set (concat (map (task_blocks s) ps)) = {}"

abbreviation process_blocks :: "kernel \<Rightarrow> process \<Rightarrow> u32 set" where
  "process_blocks s p \<equiv> {program p, stack p} \<union> set (used_ptrs (allocations p)) \<union> set (task_blocks s (task_of p))"

text \<open>The memory of the process, up to its task.\<close>

lemma terminate_memory:
  assumes ok: "process_ok s pr p c" and safe: "null_free_safe (mem s)" and bin: "filetype p = PROCESS_FILETYPE_BINARY"
    and sched: "sched_ok m0 s ps" and own: "owns_memory s p ps"
  obtains s1 s2 s3 where "process_terminate_allocations pr s = Some (0, s1)" "process_free_program_data pr s1 = Some (0, s2)"
    "s3 = on_mem (\<lambda>m. kfree m (stack p)) s2" "run_frame s s3"
    "procs s2 pr = Some (p\<lparr>allocations := replicate 1024 no_allocation\<rparr>)"
    "procs s3 pr = Some (p\<lparr>allocations := replicate 1024 no_allocation\<rparr>)"
    "sched_ok (release_seq kfree (concat (map (task_blocks s) ps)) (mem s3)) s3 ps" "map (task_blocks s3) ps = map (task_blocks s) ps"
    "\<And>q. kowned (mem s3) q = (if q \<in> {program p, stack p} \<union> set (used_ptrs (allocations p)) then None else kowned (mem s) q)"
    "runs_kept_but (set (chunk_blocks (ram (mem s)) c)) (mem s3) (ram (mem s))" "ram (mem s3) = ram (mem s1)" "null_free_safe (mem s3)"
proof -
  let ?p = "p\<lparr>allocations := replicate 1024 no_allocation\<rparr>" and ?u = "set (used_ptrs (allocations p))"
  from terminate_allocations_loop_ok [OF ok safe, of 0 1024] obtain s1
    where s1: "terminate_allocations_loop pr 0 1024 s = Some s1" "process_ok s1 pr ?p c" "allocations_freed s c ?u s1"
      "null_free_safe (mem s1)" by auto
  have t1: "process_terminate_allocations pr s = Some (0, s1)"
    using s1(1) by (simp add: process_terminate_allocations_def HARDIKHYPERIONOS_MAX_PROGRAM_ALLOCATIONS_def)
  have p1: "procs s1 pr = Some ?p" and ok1: "kheap_ok (mem s1)" using s1(2) by (simp_all add: process_ok_def)
  define s2 where "s2 = on_mem (\<lambda>m. kfree m (program p)) s1"
  define s3 where "s3 = on_mem (\<lambda>m. kfree m (stack p)) s2"
  have t2: "process_free_program_data pr s1 = Some (0, s2)"
    using p1 bin by (simp add: process_free_program_data_def process_free_binary_data_def s2_def)
  note F = s1(3) [unfolded allocations_freed_def]
  note O = own [unfolded owns_memory_def]
  obtain n1 n2 where n: "kowned (mem s1) (program p) = Some n1" "kowned (mem s1) (stack p) = Some n2" using F O by auto
  have k2: "kheap_ok (mem s2)" "kowned (mem s2) = (kowned (mem s1))(program p := None)" "kframe (mem s2) = kframe (mem s1)"
    using kheap.release_law [OF ok1 n(1)] by (simp_all add: s2_def on_mem_def)
  have "kowned (mem s2) (stack p) = Some n2" using n(2) O k2(2) by auto
  then have k3: "kheap_ok (mem s3)" "kowned (mem s3) = (kowned (mem s1))(program p := None, stack p := None)" "kframe (mem s3) = kframe (mem s1)"
    using kheap.release_law [OF k2(1)] by (simp_all add: s3_def on_mem_def k2(2,3))
  have r3: "ram (mem s3) = ram (mem s1)" by (simp add: s3_def s2_def on_mem_def)
  have own3: "kowned (mem s3) q = (if q \<in> {program p, stack p} \<union> ?u then None else kowned (mem s) q)" for q
    using F by (auto simp: k3(2))
  have kept: "runs_kept_but (set (chunk_blocks (ram (mem s)) c)) (mem s3) (ram (mem s))"
    using F unfolding runs_kept_but_def r3 by (simp add: k3(2))
  have frame: "run_frame s s3"
    unfolding s3_def s2_def by (rule run_frame_trans [OF run_frame_trans [OF terminate_loop_frame [OF s1(1)] run_frame_ram(3)] run_frame_ram(3)])
  have task: "tasks s (task_of p) \<noteq> None" "process_chunk pr s = Some c" "procs s pr = Some p"
    using ok by (auto simp: process_ok_def process_chunk_def split: bind_splits)
  then obtain t where t: "tasks s (task_of p) = Some t" "page_directory t = c" by (auto simp: process_chunk_def)
  have ch: "chunk_ok (ram (mem s3)) c" "chunk_blocks (ram (mem s3)) c = chunk_blocks (ram (mem s)) c"
    using s1(2) F by (simp_all add: process_ok_def r3)
  have bs: "q \<in> set (concat (map (task_blocks s) ps)) \<Longrightarrow> kowned (mem s3) q = kowned (mem s) q \<and> kowned (mem s) q = Some 1" for q
    using O own3 sched by (auto simp: sched_ok_def grown_def)
  have run: "ram (mem s3) (q + of_nat i) = ram (mem s) (q + of_nat i)"
    if "q \<in> set (concat (map (task_blocks s) ps))" "q \<notin> set (chunk_blocks (ram (mem s)) c)" "i < 4096" for q i
    using kept bs [OF that(1)] that(2,3) unfolding runs_kept_but_def by (metis mult.right_neutral)
  have fields: "tasks s3 = tasks s" "task_head s3 = task_head s" "task_tail s3 = task_tail s" "current_task s3 = current_task s"
    using frame by (simp_all add: run_frame_def)
  note sch = sched_ok_kept [OF sched t ch run _ k3(1) fields]
  have "sched_ok (release_seq kfree (concat (map (task_blocks s) ps)) (mem s3)) s3 ps" "map (task_blocks s3) ps = map (task_blocks s) ps"
    using sch bs by blast+
  moreover have "procs s2 pr = Some ?p" "procs s3 pr = Some ?p" using p1 by (simp_all add: s3_def s2_def on_mem_def set_mem_def)
  moreover have "null_free_safe (mem s3)" using null_free_safe_frame(1) [OF k3(3)] s1(4) by simp
  ultimately show thesis by (intro that [OF t1 t2 s3_def frame _ _ _ _ own3 kept r3])
qed

lemma process_terminate_ok:
  assumes ok: "process_ok s pr p c" and safe: "null_free_safe (mem s)" and bin: "filetype p = PROCESS_FILETYPE_BINARY"
    and sched: "sched_ok m0 s (xs @ task_of p # ys)" and prev: "prev_right s (xs @ task_of p # ys) (task_of p)"
    and own: "owns_memory s p (xs @ task_of p # ys)"
    and slot: "unat (pid p) < length (processes s)"
    and other: "current_process s \<noteq> pr \<or> (\<exists>q \<in> set ((processes s)[unat (pid p) := 0]). q \<noteq> 0)"
  obtains s' m1 where "process_terminate pr s = Some (0, s')" "sched_ok m1 s' (xs @ ys)"
    "\<And>q. kowned (mem s') q = (if q \<in> process_blocks s p then None else kowned (mem s) q)"
    "\<And>q n i. kowned (mem s') q = Some n \<Longrightarrow> i < 4096 * n \<Longrightarrow> ram (mem s') (q + of_nat i) = ram (mem s) (q + of_nat i)"
    "processes s' = (processes s)[unat (pid p) := 0]" "procs s' pr = Some (p\<lparr>allocations := replicate 1024 no_allocation\<rparr>)"
    "current_process s' = (if current_process s = pr then hd (filter (\<lambda>q. q \<noteq> 0) (processes s')) else current_process s)"
    "null_free_safe (mem s')"
proof -
  let ?p = "p\<lparr>allocations := replicate 1024 no_allocation\<rparr>" and ?ps = "xs @ task_of p # ys"
  let ?tb = "set (task_blocks s (task_of p))"
  obtain s1 s2 s3 where m: "process_terminate_allocations pr s = Some (0, s1)" "process_free_program_data pr s1 = Some (0, s2)"
    "s3 = on_mem (\<lambda>m. kfree m (stack p)) s2" "run_frame s s3" "procs s2 pr = Some ?p" "procs s3 pr = Some ?p"
    "sched_ok (release_seq kfree (concat (map (task_blocks s) ?ps)) (mem s3)) s3 ?ps" "map (task_blocks s3) ?ps = map (task_blocks s) ?ps"
    "\<And>q. kowned (mem s3) q = (if q \<in> {program p, stack p} \<union> set (used_ptrs (allocations p)) then None else kowned (mem s) q)"
    "runs_kept_but (set (chunk_blocks (ram (mem s)) c)) (mem s3) (ram (mem s))" "null_free_safe (mem s3)"
    by (rule terminate_memory [OF ok safe bin sched own]) (rule that, assumption+)
  note fields = m(4) [unfolded run_frame_def]
  have prev3: "prev_right s3 ?ps (task_of p)" using prev fields by (simp add: prev_right_def)
  obtain s4 where f: "task_free (task_of p) s3 = Some s4"
    "sched_ok (release_seq kfree (concat (map (task_blocks s) ?ps)) (mem s3)) s4 (xs @ ys)" "ram (mem s4) = ram (mem s3)"
    "\<And>q. kowned (mem s4) q = (if q \<in> set (task_blocks s3 (task_of p)) then None else kowned (mem s3) q)"
    "procs s4 = procs s3" "processes s4 = processes s3" "current_process s4 = current_process s3"
    by (rule task_free_owned [OF m(7) prev3]) (rule that, assumption+)
  have tb: "task_blocks s3 (task_of p) = task_blocks s (task_of p)" using m(8) by simp
  define s' where "s' = (let s5 = s4\<lparr>processes := (processes s)[unat (pid p) := 0]\<rparr> in
    if current_process s = pr then s5\<lparr>current_process := hd (filter (\<lambda>q. q \<noteq> 0) (processes s5))\<rparr> else s5)"
  have "arr_set (processes s) (int (unat (pid p))) 0 = Some ((processes s)[unat (pid p) := 0])"
    using slot by (simp only: arr_set_nat if_True)
  then have "process_unlink pr s4 = Some s'"
    using fields f(5-7) m(6) slot other by (auto simp: process_unlink_def s'_def Let_def
        process_switch_to_any_def process_switch_def filter_empty_conv split: list.splits)
  then have run: "process_terminate pr s = Some (0, s')"
    using m(1,2,5) f(1) by (simp add: process_terminate_def flip: m(3))
  have s': "mem s' = mem s4" "processes s' = (processes s)[unat (pid p) := 0]" "procs s' = procs s4" "tasks s' = tasks s4"
    "current_process s' = (if current_process s = pr then hd (filter (\<lambda>q. q \<noteq> 0) (processes s')) else current_process s)"
    "task_head s' = task_head s4" "task_tail s' = task_tail s4" "current_task s' = current_task s4"
    using f(7) fields by (simp_all add: s'_def Let_def)
  have own': "kowned (mem s') q = (if q \<in> process_blocks s p then None else kowned (mem s) q)" for q
    by (simp add: s'(1) f(4) tb m(9))
  have "set (chunk_blocks (ram (mem s)) c) \<subseteq> ?tb"
    using ok by (auto simp: process_ok_def process_chunk_def task_blocks_def split: bind_splits)
  then have kept: "ram (mem s') (q + of_nat i) = ram (mem s) (q + of_nat i)" if "kowned (mem s') q = Some n" "i < 4096 * n" for q n i
  proof -
    have "kowned (mem s3) q = Some n" "q \<notin> set (chunk_blocks (ram (mem s)) c)"
      using that(1) \<open>_ \<subseteq> ?tb\<close> unfolding s'(1) f(4) tb by (auto split: if_splits)
    then show ?thesis using m(10) that(2) unfolding runs_kept_but_def s'(1) f(3) by metis
  qed
  have "sched_ok (release_seq kfree (concat (map (task_blocks s) ?ps)) (mem s3)) s' (xs @ ys)"
    by (rule sched_ok_core [OF f(2)]) (use f(2) in \<open>auto simp: s' sched_ok_def task_links_def\<close>)
  moreover have "kframe (mem s') = kframe (mem s3)" using f(2) m(7) by (simp add: s'(1) sched_ok_def grown_def)
  then have "null_free_safe (mem s')" using null_free_safe_frame(1) m(11) by blast
  ultimately show thesis
    by (intro that [OF run _ own' kept s'(2)]) (use s'(3,5) f(5) m(6) in simp_all)
qed

section \<open>The life of a program\<close>

text \<open>What a program has taken since \<open>s0\<close> is in its table of allocations.\<close>

definition accounted :: "kernel \<Rightarrow> kernel \<Rightarrow> process \<Rightarrow> bool" where
  "accounted s0 s p \<longleftrightarrow> (\<forall>q. q \<notin> set (used_ptrs (allocations p)) \<longrightarrow> kowned (mem s) q = kowned (mem s0) q)"

lemma accounted_malloc:
  assumes ok: "process_ok s pr p c" and acc: "accounted s0 s p" and safe: "null_free_safe (mem s)"
    and call: "process_malloc pr sz s = Some (ptr, s')" "heap_serves (mem s) sz" and p': "procs s' pr = Some p'"
  shows "accounted s0 s' p'"
proof (cases rule: malloc_served [OF ok safe call, case_names given refused])
  case given
  obtain i where m: "i < 1024" "alloc_ptr (allocations p ! i) = 0"
    "process_ok s' pr (p\<lparr>allocations := (allocations p)[i := \<lparr>alloc_ptr = ptr, alloc_size = sz\<rparr>]\<rparr>) c"
    "kowned (mem s') = (kowned (mem s))(ptr \<mapsto> blocks_for (unat sz))"
    by (rule process_malloc_ok [OF ok given(3-5,2)]) (use call(1) in auto)
  have "length (allocations p) = 1024" using ok by (simp add: process_ok_def)
  then have "set (used_ptrs ((allocations p)[i := \<lparr>alloc_ptr = ptr, alloc_size = sz\<rparr>])) = insert ptr (set (used_ptrs (allocations p)))"
    using arg_cong [OF used_ptrs_update [of i "allocations p" "\<lparr>alloc_ptr = ptr, alloc_size = sz\<rparr>"], of set_mset] m(1,2) given(1) by simp
  moreover have "p' = p\<lparr>allocations := (allocations p)[i := \<lparr>alloc_ptr = ptr, alloc_size = sz\<rparr>]\<rparr>" using m(3) p' by (simp add: process_ok_def)
  ultimately show ?thesis using acc by (simp add: accounted_def m(4))
next
  case refused
  then have "p' = p" using p' ok by (simp add: process_ok_def)
  then show ?thesis using acc refused(4) by (simp add: accounted_def)
qed

lemma accounted_free:
  assumes ok: "process_ok s pr p c" and acc: "accounted s0 s p" and safe: "null_free_safe (mem s)"
    and new: "set (used_ptrs (allocations p)) \<inter> dom (kowned (mem s0)) = {}"
    and call: "process_free pr ptr s = Some s'" and p': "procs s' pr = Some p'"
  shows "accounted s0 s' p'"
proof -
  have p: "procs s pr = Some p" using ok by (simp add: process_ok_def)
  consider "ptr = 0" | "ptr \<noteq> 0" "ptr \<in> set (used_ptrs (allocations p))" | "ptr \<noteq> 0" "ptr \<notin> set (used_ptrs (allocations p))" by blast
  then show ?thesis
  proof cases
    case 1
    from free_null_cases [OF ok safe call [unfolded 1]] p' have "p' = p" "kowned (mem s') = kowned (mem s)" by (simp_all add: process_ok_def)
    then show ?thesis using acc by (simp add: accounted_def)
  next
    case 2
    obtain n where m: "process_ok s' pr (process_allocation_unjoin ptr p) c" "kowned (mem s') = (kowned (mem s))(ptr := None)"
      by (rule process_free_ok [OF ok 2]) (use call in auto)
    have "set (used_ptrs (allocations (process_allocation_unjoin ptr p))) = set (used_ptrs (allocations p)) - {ptr}"
      using used_ptrs_unjoin [OF 2(1)] by (auto simp: process_allocation_unjoin_def)
    moreover have "p' = process_allocation_unjoin ptr p" using m(1) p' by (simp add: process_ok_def)
    moreover have "kowned (mem s0) ptr = None" using new 2(2) by blast
    ultimately show ?thesis using acc by (auto simp: accounted_def m(2))
  next
    case 3
    then have "process_get_allocation_by_addr p ptr = None"
      by (auto simp: process_get_allocation_by_addr_def find_None_iff dest: in_used_ptrs)
    then have "s' = s" using call p by (simp add: process_free_def)
    then show ?thesis using acc p p' by simp
  qed
qed

lemma user_step_accounted:
  assumes step: "user_step pr x s s'" and srv: "served (s, x)" and inv: "confined s0 s pr p c prog stk" and acc: "accounted s0 s p"
  obtains p' where "confined s0 s' pr p' c prog stk" "accounted s0 s' p'" "run_frame s s'"
proof -
  from user_step_confined [OF step srv inv] obtain p' where p': "confined s0 s' pr p' c prog stk" by blast
  then have pr': "procs s' pr = Some p'" by (simp add: confined_def process_ok_def)
  have ok: "process_ok s pr p c" and safe: "null_free_safe (mem s)" and new: "set (used_ptrs (allocations p)) \<inter> dom (kowned (mem s0)) = {}"
    using inv by (simp_all add: confined_def)
  from step have "accounted s0 s' p' \<and> run_frame s s'"
  proof cases
    case (Store c' v b r)
    then have "p' = p" using pr' ok by (simp add: process_ok_def)
    moreover have "kowned (mem (set_ram r s)) = kowned (mem s)" by (simp add: kowned_def)
    ultimately show ?thesis using acc Store(2) by (simp add: accounted_def)
  next
    case (Malloc sz ptr)
    then have "heap_serves (mem s) sz" using srv by simp
    then show ?thesis using accounted_malloc [OF ok acc safe Malloc(2) _ pr'] process_malloc_frame [OF Malloc(2)] by blast
  next
    case (Free ptr)
    then show ?thesis using accounted_free [OF ok acc safe new Free(2) pr'] process_free_frame by blast
  qed
  with p' that show thesis by blast
qed

lemma user_run_accounted:
  "user_run pr s tr s' \<Longrightarrow> list_all served tr \<Longrightarrow> confined s0 s pr p c prog stk \<Longrightarrow> accounted s0 s p \<Longrightarrow>
   \<exists>p'. confined s0 s' pr p' c prog stk \<and> accounted s0 s' p' \<and> run_frame s s'"
proof (induction arbitrary: p rule: user_run.induct)
  case (Step x s s' tr s'')
  have srv: "served (s, x)" "list_all served tr" using Step.prems(1) by simp_all
  obtain p' where p': "confined s0 s' pr p' c prog stk" "accounted s0 s' p'" "run_frame s s'"
    by (rule user_step_accounted [OF Step.hyps(1) srv(1) Step.prems(2,3)])
  from Step.IH [OF srv(2) p'(1,2)] show ?case using run_frame_trans [OF p'(3)] by blast
qed (use run_frame_refl in blast)

text \<open>A loaded binary after a run: what it has is its own, and the list of tasks is well-formed.\<close>

lemma run_owns_memory:
  assumes sched: "sched_ok m1 s1 (ps @ [task])" and t0: "tasks s1 task = Some t0" "page_directory t0 = c"
    and prog: "program p \<in> dom (kowned (mem s0))" "program p \<notin> set (concat (map (task_blocks s1) (ps @ [task])))"
    and stk: "kowned (mem s1) (stack p) = Some 4" "kowned (mem s0) (stack p) = None"
    and inv: "confined s1 s2 pr p2 c (program p) (stack p)" and acc: "accounted s1 s2 p2" and frame: "run_frame s1 s2"
    and p2: "program p2 = program p" "stack p2 = stack p"
  obtains m2 where "sched_ok m2 s2 (ps @ [task])" "owns_memory s2 p2 (ps @ [task])"
    "map (task_blocks s2) (ps @ [task]) = map (task_blocks s1) (ps @ [task])"
proof -
  let ?bs = "concat (map (task_blocks s1) (ps @ [task]))"
  note I = inv [unfolded confined_def]
  have bs: "kowned (mem s1) q = Some 1" if "q \<in> set ?bs" for q using sched that by (auto simp: sched_ok_def grown_def)
  have nstk: "stack p \<notin> set ?bs" using bs [of "stack p"] stk(1) by auto
  have nu: "set ?bs \<inter> set (used_ptrs (allocations p2)) = {}" using bs I by fast
  have own: "kowned (mem s2) q = kowned (mem s1) q" if "q \<in> set ?bs" for q
    using acc nu that by (auto simp: accounted_def)
  have P: "process_ok s2 pr p2 c" using I by simp
  have ch: "chunk_ok (ram (mem s2)) c" "chunk_blocks (ram (mem s2)) c = chunk_blocks (ram (mem s1)) c" "kheap_ok (mem s2)"
    using P I by (simp_all add: process_ok_def)
  have run: "ram (mem s2) (q + of_nat i) = ram (mem s1) (q + of_nat i)"
    if "q \<in> set ?bs" "q \<notin> set (chunk_blocks (ram (mem s1)) c)" "i < 4096" for q i
  proof -
    have "q \<notin> {program p, stack p} \<union> set (chunk_blocks (ram (mem s1)) c)" using that prog(2) nstk by auto
    then show ?thesis using I bs [OF that(1)] that(3) unfolding runs_kept_but_def by (metis mult.right_neutral)
  qed
  have fields: "tasks s2 = tasks s1" "task_head s2 = task_head s1" "task_tail s2 = task_tail s1" "current_task s2 = current_task s1"
    using frame by (simp_all add: run_frame_def)
  have K: "sched_ok (release_seq kfree ?bs (mem s2)) s2 (ps @ [task])" "map (task_blocks s2) (ps @ [task]) = map (task_blocks s1) (ps @ [task])"
    by (rule sched_ok_kept [OF sched t0 ch(1,2) _ _ ch(3) fields]; use run own in blast)+
  have "owns_memory s2 p2 (ps @ [task])"
    unfolding owns_memory_def p2 K(2)
  proof (intro conjI)
    have "dom (kowned (mem s1)) \<subseteq> dom (kowned (mem s2))" using I by (simp add: map_le_implies_dom_le)
    then show "{program p, stack p} \<subseteq> dom (kowned (mem s2))" using I by blast
    show "program p \<noteq> stack p" using prog(1) stk(2) by auto
    show "{program p, stack p} \<inter> set (used_ptrs (allocations p2)) = {}" using I by blast
    show "({program p, stack p} \<union> set (used_ptrs (allocations p2))) \<inter> set ?bs = {}" using prog(2) nstk nu by blast
  qed
  then show thesis using K that by blast
qed

text \<open>From loading to the end of the run.\<close>

lemma loaded_run:
  assumes load: "sched_ok m0 s ps" "binary_loaded s pr p"
    "\<exists>i. free_at (tbl (kernel_heap (mem s))) i 4" "1031 \<le> kroom (mem s)"
    "strncpy (filename p) 0 fname (int HARDIKHYPERIONOS_MAX_PATH) = Some name" "k < length (processes s)"
    and nprog: "program p \<notin> set (concat (map (task_blocks s) ps))"
    and safe: "null_free_safe (mem s)"
    and run: "load_task fname pr (int k) s = Some (res, out, s1)" "user_run pr s1 tr s2" "list_all served tr"
  obtains p2 c task m2 where "process_ok s2 pr p2 c" "program p2 = program p" "pid p2 = word_of_int (int k)" "task_of p2 = task"
    "filetype p2 = PROCESS_FILETYPE_BINARY" "sched_ok m2 s2 (ps @ [task])" "owns_memory s2 p2 (ps @ [task])"
    "prev_right s2 (ps @ [task]) task" "processes s2 = (processes s)[k := pr]" "null_free_safe (mem s2)"
    "\<And>q. q \<in> insert (stack p2) (set (used_ptrs (allocations p2)) \<union> set (task_blocks s2 task)) \<Longrightarrow> kowned (mem s) q = None"
    "\<And>q. q \<notin> insert (stack p2) (set (used_ptrs (allocations p2)) \<union> set (task_blocks s2 task)) \<Longrightarrow> kowned (mem s2) q = kowned (mem s) q"
    "\<And>q n i. kowned (mem s) q = Some n \<Longrightarrow> q \<noteq> program p \<Longrightarrow> i < 4096 * n \<Longrightarrow>
       ram (mem s2) (q + of_nat i) = ram (mem s) (q + of_nat i)"
proof -
  obtain s' task c stk m1 where L: "load_task fname pr (int k) s = Some (0, Some pr, s')"
    "processes s' = (processes s)[k := pr]" "sched_ok m1 s' (ps @ [task])"
    "tasks s' task = Some (new_task c 0x400000 pr (if ps = [] then 0 else last ps))"
    "process_ok s' pr (p\<lparr>filename := name, stack := stk, pid := word_of_int (int k), task_of := task\<rparr>) c"
    "kowned (mem s) stk = None" "kowned (mem s') stk = Some 4" "kowned (mem s) \<subseteq>\<^sub>m kowned (mem s')" "runs_kept (mem s) (ram (mem s'))"
    "set (chunk_blocks (ram (mem s')) c) \<inter> (insert stk (dom (kowned (mem s)))) = {}"
    "\<And>q. q \<notin> insert stk (set (task_blocks s' task)) \<Longrightarrow> kowned (mem s') q = kowned (mem s) q" "kowned (mem s) task = None" "task \<noteq> stk"
    "map (task_blocks s') ps = map (task_blocks s) ps"
    by (rule load_task_ok [OF load]) (rule that, assumption+)
  let ?p = "p\<lparr>filename := name, stack := stk, pid := word_of_int (int k), task_of := task\<rparr>"
  have s1: "s1 = s'" using run(1) L(1) by simp
  have pr1: "procs s' pr = Some ?p" "process_chunk pr s' = Some c" using L(5) by (simp_all add: process_ok_def)
  obtain p1 c1 where C: "confined s1 s1 pr p1 c1 (program p) (stack p1)" "process_chunk pr s1 = Some c1" "procs s1 pr = Some p1"
    by (rule load_task_confined [OF load run(1) safe])
  then have e: "c1 = c" "p1 = ?p" using pr1 by (simp_all add: s1)
  have inv: "confined s' s' pr ?p c (program p) stk" using C(1) unfolding e s1 by simp
  have "accounted s' s' ?p" by (simp add: accounted_def)
  from user_run_accounted [OF run(2) [unfolded s1] run(3) inv this] obtain p2
    where R: "confined s' s2 pr p2 c (program p) stk" "accounted s' s2 p2" "run_frame s' s2" by blast
  note I = R(1) [unfolded confined_def]
  have ok2: "process_ok s2 pr p2 c" using I by simp
  then have pr2: "procs s2 pr = Some p2" by (simp add: process_ok_def)
  note core = run_frame_core [OF R(3) pr1(1) pr2]
  have p2: "program p2 = program p" "stack p2 = stk" "pid p2 = word_of_int (int k)" "task_of p2 = task"
    "filetype p2 = PROCESS_FILETYPE_BINARY"
    using load(2) by (subst core, simp add: binary_loaded_def)+
  have tb: "task_blocks s' task = task # chunk_blocks (ram (mem s')) c" by (simp add: task_blocks_def L(4) new_task_def)
  have prog: "program p \<in> dom (kowned (mem s))" using load(2) by (auto simp: binary_loaded_def)
  have fresh: "set (task_blocks s' task) \<inter> dom (kowned (mem s)) = {}" using L(10,12) by (auto simp: tb)
  have np: "program p \<notin> set (concat (map (task_blocks s') (ps @ [task])))" using nprog fresh prog by (auto simp: L(14))
  obtain m2 where M: "sched_ok m2 s2 (ps @ [task])" "owns_memory s2 p2 (ps @ [task])"
    "map (task_blocks s2) (ps @ [task]) = map (task_blocks s') (ps @ [task])"
    by (rule run_owns_memory [where ?p = ?p and ?s0.0 = s and ?s1.0 = s' and c = c, OF L(3,4)])
      (use prog np L(6,7) R p2 in \<open>simp_all add: new_task_def\<close>)
  have tb2: "task_blocks s2 task = task_blocks s' task" using M(3) by simp
  have "task \<notin> set ps" using L(3) by (simp add: sched_ok_def task_links_def)
  then have prev: "prev_right s2 (ps @ [task]) task"
    using L(4) R(3) before_split [of task ps "[]"] by (simp add: prev_right_def run_frame_def new_task_def)
  have "dom (kowned (mem s)) \<subseteq> dom (kowned (mem s'))" by (rule map_le_implies_dom_le [OF L(8)])
  moreover have "set (used_ptrs (allocations p2)) \<inter> dom (kowned (mem s')) = {}" using I by blast
  ultimately have gone: "kowned (mem s) q = None" if "q \<in> insert stk (set (used_ptrs (allocations p2)) \<union> set (task_blocks s' task))" for q
    using that L(6) fresh by blast
  have same: "kowned (mem s2) q = kowned (mem s) q" if "q \<notin> insert stk (set (used_ptrs (allocations p2)) \<union> set (task_blocks s' task))" for q
    using that R(2) L(11) by (auto simp: accounted_def)
  have "ram (mem s2) (q + of_nat i) = ram (mem s) (q + of_nat i)" if q: "kowned (mem s) q = Some n" "q \<noteq> program p" "i < 4096 * n" for q n i
  proof -
    have "kowned (mem s') q = Some n" using q(1) L(8) by (metis domI map_le_def)
    moreover have "q \<notin> {program p, stk} \<union> set (chunk_blocks (ram (mem s')) c)" using q L(6,10) by auto
    ultimately have "ram (mem s2) (q + of_nat i) = ram (mem s') (q + of_nat i)"
      using I q(3) unfolding runs_kept_but_def by blast
    also have "\<dots> = ram (mem s) (q + of_nat i)" using L(9) q unfolding runs_kept_def by blast
    finally show ?thesis .
  qed
  moreover have "null_free_safe (mem s2)" using I by simp
  moreover have "processes s2 = (processes s)[k := pr]" using R(3) L(2) by (simp add: run_frame_def)
  ultimately show thesis
    using gone same by (intro that [OF ok2 p2(1,3-5) M(1,2) prev]) (simp_all add: p2(2) tb2)
qed

text \<open>From loading to the end, for a program that is in the heap already.\<close>

lemma load_task_life:
  assumes load: "sched_ok m0 s ps" "binary_loaded s pr p"
    "\<exists>i. free_at (tbl (kernel_heap (mem s))) i 4" "1031 \<le> kroom (mem s)"
    "strncpy (filename p) 0 fname (int HARDIKHYPERIONOS_MAX_PATH) = Some name" "k < length (processes s)"
    and prog: "program p \<notin> set (concat (map (task_blocks s) ps))" and safe: "null_free_safe (mem s)"
    and slot: "length (processes s) \<le> 2 ^ 16" "processes s ! k = 0" "j < length (processes s)" "processes s ! j \<noteq> 0"
    and run: "load_task fname pr (int k) s = Some (res, out, s1)" "user_run pr s1 tr s2" "list_all served tr"
  obtains s' m1 where "process_terminate pr s2 = Some (0, s')" "kowned (mem s') = (kowned (mem s))(program p := None)"
    "sched_ok m1 s' ps" "processes s' = processes s" "null_free_safe (mem s')"
    "\<And>q n i. kowned (mem s') q = Some n \<Longrightarrow> i < 4096 * n \<Longrightarrow> ram (mem s') (q + of_nat i) = ram (mem s) (q + of_nat i)"
proof -
  obtain p2 c task m2 where R: "process_ok s2 pr p2 c" "program p2 = program p" "pid p2 = word_of_int (int k)" "task_of p2 = task"
    "filetype p2 = PROCESS_FILETYPE_BINARY" "sched_ok m2 s2 (ps @ [task])" "owns_memory s2 p2 (ps @ [task])"
    "prev_right s2 (ps @ [task]) task" "processes s2 = (processes s)[k := pr]" "null_free_safe (mem s2)"
    "\<And>q. q \<in> insert (stack p2) (set (used_ptrs (allocations p2)) \<union> set (task_blocks s2 task)) \<Longrightarrow> kowned (mem s) q = None"
    "\<And>q. q \<notin> insert (stack p2) (set (used_ptrs (allocations p2)) \<union> set (task_blocks s2 task)) \<Longrightarrow> kowned (mem s2) q = kowned (mem s) q"
    "\<And>q n i. kowned (mem s) q = Some n \<Longrightarrow> q \<noteq> program p \<Longrightarrow> i < 4096 * n \<Longrightarrow>
       ram (mem s2) (q + of_nat i) = ram (mem s) (q + of_nat i)"
    by (rule loaded_run [OF load prog safe run]) (rule that, assumption+)
  have pid: "unat (pid p2) = k" using load(6) slot(1) by (simp add: R(3) unat_of_nat take_bit_nat_eq_self)
  have table: "(processes s2)[k := 0] = processes s" using slot(2) by (simp add: R(9) list_update_same_conv flip: slot(2))
  have "processes s ! j \<in> set (processes s)" using slot(3) by simp
  then have other: "current_process s2 \<noteq> pr \<or> (\<exists>q \<in> set ((processes s2)[unat (pid p2) := 0]). q \<noteq> 0)"
    unfolding pid table using slot(4) by blast
  have len: "unat (pid p2) < length (processes s2)" using pid load(6) R(9) by simp
  obtain s3 m3 where T: "process_terminate pr s2 = Some (0, s3)" "sched_ok m3 s3 (ps @ [])"
    "\<And>q. kowned (mem s3) q = (if q \<in> {program p2, stack p2} \<union> set (used_ptrs (allocations p2)) \<union> set (task_blocks s2 task) then None
       else kowned (mem s2) q)"
    "\<And>q n i. kowned (mem s3) q = Some n \<Longrightarrow> i < 4096 * n \<Longrightarrow> ram (mem s3) (q + of_nat i) = ram (mem s2) (q + of_nat i)"
    "processes s3 = (processes s2)[unat (pid p2) := 0]" "null_free_safe (mem s3)"
    by (rule process_terminate_ok [OF R(1,10,5), of m2 ps "[]", unfolded R(4), OF R(6,8,7) len other]) (rule that, assumption+)
  have own: "kowned (mem s3) = (kowned (mem s))(program p := None)"
  proof
    show "kowned (mem s3) q = ((kowned (mem s))(program p := None)) q" for q
      using R(11,12) [of q] by (auto simp: T(3) R(2))
  qed
  have "ram (mem s3) (q + of_nat i) = ram (mem s) (q + of_nat i)" if "kowned (mem s3) q = Some n" "i < 4096 * n" for q n i
    using T(4) [OF that] R(13) [of q n i] that by (auto simp: own split: if_splits)
  moreover have "processes s3 = processes s" by (simp add: T(5) pid table)
  ultimately show thesis using that [OF T(1) own] T(2,6) by simp
qed

end
