(* ===== verification/DiskLife.thy ===== *)
theory DiskLife
  imports DiskLoad ProcessEnd
begin

text \<open>
  The life of a program from the disk to its end: \<open>process_load_for_slot\<close>, what the program does with memory, and
  \<open>process_terminate\<close> (process.c), with the blocks counted.
\<close>

text \<open>The allocations determine how many blocks are free.\<close>

lemma kroom_owned:
  assumes "kheap_ok m" "kheap_ok m'" "null_free_safe m" "null_free_safe m'" "kowned m = kowned m'"
  shows "kroom m = kroom m'"
proof -
  have "tbl (kernel_heap m) = tbl (kernel_heap m')"
    using assms by (intro owned_tbl_inject) (simp_all add: kheap_ok_def kowned_def null_free_safe_def)
  then show ?thesis by (simp add: kroom_def)
qed

lemma free_and_safe:
  assumes "kheap_ok m" "kowned m p = Some n" "null_free_safe m"
  shows "null_free_safe (kfree m p)"
  using null_free_safe_frame(1) [of "kfree m p" m] kheap.release_law [OF assms(1,2)] assms(3) by simp



end
