(* ===== verification/KernelMain.thy ===== *)
theory KernelMain
  imports Idt
begin

text \<open>
  The start of the kernel, \<open>kernel_main\<close> of \<open>src/src/kernel.c\<close>, in the order of the C function: the
  segments, the heap, the file systems, interrupts, paging, commands and keyboards, then a test file is
  shown and two programs are loaded. Loading the segment, interrupt and page tables into the processor (assembly) is
  left out, except for the page directory. \<open>panic\<close> is the missing result.
\<close>

section \<open>The segments\<close>

definition HARDIKHYPERIONOS_TOTAL_GDT_SEGMENTS :: nat where "HARDIKHYPERIONOS_TOTAL_GDT_SEGMENTS = 6"

text \<open>\<open>tss\<close> is at the address \<open>tss_address\<close> and has 100 bytes.\<close>

definition gdt_segments :: "u32 \<Rightarrow> gdt_structured list" where
  "gdt_segments tss_address =
     [\<lparr>base = 0x00, limit = 0x00, seg_type = 0x00\<rparr>,
      \<lparr>base = 0x00, limit = 0xffffffff, seg_type = 0x9a\<rparr>,
      \<lparr>base = 0x00, limit = 0xffffffff, seg_type = 0x92\<rparr>,
      \<lparr>base = 0x00, limit = 0xffffffff, seg_type = 0xf8\<rparr>,
      \<lparr>base = 0x00, limit = 0xffffffff, seg_type = 0xf2\<rparr>,
      \<lparr>base = tss_address, limit = 100, seg_type = 0xE9\<rparr>]"

text \<open>The fields of the task state segment that are not zero.\<close>

record tss =
  esp0 :: u32
  ss0 :: u32

text \<open>The kernel with the segment table and the task state segment.\<close>

record machine =
  kern :: kernel
  gdt_real :: "u8 list list"
  tss_of :: tss

text \<open>
  What the start depends on: the addresses of the entry code, of \<open>tss\<close> and of the local variable
  \<open>argument\<close>, and the memory at the address of the heap table.
\<close>

record boot =
  entries_of :: entry_points
  tss_address :: u32
  argument_address :: u32
  table_memory :: "int \<Rightarrow> u8"

definition print_text :: "u8 list \<Rightarrow> kernel \<Rightarrow> kernel option" where
  "print_text str s = print_screen (str @ [0]) s"

definition newline :: "u8 list" where "newline = [10]"

section \<open>The devices\<close>

definition gdt_init :: "u32 \<Rightarrow> u8 list list option" where
  "gdt_init a = gdt_structured_to_gdt (replicate HARDIKHYPERIONOS_TOTAL_GDT_SEGMENTS (replicate 8 0x00)) (gdt_segments a) 0
     HARDIKHYPERIONOS_TOTAL_GDT_SEGMENTS"

definition on_file_layer :: "(file_state \<Rightarrow> file_state option) \<Rightarrow> kernel \<Rightarrow> kernel option" where
  "on_file_layer g s = do { f \<leftarrow> g (file_layer s); Some (s\<lparr>file_layer := f\<rparr>) }"

definition on_interrupts :: "(interrupt_state \<Rightarrow> interrupt_state option) \<Rightarrow> kernel \<Rightarrow> kernel option" where
  "on_interrupts g s = do { i \<leftarrow> g (interrupts s); Some (s\<lparr>interrupts := i\<rparr>) }"

definition start_heap :: "(int \<Rightarrow> u8) \<Rightarrow> kernel \<Rightarrow> kernel" where
  "start_heap tm s = on_mem (\<lambda>m. m\<lparr>kernel_heap := snd (kheap_init tm (kernel_heap m))\<rparr>) s"

definition start_paging :: "kernel \<Rightarrow> kernel" where
  "start_paging s =
     (let (chunk, m) = paging_new_4gb (mem s) (ucast (PAGING_IS_WRITEABLE OR PAGING_IS_PRESENT OR PAGING_ACCESS_FROM_ALL))
      in switch_page chunk ((set_mem m s)\<lparr>kernel_chunk := chunk\<rparr>))"

definition start_banner :: "kernel \<Rightarrow> kernel option" where
  "start_banner s =
     do { s1 \<leftarrow> print_text (ascii ''HardikHyperionOS v0.0.1'' @ newline @ newline) (s\<lparr>screen := terminal_initialize (screen s)\<rparr>);
          s2 \<leftarrow> print_text (ascii ''Testing the terminal:'' @ newline) s1;
          print_text (ascii ''Hello, World!'' @ newline @ ascii ''This is written in C!'' @ newline @ newline) s2 }"

text \<open>\<open>kernel_main\<close> up to \<open>keyboard_init\<close>.\<close>

definition kernel_start :: "(fs_ref \<Rightarrow> fs_ops) \<Rightarrow> boot \<Rightarrow> kernel \<Rightarrow> machine option" where
  "kernel_start ops b s =
     do { s1 \<leftarrow> start_banner s;
          g \<leftarrow> gdt_init (tss_address b);
          let s2 = start_heap (table_memory b) s1;
          s3 \<leftarrow> on_file_layer fs_init s2;
          s4 \<leftarrow> on_file_layer (disk_search_and_init ops) s3;
          s5 \<leftarrow> on_interrupts (idt_init (entries_of b)) s4;
          let s6 = start_paging s5;
          s7 \<leftarrow> on_interrupts isr80h_register_commands s6;
          s8 \<leftarrow> keyboard_interrupt_init s7;
          Some \<lparr>kern = s8, gdt_real = g, tss_of = \<lparr>esp0 = 0x600000, ss0 = KERNEL_DATA_SELECTOR\<rparr>\<rparr> }"

section \<open>The programs\<close>

text \<open>The file is not closed.\<close>

definition show_file :: "(fs_ref \<Rightarrow> fs_ops) \<Rightarrow> (nat \<Rightarrow> u8 list) \<Rightarrow> kernel \<Rightarrow> kernel option" where
  "show_file ops uninit s =
     do { s1 \<leftarrow> print_text (ascii ''Testing fopen and fread:'' @ newline) s;
          (fd, s2) \<leftarrow> on_files (\<lambda>f. fopen ops f (ascii ''0:/hello.txt'' @ [0]) (ascii ''r'' @ [0])) s1;
          s3 \<leftarrow> (if fd = 0 then Some s2
                 else do {
                   s3 \<leftarrow> print_text (ascii ''hello.txt opened successfully!'' @ newline) s2;
                   s4 \<leftarrow> print_text (ascii ''Displaying contents of hello.txt:'' @ newline) s3;
                   (buf, s5) \<leftarrow> on_files (\<lambda>f. do { (_, f', buf) \<leftarrow> fread ops f (uninit 36) 0 35 1 fd; Some (buf, f') }) s4;
                   buf \<leftarrow> arr_set buf 35 0x00;
                   print_screen buf s5 });
          print_text (newline @ newline) s3 }"

text \<open>\<open>argument\<close> with a text and no next one; the result of \<open>process_inject_arguments\<close> is not looked at.\<close>

definition put_argument :: "u32 \<Rightarrow> u8 list \<Rightarrow> kernel \<Rightarrow> kernel" where
  "put_argument a text s = set_ram (store32 (ram_write (ram (mem s)) a (text @ [0])) (a + of_nat sizeof_argument) 0x00) s"

definition load_with_argument :: "(fs_ref \<Rightarrow> fs_ops) \<Rightarrow> u32 \<Rightarrow> u8 list \<Rightarrow> kernel \<Rightarrow> kernel option" where
  "load_with_argument ops a text s =
     do { (res, process, s1) \<leftarrow> process_load_switch ops (ascii ''0:/blank.elf'' @ [0]) s;
          if res \<noteq> ALL_OK then None
          else do { (_, s2) \<leftarrow> process_inject_arguments (process_address process) a (put_argument a text s1); Some s2 } }"

definition kernel_main :: "(fs_ref \<Rightarrow> fs_ops) \<Rightarrow> (nat \<Rightarrow> u8 list) \<Rightarrow> boot \<Rightarrow> kernel \<Rightarrow> (registers \<times> machine) option" where
  "kernel_main ops uninit b s =
     do { m \<leftarrow> kernel_start ops b s;
          s1 \<leftarrow> show_file ops uninit (kern m);
          s2 \<leftarrow> load_with_argument ops (argument_address b) (ascii ''Testing!'') s1;
          s3 \<leftarrow> load_with_argument ops (argument_address b) (ascii ''Abc!'') s2;
          (regs, s4) \<leftarrow> task_run_first_ever_task s3;
          Some (regs, m\<lparr>kern := s4\<rparr>) }"

end
