(* ===== verification/KernelTypes.thy ===== *)
theory KernelTypes
  imports KernelMain
begin

text \<open>
  The types of the kernel's tables, as an invariant. C gives every table a fixed length and trusts
  the pointers and numbers stored in them; \<open>well_typed\<close> says that the tables have their lengths and that what is
  stored in them is usable: an open descriptor is in its own slot, a process in the table, the current process and
  the process of a task are objects that exist, with tables and keyboard buffers of full size and a process number that is an
  index of the table. Every function that changes the state keeps it, for every result, errors included.
\<close>

section \<open>Well-typed states\<close>

definition process_typed :: "process \<Rightarrow> bool" where
  "process_typed p \<longleftrightarrow> length (filename p) = HARDIKHYPERIONOS_MAX_PATH \<and>
     length (allocations p) = HARDIKHYPERIONOS_MAX_PROGRAM_ALLOCATIONS \<and>
     length (buffer (keys p)) = HARDIKHYPERIONOS_KEYBOARD_BUFFER_SIZE \<and>
     unat (pid p) < HARDIKHYPERIONOS_MAX_PROCESSES"

definition interrupts_typed :: "interrupt_state \<Rightarrow> bool" where
  "interrupts_typed i \<longleftrightarrow> length (idt_descriptors i) = HARDIKHYPERIONOS_TOTAL_INTERRUPTS \<and>
     length (interrupt_callbacks i) = HARDIKHYPERIONOS_TOTAL_INTERRUPTS \<and>
     length (isr80h_commands i) = HARDIKHYPERIONOS_MAX_ISR80H_COMMANDS"

definition files_typed :: "file_state \<Rightarrow> bool" where
  "files_typed f \<longleftrightarrow> length (filesystems f) = HARDIKHYPERIONOS_MAX_FILESYSTEMS \<and>
     length (file_descriptors f) = HARDIKHYPERIONOS_MAX_FILE_DESCRIPTORS \<and>
     (\<forall>i d. i < HARDIKHYPERIONOS_MAX_FILE_DESCRIPTORS \<longrightarrow> file_descriptors f ! i = Some d \<longrightarrow> index d = int i + 1)"

definition tables_typed :: "(u32 \<rightharpoonup> process) \<Rightarrow> u32 list \<Rightarrow> u32 \<Rightarrow> (u32 \<rightharpoonup> task) \<Rightarrow> bool" where
  "tables_typed pr ps cp ts \<longleftrightarrow> length ps = HARDIKHYPERIONOS_MAX_PROCESSES \<and>
     (\<forall>p \<in> set ps. p \<noteq> 0 \<longrightarrow> p \<in> dom pr) \<and> (cp \<noteq> 0 \<longrightarrow> cp \<in> dom pr) \<and>
     (\<forall>t \<in> ran ts. process_of t \<in> dom pr) \<and> (\<forall>p \<in> ran pr. process_typed p)"

definition well_typed :: "kernel \<Rightarrow> bool" where
  "well_typed s \<longleftrightarrow> interrupts_typed (interrupts s) \<and> files_typed (file_layer s) \<and> keyboards s \<noteq> [] \<and>
     tables_typed (procs s) (processes s) (current_process s) (tasks s)"

section \<open>Updates that keep it\<close>

lemma files_typed_heap [simp]: "files_typed (f\<lparr>fsys := x\<rparr>) = files_typed f" "files_typed (on_heap g f) = files_typed f"
  by (simp_all add: files_typed_def on_heap_def)

lemma well_typed_mem [simp]: "well_typed (set_mem m s) = well_typed s" "well_typed (set_ram r s) = well_typed s"
  "well_typed (on_mem g s) = well_typed s"
  by (simp_all add: well_typed_def set_ram_def on_mem_def) (simp_all add: set_mem_def)

lemma well_typed_other [simp]:
  "well_typed (s\<lparr>cpu := c\<rparr>) = well_typed s" "well_typed (s\<lparr>data_selector := d\<rparr>) = well_typed s"
  "well_typed (s\<lparr>kernel_chunk := d\<rparr>) = well_typed s" "well_typed (s\<lparr>current_task := d\<rparr>) = well_typed s"
  "well_typed (s\<lparr>task_head := d\<rparr>) = well_typed s" "well_typed (s\<lparr>task_tail := d\<rparr>) = well_typed s"
  "well_typed (s\<lparr>elf_files := e\<rparr>) = well_typed s" "well_typed (s\<lparr>screen := sc\<rparr>) = well_typed s"
  by (simp_all add: well_typed_def)

lemma well_typed_pages [simp]:
  "well_typed (switch_page c s) = well_typed s" "well_typed (kernel_page s) = well_typed s"
  "well_typed (user_registers s) = well_typed s" "well_typed (kernel_registers s) = well_typed s"
  by (simp_all add: switch_page_def kernel_page_def user_registers_def kernel_registers_def)

lemma well_typed_put_task:
  "well_typed s \<Longrightarrow> process_of t \<in> dom (procs s) \<Longrightarrow> well_typed (s\<lparr>tasks := (tasks s)(p \<mapsto> t)\<rparr>)"
  by (auto simp: well_typed_def tables_typed_def ran_def)

lemma well_typed_drop_task: "well_typed s \<Longrightarrow> well_typed (s\<lparr>tasks := (tasks s)(p := None)\<rparr>)"
  by (auto simp: well_typed_def tables_typed_def ran_def)

lemma well_typed_put_process:
  "well_typed s \<Longrightarrow> process_typed q \<Longrightarrow> well_typed (s\<lparr>procs := (procs s)(p \<mapsto> q)\<rparr>)"
  by (auto simp: well_typed_def tables_typed_def ran_def)

lemma well_typed_task: "well_typed s \<Longrightarrow> tasks s p = Some t \<Longrightarrow> process_of t \<in> dom (procs s)"
  by (auto simp: well_typed_def tables_typed_def ran_def)

lemma well_typed_process: "well_typed s \<Longrightarrow> procs s p = Some q \<Longrightarrow> process_typed q"
  by (auto simp: well_typed_def tables_typed_def ran_def)

lemma put_task_typed:
  "put_task p f s = Some s' \<Longrightarrow> well_typed s \<Longrightarrow> (\<And>t. process_of (f t) = process_of t) \<Longrightarrow> well_typed s' \<and> procs s' = procs s"
  by (auto simp: put_task_def intro!: well_typed_put_task dest: well_typed_task split: bind_splits)

lemma put_process_typed:
  "put_process p f s = Some s' \<Longrightarrow> well_typed s \<Longrightarrow> (\<And>q. process_typed q \<Longrightarrow> process_typed (f q)) \<Longrightarrow>
   well_typed s' \<and> dom (procs s') = dom (procs s)"
  by (auto simp: put_process_def intro!: well_typed_put_process dest: well_typed_process split: bind_splits if_splits)

text \<open>
  What the functions below keep: being well-typed, and the objects of processes, which are
  never released.
\<close>

definition kept :: "kernel \<Rightarrow> kernel \<Rightarrow> bool" where
  "kept s s' \<longleftrightarrow> (well_typed s \<longrightarrow> well_typed s') \<and> dom (procs s) \<subseteq> dom (procs s')"

lemma kept_refl [simp]: "kept s s" by (simp add: kept_def)
lemma kept_trans [trans]: "kept s s' \<Longrightarrow> kept s' s'' \<Longrightarrow> kept s s''" by (auto simp: kept_def)

lemma kept_mem [simp]: "kept s (set_mem m s')= kept s s'" "kept s (set_ram r s') = kept s s'" "kept s (on_mem g s') = kept s s'"
  "kept (set_mem m s) s'= kept s s'" "kept (set_ram r s) s' = kept s s'" "kept (on_mem g s) s' = kept s s'"
  by (simp_all add: kept_def set_ram_def on_mem_def)

lemma kept_other [simp]:
  "kept s (s'\<lparr>cpu := c\<rparr>) = kept s s'" "kept s (s'\<lparr>data_selector := d\<rparr>) = kept s s'"
  "kept s (s'\<lparr>kernel_chunk := d\<rparr>) = kept s s'" "kept s (s'\<lparr>current_task := d\<rparr>) = kept s s'"
  "kept s (s'\<lparr>task_head := d\<rparr>) = kept s s'" "kept s (s'\<lparr>task_tail := d\<rparr>) = kept s s'"
  "kept s (s'\<lparr>elf_files := e\<rparr>) = kept s s'" "kept s (s'\<lparr>screen := sc\<rparr>) = kept s s'"
  "kept s (switch_page pg s') = kept s s'" "kept s (kernel_page s') = kept s s'"
  "kept s (user_registers s') = kept s s'" "kept s (kernel_registers s') = kept s s'"
  by (simp_all add: kept_def switch_page_def kernel_page_def user_registers_def kernel_registers_def)

lemma kept_other_left [simp]:
  "kept (s\<lparr>cpu := c\<rparr>) s' = kept s s'" "kept (s\<lparr>data_selector := d\<rparr>) s' = kept s s'"
  "kept (s\<lparr>kernel_chunk := d\<rparr>) s' = kept s s'" "kept (s\<lparr>current_task := d\<rparr>) s' = kept s s'"
  "kept (s\<lparr>task_head := d\<rparr>) s' = kept s s'" "kept (s\<lparr>task_tail := d\<rparr>) s' = kept s s'"
  "kept (s\<lparr>elf_files := e\<rparr>) s' = kept s s'" "kept (s\<lparr>screen := sc\<rparr>) s' = kept s s'"
  "kept (switch_page pg s) s' = kept s s'" "kept (kernel_page s) s' = kept s s'"
  "kept (user_registers s) s' = kept s s'" "kept (kernel_registers s) s' = kept s s'"
  by (simp_all add: kept_def switch_page_def kernel_page_def user_registers_def kernel_registers_def)

lemma kept_put_task: "put_task p f s = Some s' \<Longrightarrow> (\<And>t. process_of (f t) = process_of t) \<Longrightarrow> kept s s'"
  using put_task_typed [of p f s s'] by (auto simp: kept_def put_task_def split: bind_splits)

lemma kept_put_process: "put_process p f s = Some s' \<Longrightarrow> (\<And>q. process_typed q \<Longrightarrow> process_typed (f q)) \<Longrightarrow> kept s s'"
  using put_process_typed [of p f s s'] by (auto simp: kept_def put_process_def split: bind_splits)


section \<open>Tasks\<close>

lemma kept_free_task: "kept s (s\<lparr>tasks := (tasks s)(p := None)\<rparr>)"
  by (auto simp: kept_def intro: well_typed_drop_task)

lemma task_list_remove_kept: "task_list_remove p s = Some s' \<Longrightarrow> kept s s'"
  by (auto simp: task_list_remove_def Let_def dest!: kept_put_task split: bind_splits if_splits)

lemma task_free_kept: "task_free p s = Some s' \<Longrightarrow> kept s s'"
  using kept_free_task
  by (auto simp: task_free_def dest!: task_list_remove_kept intro: kept_trans split: bind_splits)

lemma task_switch_kept: "task_switch p s = Some s' \<Longrightarrow> kept s s'"
  by (auto simp: task_switch_def split: bind_splits)

lemma task_next_kept: "task_next s = Some (regs, s') \<Longrightarrow> kept s s'"
  by (auto simp: task_next_def dest!: task_switch_kept split: bind_splits if_splits)

lemma task_save_kept: "task_current_save_state frame s = Some s' \<Longrightarrow> kept s s'"
  by (auto simp: task_current_save_state_def task_save_state_def dest!: kept_put_task split: if_splits)

lemma task_page_kept: "task_page s = Some s' \<Longrightarrow> kept s s'"
  by (auto simp: task_page_def dest!: task_switch_kept)

lemma task_page_task_kept: "task_page_task p s = Some s' \<Longrightarrow> kept s s'"
  by (auto simp: task_page_task_def split: bind_splits)

lemma task_get_stack_item_kept: "task_get_stack_item p i s = Some (v, s') \<Longrightarrow> kept s s'"
  by (auto simp: task_get_stack_item_def dest!: task_page_task_kept split: bind_splits)

lemma copy_string_kept: "copy_string_from_task p v out n s = Some (res, out', s') \<Longrightarrow> kept s s'"
  by (auto simp: copy_string_from_task_def Let_def split: bind_splits if_splits prod.splits)

text \<open>While \<open>task_new\<close> builds a task, its object is there with no process; when it returns, the task has its process or is gone.\<close>

definition typed_but :: "u32 \<Rightarrow> kernel \<Rightarrow> bool" where
  "typed_but p s \<longleftrightarrow> well_typed (s\<lparr>tasks := (tasks s)(p := None)\<rparr>)"


lemma typed_but_mem [simp]: "typed_but p (set_mem m s) = typed_but p s" "typed_but p (on_mem g s) = typed_but p s"
  "typed_but p (s\<lparr>task_head := d\<rparr>) = typed_but p s" "typed_but p (s\<lparr>task_tail := d\<rparr>) = typed_but p s"
  "typed_but p (s\<lparr>current_task := d\<rparr>) = typed_but p s"
  by (simp_all add: typed_but_def well_typed_def on_mem_def) (simp_all add: set_mem_def)

lemma typed_but_new: "well_typed s \<Longrightarrow> typed_but p (s\<lparr>tasks := (tasks s)(p \<mapsto> t)\<rparr>)"
  using well_typed_drop_task [of s p] by (simp add: typed_but_def)

lemma typed_but_self:
  "put_task p f s = Some s' \<Longrightarrow> typed_but p s \<Longrightarrow> typed_but p s' \<and> procs s' = procs s \<and> (\<exists>t. tasks s' p = Some (f t))"
  by (auto simp: put_task_def typed_but_def split: bind_splits)

lemma typed_but_put:
  "put_task q f s = Some s' \<Longrightarrow> typed_but p s \<Longrightarrow> (\<And>t. process_of (f t) = process_of t) \<Longrightarrow> typed_but p s' \<and> procs s' = procs s"
proof (cases "q = p")
  case False
  assume put: "put_task q f s = Some s'" and b: "typed_but p s" and same: "\<And>t. process_of (f t) = process_of t"
  let ?u = "s\<lparr>tasks := (tasks s)(p := None)\<rparr>"
  from put obtain t where t: "tasks s q = Some t" "s' = s\<lparr>tasks := (tasks s)(q \<mapsto> f t)\<rparr>"
    by (auto simp: put_task_def split: bind_splits)
  have u: "well_typed ?u" "tasks ?u q = Some t" using b False t(1) by (simp_all add: typed_but_def)
  from well_typed_put_task [OF u(1), of "f t" q] well_typed_task [OF u]
  show ?thesis using False same by (simp add: typed_but_def t(2) fun_upd_twist)
qed (use typed_but_self in blast)

lemma typed_but_done: "typed_but p s \<Longrightarrow> tasks s p = Some t \<Longrightarrow> process_of t \<in> dom (procs s) \<Longrightarrow> well_typed s"
  using well_typed_put_task [of "s\<lparr>tasks := (tasks s)(p := None)\<rparr>" t p] by (simp add: typed_but_def fun_upd_idem)

lemma task_free_typed_but: "task_free p s = Some s' \<Longrightarrow> typed_but p s \<Longrightarrow> well_typed s' \<and> procs s' = procs s"
proof -
  assume f: "task_free p s = Some s'" and b: "typed_but p s"
  have "typed_but p s'' \<and> procs s'' = procs u"
    if "task_list_remove q u = Some s''" "typed_but p u" for q u s''
    using that by (auto simp: task_list_remove_def Let_def dest!: typed_but_put split: bind_splits if_splits)
  with f b show ?thesis by (fastforce simp: task_free_def typed_but_def on_mem_def split: bind_splits)
qed

lemma task_init_typed:
  assumes "task_init p pr s = Some (res, s')" "typed_but p s"
  shows "typed_but p s' \<and> procs s' = procs s \<and> (res \<noteq> 0 \<longrightarrow> IS_ERR res) \<and>
    (res = 0 \<longrightarrow> (\<exists>t. tasks s' p = Some t \<and> process_of t = pr) \<and> pr \<in> dom (procs s))"
  using assms
  by (fastforce simp: task_init_def Let_def IS_ERR_def EIO_def dest!: typed_but_self split: bind_splits if_splits prod.splits)

lemma task_init_procs: "task_init p pr s = Some (res, s') \<Longrightarrow> procs s' = procs s \<and> (res = 0 \<or> IS_ERR res)"
  by (fastforce simp: task_init_def put_task_def Let_def IS_ERR_def EIO_def split: bind_splits if_splits prod.splits)

lemma task_free_procs: "task_free p s = Some s' \<Longrightarrow> procs s' = procs s"
  by (auto simp: task_free_def task_list_remove_def put_task_def Let_def on_mem_def split: bind_splits if_splits)

lemma put_task_procs: "put_task p f s = Some s' \<Longrightarrow> procs s' = procs s"
  by (auto simp: put_task_def split: bind_splits)

text \<open>The cases of \<open>task_new\<close> after a successful allocation.\<close>

lemma task_new_cases:
  assumes "task_new process s = Some (p, s')"
  obtains (no_memory) m where "task_free 0 (set_mem m s) = Some s'"
    | (failed) m q res s2 where "task_init q process ((set_mem m s)\<lparr>tasks := (tasks s)(q \<mapsto> zero_task)\<rparr>) = Some (res, s2)"
        "IS_ERR res" "task_free q s2 = Some s'"
    | (first) m q s2 where "task_init q process ((set_mem m s)\<lparr>tasks := (tasks s)(q \<mapsto> zero_task)\<rparr>) = Some (0, s2)"
        "s' = s2\<lparr>task_head := q, task_tail := q, current_task := q\<rparr>"
    | (other) m q s2 s3 s4 l where "task_init q process ((set_mem m s)\<lparr>tasks := (tasks s)(q \<mapsto> zero_task)\<rparr>) = Some (0, s2)"
        "put_task (task_tail s2) (\<lambda>t. t\<lparr>next_of := q\<rparr>) s2 = Some s3" "put_task q (\<lambda>t. t\<lparr>prev_of := l\<rparr>) s3 = Some s4"
        "s' = s4\<lparr>task_tail := q\<rparr>"
proof -
  obtain q m where k: "kzalloc (mem s) sizeof_task = (q, m)" by fastforce
  show thesis
  proof (cases "q = 0")
    case True
    with assms k show ?thesis by (auto simp: task_new_def IS_ERR_def ENOMEM_def split: bind_splits intro: no_memory)
  next
    case False
    with assms k obtain res s2 where i: "task_init q process ((set_mem m s)\<lparr>tasks := (tasks s)(q \<mapsto> zero_task)\<rparr>) = Some (res, s2)"
      by (auto simp: task_new_def split: bind_splits)
    show ?thesis
    proof (cases "res = 0")
      case False
      with task_init_procs [OF i] assms k i \<open>q \<noteq> 0\<close> show ?thesis
        by (auto simp: task_new_def ALL_OK_def split: bind_splits intro: failed)
    next
      case True
      with assms k i False show ?thesis
        by (auto simp: task_new_def ALL_OK_def IS_ERR_def split: bind_splits if_splits intro: first other)
    qed
  qed
qed

lemma task_new_procs: "task_new process s = Some (p, s') \<Longrightarrow> procs s' = procs s"
  by (erule task_new_cases) (auto dest!: task_init_procs put_task_procs task_free_procs)

lemma task_new_typed: "task_new process s = Some (p, s') \<Longrightarrow> well_typed s \<Longrightarrow> well_typed s'"
proof (erule task_new_cases)
  fix m assume "task_free 0 (set_mem m s) = Some s'" "well_typed s"
  then show "well_typed s'" by (auto dest: task_free_kept simp: kept_def)
next
  fix m q res s2 assume wt: "well_typed s" and
    i: "task_init q process ((set_mem m s)\<lparr>tasks := (tasks s)(q \<mapsto> zero_task)\<rparr>) = Some (res, s2)" and f: "task_free q s2 = Some s'"
  have "typed_but q ((set_mem m s)\<lparr>tasks := (tasks s)(q \<mapsto> zero_task)\<rparr>)" using typed_but_new [of "set_mem m s" q] wt by simp
  with task_init_typed [OF i] task_free_typed_but [OF f] show "well_typed s'" by blast
next
  fix m q s2 assume wt: "well_typed s" and
    i: "task_init q process ((set_mem m s)\<lparr>tasks := (tasks s)(q \<mapsto> zero_task)\<rparr>) = Some (0, s2)"
    and s': "s' = s2\<lparr>task_head := q, task_tail := q, current_task := q\<rparr>"
  have "typed_but q ((set_mem m s)\<lparr>tasks := (tasks s)(q \<mapsto> zero_task)\<rparr>)" using typed_but_new [of "set_mem m s" q] wt by simp
  with task_init_typed [OF i] typed_but_done [of q s2] show "well_typed s'" by (auto simp: s')
next
  fix m q s2 s3 s4 l assume wt: "well_typed s" and
    i: "task_init q process ((set_mem m s)\<lparr>tasks := (tasks s)(q \<mapsto> zero_task)\<rparr>) = Some (0, s2)" and
    put: "put_task (task_tail s2) (\<lambda>t. t\<lparr>next_of := q\<rparr>) s2 = Some s3" "put_task q (\<lambda>t. t\<lparr>prev_of := l\<rparr>) s3 = Some s4" and
    s': "s' = s4\<lparr>task_tail := q\<rparr>"
  have "typed_but q ((set_mem m s)\<lparr>tasks := (tasks s)(q \<mapsto> zero_task)\<rparr>)" using typed_but_new [of "set_mem m s" q] wt by simp
  with task_init_typed [OF i] typed_but_done [of q s2] have "well_typed s2" by auto
  with put_task_typed [OF put(1)] put_task_typed [OF put(2)] show "well_typed s'" by (simp add: s')
qed

lemma task_new_kept: "task_new process s = Some (p, s') \<Longrightarrow> kept s s'"
  using task_new_typed task_new_procs by (auto simp: kept_def)


section \<open>Files\<close>

lemma first_null_bound: "first_null xs = Some i \<Longrightarrow> i < length xs \<and> xs ! i = None"
  by (induction xs arbitrary: i) (auto split: if_splits)

lemma files_typed_drop: "files_typed f \<Longrightarrow> files_typed (f\<lparr>file_descriptors := (file_descriptors f)[i := None]\<rparr>)"
  by (cases "i < length (file_descriptors f)") (auto simp: files_typed_def nth_list_update split: if_splits)

lemma files_typed_put:
  "files_typed f \<Longrightarrow> index d = int i + 1 \<Longrightarrow> files_typed (f\<lparr>file_descriptors := (file_descriptors f)[i := Some d]\<rparr>)"
  by (cases "i < length (file_descriptors f)") (auto simp: files_typed_def nth_list_update split: if_splits)

lemma file_free_typed: "file_free_descriptor f d = Some f' \<Longrightarrow> files_typed f \<Longrightarrow> files_typed f'"
  by (auto simp: file_free_descriptor_def arr_set_def intro: files_typed_drop split: bind_splits if_splits)

lemma file_new_typed:
  "file_new_descriptor f = Some (res, desc, f') \<Longrightarrow> files_typed f \<Longrightarrow>
   files_typed f' \<and> (\<forall>d. desc = Some d \<longrightarrow> index d > 0)"
  using files_typed_put [of "f\<lparr>fsys := x\<rparr>" for x]
  by (auto simp: file_new_descriptor_def Let_def split: option.splits prod.splits if_splits)

lemma fopen_typed: "fopen ops f name mode = Some (fd, f') \<Longrightarrow> files_typed f \<Longrightarrow> files_typed f'"
proof -
  have "fopen_res ops f name mode = Some (res, f') \<Longrightarrow> files_typed f \<Longrightarrow> files_typed f'" for res f'
    by (auto simp: fopen_res_def Let_def dest!: file_new_typed intro!: files_typed_put split: bind_splits option.splits if_splits)
  then show "fopen ops f name mode = Some (fd, f') \<Longrightarrow> files_typed f \<Longrightarrow> files_typed f'"
    by (auto simp: fopen_def split: bind_splits)
qed

lemma fread_typed: "fread ops f out d sz n fd = Some (res, f', out') \<Longrightarrow> files_typed f' = files_typed f"
  by (auto simp: fread_def split: bind_splits option.splits if_splits)

lemma fclose_typed: "fclose ops f fd = Some (res, f') \<Longrightarrow> files_typed f \<Longrightarrow> files_typed f'"
  by (auto simp: fclose_def dest!: file_free_typed split: bind_splits option.splits if_splits)

lemma on_files_kept:
  "on_files g s = Some (r, s') \<Longrightarrow> (\<And>f r f'. g f = Some (r, f') \<Longrightarrow> files_typed f \<Longrightarrow> files_typed f') \<Longrightarrow> kept s s'"
  by (auto simp: on_files_def kept_def well_typed_def split: bind_splits)

lemma fopen_kept: "on_files (\<lambda>f. fopen ops f name mode) s = Some (fd, s') \<Longrightarrow> kept s s'"
  by (erule on_files_kept) (rule fopen_typed)

lemma fclose_kept: "on_files (\<lambda>f. fclose ops f fd) s = Some (res, s') \<Longrightarrow> kept s s'"
  by (erule on_files_kept) (rule fclose_typed)

lemma fread_block_kept: "fread_block ops p sz fd s = Some (res, s') \<Longrightarrow> kept s s'"
  by (auto simp: fread_block_def dest!: fread_typed elim!: on_files_kept split: bind_splits)

section \<open>Executables\<close>

lemma put_elf_file_kept: "put_elf_file p f s = Some s' \<Longrightarrow> kept s s'"
  by (auto simp: put_elf_file_def split: bind_splits)

lemma elf_load_file_kept: "elf_load_file ops e fd s = Some (res, out, s') \<Longrightarrow> kept s s'"
  by (auto simp: elf_load_file_def Let_def dest!: put_elf_file_kept fread_block_kept intro: kept_trans split: bind_splits if_splits prod.splits)

lemma elf_load_kept: "elf_load ops name s = Some (res, out, s') \<Longrightarrow> kept s s'"
  by (auto simp: elf_load_def Let_def dest!: fopen_kept fclose_kept elf_load_file_kept intro: kept_trans split: bind_splits if_splits prod.splits)

lemma elf_close_kept: "elf_close p s = Some s' \<Longrightarrow> kept s s'"
  by (auto simp: elf_close_def split: bind_splits if_splits)


section \<open>Processes\<close>

lemma process_map_to_kept: "process_map_to p v f e fl s = Some (res, s') \<Longrightarrow> kept s s'"
  by (auto simp: process_map_to_def split: bind_splits prod.splits)

lemma put_allocations_kept:
  "put_process p (\<lambda>p. p\<lparr>allocations := (allocations p)[i := a]\<rparr>) s = Some s' \<Longrightarrow> kept s s'"
  "put_process p (process_allocation_unjoin q) s = Some s' \<Longrightarrow> kept s s'"
  "put_process p (\<lambda>p. p\<lparr>argc := n, argv := v\<rparr>) s = Some s' \<Longrightarrow> kept s s'"
  "put_process p (\<lambda>p. p\<lparr>task_of := t\<rparr>) s = Some s' \<Longrightarrow> kept s s'"
  "put_process p (\<lambda>p. p\<lparr>filetype := ft, program := pp, program_size := sz\<rparr>) s = Some s' \<Longrightarrow> kept s s'"
  "put_process p (\<lambda>p. p\<lparr>filetype := ft, program := pp\<rparr>) s = Some s' \<Longrightarrow> kept s s'"
  by (erule kept_put_process, simp add: process_typed_def process_allocation_unjoin_def)+

lemma process_malloc_kept: "process_malloc p sz s = Some (q, s') \<Longrightarrow> kept s s'"
  by (auto simp: process_malloc_def Let_def dest!: process_map_to_kept put_allocations_kept
      split: bind_splits if_splits prod.splits; meson kept_trans)

lemma process_free_kept: "process_free p q s = Some s' \<Longrightarrow> kept s s'"
  by (auto simp: process_free_def dest!: process_map_to_kept put_allocations_kept
      split: bind_splits option.splits if_splits; meson kept_trans)

lemma terminate_allocations_kept: "terminate_allocations_loop p i n s = Some s' \<Longrightarrow> kept s s'"
proof (induction p i n s rule: terminate_allocations_loop.induct)
  case (2 process i n s)
  from 2(2) obtain q a s1 where "procs s process = Some q" "arr_get (allocations q) (int i) = Some a"
    "process_free process (alloc_ptr a) s = Some s1" "terminate_allocations_loop process (Suc i) n s1 = Some s'"
    by (auto split: bind_splits)
  with 2(1) show ?case by (meson process_free_kept kept_trans)
qed simp

lemma process_free_program_data_kept: "process_free_program_data p s = Some (res, s') \<Longrightarrow> kept s s'"
  by (auto simp: process_free_program_data_def process_free_binary_data_def process_free_elf_data_def
      dest!: elf_close_kept split: bind_splits if_splits)

lemma switch_to_any_cases:
  "process_switch_to_any s = Some s' \<Longrightarrow> \<exists>q \<in> set (processes s). q \<noteq> 0 \<and> s' = s\<lparr>current_process := q\<rparr>"
proof -
  assume a: "process_switch_to_any s = Some s'"
  then obtain q qs where q: "filter (\<lambda>p. p \<noteq> 0) (processes s) = q # qs" "s' = s\<lparr>current_process := q\<rparr>"
    by (auto simp: process_switch_to_any_def process_switch_def split: list.splits)
  have "q \<in> set (filter (\<lambda>p. p \<noteq> 0) (processes s))" by (simp add: q(1))
  with q(2) show ?thesis by auto
qed

lemma tables_typed_unlink:
  assumes "tables_typed pr ps cp ts" "length ps' = length ps" "set ps' \<subseteq> insert 0 (set ps)" "cp' \<in> insert cp (set ps')"
  shows "tables_typed pr ps' cp' ts"
  unfolding tables_typed_def
proof (intro conjI)
  show "\<forall>p\<in>set ps'. p \<noteq> 0 \<longrightarrow> p \<in> dom pr" "cp' \<noteq> 0 \<longrightarrow> cp' \<in> dom pr"
    using assms unfolding tables_typed_def by blast+
qed (use assms in \<open>simp_all add: tables_typed_def\<close>)

lemma process_unlink_kept: "process_unlink p s = Some s' \<Longrightarrow> kept s s'"
proof -
  assume u: "process_unlink p s = Some s'"
  then obtain r where r: "procs s p = Some r" by (auto simp: process_unlink_def split: bind_splits)
  define i where "i = unat (pid r)"
  let ?s1 = "s\<lparr>processes := (processes s)[i := 0]\<rparr>"
  have "(if current_process s = p then process_switch_to_any ?s1 else Some ?s1) = Some s'"
    using u r by (simp add: process_unlink_def arr_set_def i_def Let_def split: if_splits)
  then have "s' = ?s1 \<or> (\<exists>q \<in> set ((processes s)[i := 0]). s' = ?s1\<lparr>current_process := q\<rparr>)"
    using switch_to_any_cases [of ?s1 s'] by (simp split: if_splits) blast+
  moreover have "tables_typed (procs s) ((processes s)[i := 0]) c (tasks s)"
    if "tables_typed (procs s) (processes s) (current_process s) (tasks s)" "c \<in> insert (current_process s) (set ((processes s)[i := 0]))" for c
    by (rule tables_typed_unlink [OF that(1) _ set_update_subset_insert that(2)]) simp
  ultimately show ?thesis by (auto simp: kept_def well_typed_def)
qed

lemma process_terminate_kept: "process_terminate p s = Some (res, s') \<Longrightarrow> kept s s'"
  by (auto simp: process_terminate_def process_terminate_allocations_def Let_def
      dest!: terminate_allocations_kept process_free_program_data_kept task_free_kept process_unlink_kept
      split: bind_splits if_splits; meson kept_trans)

lemma inject_loop_kept: "inject_loop p args c i s = Some (res, s') \<Longrightarrow> kept s s'"
proof (induction p args c i s "(res, s')" arbitrary: res s' rule: inject_loop.raw_induct [rotated, consumes 1, case_names 1])
  case (1 loop p args c i s)
  show ?case
  proof (cases "c = 0")
    case False
    with 1(2) obtain q s1 where m: "process_malloc p (of_nat sizeof_argument) s = Some (q, s1)" by (auto split: bind_splits)
    then have k: "kept s s1" by (rule process_malloc_kept)
    show ?thesis
    proof (cases "q = 0")
      case True
      with 1(2) False m k show ?thesis by simp
    next
      case q: False
      from 1(2) False m q obtain a c' where "loop p args c' (Suc i) (set_ram a s1) = Some (res, s')"
        by (auto simp: Let_def set_ram_def)
      with 1(1) have "kept (set_ram a s1) s'" by blast
      with k show ?thesis by (auto intro: kept_trans)
    qed
  qed (use 1(2) in simp)
qed

lemma process_inject_arguments_kept: "process_inject_arguments p root s = Some (res, s') \<Longrightarrow> kept s s'"
  by (auto simp: process_inject_arguments_def dest!: process_malloc_kept inject_loop_kept put_allocations_kept
        split: bind_splits if_splits; meson kept_trans)


section \<open>Loading a program\<close>

lemma load_binary_file_kept: "load_binary_file ops p fd s = Some (res, s') \<Longrightarrow> kept s s'"
  by (auto simp: load_binary_file_def Let_def dest!: fread_block_kept put_allocations_kept
      split: bind_splits if_splits prod.splits; meson kept_trans)

lemma process_load_binary_kept: "process_load_binary ops name p s = Some (res, s') \<Longrightarrow> kept s s'"
  by (auto simp: process_load_binary_def dest!: fopen_kept fclose_kept load_binary_file_kept
      split: bind_splits if_splits; meson kept_trans)

lemma process_load_data_kept: "process_load_data ops name p s = Some (res, s') \<Longrightarrow> kept s s'"
  by (auto simp: process_load_data_def process_load_elf_def dest!: elf_load_kept process_load_binary_kept put_allocations_kept
      split: bind_splits if_splits; meson kept_trans)

lemma map_elf_loop_kept: "map_elf_loop p e b r i n s = Some (res, s') \<Longrightarrow> kept s s'"
proof (induction p e b r i n s rule: map_elf_loop.induct)
  case (2 process elf_file phdr_base r i n s)
  then show ?case
    by (auto simp: Let_def dest!: process_map_to_kept split: bind_splits if_splits; meson kept_trans)
qed simp

lemma process_map_memory_kept: "process_map_memory p s = Some (res, s') \<Longrightarrow> kept s s'"
  by (auto simp: process_map_memory_def process_map_elf_def process_map_binary_def Let_def
      dest!: process_map_to_kept map_elf_loop_kept split: bind_splits if_splits; meson kept_trans)


lemma strncpy_loop_length: "strncpy_loop dest d src n = Some dest' \<Longrightarrow> length dest' = length dest"
  by (induction dest d src n rule: strncpy_loop.induct) (auto dest: arr_set_length split: bind_splits if_splits)

lemma put_loaded_kept:
  assumes "put_process p (\<lambda>p. p\<lparr>filename := name, stack := st, pid := word_of_int sl\<rparr>) s = Some s'"
    and "length name = HARDIKHYPERIONOS_MAX_PATH" "0 \<le> sl" "sl < int HARDIKHYPERIONOS_MAX_PROCESSES"
  shows "kept s s'"
proof (rule kept_put_process [OF assms(1)])
  have "unat (word_of_int sl :: u16) < HARDIKHYPERIONOS_MAX_PROCESSES"
    using assms(3,4) by (simp add: HARDIKHYPERIONOS_MAX_PROCESSES_def unat_eq_nat_uint uint_word_of_int)
  with assms(2) show "process_typed q \<Longrightarrow> process_typed (q\<lparr>filename := name, stack := st, pid := word_of_int sl\<rparr>)" for q
    by (simp add: process_typed_def)
qed

lemma processes_kept: "arr_set (processes s) i p = Some ps \<Longrightarrow> p \<in> dom (procs s) \<Longrightarrow> kept s (s\<lparr>processes := ps\<rparr>)"
  by (auto simp: kept_def well_typed_def tables_typed_def arr_set_def dest!: set_mp [OF set_update_subset_insert] split: if_splits)

lemma task_new_object: "task_new process s = Some (p, s') \<Longrightarrow> dom (procs s') = dom (procs s)"
  by (simp add: task_new_procs)

lemma load_task_kept:
  assumes "load_task name p sl s = Some (res, out, s')" "well_typed s" "0 \<le> sl" "sl < int HARDIKHYPERIONOS_MAX_PROCESSES"
  shows "well_typed s' \<and> dom (procs s) \<subseteq> dom (procs s') \<and> (\<forall>q. out = Some q \<longrightarrow> q \<in> dom (procs s'))"
proof -
  obtain st m where k: "kzalloc (mem s) HARDIKHYPERIONOS_USER_PROGRAM_STACK_SIZE = (st, m)" by fastforce
  show ?thesis
  proof (cases "st = 0")
    case True
    with assms k show ?thesis by (auto simp: load_task_def ENOMEM_def)
  next
    case False
    with assms(1) k obtain r nm s2 t s3 where 1: "procs s p = Some r" "strncpy (filename r) 0 name (int HARDIKHYPERIONOS_MAX_PATH) = Some nm"
      "put_process p (\<lambda>p. p\<lparr>filename := nm, stack := st, pid := word_of_int sl\<rparr>) (set_mem m s) = Some s2"
      "task_new p s2 = Some (t, s3)"
      by (auto simp: load_task_def Let_def split: bind_splits if_splits)
    have "length nm = length (filename r)" using 1(2) by (simp add: strncpy_def strncpy_loop_length)
    then have "length nm = HARDIKHYPERIONOS_MAX_PATH" using well_typed_process [OF assms(2) 1(1)] by (simp add: process_typed_def)
    from put_loaded_kept [OF 1(3) this assms(3,4)] have "kept s s2" by simp
    with task_new_kept [OF 1(4)] have k3: "kept s s3" by (rule kept_trans [rotated])
    show ?thesis
    proof (cases "ERROR_I t = 0")
      case True
      with assms(1) k False 1 k3 assms(2) show ?thesis by (auto simp: load_task_def kept_def)
    next
      case t: False
      with assms(1) k False 1 obtain s4 res' s5 where 2: "put_process p (\<lambda>p. p\<lparr>task_of := t\<rparr>) s3 = Some s4"
        "process_map_memory p s4 = Some (res', s5)"
        by (auto simp: load_task_def Let_def split: bind_splits if_splits)
      have k5: "kept s s5" using k3 put_allocations_kept(4) [OF 2(1)] process_map_memory_kept [OF 2(2)] by (meson kept_trans)
      then have d: "p \<in> dom (procs s5)" using 1(1) by (auto simp: kept_def)
      show ?thesis
      proof (cases "res' < 0")
        case True
        with assms(1) k False 1 t 2 k5 assms(2) show ?thesis by (auto simp: load_task_def kept_def)
      next
        case r: False
        with assms(1) k False 1 t 2 obtain ps where 3: "arr_set (processes s5) sl p = Some ps"
          "out = Some p" "s' = s5\<lparr>processes := ps\<rparr>"
          by (auto simp: load_task_def Let_def split: bind_splits if_splits)
        have "kept s s'" using kept_trans [OF k5 processes_kept [OF 3(1) d]] by (simp add: 3(3))
        with assms(2) 3(2,3) d show ?thesis by (auto simp: kept_def)
      qed
    qed
  qed
qed

lemma free_slot_bounds: "0 \<le> i \<Longrightarrow> free_slot_loop ps i = k \<Longrightarrow> 0 \<le> k \<Longrightarrow> i \<le> k \<and> k < i + int (length ps)"
proof (induction ps arbitrary: i)
  case (Cons a ps)
  show ?case
  proof (cases "a = 0")
    case False
    with Cons.IH [of "i + 1"] Cons.prems show ?thesis by simp
  qed (use Cons.prems in simp)
qed (simp add: EISTKN_def)

lemma zero_process_typed: "process_typed zero_process"
  by (simp add: process_typed_def zero_process_def empty_buffer_def HARDIKHYPERIONOS_MAX_PROCESSES_def)

lemma process_load_typed:
  assumes "process_load ops name s = Some (res, out, s')" "well_typed s"
  shows "well_typed s' \<and> dom (procs s) \<subseteq> dom (procs s') \<and> (\<forall>q. out = Some q \<longrightarrow> q \<in> dom (procs s'))"
proof (cases "progess_get_free_slot s < 0")
  case True
  with assms show ?thesis by (auto simp: process_load_def EISTKN_def)
next
  case False
  define sl where "sl = progess_get_free_slot s"
  have slb: "0 \<le> sl" "sl < int HARDIKHYPERIONOS_MAX_PROCESSES"
    using False free_slot_bounds [of 0 "processes s" sl] assms(2)
    by (auto simp: sl_def progess_get_free_slot_def well_typed_def tables_typed_def)
  have l: "process_load_for_slot ops name sl s = Some (res, out, s')"
    using assms(1) False by (simp add: process_load_def sl_def)
  obtain p m where k: "kzalloc (mem s) sizeof_process = (p, m)" by fastforce
  show ?thesis
  proof (cases "process_get sl s \<noteq> 0 \<or> p = 0")
    case True
    with l k assms(2) show ?thesis by (auto simp: process_load_for_slot_def EISTKN_def ENOMEM_def split: if_splits)
  next
    case p: False
    let ?s2 = "(set_mem m s)\<lparr>procs := (procs s)(p \<mapsto> zero_process)\<rparr>"
    have wt2: "well_typed ?s2" using well_typed_put_process [of s zero_process p] assms(2) zero_process_typed by simp
    define finish where "finish = (\<lambda>(r :: int, o4 :: u32 option, s4). if IS_ERR r
      then do { q \<leftarrow> procs s4 p; s5 \<leftarrow> (if task_of q \<noteq> 0 then task_free (task_of q) s4 else Some s4); Some (r, o4, s5) }
      else Some (r, o4, s4))"
    from l p k obtain res3 s3 where 0: "process_load_data ops name p ?s2 = Some (res3, s3)"
      "Option.bind (if res3 < 0 then Some (res3, None, s3) else load_task name p sl s3) finish = Some (res, out, s')"
      by (auto simp: process_load_for_slot_def Let_def finish_def elim!: bind_eq_Some_conv [THEN iffD1, elim_format])
    from 0(2) obtain res4 o4 s4 where 1: "process_load_data ops name p ?s2 = Some (res3, s3)"
      "(if res3 < 0 then Some (res3, None, s3) else load_task name p sl s3) = Some (res4, o4, s4)"
      "finish (res4, o4, s4) = Some (res, out, s')"
      by (cases "if res3 < 0 then Some (res3, None, s3) else load_task name p sl s3") (use 0(1) in auto)
    have k3: "kept ?s2 s3" by (rule process_load_data_kept [OF 1(1)])
    then have 3: "well_typed s3" "dom (procs s) \<subseteq> dom (procs s3)" using wt2 by (auto simp: kept_def)
    have 4: "well_typed s4 \<and> dom (procs s) \<subseteq> dom (procs s4) \<and> (\<forall>q. o4 = Some q \<longrightarrow> q \<in> dom (procs s4))"
    proof (cases "res3 < 0")
      case False
      with 1(2) load_task_kept [OF _ 3(1) slb, of name p res4 o4 s4] 3(2) show ?thesis by auto
    qed (use 1(2) 3 in auto)
    show ?thesis
    proof (cases "IS_ERR res4")
      case True
      with 1(3) have "kept s4 s'" "out = o4" by (auto simp: finish_def dest: task_free_kept split: bind_splits if_splits)
      with 4 show ?thesis unfolding kept_def by blast
    qed (use 1(3) 4 in \<open>auto simp: finish_def\<close>)
  qed
qed

lemma process_load_switch_typed:
  assumes "process_load_switch ops name s = Some (res, out, s')" "well_typed s"
  shows "well_typed s' \<and> dom (procs s) \<subseteq> dom (procs s')"
proof -
  from assms(1) obtain out1 s1 where l: "process_load ops name s = Some (res, out1, s1)"
    and s': "s' = (if res = 0 then process_switch (case out1 of None \<Rightarrow> 0 | Some p \<Rightarrow> p) s1 else s1)"
    by (auto simp: process_load_switch_def split: bind_splits if_splits)
  from process_load_typed [OF l assms(2)] show ?thesis
    by (auto simp: s' process_switch_def well_typed_def tables_typed_def split: option.splits)
qed

lemma process_load_switch_kept: "process_load_switch ops name s = Some (res, out, s') \<Longrightarrow> well_typed s \<Longrightarrow> kept s s'"
  using process_load_switch_typed by (auto simp: kept_def)


section \<open>Commands\<close>

text \<open>The state a handler ends in.\<close>

fun end_state :: "outcome \<Rightarrow> kernel" where
  "end_state (Returned v s) = s"
| "end_state (Entered regs s) = s"

lemma returned_end [simp]: "returned v s = Some r \<longleftrightarrow> r = Returned v s"
  by (auto simp: returned_def)

lemma enter_next_kept: "enter_next s = Some r \<Longrightarrow> kept s (end_state r)"
  by (auto simp: enter_next_def dest!: task_next_kept split: bind_splits)

lemma enter_process_kept: "enter_process p s = Some r \<Longrightarrow> kept s (end_state r)"
  by (auto simp: enter_process_def dest!: task_switch_kept split: bind_splits)

lemma print_screen_kept: "print_screen str s = Some s' \<Longrightarrow> kept s s'"
  by (auto simp: print_screen_def split: bind_splits)

lemma keyboard_buffer_length [simp]:
  "length (buffer (keyboard_push k c)) = length (buffer k)" "length (buffer (snd (keyboard_pop k))) = length (buffer k)"
  by (auto simp: keyboard_push_def keyboard_pop_def Let_def)

lemma put_keys_kept:
  "put_process p (\<lambda>p. p\<lparr>keys := k\<rparr>) s = Some s' \<Longrightarrow> length (buffer k) = HARDIKHYPERIONOS_KEYBOARD_BUFFER_SIZE \<Longrightarrow> kept s s'"
  by (erule kept_put_process) (simp add: process_typed_def)

lemma task_keyboard_pop_kept: "task_keyboard_pop s = Some (c, s') \<Longrightarrow> well_typed s \<Longrightarrow> kept s s'"
proof -
  assume p: "task_keyboard_pop s = Some (c, s')" and wt: "well_typed s"
  show ?thesis
  proof (cases "current_task s = 0")
    case False
    with p obtain pr q where q: "procs s pr = Some q"
      "put_process pr (\<lambda>p. p\<lparr>keys := snd (keyboard_pop (keys q))\<rparr>) s = Some s'"
      by (auto simp: task_keyboard_pop_def split: bind_splits prod.splits)
    show ?thesis by (rule put_keys_kept [OF q(2)]) (use well_typed_process [OF wt q(1)] in \<open>simp add: process_typed_def\<close>)
  qed (use p in \<open>simp add: task_keyboard_pop_def\<close>)
qed

lemmas command_kept = task_get_stack_item_kept copy_string_kept print_screen_kept process_malloc_kept process_free_kept
  process_terminate_kept enter_next_kept enter_process_kept process_inject_arguments_kept

lemma run_isr80h_command_typed:
  assumes "run_isr80h_command c ops uninit s = Some r" "well_typed s"
  shows "kept s (end_state r)"
proof (cases c)
  case Command0_sum
  with assms show ?thesis
    by (auto simp: isr80h_command0_sum_def dest!: command_kept split: bind_splits; meson kept_trans)
next
  case Command1_print
  with assms show ?thesis
    by (auto simp: isr80h_command1_print_def dest!: command_kept split: bind_splits; meson kept_trans)
next
  case Command2_getkey
  with assms show ?thesis
    by (auto simp: isr80h_command2_getkey_def dest!: task_keyboard_pop_kept split: bind_splits)
next
  case Command3_putchar
  with assms show ?thesis
    by (auto simp: isr80h_command3_putchar_def dest!: command_kept split: bind_splits)
next
  case Command4_malloc
  with assms show ?thesis
    by (auto simp: isr80h_command4_malloc_def dest!: command_kept split: bind_splits; meson kept_trans)
next
  case Command5_free
  with assms show ?thesis
    by (auto simp: isr80h_command5_free_def dest!: command_kept split: bind_splits; meson kept_trans)
next
  case Command6_process_load_start
  with assms(1) obtain v s1 res name s2 where 1: "task_get_stack_item (current_task s) 0 s = Some (v, s1)"
    "copy_string_from_task (current_task s1) v (uninit HARDIKHYPERIONOS_MAX_PATH) (int HARDIKHYPERIONOS_MAX_PATH) s1 = Some (res, name, s2)"
    by (auto simp: isr80h_command6_process_load_start_def split: bind_splits)
  then have k: "kept s s2" by (meson command_kept kept_trans)
  with assms(2) have wt: "well_typed s2" by (simp add: kept_def)
  show ?thesis
  proof (cases "res < 0")
    case True
    with assms(1) Command6_process_load_start 1 k show ?thesis by (simp add: isr80h_command6_process_load_start_def)
  next
    case False
    with assms(1) Command6_process_load_start 1 obtain path res' out s3 where 2: "process_load_switch ops path s2 = Some (res', out, s3)"
      "(if res' < 0 then returned 0 s3 else enter_process (process_address out) s3) = Some r"
      by (auto simp: isr80h_command6_process_load_start_def split: bind_splits)
    have "kept s2 s3" by (rule process_load_switch_kept [OF 2(1) wt])
    moreover have "kept s3 (end_state r)" using 2(2) by (auto dest: command_kept split: if_splits)
    ultimately show ?thesis using k by (meson kept_trans)
  qed
next
  case Command7_invoke_system_command
  with assms(1) obtain item s1 a where 1: "task_get_stack_item (current_task s) 0 s = Some (item, s1)"
    "task_virtual_address_to_physical (current_task s1) item s1 = Some a"
    by (auto simp: isr80h_command7_invoke_system_command_def split: bind_splits)
  then have k: "kept s s1" by (meson command_kept)
  with assms(2) have wt: "well_typed s1" by (simp add: kept_def)
  from assms(1) Command7_invoke_system_command 1 obtain len where len:
    "(if a = 0 then Some 0 else ram_strlen (ram (mem s1)) a) = Some len"
    by (auto simp: isr80h_command7_invoke_system_command_def split: bind_splits)
  show ?thesis
  proof (cases "a = 0 \<or> len = 0")
    case True
    with assms(1) Command7_invoke_system_command 1 len k show ?thesis by (auto simp: isr80h_command7_invoke_system_command_def)
  next
    case False
    with assms(1) Command7_invoke_system_command 1 len obtain path res out s2 where 2: "process_load_switch ops path s1 = Some (res, out, s2)"
      "(if res < 0 then returned (ERROR res) s2
        else do { (res, s3) \<leftarrow> process_inject_arguments (process_address out) a s2;
                  if res < 0 then returned (ERROR res) s3 else enter_process (process_address out) s3 }) = Some r"
      by (auto simp: isr80h_command7_invoke_system_command_def split: bind_splits)
    have "kept s1 s2" by (rule process_load_switch_kept [OF 2(1) wt])
    moreover have "kept s2 (end_state r)" using 2(2)
      by (auto dest!: command_kept split: if_splits bind_splits; meson kept_trans)
    ultimately show ?thesis using k by (meson kept_trans)
  qed
next
  case Command8_get_program_arguments
  with assms show ?thesis
    by (auto simp: isr80h_command8_get_program_arguments_def dest!: command_kept split: bind_splits)
next
  case Command9_exit
  with assms show ?thesis
    by (auto simp: isr80h_command9_exit_def dest!: command_kept split: bind_splits; meson kept_trans)
qed


section \<open>Interrupts\<close>

lemma and_then_end:
  assumes "and_then r0 k = Some r" "\<And>r1. r0 = Some r1 \<Longrightarrow> kept s (end_state r1)" "\<And>v s1 r2. k v s1 = Some r2 \<Longrightarrow> kept s1 (end_state r2)"
  shows "kept s (end_state r)"
proof -
  obtain r1 where r1: "r0 = Some r1" using assms(1) by (auto simp: and_then_def split: option.splits)
  with assms(2) have k: "kept s (end_state r1)" by simp
  show ?thesis
  proof (cases r1)
    case (Returned v s1)
    with assms(1) r1 have "k v s1 = Some r" by (simp add: and_then_def)
    from assms(3) [OF this] k Returned show ?thesis by (auto intro: kept_trans)
  next
    case (Entered regs s1)
    with assms(1) r1 k show ?thesis by (auto simp: and_then_def)
  qed
qed

lemma task_page_returned: "(do { s3 \<leftarrow> task_page s2; returned v s3 }) = Some r \<Longrightarrow> kept s2 (end_state r)"
  by (auto dest!: task_page_kept split: bind_splits)

lemma isr80h_handler_typed:
  assumes "isr80h_handler ops uninit c f s = Some r" "well_typed s"
  shows "kept s (end_state r)"
proof -
  from assms(1) obtain s1 where s1: "task_current_save_state f (kernel_page s) = Some s1"
    "and_then (isr80h_handle_command ops uninit c s1) (\<lambda>res s2. do { s3 \<leftarrow> task_page s2; returned res s3 }) = Some r"
    by (auto simp: isr80h_handler_def split: bind_splits)
  have k: "kept s s1" using task_save_kept [OF s1(1)] by simp
  then have wt: "well_typed s1" using assms(2) by (simp add: kept_def)
  have "kept s1 (end_state r)"
  proof (rule and_then_end [OF s1(2)])
    fix r1 assume "isr80h_handle_command ops uninit c s1 = Some r1"
    then show "kept s1 (end_state r1)"
      using run_isr80h_command_typed [OF _ wt] by (auto simp: isr80h_handle_command_def split: if_splits bind_splits option.splits)
  qed (rule task_page_returned)
  with k show ?thesis by (rule kept_trans)
qed

lemma put_keyboards_kept: "arr_set (keyboards s) i k = Some ks \<Longrightarrow> kept s (s\<lparr>keyboards := ks\<rparr>)"
  by (auto simp: kept_def well_typed_def arr_set_def split: if_splits)

lemma classic_keyboard_buffer_length:
  "classic_keyboard_handle_interrupt sc k b = Some (k', Some q') \<Longrightarrow> \<exists>q. b = Some q \<and> length (buffer q') = length (buffer q)"
  by (auto simp: classic_keyboard_handle_interrupt_def Let_def split: if_splits bind_splits)

lemma keyboard_callback_typed:
  assumes "keyboard_callback sc s = Some r" "well_typed s"
  shows "kept s (end_state r)"
proof -
  let ?s = "kernel_page s"
  from assms(1) obtain k b k' b' ks s2 where 1:
    "(if current_process ?s = 0 then Some None else do { p \<leftarrow> procs ?s (current_process ?s); Some (Some (keys p)) }) = Some b"
    "classic_keyboard_handle_interrupt sc k b = Some (k', b')" "arr_set (keyboards ?s) 0 k' = Some ks"
    "(case b' of None \<Rightarrow> Some (?s\<lparr>keyboards := ks\<rparr>)
      | Some q \<Rightarrow> put_process (current_process ?s) (\<lambda>p. p\<lparr>keys := q\<rparr>) (?s\<lparr>keyboards := ks\<rparr>)) = Some s2"
    "(if sc AND CLASSIC_KEYBOARD_KEY_RELEASED \<noteq> 0 then returned 0 s2 else do { s3 \<leftarrow> task_page s2; returned 0 s3 }) = Some r"
    by (auto simp: keyboard_callback_def Let_def split: bind_split_asm)
  have k1: "kept s (?s\<lparr>keyboards := ks\<rparr>)" using put_keyboards_kept [OF 1(3)] by simp
  have "kept (?s\<lparr>keyboards := ks\<rparr>) s2"
  proof (cases b')
    case (Some q)
    with classic_keyboard_buffer_length 1(2) obtain q0 where q0: "b = Some q0" "length (buffer q) = length (buffer q0)" by metis
    with 1(1) obtain p where "procs s (current_process s) = Some p" "q0 = keys p"
      by (auto simp: kernel_page_def switch_page_def kernel_registers_def split: if_splits bind_splits)
    with well_typed_process [OF assms(2)] q0(2) have "length (buffer q) = HARDIKHYPERIONOS_KEYBOARD_BUFFER_SIZE"
      by (simp add: process_typed_def)
    with 1(4) Some show ?thesis by (auto intro: put_keys_kept)
  qed (use 1(4) in auto)
  moreover have "kept s2 (end_state r)" using 1(5) task_page_returned [of s2 0 r] by (auto split: if_splits)
  ultimately show ?thesis using k1 by (meson kept_trans)
qed

lemma interrupt_handler_typed:
  assumes "interrupt_handler sc n f s = Some r" "well_typed s"
  shows "kept s (end_state r)"
proof -
  let ?s = "kernel_page s"
  from assms(1) obtain c where c: "and_then (case c of None \<Rightarrow> returned 0 ?s
      | Some g \<Rightarrow> do { s1 \<leftarrow> task_current_save_state f ?s; run_interrupt_callback g sc s1 })
        (\<lambda>_ s2. do { s3 \<leftarrow> task_page s2; returned 0 s3 }) = Some r"
    by (auto simp: interrupt_handler_def Let_def split: bind_split_asm)
  show ?thesis
  proof (rule and_then_end [OF c])
    fix r1 assume r1: "(case c of None \<Rightarrow> returned 0 ?s
      | Some g \<Rightarrow> do { s1 \<leftarrow> task_current_save_state f ?s; run_interrupt_callback g sc s1 }) = Some r1"
    show "kept s (end_state r1)"
    proof (cases c)
      case (Some g)
      with r1 obtain s1 where s1: "task_current_save_state f ?s = Some s1" "run_interrupt_callback g sc s1 = Some r1"
        by (auto split: bind_splits)
      have k: "kept s s1" using task_save_kept [OF s1(1)] by simp
      then have "well_typed s1" using assms(2) by (simp add: kept_def)
      with s1(2) have "kept s1 (end_state r1)"
      proof (cases g)
        case Idt_handle_exception
        with s1(2) show ?thesis
          by (auto simp: idt_handle_exception_def dest!: command_kept split: bind_splits; meson kept_trans)
      qed (auto simp: idt_clock_def dest: enter_next_kept keyboard_callback_typed)
      with k show ?thesis by (rule kept_trans)
    qed (use r1 in simp)
  qed (rule task_page_returned)
qed

section \<open>What happens to the kernel\<close>

text \<open>
  The events after the start: an interrupt with the scan code at the keyboard port, a command, and what \<open>kernel_main\<close>
  does, loading a program with an argument and entering the first task.
\<close>

datatype kernel_event = Interrupt u8 int interrupt_frame | Command interrupt_frame | Load_program u32 "u8 list" | First_task

text \<open>What is given to the kernel: its base pointer and flags, the file systems, and what uninitialised arrays hold.\<close>

record kernel_context =
  ctx_ebp :: u32
  ctx_flags :: u32
  ctx_files :: "fs_ref \<Rightarrow> fs_ops"
  ctx_stack :: "nat \<Rightarrow> u8 list"

fun kernel_step :: "kernel_context \<Rightarrow> kernel_event \<Rightarrow> kernel \<Rightarrow> kernel option" where
  "kernel_step x (Interrupt sc n f) s = map_option snd (interrupt_entry (ctx_ebp x) (ctx_flags x) sc n f s)"
| "kernel_step x (Command f) s = map_option snd (isr80h_wrapper (ctx_ebp x) (ctx_flags x) (ctx_files x) (ctx_stack x) f s)"
| "kernel_step x (Load_program a arg) s = load_with_argument (ctx_files x) a arg s"
| "kernel_step x First_task s = map_option snd (task_run_first_ever_task s)"

fun kernel_run :: "kernel_context \<Rightarrow> kernel_event list \<Rightarrow> kernel \<Rightarrow> kernel option" where
  "kernel_run x [] s = Some s"
| "kernel_run x (e # es) s = Option.bind (kernel_step x e s) (kernel_run x es)"

lemma load_with_argument_typed: "load_with_argument ops a arg s = Some s' \<Longrightarrow> well_typed s \<Longrightarrow> kept s s'"
proof -
  assume l: "load_with_argument ops a arg s = Some s'" and wt: "well_typed s"
  then obtain res out s1 where 1: "process_load_switch ops (ascii ''0:/blank.elf'' @ [0]) s = Some (res, out, s1)"
    by (auto simp: load_with_argument_def split: bind_splits)
  with l obtain res2 where 2: "process_inject_arguments (process_address out) a (put_argument a arg s1) = Some (res2, s')"
    by (auto simp: load_with_argument_def split: bind_splits if_splits)
  from process_load_switch_kept [OF 1 wt] process_inject_arguments_kept [OF 2] show ?thesis
    by (auto simp: put_argument_def intro: kept_trans)
qed

lemma kernel_step_typed:
  assumes "kernel_step x e s = Some s'" "well_typed s"
  shows "kept s s'"
proof (cases e)
  case (Interrupt sc n f)
  with assms(1) obtain r where r: "interrupt_handler sc n f s = Some r" "kept s (end_state r) \<Longrightarrow> kept s s'"
    by (auto simp: interrupt_entry_def split: option.splits outcome.splits)
  from r(2) [OF interrupt_handler_typed [OF r(1) assms(2)]] show ?thesis .
next
  case (Command f)
  with assms(1) obtain r where r: "isr80h_handler (ctx_files x) (ctx_stack x) (sint (frame_eax f)) f s = Some r"
    "kept s (end_state r) \<Longrightarrow> kept s s'"
    by (auto simp: isr80h_wrapper_def split: option.splits outcome.splits)
  from r(2) [OF isr80h_handler_typed [OF r(1) assms(2)]] show ?thesis .
next
  case (Load_program a arg)
  with assms show ?thesis by (auto intro: load_with_argument_typed)
next
  case First_task
  with assms(1) show ?thesis
    by (auto simp: task_run_first_ever_task_def dest!: task_switch_kept split: if_splits bind_splits)
qed

lemma kernel_run_kept: "kernel_run x es s = Some s' \<Longrightarrow> well_typed s \<Longrightarrow> kept s s'"
proof (induction es arbitrary: s)
  case (Cons e es)
  from Cons.prems(1) obtain s1 where s1: "kernel_step x e s = Some s1" "kernel_run x es s1 = Some s'" by (auto split: bind_splits)
  have k: "kept s s1" by (rule kernel_step_typed [OF s1(1) Cons.prems(2)])
  then have "well_typed s1" using Cons.prems(2) by (simp add: kept_def)
  from kept_trans [OF k Cons.IH [OF s1(2) this]] show ?case .
qed simp

end
