(* ===== verification/KernelProps.thy ===== *)
theory KernelProps
  imports KernelMain SyscallProps FileProps
begin

text \<open>
  The state of \<open>kernel_main\<close> after \<open>keyboard_init\<close>, when everything is ready for the first program, on top of what the
  components promise.
\<close>

section \<open>Printing and segments\<close>

lemma print_text_value:
  assumes "0 \<notin> set str"
  obtains t where "print_text str s = Some (s\<lparr>screen := t\<rparr>)"
proof -
  have "strlen_loop (str @ [0]) i = Some (i + int (length str))" for i
    using assms by (induction str arbitrary: i) auto
  then have "print (screen s) (str @ [0]) = Some (terminal_print (screen s) str)" by (simp add: print_def strlen_def)
  then show thesis by (intro that) (simp add: print_text_def print_screen_def)
qed

lemma start_banner_value:
  obtains t where "start_banner s = Some (s\<lparr>screen := t\<rparr>)"
proof -
  define s0 where "s0 = s\<lparr>screen := terminal_initialize (screen s)\<rparr>"
  have z: "0 \<notin> set (ascii ''HardikHyperionOS v0.0.1'' @ newline @ newline)"
    "0 \<notin> set (ascii ''Testing the terminal:'' @ newline)"
    "0 \<notin> set (ascii ''Hello, World!'' @ newline @ ascii ''This is written in C!'' @ newline @ newline)"
    by (simp_all add: ascii_def newline_def)
  obtain t1 where 1: "print_text (ascii ''HardikHyperionOS v0.0.1'' @ newline @ newline) s0 = Some (s0\<lparr>screen := t1\<rparr>)"
    by (rule print_text_value [OF z(1)])
  obtain t2 where 2: "print_text (ascii ''Testing the terminal:'' @ newline) (s0\<lparr>screen := t1\<rparr>) = Some (s0\<lparr>screen := t1\<rparr>\<lparr>screen := t2\<rparr>)"
    by (rule print_text_value [OF z(2)])
  obtain t3 where 3: "print_text (ascii ''Hello, World!'' @ newline @ ascii ''This is written in C!'' @ newline @ newline)
      (s0\<lparr>screen := t1\<rparr>\<lparr>screen := t2\<rparr>) = Some (s0\<lparr>screen := t1\<rparr>\<lparr>screen := t2\<rparr>\<lparr>screen := t3\<rparr>)"
    by (rule print_text_value [OF z(3)])
  have "start_banner s = Some (s0\<lparr>screen := t3\<rparr>)"
    using 1 2 3 by (simp only: start_banner_def s0_def [symmetric] Option.bind.bind_lunit) simp
  then show thesis using that by (simp add: s0_def)
qed

lemma encode_segment:
  assumes "limit s = 0xffffffff \<or> limit s \<le> 65536"
  obtains t where "encodeGdtEntry (replicate 8 0) s = Some t" "length t = 8" "descriptor_base t = base s"
    "descriptor_limit t = limit s" "t ! 5 = seg_type s"
proof -
  have "\<not> (limit s > 65536 \<and> limit s AND 0xFFF \<noteq> 0xFFF)" using assms by auto
  then show thesis using encode_decode [of "replicate 8 0" s] that by auto
qed

text \<open>A table of segments is encoded entry by entry.\<close>

lemma gdt_loop_value:
  assumes "\<And>k. k < length segs \<Longrightarrow> encodeGdtEntry (replicate 8 0) (segs ! k) = Some (f k)"
  shows "i + n \<le> length segs \<Longrightarrow> length g = length segs \<Longrightarrow> \<forall>k. i \<le> k \<longrightarrow> k < length segs \<longrightarrow> g ! k = replicate 8 0 \<Longrightarrow>
    \<exists>g'. gdt_structured_to_gdt g segs i n = Some g' \<and> length g' = length segs \<and>
      (\<forall>k < length segs. g' ! k = (if i \<le> k \<and> k < i + n then f k else g ! k))"
proof (induction n arbitrary: i g)
  case (Suc n)
  have i: "i < length segs" "g ! i = replicate 8 0" using Suc.prems by simp_all
  have "Suc i + n \<le> length segs" "length (g[i := f i]) = length segs"
    "\<forall>k. Suc i \<le> k \<longrightarrow> k < length segs \<longrightarrow> g[i := f i] ! k = replicate 8 0" using Suc.prems by simp_all
  from Suc.IH [OF this] obtain g' where g': "gdt_structured_to_gdt (g[i := f i]) segs (Suc i) n = Some g'" "length g' = length segs"
    "\<forall>k < length segs. g' ! k = (if Suc i \<le> k \<and> k < Suc i + n then f k else g[i := f i] ! k)" by blast
  then show ?case
    using i Suc.prems(2) assms [OF i(1)]
    by (intro exI [of _ g']) (auto simp: array_simps nth_list_update)
qed auto

lemma gdt_init_value:
  obtains g where "gdt_init a = Some g" "length g = 6"
    "\<forall>k < 6. descriptor_base (g ! k) = base (gdt_segments a ! k) \<and> descriptor_limit (g ! k) = limit (gdt_segments a ! k) \<and>
       g ! k ! 5 = seg_type (gdt_segments a ! k)"
proof -
  have len: "length (gdt_segments a) = 6" by (simp add: gdt_segments_def)
  have lim: "limit (gdt_segments a ! k) = 0xffffffff \<or> limit (gdt_segments a ! k) \<le> 65536" if "k < 6" for k
  proof -
    have "\<forall>g \<in> set (gdt_segments a). limit g = 0xffffffff \<or> limit g \<le> 65536" by (simp add: gdt_segments_def)
    then show ?thesis using that len by (metis nth_mem)
  qed
  define f where "f k = the (encodeGdtEntry (replicate 8 0) (gdt_segments a ! k))" for k
  have f: "encodeGdtEntry (replicate 8 0) (gdt_segments a ! k) = Some (f k) \<and> descriptor_base (f k) = base (gdt_segments a ! k) \<and>
      descriptor_limit (f k) = limit (gdt_segments a ! k) \<and> f k ! 5 = seg_type (gdt_segments a ! k)" if "k < 6" for k
    by (rule encode_segment [OF lim [OF that]]) (simp add: f_def)
  from gdt_loop_value [of "gdt_segments a" f 0 6 "replicate 6 (replicate 8 0)"] f len obtain g
    where "gdt_init a = Some g" "length g = 6" "\<forall>k < 6. g ! k = f k"
    by (auto simp: gdt_init_def HARDIKHYPERIONOS_TOTAL_GDT_SEGMENTS_def)
  with f show thesis by (intro that [of g]) auto
qed

section \<open>The start\<close>

lemma start_heap_value:
  obtains m where "start_heap tm s = set_mem m s" "kheap_ok m" "kroom m = 25600" "kowned m = Map.empty"
    "saddr (kernel_heap m) = HEAP_ADDRESS" "tbl (kernel_heap m) = replicate 25600 0"
  using kheap_init_boot [of tm "kernel_heap (mem s)"]
  by (intro that [of "(mem s)\<lparr>kernel_heap := snd (kheap_init tm (kernel_heap (mem s)))\<rparr>"])
    (simp_all add: start_heap_def on_mem_def kheap_ok_def kroom_def kowned_def free_count_def)

text \<open>The blocks that mounting the disk takes: four objects and the root directory, or the three streams that are left.\<close>

definition mount_blocks :: "(nat \<Rightarrow> u8) \<Rightarrow> nat" where
  "mount_blocks img = (if img 38 = FAT16_SIGNATURE then 4 + blocks_for (root_bytes (boot_header img)) else 3)"

lemma root_blocks_le: "blocks_for (root_bytes h) \<le> 512"
  using root_bytes_le [of h] by (simp add: blocks_for_def)

lemma mount_blocks_le: "mount_blocks img \<le> 516"
  using root_blocks_le [of "boot_header img"] by (simp add: mount_blocks_def)

lemma mount_value:
  assumes "ata_serves a img" "sector_size d = 512" "disk_id d = 0" "kheap_ok m" "tbl (kernel_heap m) = replicate 25600 0"
    and img: "img 38 = FAT16_SIGNATURE \<Longrightarrow> root_readable img (boot_header img) n"
  shows "\<exists>m' dsk res. kheap_ok m' \<and> kroom m = mount_blocks img + kroom m' \<and>
    fat16_resolve a d m = Some (res, dsk, m') \<and> (res = 0 \<longleftrightarrow> img 38 = FAT16_SIGNATURE)"
proof (cases "img 38 = FAT16_SIGNATURE")
  case True
  have "free_at (tbl (kernel_heap m)) 0 (6 * blocks_for (root_bytes (boot_header img)))" "5 \<le> kroom m"
    using root_blocks_le [of "boot_header img"] by (simp_all add: assms(5) free_at_def kroom_def free_count_def)
  from fat16_resolve_run [OF assms(1-4) True img [OF True] this] obtain m' ad p
    where r: "heap_after m (4 + blocks_for (root_bytes (boot_header img))) m'" "root_loaded img a d m n ad p m'" by blast
  with True heap_afterD(1,3) [OF r(1)] show ?thesis unfolding root_loaded_def mount_blocks_def by auto
next
  case False
  have "5 \<le> kroom m" by (simp add: assms(5) kroom_def free_count_def)
  from fat16_resolve_other [OF assms(1-4) this False] False show ?thesis
    by (auto simp: mount_blocks_def grown_def EFSNOTUS_def)
qed

text \<open>The file layer after \<open>fs_init\<close> and \<open>disk_search_and_init\<close>.\<close>

lemma start_disk_value:
  assumes ops: "ops Fat16Fs = fat16_fs a" "ata_serves a img"
    and m: "kheap_ok (km (fsys f))" "tbl (kernel_heap (km (fsys f))) = replicate 25600 0"
    and img: "img 38 = FAT16_SIGNATURE \<Longrightarrow> root_readable img (boot_header img) n"
  obtains f1 f2 where "fs_init f = Some f1" "disk_search_and_init ops f1 = Some f2"
    "file_descriptors f2 = replicate 512 None" "filesystems f2 = Some Fat16Fs # replicate 11 None"
    "kheap_ok (km (fsys f2))" "kroom (km (fsys f)) = mount_blocks img + kroom (km (fsys f2))"
    "disk_filesystem (the_disk (fsys f2)) = (if img 38 = FAT16_SIGNATURE then Some Fat16Fs else None)"
proof -
  let ?f1 = "f\<lparr>file_descriptors := replicate 512 None, filesystems := Some Fat16Fs # replicate 11 None\<rparr>"
  have "first_null (replicate 12 None) = Some 0" by (simp add: numeral_eq_Suc)
  then have init: "fs_init f = Some ?f1"
    by (simp add: fs_init_def fs_load_def fs_static_load_def fs_insert_filesystem_def fs_get_free_filesystem_def
        HARDIKHYPERIONOS_MAX_FILESYSTEMS_def HARDIKHYPERIONOS_MAX_FILE_DESCRIPTORS_def numeral_eq_Suc)
  define d where "d = \<lparr>disk_type = HARDIKHYPERIONOS_DISK_TYPE_REAL, sector_size = HARDIKHYPERIONOS_SECTOR_SIZE,
    disk_id = 0, disk_filesystem = None, fs_private = None\<rparr>"
  have d: "sector_size d = 512" "disk_id d = 0" by (simp_all add: d_def HARDIKHYPERIONOS_SECTOR_SIZE_def)
  have skip: "fs_resolve_loop ops (replicate k None) s = Some (None, s)" for k s by (induction k) simp_all
  from mount_value [OF ops(2) d m img] obtain m' dsk res where r: "kheap_ok m'" "kroom (km (fsys f)) = mount_blocks img + kroom m'"
    "fat16_resolve a d (km (fsys f)) = Some (res, dsk, m')" "res = 0 \<longleftrightarrow> img 38 = FAT16_SIGNATURE" by blast
  let ?g = "if img 38 = FAT16_SIGNATURE then Some Fat16Fs else None"
  let ?f2 = "?f1\<lparr>fsys := (fsys f)\<lparr>the_disk := dsk\<lparr>disk_filesystem := ?g\<rparr>, km := m'\<rparr>\<rparr>"
  have "disk_search_and_init ops ?f1 = Some ?f2"
    using r(3,4) ops(1) by (simp add: disk_search_and_init_def fs_resolve_def fat16_fs_def skip flip: d_def)
  with init show thesis by (rule that) (use r in simp_all)
qed

lemma start_paging_value:
  assumes "kheap_ok (mem s)" "1026 \<le> kroom (mem s)"
  obtains c s' where "start_paging s = s'" "kgrown (mem s) (chunk_blocks (ram (mem s')) c) (mem s')"
    "kernel_chunk s' = c" "chunk_ok (ram (mem s')) c" "cr3 (cpu s') = load32 (ram (mem s')) c"
    "\<And>v. page_aligned v \<Longrightarrow> paging_get (ram (mem s')) (load32 (ram (mem s')) c) v = v OR 7"
    "interrupts s' = interrupts s" "keyboards s' = keyboards s" "kroom (mem s) = 1026 + kroom (mem s')"
    "filesystems (file_layer s') = filesystems (file_layer s)" "file_descriptors (file_layer s') = file_descriptors (file_layer s)"
    "the_disk (fsys (file_layer s')) = the_disk (fsys (file_layer s))"
proof -
  obtain c m where m: "paging_new_4gb (mem s) 7 = (c, m)" "fresh_chunk (mem s) c m" "kroom (mem s) = 1026 + kroom m"
    "\<And>v. page_aligned v \<Longrightarrow> paging_get (ram m) (load32 (ram m) c) v = v OR ucast (7 :: u8)"
    using paging_new_4gb_chunk [OF assms, of 7] by metis
  define s' where "s' = switch_page c ((set_mem m s)\<lparr>kernel_chunk := c\<rparr>)"
  have "ucast (PAGING_IS_WRITEABLE OR PAGING_IS_PRESENT OR PAGING_ACCESS_FROM_ALL) = (7 :: u8)"
    by (simp add: paging_consts)
  then have "start_paging s = s'" using m(1) by (simp add: start_paging_def s'_def)
  moreover have "mem s' = m" by (simp add: s'_def switch_page_def)
  moreover have "chunk_ok (ram m) c" using m(2) by (simp add: fresh_chunk_def)
  ultimately show thesis
    using m fresh_chunk_grown [OF assms(1) m(2,3)]
    by (intro that [of s' c]) (simp_all add: s'_def switch_page_def paging_switch_def set_mem_def)
qed

lemma start_interrupts_value:
  assumes "length (interrupt_pointer_table e) = 512"
  obtains i j where "idt_init e interrupt_statics = Some i" "isr80h_register_commands i = Some j"
    "idt_descriptors j = idt_descriptors i" "interrupt_callbacks j = interrupt_callbacks i"
    "length (interrupt_callbacks j) = 512" "length (isr80h_commands j) = 1024"
    "\<forall>k < 512. gate_offset (idt_descriptors j ! k) = (if k = 0 then idt_zero_address e
       else if k = 0x80 then isr80h_wrapper_address e else interrupt_pointer_table e ! k)"
    "\<forall>k < 512. interrupt_callbacks j ! k =
       (if k < 0x20 then Some Idt_handle_exception else if k = 0x20 then Some Idt_clock else None)"
    "\<forall>k < 1024. isr80h_commands j ! k = (if k < 10 then Some (the_commands ! k) else None)"
proof -
  have st: "length (interrupt_callbacks interrupt_statics) = 512" "isr80h_commands interrupt_statics = replicate 1024 None"
    "k < 512 \<Longrightarrow> interrupt_callbacks interrupt_statics ! k = None" for k
    by (simp_all add: interrupt_statics_def HARDIKHYPERIONOS_TOTAL_INTERRUPTS_def HARDIKHYPERIONOS_MAX_ISR80H_COMMANDS_def)
  from idt_init_value [OF assms st(1)] obtain i where i: "idt_init e interrupt_statics = Some i"
    "\<forall>k < 512. gate_offset (idt_descriptors i ! k) = (if k = 0 then idt_zero_address e
       else if k = 0x80 then isr80h_wrapper_address e else interrupt_pointer_table e ! k)"
    "\<forall>k < 512. interrupt_callbacks i ! k =
       (if k < 0x20 then Some Idt_handle_exception else if k = 0x20 then Some Idt_clock else interrupt_callbacks interrupt_statics ! k)"
    "isr80h_commands i = replicate 1024 None" "length (interrupt_callbacks i) = 512" using st(2) by auto
  from register_list_value [of i 0 the_commands] i(4) obtain j where j: "isr80h_register_commands i = Some j"
    "idt_descriptors j = idt_descriptors i" "interrupt_callbacks j = interrupt_callbacks i" "length (isr80h_commands j) = 1024"
    "\<forall>k < 1024. isr80h_commands j ! k = (if k < 10 then Some (the_commands ! k) else None)"
    by (auto simp: isr80h_register_commands_list)
  show thesis
    by (rule that [OF i(1) j(1-3)]) (use i j st(3) in auto)
qed

text \<open>Screen, heap and disk: the state before the interrupts are set up.\<close>

lemma start_files_value:
  assumes "ops Fat16Fs = fat16_fs a" "ata_serves a img"
    and "img 38 = FAT16_SIGNATURE \<Longrightarrow> root_readable img (boot_header img) n"
  obtains s1 s3 s4 where "start_banner s = Some s1" "on_file_layer fs_init (start_heap tm s1) = Some s3"
    "on_file_layer (disk_search_and_init ops) s3 = Some s4" "interrupts s4 = interrupts s" "keyboards s4 = keyboards s"
    "kheap_ok (mem s4)" "mount_blocks img + kroom (mem s4) = 25600"
    "file_descriptors (file_layer s4) = replicate 512 None"
    "disk_filesystem (the_disk (fsys (file_layer s4))) = (if img 38 = FAT16_SIGNATURE then Some Fat16Fs else None)"
proof -
  obtain t where 1: "start_banner s = Some (s\<lparr>screen := t\<rparr>)" by (rule start_banner_value)
  let ?s1 = "s\<lparr>screen := t\<rparr>"
  obtain h where h: "start_heap tm ?s1 = set_mem h ?s1" "kheap_ok h" "kroom h = 25600" "tbl (kernel_heap h) = replicate 25600 0"
    by (rule start_heap_value)
  let ?s2 = "set_mem h ?s1"
  have km: "km (fsys (file_layer ?s2)) = h" by (simp add: set_mem_def)
  obtain f1 f2 where f: "fs_init (file_layer ?s2) = Some f1" "disk_search_and_init ops f1 = Some f2"
    "file_descriptors f2 = replicate 512 None" "kheap_ok (km (fsys f2))" "kroom h = mount_blocks img + kroom (km (fsys f2))"
    "disk_filesystem (the_disk (fsys f2)) = (if img 38 = FAT16_SIGNATURE then Some Fat16Fs else None)"
    by (rule start_disk_value [where f = "file_layer ?s2" and ops = ops and img = img and n = n and a = a,
          OF assms(1,2) _ _ assms(3), unfolded km, OF h(2,4)]) (assumption, rule that, assumption+)
  define s4 where "s4 = ?s2\<lparr>file_layer := f2\<rparr>"
  have m4: "mem s4 = km (fsys f2)" by (simp add: s4_def mem_def)
  show thesis
    by (rule that [OF 1, of "?s2\<lparr>file_layer := f1\<rparr>" s4])
      (use h(1,3) f m4 in \<open>simp_all add: on_file_layer_def s4_def\<close>)
qed

text \<open>The keyboard gets its handler in the table of interrupts.\<close>

lemma start_keyboard_value:
  fixes s :: kernel
  assumes "keyboards s = []" "length (interrupt_callbacks j) = 512"
    and "\<forall>k < 512. interrupt_callbacks j ! k =
       (if k < 0x20 then Some Idt_handle_exception else if k = 0x20 then Some Idt_clock else None)"
  obtains k where "keyboard_interrupt_init (s\<lparr>interrupts := j\<rparr>) = Some k"
    "mem k = mem s" "kernel_chunk k = kernel_chunk s" "cpu k = cpu s" "file_layer k = file_layer s" "keyboards k = [classic_keyboard]"
    "idt_descriptors (interrupts k) = idt_descriptors j" "isr80h_commands (interrupts k) = isr80h_commands j"
    "\<forall>n < 512. interrupt_callbacks (interrupts k) ! n = (if n < 0x20 then Some Idt_handle_exception else if n = 0x20 then Some Idt_clock
      else if n = 0x21 then Some Classic_keyboard_handle_interrupt else None)"
proof -
  define k where "k = s\<lparr>interrupts := j\<lparr>interrupt_callbacks := (interrupt_callbacks j)[0x21 := Some Classic_keyboard_handle_interrupt]\<rparr>,
    keyboards := [classic_keyboard]\<rparr>"
  have "keyboard_interrupt_init (s\<lparr>interrupts := j\<rparr>) = Some k"
    using assms(1,2)
    by (simp add: keyboard_interrupt_init_def idt_register_interrupt_callback_def ISR_KEYBOARD_INTERRUPT_def arr_set_def
        HARDIKHYPERIONOS_TOTAL_INTERRUPTS_def k_def keyboard_init_def keyboard_insert_def classic_keyboard_def)
  moreover have "interrupt_callbacks (interrupts k) ! n = (if n < 0x20 then Some Idt_handle_exception else if n = 0x20 then Some Idt_clock
      else if n = 0x21 then Some Classic_keyboard_handle_interrupt else None)" if "n < 512" for n
    using assms(2,3) that by (simp add: k_def nth_list_update)
  ultimately show thesis by (intro that [of k]) (simp_all add: k_def)
qed

text \<open>
  C6. The start of the kernel (kernel.c): \<open>kernel_start\<close>, which is \<open>kernel_main\<close> from its first line up to \<open>keyboard_init\<close>; what
  follows, showing a file and loading two programs, is not part of the statement. The start goes through from any state at
  power-on, whatever memory, screen and heap table hold, with a drive that serves an image: nothing panics, and the parts fit together.
  An image without the FAT16 signature is not restricted. One with the signature needs a root directory of at least one entry,
  of any size, that lies in the first 2 GB, and an item that starts with a zero byte, inside or behind the
  directory and in the first 2 GB too, since the loop that counts the items ends nowhere else (\<open>root_readable\<close>). The root directory of the image that
  the repository builds has 64 entries.
  The heap is well-formed and the kernel uses exactly the 1026 blocks of its address space and those of the file system,
  four objects and the root directory, or three streams that are lost when there is no signature. The
  address space is loaded and maps every page to itself, writable; the segments decode to flat code and data segments and
  the task state; every vector leads to its entry code and has its handler, the clock, the keyboard and the exceptions included; the
  commands are 0 to 9; no file is open and the disk has a file system exactly if it has the signature.
\<close>

theorem kernel_start_ok:
  assumes "length (interrupt_pointer_table (entries_of b)) = 512" "interrupts s = interrupt_statics" "keyboards s = []"
    and "ops Fat16Fs = fat16_fs a" "ata_serves a img"
    and "img 38 = FAT16_SIGNATURE \<Longrightarrow> root_readable img (boot_header img) n"
  shows "\<exists>m k. kernel_start ops b s = Some m \<and> kern m = k \<and> kheap_ok (mem k) \<and>
    mount_blocks img + 1026 + kroom (mem k) = 25600 \<and>
    chunk_ok (ram (mem k)) (kernel_chunk k) \<and> cr3 (cpu k) = load32 (ram (mem k)) (kernel_chunk k) \<and>
    (\<forall>v. page_aligned v \<longrightarrow> paging_get (ram (mem k)) (cr3 (cpu k)) v = v OR 7) \<and>
    (\<forall>j < 6. descriptor_base (gdt_real m ! j) = base (gdt_segments (tss_address b) ! j) \<and>
       descriptor_limit (gdt_real m ! j) = limit (gdt_segments (tss_address b) ! j)) \<and>
    (\<forall>j < 512. gate_offset (idt_descriptors (interrupts k) ! j) = (if j = 0 then idt_zero_address (entries_of b)
       else if j = 0x80 then isr80h_wrapper_address (entries_of b) else interrupt_pointer_table (entries_of b) ! j) \<and>
       interrupt_callbacks (interrupts k) ! j = (if j < 0x20 then Some Idt_handle_exception else if j = 0x20 then Some Idt_clock
         else if j = 0x21 then Some Classic_keyboard_handle_interrupt else None)) \<and>
    (\<forall>j < 1024. isr80h_commands (interrupts k) ! j = (if j < 10 then Some (the_commands ! j) else None)) \<and>
    keyboards k = [classic_keyboard] \<and> file_descriptors (file_layer k) = replicate 512 None \<and>
    disk_filesystem (the_disk (fsys (file_layer k))) = (if img 38 = FAT16_SIGNATURE then Some Fat16Fs else None)"
proof -
  obtain s1 s3 s4 where f: "start_banner s = Some s1" "on_file_layer fs_init (start_heap (table_memory b) s1) = Some s3"
    "on_file_layer (disk_search_and_init ops) s3 = Some s4" "interrupts s4 = interrupts s" "keyboards s4 = keyboards s"
    "kheap_ok (mem s4)" "mount_blocks img + kroom (mem s4) = 25600"
    "file_descriptors (file_layer s4) = replicate 512 None"
    "disk_filesystem (the_disk (fsys (file_layer s4))) = (if img 38 = FAT16_SIGNATURE then Some Fat16Fs else None)"
    by (rule start_files_value [where n = n and img = img and a = a and ops = ops, OF assms(4-6)]) (assumption, rule that, assumption+)
  obtain g where g: "gdt_init (tss_address b) = Some g"
    "\<forall>k < 6. descriptor_base (g ! k) = base (gdt_segments (tss_address b) ! k) \<and>
       descriptor_limit (g ! k) = limit (gdt_segments (tss_address b) ! k)"
    using gdt_init_value [of "tss_address b"] by metis
  obtain i j where i: "idt_init (entries_of b) interrupt_statics = Some i" "isr80h_register_commands i = Some j"
    "length (interrupt_callbacks j) = 512" "length (isr80h_commands j) = 1024"
    "\<forall>k < 512. gate_offset (idt_descriptors j ! k) = (if k = 0 then idt_zero_address (entries_of b)
       else if k = 0x80 then isr80h_wrapper_address (entries_of b) else interrupt_pointer_table (entries_of b) ! k)"
    "\<forall>k < 512. interrupt_callbacks j ! k =
       (if k < 0x20 then Some Idt_handle_exception else if k = 0x20 then Some Idt_clock else None)"
    "\<forall>k < 1024. isr80h_commands j ! k = (if k < 10 then Some (the_commands ! k) else None)"
    by (rule start_interrupts_value [OF assms(1)]) (rule that, assumption+)
  define s5 where "s5 = s4\<lparr>interrupts := i\<rparr>"
  have ok5: "kheap_ok (mem s5)" "1026 \<le> kroom (mem s5)" using f(6,7) mount_blocks_le [of img] by (simp_all add: s5_def)
  obtain c s6 where p: "start_paging s5 = s6" "kgrown (mem s5) (chunk_blocks (ram (mem s6)) c) (mem s6)"
    "kernel_chunk s6 = c" "chunk_ok (ram (mem s6)) c" "cr3 (cpu s6) = load32 (ram (mem s6)) c"
    "\<And>v. page_aligned v \<Longrightarrow> paging_get (ram (mem s6)) (load32 (ram (mem s6)) c) v = v OR 7"
    "interrupts s6 = interrupts s5" "keyboards s6 = keyboards s5" "kroom (mem s5) = 1026 + kroom (mem s6)"
    "file_descriptors (file_layer s6) = file_descriptors (file_layer s5)"
    "the_disk (fsys (file_layer s6)) = the_disk (fsys (file_layer s5))"
    by (rule start_paging_value [OF ok5]) (rule that, assumption+)
  have "keyboards s6 = []" using p(8) assms(3) by (simp add: s5_def f(5))
  from start_keyboard_value [OF this i(3,6)] obtain k where kb: "keyboard_interrupt_init (s6\<lparr>interrupts := j\<rparr>) = Some k"
    "mem k = mem s6" "kernel_chunk k = kernel_chunk s6" "cpu k = cpu s6" "file_layer k = file_layer s6" "keyboards k = [classic_keyboard]"
    "idt_descriptors (interrupts k) = idt_descriptors j" "isr80h_commands (interrupts k) = isr80h_commands j"
    "\<forall>n < 512. interrupt_callbacks (interrupts k) ! n = (if n < 0x20 then Some Idt_handle_exception else if n = 0x20 then Some Idt_clock
      else if n = 0x21 then Some Classic_keyboard_handle_interrupt else None)" by blast
  have start: "kernel_start ops b s = Some \<lparr>kern = k, gdt_real = g, tss_of = \<lparr>esp0 = 0x600000, ss0 = KERNEL_DATA_SELECTOR\<rparr>\<rparr>"
    using g(1) f(1-4) i(1,2) p(1,7) kb(1) assms(2) by (simp add: kernel_start_def on_interrupts_def s5_def)
  have "kheap_ok (mem k)" "mount_blocks img + 1026 + kroom (mem k) = 25600"
    using p(2,9) f(7) kb(2) by (auto simp: grown_def s5_def)
  moreover have "file_descriptors (file_layer s6) = replicate 512 None"
    "disk_filesystem (the_disk (fsys (file_layer s6))) = (if img 38 = FAT16_SIGNATURE then Some Fat16Fs else None)"
    using p(10,11) f(8,9) by (simp_all add: s5_def)
  ultimately show ?thesis
    using start g(2) i(5,7) p(3-6) kb(2-9) by (intro exI [of _ "\<lparr>kern = k, gdt_real = g, tss_of = \<lparr>esp0 = 0x600000, ss0 = KERNEL_DATA_SELECTOR\<rparr>\<rparr>"] exI [of _ k]) simp
qed

text \<open>A FAT16 disk with 512 entries in its root directory, four blocks of the heap, and a computer without a file system.\<close>

definition large_root_image :: "nat \<Rightarrow> u8" where
  "large_root_image k = (if k = 17 then 0 else if k = 18 then 2 else sample_image k)"

lemma large_root_header: "root_readable large_root_image (boot_header large_root_image) 1" "mount_blocks large_root_image = 8"
    "large_root_image 38 = FAT16_SIGNATURE"
proof -
  have h: "read_fat_h (image_bytes large_root_image 0 62) = Some (boot_header large_root_image)"
    by (rule boot_header_read)
  have "get8 (image_bytes large_root_image 0 62) k = Some (large_root_image k)" if "k < 62" for k
    using that by (simp add: get8_def array_simps image_bytes_nth)
  then have "boot_header large_root_image = \<lparr>primary_header = \<lparr>bytes_per_sector = 0, sectors_per_cluster = 2,
      reserved_sectors = 1, fat_copies = 2, root_dir_entries = 512, number_of_sectors = 0, sectors_per_fat = 1\<rparr>,
      signature = 0x29\<rparr>"
    using h by (simp add: read_fat_h_def get16_def large_root_image_def sample_image_def)
  then have r: "root_sector (boot_header large_root_image) = 3" "root_bytes (boot_header large_root_image) = 16384"
    by (simp_all add: root_sector_def root_bytes_def)
  then show "root_readable large_root_image (boot_header large_root_image) 1" "mount_blocks large_root_image = 8"
    "large_root_image 38 = FAT16_SIGNATURE"
    using sample_image_free
    by (simp_all add: root_readable_def first_free_def mount_blocks_def large_root_image_def sample_image_def
        FAT16_SIGNATURE_def blocks_for_def)
qed

definition sample_boot :: boot where
  "sample_boot = \<lparr>entries_of = \<lparr>interrupt_pointer_table = replicate 512 0x100100, idt_zero_address = 0x100200,
     isr80h_wrapper_address = 0x100300\<rparr>, tss_address = 0x120000, argument_address = 0x5FF000, table_memory = (\<lambda>_. 0xCC)\<rparr>"

theorem kernel_start_ok_witness:
  "(\<exists>m. kernel_start (\<lambda>f. fat16_fs (sample_ata large_root_image)) sample_boot (sample_kernel\<lparr>interrupts := interrupt_statics\<rparr>) = Some m \<and>
     kroom (mem (kern m)) = 24566 \<and> disk_filesystem (the_disk (fsys (file_layer (kern m)))) = Some Fat16Fs \<and>
     interrupt_callbacks (interrupts (kern m)) ! 0x21 = Some Classic_keyboard_handle_interrupt) \<and>
   (\<exists>m. kernel_start sample_tab sample_boot (sample_kernel\<lparr>interrupts := interrupt_statics\<rparr>) = Some m \<and>
     kroom (mem (kern m)) = 24571 \<and> descriptor_limit (gdt_real m ! 1) = 0xffffffff)" (is "?A \<and> ?B")
proof
  note K = kernel_start_ok [where b = sample_boot and s = "sample_kernel\<lparr>interrupts := interrupt_statics\<rparr>"]
  have b: "length (interrupt_pointer_table (entries_of sample_boot)) = 512" by (simp add: sample_boot_def)
  have s: "interrupts (sample_kernel\<lparr>interrupts := interrupt_statics\<rparr>) = interrupt_statics"
    "keyboards (sample_kernel\<lparr>interrupts := interrupt_statics\<rparr>) = []" by (simp_all add: sample_kernel_def)
  show ?A
    using K [OF b s refl sample_ata_serves large_root_header(1)] large_root_header(2,3) by auto
  show ?B
    using K [where ops = sample_tab and a = "sample_ata (\<lambda>_. 0)" and img = "\<lambda>_. 0", OF b s _ sample_ata_serves]
    by (auto simp: mount_blocks_def sample_tab_def FAT16_SIGNATURE_def gdt_segments_def)
qed

end
