(* ===== verification/TypeProps.thy ===== *)
theory TypeProps
  imports KernelTypes KernelProps
begin

text \<open>
  The type invariant of the kernel: the start establishes it, and everything that happens afterwards keeps it.
\<close>

section \<open>The start\<close>

text \<open>The variables the kernel starts with, all zero.\<close>

definition powered_on :: "kernel \<Rightarrow> bool" where
  "powered_on s \<longleftrightarrow> interrupts s = interrupt_statics \<and> keyboards s = [] \<and> procs s = Map.empty \<and> tasks s = Map.empty \<and>
     processes s = replicate HARDIKHYPERIONOS_MAX_PROCESSES 0 \<and> current_process s = 0"

lemma idt_set_typed: "idt_set n a i = Some i' \<Longrightarrow> interrupts_typed i \<Longrightarrow> interrupts_typed i'"
  by (auto simp: idt_set_def interrupts_typed_def dest: arr_set_length split: bind_splits)

lemma register_callback_typed:
  "idt_register_interrupt_callback n c i = Some (r, i') \<Longrightarrow> interrupts_typed i \<Longrightarrow> interrupts_typed i'"
  by (auto simp: idt_register_interrupt_callback_def interrupts_typed_def dest: arr_set_length split: bind_splits if_splits)

lemma register_command_typed: "isr80h_register_command n c i = Some i' \<Longrightarrow> interrupts_typed i \<Longrightarrow> interrupts_typed i'"
  by (auto simp: isr80h_register_command_def interrupts_typed_def dest: arr_set_length split: bind_splits if_splits)

lemma register_commands_typed: "isr80h_register_commands i = Some i' \<Longrightarrow> interrupts_typed i \<Longrightarrow> interrupts_typed i'"
  unfolding isr80h_register_commands_def by (auto split: bind_splits; meson register_command_typed)

lemma idt_init_typed: "idt_init e i = Some i' \<Longrightarrow> interrupts_typed i \<Longrightarrow> interrupts_typed i'"
proof -
  have 1: "idt_set_loop ps k n i = Some i' \<Longrightarrow> interrupts_typed i \<Longrightarrow> interrupts_typed i'" for ps k n i i'
    by (induction ps k n i rule: idt_set_loop.induct) (auto dest: idt_set_typed split: bind_splits)
  have 2: "register_exceptions_loop k n i = Some i' \<Longrightarrow> interrupts_typed i \<Longrightarrow> interrupts_typed i'" for k n i i'
    by (induction k n i rule: register_exceptions_loop.induct) (auto dest: register_callback_typed split: bind_splits)
  have 3: "interrupts_typed i \<Longrightarrow> interrupts_typed (i\<lparr>idt_descriptors := replicate HARDIKHYPERIONOS_TOTAL_INTERRUPTS zero_gate\<rparr>)"
    by (simp add: interrupts_typed_def)
  show "idt_init e i = Some i' \<Longrightarrow> interrupts_typed i \<Longrightarrow> interrupts_typed i'"
    unfolding idt_init_def Let_def by (auto dest!: 1 2 register_callback_typed idt_set_typed dest: 3 split: bind_splits)
qed

lemma fs_init_typed: "fs_init f = Some f' \<Longrightarrow> files_typed f'"
  by (auto simp: fs_init_def fs_load_def fs_static_load_def fs_insert_filesystem_def files_typed_def
      HARDIKHYPERIONOS_MAX_FILE_DESCRIPTORS_def split: bind_splits)

lemma disk_search_typed: "disk_search_and_init ops f = Some f' \<Longrightarrow> files_typed f \<Longrightarrow> files_typed f'"
  by (auto simp: disk_search_and_init_def fs_resolve_def Let_def split: bind_splits)

lemma print_text_fields: "print_text str s = Some s' \<Longrightarrow> \<exists>t. s' = s\<lparr>screen := t\<rparr>"
  by (auto simp: print_text_def print_screen_def split: bind_splits)

lemma start_banner_fields: "start_banner s = Some s' \<Longrightarrow> \<exists>t. s' = s\<lparr>screen := t\<rparr>"
  by (auto simp: start_banner_def dest!: print_text_fields split: bind_splits)

lemma kernel_start_typed:
  assumes "kernel_start ops b s = Some m" "powered_on s"
  shows "well_typed (kern m)"
proof -
  from assms(1) obtain s1 g s3 s4 s5 s7 s8 where 1: "start_banner s = Some s1"
    "on_file_layer fs_init (start_heap (table_memory b) s1) = Some s3" "on_file_layer (disk_search_and_init ops) s3 = Some s4"
    "on_interrupts (idt_init (entries_of b)) s4 = Some s5" "on_interrupts isr80h_register_commands (start_paging s5) = Some s7"
    "keyboard_interrupt_init s7 = Some s8" "kern m = s8"
    by (auto simp: kernel_start_def Let_def split: bind_split_asm)
  have st: "interrupts_typed interrupt_statics" by (simp add: interrupts_typed_def interrupt_statics_def)
  have t: "tables_typed (procs s1) (processes s1) (current_process s1) (tasks s1)" "interrupts s1 = interrupt_statics" "keyboards s1 = []"
    using start_banner_fields [OF 1(1)] assms(2) by (auto simp: powered_on_def tables_typed_def)
  let ?core = "\<lambda>k. (procs k, processes k, current_process k, tasks k)"
  have s3: "files_typed (file_layer s3)" "?core s3 = ?core s1" "interrupts s3 = interrupt_statics" "keyboards s3 = []"
    using 1(2) t fs_init_typed by (auto simp: on_file_layer_def start_heap_def on_mem_def split: bind_splits)
  have s4: "files_typed (file_layer s4)" "?core s4 = ?core s1" "interrupts s4 = interrupt_statics" "keyboards s4 = []"
    using 1(3) s3 disk_search_typed by (auto simp: on_file_layer_def split: bind_splits)
  have s5: "files_typed (file_layer s5)" "?core s5 = ?core s1" "interrupts_typed (interrupts s5)" "keyboards s5 = []"
    using 1(4) s4 idt_init_typed [OF _ st] by (auto simp: on_interrupts_def split: bind_splits)
  let ?s6 = "start_paging s5"
  have s6: "files_typed (file_layer ?s6)" "?core ?s6 = ?core s1" "interrupts_typed (interrupts ?s6)" "keyboards ?s6 = []"
    using s5 by (simp_all add: start_paging_def switch_page_def split_beta) (simp add: set_mem_def)
  have s7: "files_typed (file_layer s7)" "?core s7 = ?core s1" "interrupts_typed (interrupts s7)" "keyboards s7 = []"
    using 1(5) s6 register_commands_typed by (auto simp: on_interrupts_def split: bind_splits)
  have "files_typed (file_layer s8)" "?core s8 = ?core s1" "interrupts_typed (interrupts s8)" "keyboards s8 \<noteq> []"
    using 1(6) s7 register_callback_typed
    by (auto simp: keyboard_interrupt_init_def keyboard_init_def keyboard_insert_def classic_keyboard_def split: bind_splits)
  with t(1) 1(7) show ?thesis by (simp add: well_typed_def)
qed

section \<open>After the start\<close>


text \<open>A kernel with a process and a task; the task asks for a key.\<close>

definition typed_kernel :: kernel where
  "typed_kernel = ones_kernel\<lparr>file_layer := (file_layer ones_kernel)\<lparr>
     filesystems := replicate HARDIKHYPERIONOS_MAX_FILESYSTEMS None,
     file_descriptors := replicate HARDIKHYPERIONOS_MAX_FILE_DESCRIPTORS None\<rparr>\<rparr>"

lemma typed_kernel_typed: "well_typed typed_kernel"
  by (simp add: typed_kernel_def ones_kernel_def well_typed_def files_typed_def set_ram_def)
    (simp add: set_mem_def sample_kernel_def interrupts_typed_def interrupt_statics_def the_commands_def tables_typed_def
      zero_process_typed sample_process_def process_typed_def zero_process_def empty_buffer_def
      HARDIKHYPERIONOS_TOTAL_INTERRUPTS_def HARDIKHYPERIONOS_MAX_ISR80H_COMMANDS_def HARDIKHYPERIONOS_MAX_PROCESSES_def)

lemma typed_kernel_fields:
  "tasks typed_kernel (current_task typed_kernel) = Some (zero_task\<lparr>process_of := 0x3000\<rparr>)" "current_task typed_kernel \<noteq> 0"
  "isr80h_commands (interrupts typed_kernel) ! 2 = Some Command2_getkey" "length (isr80h_commands (interrupts typed_kernel)) = 1024"
  "procs typed_kernel 0x3000 = Some sample_process"
  using ones_fields ones_fields(7) [of 2] by (simp_all add: typed_kernel_def the_commands_def)

lemma getkey_run:
  assumes "tasks s (current_task s) = Some t" "current_task s \<noteq> 0" "frame_eax f = 2" "procs s (process_of t) = Some p"
    and "isr80h_commands (interrupts s) ! 2 = Some Command2_getkey" "length (isr80h_commands (interrupts s)) = 1024"
  obtains r s' where "isr80h_wrapper a b ops uninit f s = Some (r, s')"
proof -
  let ?s = "saved f t s"
  obtain c q where k: "keyboard_pop (keys p) = (c, q)" by fastforce
  obtain s2 where "run_isr80h_command Command2_getkey ops uninit ?s = Some (Returned (scast c) s2)"
    "tasks s2 = tasks ?s" "current_task s2 = current_task s"
    using assms k by (auto simp: isr80h_command2_getkey_def task_keyboard_pop_def calling_process_def put_process_def returned_def)
  with isr80h_wrapper_command [OF assms(1,2) _ _ assms(6), of f Command2_getkey ops uninit _ s2 _ a b] assms(3,5)
  show thesis by (auto intro: that)
qed


end
