(* ===== verification/Spec2Isabelle.thy ===== *)
theory Spec2Isabelle
  imports UserProps UserStart DiskLife TypeProps KernelProps ElfProps TaskProps PathProps Terminal CString HeapProps PagingProps
begin

text \<open>
  HardikHyperionOS is a 32-bit x86 kernel in C with a little assembly, and a small library for its user
  programs. This development models its C code function by function, on machine words of the width the
  code uses, from the allocator up to \<open>kernel_main\<close> and the shell.

  \<^bold>\<open>The program.\<close> At the bottom is a heap of 4096-byte blocks. Paging, path
  parser, disk streams, file system, file layer, loader, tasks and processes allocate from it. The file layer
  opens \<open>0:/name\<close> through the path parser and the FAT16 driver, which reads the ATA disk through
  byte streams. A process is a program loaded from a file (ELF or plain binary), a task with its own page
  directory, a stack, a table of allocations and a keyboard buffer. Interrupts enter the kernel through
  \<open>idt.asm\<close>: the clock runs the next task, the keyboard puts a character into the buffer of the current
  process, interrupt 0x80 runs one of ten commands for the current task. \<open>kernel_main\<close> initialises all of this, shows a
  test file and starts two programs. The user library builds tokens, numbers, lines and command lists on the
  ten commands; the shell is a loop over it.

  \<^bold>\<open>Conventions.\<close> \<open>Prelude\<close> has the machine types (\<open>u8\<close>, \<open>u16\<close>, \<open>u32\<close>; a C \<open>int\<close> is
  an integer, with the wrap-around written out where it can happen), the status codes, arrays with a bounds
  check and little-endian access to physical memory, a map from addresses to bytes. A function that may
  leave an object, follow a bad pointer, \<open>panic\<close> or wait for ever has an \<open>option\<close> result, and \<open>None\<close> means
  that the C function does not return normally. A negative status is a value. Loops that may not
  end are \<open>partial_function (option)\<close> (polling the disk, counting directory entries, following user lists);
  the theorems about them state the result \<open>Some\<close>, so they include termination. Loops with a
  bound run on the bound the C code has, as a number: there is no fuel. Global variables are fields of
  explicit state records; objects reached by pointers are maps from addresses to records, so that a stale
  pointer is visible as an address without an object.

  \<^bold>\<open>Memory.\<close>
  \<^item> \<open>CString\<close>: \<open>string/string.c\<close>, \<open>memory/memory.c\<close>, on byte lists.
  \<^item> \<open>KHeap\<close>: \<open>memory/heap/heap.c\<close>, the table of blocks as a function from indices to bytes, so that the
    code's accesses outside of it are visible. \<open>HeapTable\<close> and \<open>HeapAlloc\<close> relate the table to the list of
    its allocations. \<open>Allocator\<close> is the abstract specification: the heap is a finite map from addresses to
    block counts, \<open>heap_malloc\<close> adds a binding, \<open>heap_free\<close> removes it.
  \<^item> \<open>KMem\<close>: \<open>kheap.c\<close> on physical memory, and the locale \<open>page_allocator\<close>, the interface every client of
    the heap relies on. \<open>KRuns\<close>: allocations are disjoint runs of bytes, growing the heap changes no byte of an older one
    (\<open>kgrew\<close>, \<open>heap_after\<close>), and a long free run leaves a shorter one. \<open>HeapProps\<close> holds the properties: first fit, refinement, round trips in any order
    of frees, and what goes wrong (no run, wrap-around of the size, \<open>kfree\<close> of NULL).
  \<^item> \<open>Paging\<close>: \<open>memory/paging/paging.c\<close>. \<open>PagingMap\<close> turns a directory into a map from pages to entries,
    \<open>PagingNew\<close> shows what \<open>paging_new_4gb\<close> builds, \<open>PagingFrame\<close> what it leaves alone; \<open>PagingProps\<close> has
    the properties.

  \<^bold>\<open>Files.\<close>
  \<^item> \<open>PathParser\<close>, \<open>PathProps\<close>: \<open>fs/pparser.c\<close>; which strings are paths, their parts, no memory lost.
  \<^item> \<open>DiskStream\<close>: \<open>disk/disk.c\<close> and \<open>disk/streamer.c\<close>. The drive is a parameter, the record \<open>ata\<close>: for the
    contents of its registers it gives the status bytes and the data. That a drive holds an image
    (\<open>ata_serves\<close>) is the hypothesis of the properties; \<open>sample_ata\<close> satisfies it.
  \<^item> \<open>Fat16\<close> (types, start of the file system), \<open>FatFiles\<close> (the other functions of \<open>fs/fat/fat16.c\<close>), \<open>FatRead\<close>,
    \<open>FatMount\<close>, \<open>FatOpen\<close> (lemmas), \<open>FatProps\<close>: reading, seeking, mounting, opening. The lookup of the
    allocation table is modelled as it is written, which multiplies where it should add; the properties
    state what is read nevertheless, the bytes of the first cluster.
  \<^item> \<open>FileLayer\<close>: \<open>fs/file.c\<close> over a table of operations, the locale \<open>filesystem\<close> for what it expects of a
    driver, interpreted on the operations of FAT16. \<open>FileProps\<close>: opening and closing files.

  \<^bold>\<open>Devices.\<close> \<open>Terminal\<close> (the terminal functions of \<open>kernel.c\<close>), \<open>Gdt\<close> (\<open>gdt/gdt.c\<close>), \<open>Keyboard\<close> and \<open>KeyboardProps\<close>
  (\<open>keyboard/keyboard.c\<close>, \<open>classic.c\<close>; the locale \<open>bounded_queue\<close>, interpreted on the ring buffer).

  \<^bold>\<open>Programs.\<close>
  \<^item> \<open>ElfFormat\<close>, \<open>ElfProps\<close>: \<open>loader/formats/elf.h\<close>, \<open>elf.c\<close>, \<open>elfloader.c\<close> on the bytes in memory; \<open>ElfLoad\<close>: reading the
    file.
  \<^item> \<open>KernelState\<close>: the record \<open>kernel\<close> of all objects and global variables, and access through an
    address space. \<open>TaskSched\<close>: \<open>task/task.c\<close> and \<open>task_return\<close> of \<open>task.asm\<close>. \<open>TaskLinks\<close> has the invariant
    \<open>sched_ok\<close> (the links of the list are those of a list of distinct tasks, each with its own well-formed
    address space, and the heap has grown by exactly their blocks); \<open>TaskProps\<close> shows that every run of the step relation \<open>sched_step\<close>
    (creation, tick, saved state, release of a task, with no condition of its own) keeps it, as long as the run is \<open>sched_safe\<close>: no task
    is created with 1 to 1026 free blocks, none is released whose stale \<open>prev\<close> is another task. It also has the fairness of scheduling
    and the dangling link that \<open>task_list_remove\<close> leaves, which is why \<open>sched_safe\<close> is needed.
  \<^item> \<open>ProcessMgr\<close>, \<open>ProcessLoad\<close>: \<open>task/process.c\<close>. \<open>ProcessMem\<close> has the invariant of a process with its
    allocations, \<open>ProcessProps\<close> allocation and release, and the end of a process.
  \<^item> \<open>ProcessView\<close>, \<open>UserMode\<close>: a program in user mode. \<open>user_view\<close> is the translation of the processor with the protection
    bits of both entries; it is given for every address of a loaded binary. \<open>user_run\<close> is any sequence of stores,
    allocations of any size and frees of any pointer by the program; the invariant \<open>confined\<close> shows that it changes no older block of anybody else, as long as
    each allocation is \<open>served\<close> (it has a free run, or the last block of the heap is taken) and a free of NULL stops at once (\<open>null_free_safe\<close>).
    \<open>malloc_last_page_clears_memory\<close> shows what an allocation that is not served can do. \<open>Arguments\<close>:
    a list of words in memory becomes \<open>argc\<close> and \<open>argv\<close>, which the program can read at its own addresses. \<open>ProcessEnd\<close>:
    \<open>process_terminate\<close> after any such run gives back what the program has taken (\<open>accounted\<close>: it is in its table).
  \<^item> \<open>DiskLoad\<close>: \<open>process_load_for_slot\<close> as a whole, from the bytes on the disk through path parser, FAT16, file layer and the loader of
    executables, which rejects a plain binary, to the bytes the user reads at \<open>0x400000\<close>. \<open>disk_file\<close> says where the file is on the
    image; a free run of \<open>(n + 8)\<^sup>2\<close> blocks is enough for a program of \<open>n\<close>, since fewer blocks are taken before the last run is asked for than
    would be needed to touch every part of it. \<open>DiskLife\<close> puts the two together: loading from the disk, a run, and the end; \<open>n + 10\<close> blocks are lost.

  \<^bold>\<open>Interrupts and start.\<close>
  \<^item> \<open>Isr80h\<close>: the ten commands. A command returns a value, or enters a task and does not return
    (\<open>outcome\<close>). \<open>Idt\<close>: \<open>idt/idt.c\<close>, \<open>isr80h/isr80h.c\<close>, the entry code of \<open>idt.asm\<close>.
    \<open>IdtProps\<close>: the table \<open>idt_init\<close> builds, the registered commands. \<open>ContextSwitch\<close>: after a round of
    clock interrupts a task goes on with its registers. \<open>SyscallProps\<close>: commands as the user sees
    them, and the path of a key from the interrupt to the program.
  \<^item> \<open>KernelMain\<close>, \<open>KernelProps\<close>: \<open>kernel_main\<close>, and the state in which everything is ready, after \<open>keyboard_init\<close> (\<open>kernel_start\<close>). A disk
    with the FAT16 signature has to be \<open>root_readable\<close>: the loop that counts the entries of the root directory ends at a zero byte only.
  \<^item> \<open>KernelTypes\<close>, \<open>TypeProps\<close>: the type invariant. \<open>kernel_step\<close> is anything that can happen after the start: an
    interrupt, a command, the load of a program. Each operation of the kernel keeps \<open>well_typed\<close> and loses no process object
    (\<open>kept\<close>), so every run does (\<open>kernel_run\<close>).

  \<^bold>\<open>User programs.\<close> \<open>UserLib\<close>, \<open>UserProps\<close>: \<open>programs/stdlib/src\<close> and a turn of the loop of
  \<open>programs/shell/src/shell.c\<close>, on the answers the kernel's commands give: numbers, words of a command, lines.
  \<open>UserStart\<close>: the stubs of \<open>hardikhyperionos.asm\<close>, \<open>start.c\<close> and \<open>blank.c\<close>, on the registers and the mapped stack of a
  program; the trap is a parameter, and in the property it is the kernel's entry for interrupt 0x80 (\<open>isr80h_trap\<close>). A trap
  that enters another task ends the run of the stub (\<open>Away\<close>); what the program does when it is run again is not followed.

  \<^bold>\<open>Not modelled.\<close> The boot sector, \<open>kernel.asm\<close>, \<open>io.asm\<close> and the instructions that load the descriptor tables
  (their arguments are modelled); outputs to the interrupt controller and the second read of the keyboard
  port, which have no effect on the state of the kernel; the error code that the processor pushes for some exceptions.
  In \<open>UserStart\<close> the instruction pointer is followed at calls and returns only, and \<open>eax\<close> is set right before the trap. Contents of uninitialised local
  arrays are a parameter (\<open>uninit\<close>). Nothing is concurrent: the kernel runs with interrupts disabled, and an
  interrupt is a step of its own.
\<close>

end
